(* ===== verification/Prelude.thy ===== *)
theory Prelude
  imports Main "HOL-Library.Word" "HOL-Library.Monad_Syntax"
begin

text \<open>
  Shared vocabulary of the development: machine integers as words, byte strings, big-endian
  16-bit fields, IPv4 addresses, checked indexing (a Rust slice index panics out of range),
  the in-place copies the encoders use, and the interface of a fixed-width wire codec.
\<close>

unbundle bit_operations_syntax

named_theorems wire_simps \<open>offsets and lengths of wire formats\<close>
named_theorems panic_free \<open>checked executions that return\<close>
named_theorems invar_intros \<open>operations keep their component's invariant\<close>

type_synonym u8 = "8 word"
type_synonym u16 = "16 word"
type_synonym u32 = "32 word"
type_synonym u64 = "64 word"
type_synonym bytes = "u8 list"

text \<open>A Rust computation that may panic: \<^const>\<open>None\<close> is the panic.\<close>

type_synonym 'a rust = "'a option"

text \<open>
  Errors are values: \<open>anyhow::Error\<close> as its message and the wrapped library errors the source converts
  with \<open>?\<close>; interpolated values of a message are left out.
\<close>

datatype anyhow = Bail string | IoError string | Utf8Error | ParseIntError | ParseError string

type_synonym 'a result = "anyhow + 'a"

abbreviation Err :: "anyhow \<Rightarrow> 'a result" where "Err \<equiv> Inl"
abbreviation Ok :: "'a \<Rightarrow> 'a result" where "Ok \<equiv> Inr"

text \<open>The \<open>?\<close> operator.\<close>

definition and_then :: "'a result \<Rightarrow> ('a \<Rightarrow> 'b result) \<Rightarrow> 'b result" where
  "and_then r f = (case r of Inl e \<Rightarrow> Inl e | Inr x \<Rightarrow> f x)"

text \<open>Rust's \<open>slice[i]\<close> and \<open>&slice[a..b]\<close>, which panic out of range.\<close>

definition idx :: "'a list \<Rightarrow> nat \<Rightarrow> 'a rust" where
  "idx xs i = (if i < length xs then Some (xs ! i) else None)"

definition slice :: "'a list \<Rightarrow> nat \<Rightarrow> nat \<Rightarrow> 'a list" where
  "slice xs a b = take (b - a) (drop a xs)"

definition slice_chk :: "'a list \<Rightarrow> nat \<Rightarrow> nat \<Rightarrow> 'a list rust" where
  "slice_chk xs a b = (if a \<le> b \<and> b \<le> length xs then Some (slice xs a b) else None)"

text \<open>\<open>buf[off..off + src.len()].copy_from_slice(src)\<close> and \<open>buf[i] = v\<close>.\<close>

definition copy_at :: "'a list \<Rightarrow> nat \<Rightarrow> 'a list \<Rightarrow> 'a list" where
  "copy_at buf off src = take off buf @ src @ drop (off + length src) buf"

text \<open>\<open>u16::to_be_bytes\<close> and \<open>u16::from_be_bytes\<close>.\<close>

definition u16_to_be :: "u16 \<Rightarrow> bytes" where
  "u16_to_be w = [ucast (drop_bit 8 w), ucast w]"

definition u16_from_be :: "u8 \<Rightarrow> u8 \<Rightarrow> u16" where
  "u16_from_be a b = push_bit 8 (ucast a) OR ucast b"

text \<open>A length as \<open>usize\<close> cast with \<open>as u16\<close>: reduced modulo \<open>2 ^ 16\<close>.\<close>

definition len_u16 :: "'a list \<Rightarrow> u16" where
  "len_u16 xs = of_nat (length xs)"

text \<open>\<open>std::net::Ipv4Addr\<close>.\<close>

datatype ipv4 = Ipv4Addr u8 u8 u8 u8

primrec octets :: "ipv4 \<Rightarrow> bytes" where
  "octets (Ipv4Addr a b c d) = [a, b, c, d]"

text \<open>A stream read as consecutive \<open>read_exact\<close> calls of \<open>n\<close> bytes; a short rest ends it.\<close>

function chunks_exact :: "nat \<Rightarrow> 'a list \<Rightarrow> 'a list list" where
  "chunks_exact n xs =
     (if n = 0 \<or> length xs < n then [] else take n xs # chunks_exact n (drop n xs))"
  by pat_completeness auto
termination
  by (relation "measure (\<lambda>(n, xs). length xs)") auto

declare chunks_exact.simps [simp del]

section \<open>Lemmas\<close>

lemma and_then_simps [simp]: "and_then (Inl e) f = Inl e" "and_then (Inr x) f = f x"
  by (simp_all add: and_then_def)

lemma and_then_eq_Inr: "and_then r f = Inr y \<longleftrightarrow> (\<exists>x. r = Inr x \<and> f x = Inr y)"
  by (cases r) auto

lemma idx_eq [simp]: "i < length xs \<Longrightarrow> idx xs i = Some (xs ! i)"
  by (simp add: idx_def)

lemma idx_0 [simp]: "xs \<noteq> [] \<Longrightarrow> idx xs 0 = Some (xs ! 0)"
  by (simp add: idx_def)

lemma idx_out [simp]: "length xs \<le> i \<Longrightarrow> idx xs i = None"
  by (simp add: idx_def)

lemma slice_chk_eq [simp]: "a \<le> b \<Longrightarrow> b \<le> length xs \<Longrightarrow> slice_chk xs a b = Some (slice xs a b)"
  by (simp add: slice_chk_def)

lemma length_slice [simp, wire_simps]: "b \<le> length xs \<Longrightarrow> length (slice xs a b) = b - a"
  by (simp add: slice_def)

lemma slice_append_left: "b \<le> length xs \<Longrightarrow> slice (xs @ ys) a b = slice xs a b"
  by (simp add: slice_def)

lemma slice_full [simp]: "slice xs 0 (length xs) = xs"
  by (simp add: slice_def)

lemma length_copy_at [simp, wire_simps]:
  "off + length src \<le> length buf \<Longrightarrow> length (copy_at buf off src) = length buf"
  by (simp add: copy_at_def)

lemma length_u16_to_be [simp, wire_simps]: "length (u16_to_be w) = 2"
  by (simp add: u16_to_be_def)

lemma length_octets [simp, wire_simps]: "length (octets ip) = 4"
  by (cases ip) simp

lemma octets_inj [simp]: "octets a = octets b \<longleftrightarrow> a = b"
  by (cases a; cases b) auto

lemma u16_from_be_to_be [simp]:
  "u16_from_be (ucast (drop_bit 8 w)) (ucast w) = w"
  unfolding u16_from_be_def
  by (rule bit_word_eqI) (auto simp: bit_simps)

lemma u16_from_be_split [simp]:
  "ucast (drop_bit 8 (u16_from_be a b)) = a" "ucast (u16_from_be a b) = b"
  unfolding u16_from_be_def
  by (rule bit_word_eqI, auto simp: bit_simps dest: bit_imp_le_length)+

lemma unat_u8_less: "unat (a :: u8) < 256"
  using unsigned_less [of a] by simp

lemma unat_u16_less: "unat (a :: u16) < 65536"
  using unsigned_less [of a] by simp

lemma unat_ucast_u8_u16 [simp]: "unat (ucast (a :: u8) :: u16) = unat a"
  using unat_u8_less [of a] by (simp add: unsigned_ucast_eq take_bit_eq_mod)

lemma unat_u16_from_be: "unat (u16_from_be a b) = 256 * unat a + unat b"
proof -
  have disj: "push_bit 8 (ucast a :: u16) AND ucast b = 0"
    by (rule bit_word_eqI) (auto simp: bit_simps dest: bit_imp_le_length)
  then have "u16_from_be a b = push_bit 8 (ucast a) + ucast b"
    by (simp add: u16_from_be_def disjunctive_add_eq_or)
  then have "u16_from_be a b = ucast a * 256 + ucast b"
    by (simp add: push_bit_eq_mult)
  moreover have "unat (ucast a * 256 + ucast b :: u16) = 256 * unat a + unat b"
    using unat_u8_less [of a] unat_u8_less [of b] by (simp add: unat_word_ariths)
  ultimately show ?thesis by simp
qed

lemma unat_len_u16: "length xs < 65536 \<Longrightarrow> unat (len_u16 xs) = length xs"
  by (simp add: len_u16_def unat_of_nat take_bit_eq_mod)

text \<open>The first byte of a big-endian 16-bit length is its quotient by 256.\<close>

lemma unat_high_byte: "unat (ucast (drop_bit 8 (w :: u16)) :: u8) = unat w div 256"
proof -
  have "unat w div 256 < 256" using unat_u16_less [of w] by auto
  moreover have "unat (drop_bit 8 w) = unat w div 256"
    by (simp only: unat_drop_bit_eq) (simp add: drop_bit_eq_div)
  ultimately show ?thesis
    by (simp add: unsigned_ucast_eq take_bit_eq_mod)
qed

lemma nth_in_range: "n < length xs \<Longrightarrow> (xs @ ys) ! n = xs ! n"
  by (simp add: nth_append)

section \<open>The interface of a fixed-width message codec\<close>

text \<open>
  The control messages share one contract: a well-formed message is written in exactly \<open>width\<close>
  bytes, and reading those bytes back (whatever follows them) gives the message. The lemmas that
  only need this contract are proved once here.
\<close>

locale wire_codec =
  fixes encode :: "'m \<Rightarrow> bytes"
    and decode :: "bytes \<Rightarrow> 'm option"
    and wf :: "'m \<Rightarrow> bool"
    and width :: nat
  assumes width_pos: "0 < width"
    and length_encode: "wf m \<Longrightarrow> length (encode m) = width"
    and decode_encode: "wf m \<Longrightarrow> decode (encode m @ rest) = Some m"
begin

lemma decode_exact: "wf m \<Longrightarrow> decode (encode m) = Some m"
  using decode_encode [of m "[]"] by simp

lemma encode_inj: "wf m \<Longrightarrow> wf m' \<Longrightarrow> encode m = encode m' \<Longrightarrow> m = m'"
  by (metis decode_exact option.inject)

text \<open>No message is a prefix of another, so a stream of messages has one reading.\<close>

lemma encode_prefix_free:
  "wf m \<Longrightarrow> wf m' \<Longrightarrow> encode m @ xs = encode m' @ ys \<Longrightarrow> m = m' \<and> xs = ys"
  by (metis append_eq_append_conv decode_encode length_encode option.inject)

lemma stream_roundtrip:
  "list_all wf ms \<Longrightarrow> map decode (chunks_exact width (concat (map encode ms))) = map Some ms"
proof (induction ms)
  case Nil
  then show ?case using width_pos by (simp add: chunks_exact.simps)
next
  case (Cons m ms)
  then have m: "wf m" and ms: "list_all wf ms" by simp_all
  from m have len: "length (encode m) = width" by (rule length_encode)
  have "chunks_exact width (encode m @ concat (map encode ms))
      = encode m # chunks_exact width (concat (map encode ms))"
    using len width_pos by (subst chunks_exact.simps) simp
  with Cons.IH [OF ms] decode_exact [OF m] show ?case by simp
qed

end

section \<open>Loops over events\<close>

text \<open>A loop that handles events until one of them ends it.\<close>

fun task_loop :: "('e \<Rightarrow> 's \<Rightarrow> 'r option) \<Rightarrow> ('e \<Rightarrow> 's \<Rightarrow> 's) \<Rightarrow> 'e list \<Rightarrow> 's \<Rightarrow> 's \<times> 'r option" where
  "task_loop ends step [] s = (s, None)"
| "task_loop ends step (e # es) s =
     (case ends e s of Some r \<Rightarrow> (s, Some r) | None \<Rightarrow> task_loop ends step es (step e s))"

locale task_invariant =
  fixes ends :: "'e \<Rightarrow> 's \<Rightarrow> 'r option" and step :: "'e \<Rightarrow> 's \<Rightarrow> 's"
    and ok :: "'e \<Rightarrow> bool" and inv :: "'s \<Rightarrow> bool"
  assumes step_keeps: "ok e \<Longrightarrow> inv s \<Longrightarrow> ends e s = None \<Longrightarrow> inv (step e s)"
begin

lemma loop_keeps: "list_all ok es \<Longrightarrow> inv s \<Longrightarrow> inv (fst (task_loop ends step es s))"
  by (induction es arbitrary: s) (auto simp: step_keeps split: option.split)

end

end
