(* ===== verification/Control.thy ===== *)
theory Control
  imports Prelude
begin

text \<open>
  The control-stream protocol of \<^verbatim>\<open>src/crates/redpill-quic/src/control.rs\<close>: the three messages
  ClientAuth, SessionConfig and SessionUpdate, their encoders (which fill a zeroed buffer at fixed
  offsets) and their decoders (which check the length and the tag, then read at fixed offsets).
  Each decoder is given twice: as a plain function, and as a checked one in which every slice index
  can panic; that the two agree is the proof that no input makes a decoder panic.
\<close>

section \<open>Constants and messages\<close>

text \<open>Constants of the crate, \<^verbatim>\<open>src/crates/redpill-quic/src/lib.rs\<close>.\<close>

definition ERR_AUTH_FAILED :: nat where "ERR_AUTH_FAILED = 1"
definition PROTOCOL_VERSION :: u8 where "PROTOCOL_VERSION = 1"
definition TUN_MTU :: nat where "TUN_MTU = 1200"
definition MAX_TUN_BATCH :: nat where "MAX_TUN_BATCH = 64"
definition QUIC_PORT :: nat where "QUIC_PORT = 443"
definition ALPN_VPN :: string where "ALPN_VPN = ''redpill-vpn-1''"
definition ALPN_H3 :: string where "ALPN_H3 = ''h3''"

text \<open>Message tags and lengths.\<close>

definition MSG_CLIENT_AUTH :: u8 where "MSG_CLIENT_AUTH = 0x01"
definition MSG_SESSION_CONFIG :: u8 where "MSG_SESSION_CONFIG = 0x02"
definition MSG_SESSION_UPDATE :: u8 where "MSG_SESSION_UPDATE = 0x03"

definition CLIENT_AUTH_LEN :: nat where "CLIENT_AUTH_LEN = 66"
definition SESSION_CONFIG_LEN :: nat where "SESSION_CONFIG_LEN = 17"
definition SESSION_CONFIG_LEN_V1 :: nat where "SESSION_CONFIG_LEN_V1 = 16"
definition SESSION_UPDATE_LEN :: nat where "SESSION_UPDATE_LEN = 3"

lemmas control_consts [wire_simps] =
  MSG_CLIENT_AUTH_def MSG_SESSION_CONFIG_def MSG_SESSION_UPDATE_def
  CLIENT_AUTH_LEN_def SESSION_CONFIG_LEN_def SESSION_CONFIG_LEN_V1_def SESSION_UPDATE_LEN_def

record client_auth =
  ca_nonce :: bytes
  ca_mac :: bytes
  ca_version :: u8

record session_config =
  sc_client_ip :: ipv4
  sc_server_ip :: ipv4
  sc_dns_ip :: ipv4
  sc_mtu :: u16
  sc_keepalive_secs :: u8
  sc_flags :: u8

record session_update =
  su_mtu :: u16

text \<open>The Rust fields \<open>nonce\<close> and \<open>mac\<close> are arrays \<open>[u8; 32]\<close>.\<close>

definition wf_client_auth :: "client_auth \<Rightarrow> bool" where
  "wf_client_auth a \<longleftrightarrow> length (ca_nonce a) = 32 \<and> length (ca_mac a) = 32"

section \<open>Encoders and decoders\<close>

definition ClientAuth_encode :: "client_auth \<Rightarrow> bytes" where
  "ClientAuth_encode self =
     (let buf = replicate CLIENT_AUTH_LEN 0;
          buf = buf[0 := MSG_CLIENT_AUTH];
          buf = copy_at buf 1 (ca_nonce self);
          buf = copy_at buf 33 (ca_mac self)
      in buf[65 := ca_version self])"

definition ClientAuth_decode :: "bytes \<Rightarrow> client_auth option" where
  "ClientAuth_decode data =
     (if length data < CLIENT_AUTH_LEN then None
      else if data ! 0 \<noteq> MSG_CLIENT_AUTH then None
      else Some \<lparr>ca_nonce = slice data 1 33, ca_mac = slice data 33 65, ca_version = data ! 65\<rparr>)"

definition ClientAuth_decode_chk :: "bytes \<Rightarrow> client_auth option rust" where
  "ClientAuth_decode_chk data =
     (if length data < CLIENT_AUTH_LEN then Some None
      else do {
        tag \<leftarrow> idx data 0;
        if tag \<noteq> MSG_CLIENT_AUTH then Some None
        else do {
          nonce \<leftarrow> slice_chk data 1 33;
          mac \<leftarrow> slice_chk data 33 65;
          version \<leftarrow> idx data 65;
          Some (Some \<lparr>ca_nonce = nonce, ca_mac = mac, ca_version = version\<rparr>)
        }
      })"

definition SessionConfig_encode :: "session_config \<Rightarrow> bytes" where
  "SessionConfig_encode self =
     (let buf = replicate SESSION_CONFIG_LEN 0;
          buf = buf[0 := MSG_SESSION_CONFIG];
          buf = copy_at buf 1 (octets (sc_client_ip self));
          buf = copy_at buf 5 (octets (sc_server_ip self));
          buf = copy_at buf 9 (octets (sc_dns_ip self));
          buf = copy_at buf 13 (u16_to_be (sc_mtu self));
          buf = buf[15 := sc_keepalive_secs self]
      in buf[16 := sc_flags self])"

definition SessionConfig_decode :: "bytes \<Rightarrow> session_config option" where
  "SessionConfig_decode data =
     (if length data < SESSION_CONFIG_LEN_V1 then None
      else if data ! 0 \<noteq> MSG_SESSION_CONFIG then None
      else Some \<lparr>
        sc_client_ip = Ipv4Addr (data ! 1) (data ! 2) (data ! 3) (data ! 4),
        sc_server_ip = Ipv4Addr (data ! 5) (data ! 6) (data ! 7) (data ! 8),
        sc_dns_ip = Ipv4Addr (data ! 9) (data ! 10) (data ! 11) (data ! 12),
        sc_mtu = u16_from_be (data ! 13) (data ! 14),
        sc_keepalive_secs = data ! 15,
        sc_flags = (if length data \<ge> SESSION_CONFIG_LEN then data ! 16 else 0)\<rparr>)"

definition SessionConfig_decode_chk :: "bytes \<Rightarrow> session_config option rust" where
  "SessionConfig_decode_chk data =
     (if length data < SESSION_CONFIG_LEN_V1 then Some None
      else do {
        tag \<leftarrow> idx data 0;
        if tag \<noteq> MSG_SESSION_CONFIG then Some None
        else do {
          c0 \<leftarrow> idx data 1; c1 \<leftarrow> idx data 2; c2 \<leftarrow> idx data 3; c3 \<leftarrow> idx data 4;
          s0 \<leftarrow> idx data 5; s1 \<leftarrow> idx data 6; s2 \<leftarrow> idx data 7; s3 \<leftarrow> idx data 8;
          d0 \<leftarrow> idx data 9; d1 \<leftarrow> idx data 10; d2 \<leftarrow> idx data 11; d3 \<leftarrow> idx data 12;
          m0 \<leftarrow> idx data 13; m1 \<leftarrow> idx data 14;
          keepalive \<leftarrow> idx data 15;
          fl \<leftarrow> (if length data \<ge> SESSION_CONFIG_LEN then idx data 16 else Some 0);
          Some (Some \<lparr>
            sc_client_ip = Ipv4Addr c0 c1 c2 c3,
            sc_server_ip = Ipv4Addr s0 s1 s2 s3,
            sc_dns_ip = Ipv4Addr d0 d1 d2 d3,
            sc_mtu = u16_from_be m0 m1,
            sc_keepalive_secs = keepalive,
            sc_flags = fl\<rparr>)
        }
      })"

definition SessionUpdate_encode :: "session_update \<Rightarrow> bytes" where
  "SessionUpdate_encode self =
     (let buf = replicate SESSION_UPDATE_LEN 0;
          buf = buf[0 := MSG_SESSION_UPDATE]
      in copy_at buf 1 (u16_to_be (su_mtu self)))"

definition SessionUpdate_decode :: "bytes \<Rightarrow> session_update option" where
  "SessionUpdate_decode data =
     (if length data < SESSION_UPDATE_LEN then None
      else if data ! 0 \<noteq> MSG_SESSION_UPDATE then None
      else Some \<lparr>su_mtu = u16_from_be (data ! 1) (data ! 2)\<rparr>)"

definition SessionUpdate_decode_chk :: "bytes \<Rightarrow> session_update option rust" where
  "SessionUpdate_decode_chk data =
     (if length data < SESSION_UPDATE_LEN then Some None
      else do {
        tag \<leftarrow> idx data 0;
        if tag \<noteq> MSG_SESSION_UPDATE then Some None
        else do {
          m0 \<leftarrow> idx data 1;
          m1 \<leftarrow> idx data 2;
          Some (Some \<lparr>su_mtu = u16_from_be m0 m1\<rparr>)
        }
      })"

section \<open>The encoders write the documented layout\<close>

lemma replicate_update_0: "0 < n \<Longrightarrow> (replicate n x)[0 := v] = v # replicate (n - 1) x"
  by (cases n) simp_all

lemma copy_at_mid:
  "length pre = off \<Longrightarrow> length mid = length src \<Longrightarrow>
   copy_at (pre @ mid @ post) off src = pre @ src @ post"
  by (simp add: copy_at_def)

lemma ClientAuth_encode_layout:
  assumes "wf_client_auth a"
  shows "ClientAuth_encode a = MSG_CLIENT_AUTH # ca_nonce a @ ca_mac a @ [ca_version a]"
  using assms
  by (simp add: ClientAuth_encode_def wf_client_auth_def CLIENT_AUTH_LEN_def
      replicate_update_0 copy_at_def list_update_append)

lemma SessionConfig_encode_layout:
  "SessionConfig_encode c =
     MSG_SESSION_CONFIG # octets (sc_client_ip c) @ octets (sc_server_ip c) @ octets (sc_dns_ip c)
       @ u16_to_be (sc_mtu c) @ [sc_keepalive_secs c, sc_flags c]"
  by (cases "sc_client_ip c"; cases "sc_server_ip c"; cases "sc_dns_ip c")
    (simp add: SessionConfig_encode_def SESSION_CONFIG_LEN_def replicate_update_0 copy_at_def
      u16_to_be_def)

lemma SessionUpdate_encode_layout:
  "SessionUpdate_encode u = MSG_SESSION_UPDATE # u16_to_be (su_mtu u)"
  by (simp add: SessionUpdate_encode_def SESSION_UPDATE_LEN_def replicate_update_0 copy_at_def
      u16_to_be_def)

lemmas encode_layouts = ClientAuth_encode_layout SessionConfig_encode_layout SessionUpdate_encode_layout

section \<open>The three messages are wire codecs\<close>

interpretation client_auth_codec:
  wire_codec ClientAuth_encode ClientAuth_decode wf_client_auth CLIENT_AUTH_LEN
proof unfold_locales
  show "0 < CLIENT_AUTH_LEN" by (simp add: CLIENT_AUTH_LEN_def)
next
  fix m assume "wf_client_auth m"
  then show "length (ClientAuth_encode m) = CLIENT_AUTH_LEN"
    by (simp add: ClientAuth_encode_layout wf_client_auth_def CLIENT_AUTH_LEN_def)
next
  fix m rest assume wf: "wf_client_auth m"
  then show "ClientAuth_decode (ClientAuth_encode m @ rest) = Some m"
    by (simp add: ClientAuth_encode_layout ClientAuth_decode_def wf_client_auth_def
        CLIENT_AUTH_LEN_def slice_def nth_append)
qed

interpretation session_config_codec:
  wire_codec SessionConfig_encode SessionConfig_decode "\<lambda>_. True" SESSION_CONFIG_LEN
proof unfold_locales
  show "0 < SESSION_CONFIG_LEN" by (simp add: SESSION_CONFIG_LEN_def)
next
  fix m :: session_config
  show "length (SessionConfig_encode m) = SESSION_CONFIG_LEN"
    by (simp add: SessionConfig_encode_layout SESSION_CONFIG_LEN_def)
next
  fix m :: session_config and rest
  show "SessionConfig_decode (SessionConfig_encode m @ rest) = Some m"
    by (cases "sc_client_ip m"; cases "sc_server_ip m"; cases "sc_dns_ip m")
      (simp add: SessionConfig_encode_layout SessionConfig_decode_def u16_to_be_def
        SESSION_CONFIG_LEN_def SESSION_CONFIG_LEN_V1_def)
qed

interpretation session_update_codec:
  wire_codec SessionUpdate_encode SessionUpdate_decode "\<lambda>_. True" SESSION_UPDATE_LEN
  by unfold_locales
    (simp_all add: SessionUpdate_encode_layout SessionUpdate_decode_def SESSION_UPDATE_LEN_def
      u16_to_be_def)

section \<open>Properties\<close>

text \<open>
  Claim C26. Every control message reads back: decoding what an encoder wrote, whatever bytes follow
  it on the stream, gives exactly the message, for all three message types.
\<close>

theorem control_messages_roundtrip:
  "wf_client_auth a \<Longrightarrow>
     ClientAuth_decode (ClientAuth_encode a @ rest) = Some a
   \<and> SessionConfig_decode (SessionConfig_encode c @ rest) = Some c
   \<and> SessionUpdate_decode (SessionUpdate_encode u @ rest) = Some u"
  using client_auth_codec.decode_encode session_config_codec.decode_encode
    session_update_codec.decode_encode by simp

theorem control_messages_roundtrip_witness:
  "ClientAuth_decode (ClientAuth_encode
       \<lparr>ca_nonce = replicate 32 7, ca_mac = replicate 32 9, ca_version = 1\<rparr> @ [0xFF])
     = Some \<lparr>ca_nonce = replicate 32 7, ca_mac = replicate 32 9, ca_version = 1\<rparr>"
  using control_messages_roundtrip
    [of "\<lparr>ca_nonce = replicate 32 7, ca_mac = replicate 32 9, ca_version = 1\<rparr>" "[0xFF]"]
  by (simp add: wf_client_auth_def)

text \<open>
  Backward compatibility: a peer that reads only the 16 bytes of the version-1 format
  gets the same configuration with the capability flags cleared.
\<close>

theorem session_config_v1_compat:
  "SessionConfig_decode (take SESSION_CONFIG_LEN_V1 (SessionConfig_encode c))
     = Some (c\<lparr>sc_flags := 0\<rparr>)"
  by (cases "sc_client_ip c"; cases "sc_server_ip c"; cases "sc_dns_ip c")
    (simp add: SessionConfig_encode_layout SessionConfig_decode_def u16_to_be_def
      SESSION_CONFIG_LEN_def SESSION_CONFIG_LEN_V1_def)

lemma ClientAuth_decode_no_panic [panic_free]:
  "ClientAuth_decode_chk d = Some (ClientAuth_decode d)"
  by (cases "length d < CLIENT_AUTH_LEN")
    (simp_all add: ClientAuth_decode_chk_def ClientAuth_decode_def CLIENT_AUTH_LEN_def not_less
      del: length_greater_0_conv)

lemma SessionConfig_decode_no_panic [panic_free]:
  "SessionConfig_decode_chk d = Some (SessionConfig_decode d)"
  by (cases "length d < SESSION_CONFIG_LEN_V1")
    (simp_all add: SessionConfig_decode_chk_def SessionConfig_decode_def
      SESSION_CONFIG_LEN_def SESSION_CONFIG_LEN_V1_def not_less
      del: length_greater_0_conv)

lemma SessionUpdate_decode_no_panic [panic_free]:
  "SessionUpdate_decode_chk d = Some (SessionUpdate_decode d)"
  by (cases "length d < SESSION_UPDATE_LEN")
    (simp_all add: SessionUpdate_decode_chk_def SessionUpdate_decode_def SESSION_UPDATE_LEN_def
      not_less del: length_greater_0_conv)

text \<open>A message of one type is never taken for another: the tags differ.\<close>

lemma ClientAuth_decode_tag: "ClientAuth_decode d = Some a \<Longrightarrow> d ! 0 = MSG_CLIENT_AUTH"
  by (auto simp: ClientAuth_decode_def split: if_splits)

lemma ClientAuth_decode_wf: "ClientAuth_decode d = Some a \<Longrightarrow> wf_client_auth a"
  by (auto simp: ClientAuth_decode_def wf_client_auth_def CLIENT_AUTH_LEN_def split: if_splits)

lemma SessionConfig_decode_tag: "SessionConfig_decode d = Some c \<Longrightarrow> d ! 0 = MSG_SESSION_CONFIG"
  by (auto simp: SessionConfig_decode_def split: if_splits)

lemma SessionUpdate_decode_tag: "SessionUpdate_decode d = Some u \<Longrightarrow> d ! 0 = MSG_SESSION_UPDATE"
  by (auto simp: SessionUpdate_decode_def split: if_splits)

text \<open>A decoded authentication message is the one whose encoding the input starts with.\<close>

lemma ClientAuth_decode_Some:
  assumes "ClientAuth_decode d = Some a"
  shows "take CLIENT_AUTH_LEN d = ClientAuth_encode a"
proof -
  from assms have wf: "wf_client_auth a" by (rule ClientAuth_decode_wf)
  from assms have len: "66 \<le> length d" and tag: "d ! 0 = MSG_CLIENT_AUTH"
    and a: "ca_nonce a = slice d 1 33" "ca_mac a = slice d 33 65" "ca_version a = d ! 65"
    by (auto simp: ClientAuth_decode_def CLIENT_AUTH_LEN_def split: if_splits)
  have "take 66 d = take 1 d @ take 32 (drop 1 d) @ take 32 (drop 33 d) @ take 1 (drop 65 d)"
    using take_add [of 1 65 d] take_add [of 32 33 "drop 1 d"] take_add [of 32 1 "drop 33 d"]
    by simp
  also have "take 1 d = [d ! 0]" using len by (cases d) simp_all
  also have "take 1 (drop 65 d) = [d ! 65]" using len by (simp add: take_Suc_conv_app_nth)
  finally show ?thesis
    using wf tag a by (simp add: ClientAuth_encode_layout CLIENT_AUTH_LEN_def slice_def)
qed

end
