(* ===== verification/Auth.thy ===== *)
theory Auth
  imports Prelude
begin

text \<open>
  Authentication, \<^verbatim>\<open>src/crates/redpill-quic/src/auth.rs\<close>: the pre-shared-key authenticator, the hex
  parser of key files, and the interface of the \<open>Authenticator\<close> trait. HMAC-SHA256 is library code: it
  is the argument \<open>hmac\<close> (key, then message). A Rust string is the list of its UTF-8 bytes.
\<close>

section \<open>Strings of the standard library\<close>

definition code :: "char \<Rightarrow> nat" where
  "code c = of_char c"

text \<open>The UTF-8 encodings of the characters with the \<open>White_Space\<close> property.\<close>

definition white_space :: "nat list list" where
  "white_space =
     [[9], [10], [11], [12], [13], [32], [0xC2, 0x85], [0xC2, 0xA0], [0xE1, 0x9A, 0x80]]
     @ map (\<lambda>i. [0xE2, 0x80, 0x80 + i]) [0..<11]
     @ [[0xE2, 0x80, 0xA8], [0xE2, 0x80, 0xA9], [0xE2, 0x80, 0xAF], [0xE2, 0x81, 0x9F], [0xE3, 0x80, 0x80]]"

text \<open>Strip encodings of \<open>ws\<close> from the front as long as one is there.\<close>

function strip_front :: "nat list list \<Rightarrow> string \<Rightarrow> string" where
  "strip_front ws s =
     (case find (\<lambda>w. w \<noteq> [] \<and> map code (take (length w) s) = w) ws of
        None \<Rightarrow> s
      | Some w \<Rightarrow> strip_front ws (drop (length w) s))"
  by pat_completeness auto
termination
  by (relation "measure (\<lambda>(ws, s). length s)") (auto simp: find_Some_iff, metis diff_less length_0_conv length_greater_0_conv list.map(1) take_Nil)

declare strip_front.simps [simp del]

text \<open>\<open>str::trim_start\<close>, \<open>str::trim_end\<close> and \<open>str::trim\<close>.\<close>

definition trim_start :: "string \<Rightarrow> string" where
  "trim_start s = strip_front white_space s"

definition trim_end :: "string \<Rightarrow> string" where
  "trim_end s = rev (strip_front (map rev white_space) (rev s))"

definition trim :: "string \<Rightarrow> string" where
  "trim s = trim_end (trim_start s)"

text \<open>One well-formed UTF-8 sequence off the front, as \<open>std::str::from_utf8\<close> accepts it.\<close>

definition cont :: "nat \<Rightarrow> bool" where
  "cont b \<longleftrightarrow> 0x80 \<le> b \<and> b \<le> 0xBF"

fun utf8_width :: "nat list \<Rightarrow> nat option" where
  "utf8_width [] = None"
| "utf8_width (a # s) =
     (if a < 0x80 then Some 1
      else if 0xC2 \<le> a \<and> a \<le> 0xDF then
        (case s of b # _ \<Rightarrow> if cont b then Some 2 else None | _ \<Rightarrow> None)
      else if 0xE0 \<le> a \<and> a \<le> 0xEF then
        (case s of b # c # _ \<Rightarrow>
           if cont b \<and> cont c \<and> (a = 0xE0 \<longrightarrow> 0xA0 \<le> b) \<and> (a = 0xED \<longrightarrow> b \<le> 0x9F) then Some 3 else None
         | _ \<Rightarrow> None)
      else if 0xF0 \<le> a \<and> a \<le> 0xF4 then
        (case s of b # c # d # _ \<Rightarrow>
           if cont b \<and> cont c \<and> cont d \<and> (a = 0xF0 \<longrightarrow> 0x90 \<le> b) \<and> (a = 0xF4 \<longrightarrow> b \<le> 0x8F)
           then Some 4 else None
         | _ \<Rightarrow> None)
      else None)"

lemma utf8_width_pos: "utf8_width s = Some n \<Longrightarrow> 0 < n \<and> s \<noteq> []"
  by (cases s) (auto split: if_splits list.splits)

function utf8_ok :: "nat list \<Rightarrow> bool" where
  "utf8_ok s =
     (if s = [] then True
      else case utf8_width s of None \<Rightarrow> False | Some n \<Rightarrow> utf8_ok (drop n s))"
  by pat_completeness auto
termination
  by (relation "measure length") (auto dest!: utf8_width_pos)

declare utf8_ok.simps [simp del]

definition from_utf8 :: "string \<Rightarrow> string result" where
  "from_utf8 s = (if utf8_ok (map code s) then Ok s else Err Utf8Error)"

text \<open>\<open>char::to_digit(16)\<close> and \<open>u8::from_str_radix(s, 16)\<close>: one leading \<open>+\<close> is accepted.\<close>

definition to_digit16 :: "char \<Rightarrow> nat option" where
  "to_digit16 ch =
     (let n = code ch in
      if 48 \<le> n \<and> n \<le> 57 then Some (n - 48)
      else if 97 \<le> n \<and> n \<le> 102 then Some (n - 97 + 10)
      else if 65 \<le> n \<and> n \<le> 70 then Some (n - 65 + 10)
      else None)"

fun radix16 :: "nat \<Rightarrow> string \<Rightarrow> u8 result" where
  "radix16 acc [] = Ok (of_nat acc)"
| "radix16 acc (c # s) =
     (case to_digit16 c of
        None \<Rightarrow> Err ParseIntError
      | Some d \<Rightarrow> if acc * 16 + d > 255 then Err ParseIntError else radix16 (acc * 16 + d) s)"

definition u8_from_str_radix16 :: "string \<Rightarrow> u8 result" where
  "u8_from_str_radix16 s =
     (case s of
        [] \<Rightarrow> Err ParseIntError
      | c # cs \<Rightarrow>
          if cs = [] \<and> (c = CHR ''+'' \<or> c = CHR ''-'') then Err ParseIntError
          else if c = CHR ''+'' then radix16 0 cs
          else radix16 0 s)"

section \<open>Keys\<close>

fun parse_hex_loop :: "string \<Rightarrow> bytes result" where
  "parse_hex_loop (c # d # s) =
     and_then (from_utf8 [c, d]) (\<lambda>t.
     and_then (u8_from_str_radix16 t) (\<lambda>b.
     and_then (parse_hex_loop s) (\<lambda>bs. Ok (b # bs))))"
| "parse_hex_loop [c] =
     and_then (from_utf8 [c]) (\<lambda>t. and_then (u8_from_str_radix16 t) (\<lambda>b. Ok [b]))"
| "parse_hex_loop [] = Ok []"

definition parse_hex :: "string \<Rightarrow> bytes result" where
  "parse_hex hex =
     (let hex = trim hex in
      if length hex \<noteq> 64 then Err (Bail ''PSK must be exactly 64 hex characters'')
      else parse_hex_loop hex)"

text \<open>\<open>fs\<close> gives the bytes of a file, or nothing when it cannot be read.\<close>

definition read_to_string :: "(string \<rightharpoonup> string) \<Rightarrow> string \<Rightarrow> string result" where
  "read_to_string fs path =
     (case fs path of
        None \<Rightarrow> Err (IoError path)
      | Some s \<Rightarrow> if utf8_ok (map code s) then Ok s else Err (IoError path))"

definition load_psk :: "(string \<rightharpoonup> string) \<Rightarrow> string \<Rightarrow> bytes result" where
  "load_psk fs path = and_then (read_to_string fs path) parse_hex"

definition parse_psk_hex :: "string \<Rightarrow> bytes result" where
  "parse_psk_hex hex = parse_hex hex"

section \<open>The authenticator\<close>

type_synonym hmac = "bytes \<Rightarrow> bytes \<Rightarrow> bytes"

record psk_authenticator =
  auth_psk :: bytes

definition PskAuthenticator_new :: "bytes \<Rightarrow> psk_authenticator" where
  "PskAuthenticator_new k = \<lparr>auth_psk = k\<rparr>"

definition PskAuthenticator_verify :: "hmac \<Rightarrow> psk_authenticator \<Rightarrow> bytes \<Rightarrow> bytes \<Rightarrow> bool" where
  "PskAuthenticator_verify hmac self nonce mac \<longleftrightarrow> hmac (auth_psk self) nonce = mac"

text \<open>\<open>copy_from_slice\<close> into a 32-byte array panics when the digest has another length.\<close>

definition PskAuthenticator_compute_mac :: "hmac \<Rightarrow> psk_authenticator \<Rightarrow> bytes \<Rightarrow> bytes rust" where
  "PskAuthenticator_compute_mac hmac self nonce =
     (let bs = hmac (auth_psk self) nonce in
      if length bs = 32 then Some (copy_at (replicate 32 0) 0 bs) else None)"

definition PskAuthenticator_verify_auth ::
  "hmac \<Rightarrow> psk_authenticator \<Rightarrow> bytes \<Rightarrow> bytes \<Rightarrow> string option" where
  "PskAuthenticator_verify_auth hmac self nonce mac =
     (if PskAuthenticator_verify hmac self nonce mac then Some ''default'' else None)"

section \<open>The interface of an authenticator\<close>

text \<open>
  The \<open>Authenticator\<close> trait: \<open>creds\<close> are the key/user pairs the authenticator stands for. A MAC is
  accepted exactly when some key produces it, for the user of such a key.
\<close>

locale authenticator =
  fixes hmac :: hmac
    and verify_auth :: "'a \<Rightarrow> bytes \<Rightarrow> bytes \<Rightarrow> string option"
    and creds :: "'a \<Rightarrow> (bytes \<times> string) set"
  assumes verify_sound: "verify_auth a nonce mac = Some u \<Longrightarrow> \<exists>k. (k, u) \<in> creds a \<and> hmac k nonce = mac"
    and verify_complete: "verify_auth a nonce mac = None \<Longrightarrow> (k, u) \<in> creds a \<Longrightarrow> hmac k nonce \<noteq> mac"
begin

lemma holder_accepted: "(k, u) \<in> creds a \<Longrightarrow> verify_auth a nonce (hmac k nonce) \<noteq> None"
  using verify_complete by blast

lemma accepted_iff: "verify_auth a nonce mac \<noteq> None \<longleftrightarrow> (\<exists>k u. (k, u) \<in> creds a \<and> hmac k nonce = mac)"
  using verify_sound verify_complete by (metis option.exhaust)

text \<open>Where keys do not collide on this nonce, the user is the holder of the key.\<close>

lemma accepted_user:
  assumes "\<And>k k' u u'. (k, u) \<in> creds a \<Longrightarrow> (k', u') \<in> creds a \<Longrightarrow> hmac k nonce = hmac k' nonce \<Longrightarrow> u = u'"
    and "(k, u) \<in> creds a"
  shows "verify_auth a nonce (hmac k nonce) = Some u"
proof -
  obtain u' where u': "verify_auth a nonce (hmac k nonce) = Some u'"
    using holder_accepted [OF assms(2)] by blast
  then obtain k' where "(k', u') \<in> creds a" "hmac k' nonce = hmac k nonce"
    using verify_sound by blast
  with assms(1) [OF _ assms(2)] u' show ?thesis by blast
qed

end

interpretation psk_auth: authenticator hmac "PskAuthenticator_verify_auth hmac" "\<lambda>a. {(auth_psk a, ''default'')}"
  for hmac
  by unfold_locales (auto simp: PskAuthenticator_verify_auth_def PskAuthenticator_verify_def split: if_splits)

section \<open>Lemmas\<close>

text \<open>The lower-case hexadecimal form \<open>format!("{b:02x}")\<close> of a byte.\<close>

definition hex_digit :: "nat \<Rightarrow> char" where
  "hex_digit n = (if n < 10 then char_of (48 + n) else char_of (87 + n))"

definition hex_byte :: "u8 \<Rightarrow> string" where
  "hex_byte b = [hex_digit (unat b div 16), hex_digit (unat b mod 16)]"

definition hex_encode :: "bytes \<Rightarrow> string" where
  "hex_encode bs = concat (map hex_byte bs)"

lemma code_char_of [simp]: "n < 256 \<Longrightarrow> code (char_of n) = n"
  by (simp add: code_def)

lemma code_hex_digit_less: "n < 16 \<Longrightarrow> code (hex_digit n) < 128"
  by (simp add: hex_digit_def)

lemma code_hex_digit: "n < 16 \<Longrightarrow> code (hex_digit n) = (if n < 10 then 48 + n else 87 + n)"
  by (simp add: hex_digit_def)

lemma to_digit_hex_digit [simp]: "n < 16 \<Longrightarrow> to_digit16 (hex_digit n) = Some n"
  by (auto simp: to_digit16_def code_hex_digit Let_def)

lemma hex_digit_not_sign [simp]: "n < 16 \<Longrightarrow> hex_digit n \<noteq> CHR ''+''"  "n < 16 \<Longrightarrow> hex_digit n \<noteq> CHR ''-''"
  using code_hex_digit [of n] by (auto simp: code_def split: if_splits)

lemma from_utf8_ascii: "\<forall>c \<in> set s. code c < 128 \<Longrightarrow> from_utf8 s = Ok s"
proof -
  assume "\<forall>c \<in> set s. code c < 128"
  then have "utf8_ok (map code s)"
    by (induction s) (simp_all add: utf8_ok.simps)
  then show ?thesis by (simp add: from_utf8_def)
qed

lemma parse_hex_byte:
  "and_then (from_utf8 (hex_byte b)) u8_from_str_radix16 = Ok b"
proof -
  have lt: "unat b div 16 < 16" "unat b mod 16 < 16" using unat_u8_less [of b] by auto
  have "from_utf8 (hex_byte b) = Ok (hex_byte b)"
    using lt by (intro from_utf8_ascii) (auto simp: hex_byte_def code_hex_digit_less)
  moreover have "unat b div 16 * 16 + unat b mod 16 = unat b" by simp
  ultimately show ?thesis
    using lt unat_u8_less [of b] by (simp add: hex_byte_def u8_from_str_radix16_def)
qed

lemma parse_hex_loop_encode: "parse_hex_loop (hex_encode bs) = Ok bs"
proof (induction bs)
  case (Cons b bs)
  then show ?case using parse_hex_byte [of b]
    by (auto simp: hex_encode_def hex_byte_def and_then_eq_Inr)
qed (simp add: hex_encode_def)

lemma length_hex_encode [simp]: "length (hex_encode bs) = 2 * length bs"
  by (induction bs) (simp_all add: hex_encode_def hex_byte_def)

text \<open>Trimming, one ASCII character at a time.\<close>

definition ascii_single :: "nat list list \<Rightarrow> bool" where
  "ascii_single ws \<longleftrightarrow> (\<forall>w \<in> set ws. w \<noteq> [] \<and> (hd w < 128 \<longrightarrow> tl w = []))"

lemma strip_front_ascii:
  assumes "ascii_single ws" and "code c < 128"
  shows "strip_front ws (c # s) = (if [code c] \<in> set ws then strip_front ws s else c # s)"
proof -
  have "find (\<lambda>w. w \<noteq> [] \<and> map code (take (length w) (c # s)) = w) ws
      = (if [code c] \<in> set ws then Some [code c] else None)"
    using assms(1)
  proof (induction ws)
    case (Cons w ws)
    then obtain a as where w: "w = a # as" "a < 128 \<longrightarrow> as = []"
      by (cases w) (auto simp: ascii_single_def)
    with Cons assms(2) show ?case by (auto simp: ascii_single_def)
  qed simp
  then show ?thesis by (subst strip_front.simps) simp
qed

lemma strip_front_Nil [simp]: "strip_front ws [] = []"
  by (subst strip_front.simps) (auto split: option.splits simp: find_Some_iff)

lemma ascii_single_white_space: "ascii_single white_space" "ascii_single (map rev white_space)"
  by (simp_all add: ascii_single_def white_space_def upt_rec)

definition ascii_white :: "char \<Rightarrow> bool" where
  "ascii_white c \<longleftrightarrow> code c \<in> {9, 10, 11, 12, 13, 32}"

lemma ascii_white_space:
  "code c < 128 \<Longrightarrow> [code c] \<in> set white_space \<longleftrightarrow> ascii_white c"
  "code c < 128 \<Longrightarrow> [code c] \<in> set (map rev white_space) \<longleftrightarrow> ascii_white c"
  by (auto simp: white_space_def ascii_white_def upt_rec)

lemma ascii_white_less: "ascii_white c \<Longrightarrow> code c < 128"
  by (auto simp: ascii_white_def)

lemma strip_front_whites:
  "\<forall>c \<in> set a. ascii_white c \<Longrightarrow> strip_front white_space (a @ s) = strip_front white_space s"
  "\<forall>c \<in> set a. ascii_white c \<Longrightarrow>
     strip_front (map rev white_space) (a @ s) = strip_front (map rev white_space) s"
  by (induction a)
    (simp_all add: strip_front_ascii ascii_single_white_space ascii_white_space ascii_white_less
      del: set_map)

text \<open>A text that starts and ends with a visible ASCII character survives trimming.\<close>

lemma trim_core:
  assumes "s \<noteq> []" "code (hd s) < 128" "\<not> ascii_white (hd s)" "code (last s) < 128" "\<not> ascii_white (last s)"
    and "\<forall>c \<in> set a. ascii_white c" "\<forall>c \<in> set b. ascii_white c"
  shows "trim (a @ s @ b) = s"
proof -
  have "strip_front white_space (s @ b) = s @ b"
    using assms(1-3) by (cases s)
      (simp_all add: strip_front_ascii ascii_single_white_space ascii_white_space)
  then have front: "trim_start (a @ s @ b) = s @ b"
    using assms(6) by (simp add: trim_start_def strip_front_whites)
  have "strip_front (map rev white_space) (rev s) = rev s"
    using assms(1,4,5) by (cases s rule: rev_cases)
      (simp_all add: strip_front_ascii ascii_single_white_space ascii_white_space del: set_map)
  then have "trim_end (s @ b) = s"
    using assms(7) by (simp add: trim_end_def strip_front_whites)
  with front show ?thesis by (simp add: trim_def)
qed

definition visible :: "char \<Rightarrow> bool" where
  "visible c \<longleftrightarrow> code c < 128 \<and> \<not> ascii_white c"

lemma trim_visible:
  assumes "\<forall>c \<in> set s. visible c" and "\<forall>c \<in> set a. ascii_white c" "\<forall>c \<in> set b. ascii_white c"
    and "s \<noteq> []"
  shows "trim (a @ s @ b) = s"
proof -
  from assms(1,4) have "visible (hd s)" "visible (last s)" by simp_all
  then show ?thesis using assms unfolding visible_def by (intro trim_core) simp_all
qed

lemma visible_hex_digit: "n < 16 \<Longrightarrow> visible (hex_digit n)"
  by (auto simp: visible_def ascii_white_def code_hex_digit)

lemma visible_hex_encode: "\<forall>c \<in> set (hex_encode bs). visible c"
proof (induction bs)
  case (Cons b bs)
  have "unat b div 16 < 16" "unat b mod 16 < 16" using unat_u8_less [of b] by auto
  with Cons show ?case by (auto simp: hex_encode_def hex_byte_def visible_hex_digit)
qed (simp add: hex_encode_def)

lemma hex_encode_eq_Nil [simp]: "hex_encode bs = [] \<longleftrightarrow> bs = []"
  by (cases bs) (simp_all add: hex_encode_def hex_byte_def)

lemma parse_hex_encode:
  assumes "\<forall>c \<in> set a. ascii_white c" "\<forall>c \<in> set b. ascii_white c" and "length bs = 32"
  shows "parse_hex (a @ hex_encode bs @ b) = Ok bs"
proof -
  from assms(3) have "hex_encode bs \<noteq> []" by auto
  from trim_visible [OF visible_hex_encode assms(1,2) this] assms(3)
  show ?thesis by (simp add: parse_hex_def parse_hex_loop_encode)
qed

lemma parse_hex_loop_length: "parse_hex_loop s = Ok bs \<Longrightarrow> length bs = (length s + 1) div 2"
  by (induction s arbitrary: bs rule: parse_hex_loop.induct) (auto simp: and_then_eq_Inr)

lemma parse_hex_length: "parse_hex s = Ok bs \<Longrightarrow> length bs = 32"
  by (auto simp: parse_hex_def Let_def dest!: parse_hex_loop_length split: if_splits)

section \<open>Properties\<close>

text \<open>
  Key files: the lower-case hex form of every 32-byte key, with any ASCII white space before
  and after it, is read back as that key; every file that is accepted gives a key of exactly 32 bytes;
  and a text whose trimmed length is not 64 bytes is an error.
\<close>

theorem key_file_roundtrip:
  assumes "\<forall>c \<in> set a. ascii_white c" "\<forall>c \<in> set b. ascii_white c" and "length k = 32"
  shows "parse_psk_hex (a @ hex_encode k @ b) = Ok k
    \<and> (\<forall>s k'. parse_psk_hex s = Ok k' \<longrightarrow> length k' = 32)
    \<and> (\<forall>s. length (trim s) \<noteq> 64 \<longrightarrow> parse_psk_hex s = Err (Bail ''PSK must be exactly 64 hex characters''))"
  using parse_hex_encode [OF assms] parse_hex_length by (auto simp: parse_psk_hex_def parse_hex_def)

theorem key_file_roundtrip_witness:
  "parse_psk_hex (hex_encode (replicate 32 0xa7) @ [CHR 0x0A]) = Ok (replicate 32 0xa7)"
  using key_file_roundtrip [of "[]" "[CHR 0x0A]" "replicate 32 0xa7"]
  by (simp add: ascii_white_def code_def)

text \<open>
  The key parser also accepts texts that are not 64 hex digits: a leading plus sign takes the
  place of a digit in any byte, so 32 repetitions of \<open>+f\<close> are read as a key of 32 bytes 15.
\<close>

theorem parse_hex_accepts_plus:
  "parse_psk_hex (concat (replicate n ''+f'') @ hex_encode k)
   = (if 2 * n + 2 * length k = 64 then Ok (replicate n 15 @ k)
      else Err (Bail ''PSK must be exactly 64 hex characters''))"
proof -
  let ?s = "concat (replicate n ''+f'') @ hex_encode k"
  have "\<forall>c \<in> set ?s. visible c"
    using visible_hex_encode [of k] by (auto simp: visible_def ascii_white_def code_def)
  then have "trim ?s = ?s"
    using trim_visible [of ?s "[]" "[]"]
    by (cases "?s = []") (simp_all add: trim_def trim_start_def trim_end_def del: append_is_Nil_conv)
  moreover have "length ?s = 2 * n + 2 * length k"
    by (simp add: length_concat sum_list_replicate)
  moreover have "parse_hex_loop ?s = Ok (replicate n 15 @ k)"
  proof (induction n)
    case (Suc n)
    have "from_utf8 ''+f'' = Ok ''+f''" by (rule from_utf8_ascii) (simp add: code_def)
    moreover have "u8_from_str_radix16 ''+f'' = Ok 15"
      by (simp add: u8_from_str_radix16_def to_digit16_def code_def)
    ultimately show ?case using Suc by simp
  qed (simp add: parse_hex_loop_encode)
  ultimately show ?thesis by (simp add: parse_psk_hex_def parse_hex_def Let_def)
qed

text \<open>
  A client that holds the server's key is always accepted, as user \<open>default\<close>, with the MAC
  it computes, and nobody is accepted with a MAC the key does not produce; with a 32-byte digest the
  client's computation cannot panic.
\<close>

theorem psk_authentication:
  assumes digest: "\<And>k m. length (hmac k m) = 32"
  shows "\<exists>mac. PskAuthenticator_compute_mac hmac (PskAuthenticator_new k) nonce = Some mac
     \<and> PskAuthenticator_verify_auth hmac (PskAuthenticator_new k) nonce mac = Some ''default''
     \<and> (\<forall>mac'. mac' \<noteq> mac \<longrightarrow> PskAuthenticator_verify_auth hmac (PskAuthenticator_new k) nonce mac' = None)"
  using psk_auth.accepted_iff [of hmac "PskAuthenticator_new k" nonce] digest [of k nonce]
  by (auto simp: PskAuthenticator_compute_mac_def PskAuthenticator_verify_auth_def
      PskAuthenticator_verify_def PskAuthenticator_new_def copy_at_def)

theorem psk_authentication_witness:
  "PskAuthenticator_verify_auth (\<lambda>k m. take 32 (k @ m @ replicate 32 0)) (PskAuthenticator_new [7]) [1]
     (take 32 ([7] @ [1] @ replicate 32 0)) = Some ''default''"
proof -
  have "\<And>k m. length (take 32 (k @ m @ replicate 32 (0 :: u8))) = 32" by simp
  from psk_authentication [of "\<lambda>k m. take 32 (k @ m @ replicate 32 0)", OF this, of "[7]" "[1]"] show ?thesis
    by (auto simp: PskAuthenticator_compute_mac_def PskAuthenticator_new_def copy_at_def Let_def
        split: if_splits)
qed

end
