(* ===== verification/Users.thy ===== *)
theory Users
  imports Auth "HOL-Library.AList"
begin

text \<open>
  The multi-user key store, \<^verbatim>\<open>src/crates/redpill-quic/src/users.rs\<close>. The file system is explicit: the
  files by path, the directories, and which paths the process may write; paths are compared as text.
  The \<open>HashMap\<close> from keys to names is an association list with distinct keys, its order standing for
  the map's iteration order, which no statement below depends on.
\<close>

section \<open>Paths and files\<close>

record file_system =
  files :: "(string \<times> string) list"
  dirs :: "string list"
  writable :: "string \<Rightarrow> bool"

abbreviation slash :: char where "slash \<equiv> CHR ''/''"

definition path_join :: "string \<Rightarrow> string \<Rightarrow> string" where
  "path_join dir f =
     (if take 1 f = [slash] \<or> dir = [] then f
      else if last dir = slash then dir @ f else dir @ slash # f)"

definition file_name :: "string \<Rightarrow> string" where
  "file_name path = rev (takeWhile (\<lambda>c. c \<noteq> slash) (rev path))"

definition parent :: "string \<Rightarrow> string" where
  "parent path = rev (tl (dropWhile (\<lambda>c. c \<noteq> slash) (rev path)))"

text \<open>\<open>Path::file_stem\<close> and \<open>Path::extension\<close> of a file name.\<close>

definition split_ext :: "string \<Rightarrow> string \<times> string option" where
  "split_ext name =
     (let ext = takeWhile (\<lambda>c. c \<noteq> CHR ''.'') (rev name);
          rest = dropWhile (\<lambda>c. c \<noteq> CHR ''.'') (rev name) in
      if length rest \<le> 1 then (name, None) else (rev (tl rest), Some (rev ext)))"

definition fs_exists :: "file_system \<Rightarrow> string \<Rightarrow> bool" where
  "fs_exists fs p \<longleftrightarrow> p \<in> set (dirs fs) \<or> p \<in> fst ` set (files fs)"

definition read_dir :: "file_system \<Rightarrow> string \<Rightarrow> string list result" where
  "read_dir fs dir =
     (if dir \<in> set (dirs fs) then Ok (filter (\<lambda>p. p = path_join dir (file_name p) \<and> file_name p \<noteq> []) (map fst (files fs)))
      else Err (IoError dir))"

definition fs_write :: "file_system \<Rightarrow> string \<Rightarrow> string \<Rightarrow> file_system result" where
  "fs_write fs p s =
     (if writable fs p \<and> (parent p = [] \<or> parent p \<in> set (dirs fs)) \<and> p \<notin> set (dirs fs)
      then Ok (fs\<lparr>files := AList.update p s (files fs)\<rparr>) else Err (IoError p))"

definition fs_remove :: "file_system \<Rightarrow> string \<Rightarrow> file_system result" where
  "fs_remove fs p =
     (if writable fs p \<and> p \<in> fst ` set (files fs)
      then Ok (fs\<lparr>files := AList.delete p (files fs)\<rparr>) else Err (IoError p))"

text \<open>\<open>create_dir_all\<close>: the missing ancestors and the directory itself.\<close>

definition ancestors :: "string \<Rightarrow> string list" where
  "ancestors d = map (\<lambda>i. take i d) (filter (\<lambda>i. 0 < i \<and> d ! i = slash) [0..<length d]) @ [d]"

definition create_dir_all :: "file_system \<Rightarrow> string \<Rightarrow> file_system result" where
  "create_dir_all fs d =
     (if d = [] \<or> d \<in> set (dirs fs) then Ok fs
      else if writable fs d \<and> d \<notin> fst ` set (files fs) then Ok (fs\<lparr>dirs := ancestors d @ dirs fs\<rparr>)
      else Err (IoError d))"

section \<open>The store\<close>

record user_store =
  users :: "(bytes \<times> string) list"
  users_dir :: string

fun UserStore_load_loop ::
  "file_system \<Rightarrow> (bytes \<times> string) list \<Rightarrow> string list \<Rightarrow> (bytes \<times> string) list result" where
  "UserStore_load_loop fs us [] = Ok us"
| "UserStore_load_loop fs us (path # entries) =
     (case split_ext (file_name path) of (stem, ext) \<Rightarrow>
        if ext \<noteq> Some ''key'' then UserStore_load_loop fs us entries
        else if \<not> utf8_ok (map code stem) then Err (Bail ''invalid filename'')
        else
          and_then (read_to_string (map_of (files fs)) path) (\<lambda>content.
          and_then (parse_hex (trim content)) (\<lambda>psk.
            if psk \<in> fst ` set us then UserStore_load_loop fs us entries
            else UserStore_load_loop fs ((psk, stem) # us) entries)))"

definition UserStore_load :: "file_system \<Rightarrow> string \<Rightarrow> user_store result" where
  "UserStore_load fs dir =
     (if \<not> fs_exists fs dir then Err (Bail ''users directory does not exist'')
      else
        and_then (read_dir fs dir) (\<lambda>entries.
        and_then (UserStore_load_loop fs [] entries) (\<lambda>us.
        Ok \<lparr>users = us, users_dir = dir\<rparr>)))"

text \<open>A failed reload leaves the store as it was.\<close>

definition UserStore_reload :: "file_system \<Rightarrow> user_store \<Rightarrow> user_store \<times> unit result" where
  "UserStore_reload fs self =
     (case UserStore_load fs (users_dir self) of
        Inl e \<Rightarrow> (self, Err e)
      | Inr new \<Rightarrow> (self\<lparr>users := users new\<rparr>, Ok ()))"

fun UserStore_verify_loop :: "hmac \<Rightarrow> (bytes \<times> string) list \<Rightarrow> bytes \<Rightarrow> bytes \<Rightarrow> string option" where
  "UserStore_verify_loop hmac [] nonce mac = None"
| "UserStore_verify_loop hmac ((psk, username) # us) nonce mac =
     (if hmac psk nonce = mac then Some username else UserStore_verify_loop hmac us nonce mac)"

definition UserStore_verify :: "hmac \<Rightarrow> user_store \<Rightarrow> bytes \<Rightarrow> bytes \<Rightarrow> string option" where
  "UserStore_verify hmac self nonce mac = UserStore_verify_loop hmac (users self) nonce mac"

definition UserStore_len :: "user_store \<Rightarrow> nat" where
  "UserStore_len self = length (users self)"

definition UserStore_usernames :: "user_store \<Rightarrow> string list" where
  "UserStore_usernames self = map snd (users self)"

text \<open>\<open>psk\<close> is the value the random generator fills in.\<close>

definition UserStore_add_user ::
  "file_system \<Rightarrow> user_store \<Rightarrow> string \<Rightarrow> bytes \<Rightarrow> file_system \<times> user_store \<times> string result" where
  "UserStore_add_user fs self name psk =
     (if name \<in> snd ` set (users self) then (fs, self, Err (Bail ''user already exists''))
      else
        let hex = hex_encode psk; path = path_join (users_dir self) (name @ ''.key'') in
        case fs_write fs path hex of
          Inl e \<Rightarrow> (fs, self, Err e)
        | Inr fs \<Rightarrow> (fs, self\<lparr>users := AList.update psk name (users self)\<rparr>, Ok hex))"

definition UserStore_remove_user ::
  "file_system \<Rightarrow> user_store \<Rightarrow> string \<Rightarrow> file_system \<times> user_store \<times> unit result" where
  "UserStore_remove_user fs self name =
     (case find (\<lambda>(_, u). u = name) (users self) of
        None \<Rightarrow> (fs, self, Err (Bail ''user not found''))
      | Some (psk, _) \<Rightarrow>
          let self = self\<lparr>users := AList.delete psk (users self)\<rparr>;
              path = path_join (users_dir self) (name @ ''.key'') in
          if fs_exists fs path then
            (case fs_remove fs path of
               Inl e \<Rightarrow> (fs, self, Err e)
             | Inr fs \<Rightarrow> (fs, self, Ok ()))
          else (fs, self, Ok ()))"

definition UserStore_verify_auth :: "hmac \<Rightarrow> user_store \<Rightarrow> bytes \<Rightarrow> bytes \<Rightarrow> string option" where
  "UserStore_verify_auth hmac self nonce mac = UserStore_verify hmac self nonce mac"

section \<open>Lemmas\<close>

lemma verify_loop_Some:
  "UserStore_verify_loop hmac us nonce mac = Some u \<Longrightarrow> \<exists>k. (k, u) \<in> set us \<and> hmac k nonce = mac"
  by (induction us) (auto split: if_splits)

lemma verify_loop_None:
  "UserStore_verify_loop hmac us nonce mac = None \<Longrightarrow> (k, u) \<in> set us \<Longrightarrow> hmac k nonce \<noteq> mac"
  by (induction us) (auto split: if_splits)

interpretation users_auth: authenticator hmac "UserStore_verify_auth hmac" "\<lambda>s. set (users s)"
  for hmac
  by unfold_locales
    (auto simp: UserStore_verify_auth_def UserStore_verify_def dest: verify_loop_Some verify_loop_None)

text \<open>What a directory entry contributes: nothing, an error, or a key and its user.\<close>

definition key_name :: "string \<Rightarrow> string option" where
  "key_name path =
     (case split_ext (file_name path) of (stem, ext) \<Rightarrow> if ext = Some ''key'' then Some stem else None)"

definition file_key :: "file_system \<Rightarrow> string \<Rightarrow> bytes result" where
  "file_key fs path =
     and_then (read_to_string (map_of (files fs)) path) (\<lambda>content. parse_hex (trim content))"

definition good_entry :: "file_system \<Rightarrow> string \<Rightarrow> bool" where
  "good_entry fs path \<longleftrightarrow>
     (\<forall>u. key_name path = Some u \<longrightarrow> utf8_ok (map code u) \<and> (\<exists>k. file_key fs path = Ok k))"

lemma load_loop_step:
  "UserStore_load_loop fs us (path # entries) =
     (case key_name path of
        None \<Rightarrow> UserStore_load_loop fs us entries
      | Some u \<Rightarrow>
          if \<not> utf8_ok (map code u) then Err (Bail ''invalid filename'')
          else and_then (file_key fs path) (\<lambda>k.
            UserStore_load_loop fs (if k \<in> fst ` set us then us else (k, u) # us) entries))"
  by (cases "read_to_string (map_of (files fs)) path")
    (auto simp: key_name_def file_key_def and_then_def split: prod.splits sum.splits)

declare UserStore_load_loop.simps(2) [simp del]

lemma load_loop_key:
  assumes "UserStore_load_loop fs us (p # ps) = Ok r" "key_name p = Some u"
  obtains k where "file_key fs p = Ok k"
    "UserStore_load_loop fs (if k \<in> fst ` set us then us else (k, u) # us) ps = Ok r"
  using assms by (cases "utf8_ok (map code u)"; cases "file_key fs p") (simp_all add: load_loop_step)

text \<open>Loading succeeds exactly when every key file is readable, and then has exactly their keys.\<close>

lemma load_loop_ok_iff: "(\<exists>r. UserStore_load_loop fs us ps = Ok r) \<longleftrightarrow> (\<forall>p \<in> set ps. good_entry fs p)"
proof (induction ps arbitrary: us)
  case (Cons p ps)
  then show ?case
    by (cases "file_key fs p")
      (auto simp: load_loop_step good_entry_def split: option.splits)
qed simp

lemma load_loop_keys:
  "UserStore_load_loop fs us ps = Ok r \<Longrightarrow>
   fst ` set r = fst ` set us \<union> {k. \<exists>p \<in> set ps. key_name p \<noteq> None \<and> file_key fs p = Ok k}"
proof (induction ps arbitrary: us)
  case (Cons p ps)
  show ?case
  proof (cases "key_name p")
    case None
    with Cons show ?thesis by (auto simp: load_loop_step)
  next
    case (Some u)
    with Cons.prems obtain k where k: "file_key fs p = Ok k"
      and r: "UserStore_load_loop fs (if k \<in> fst ` set us then us else (k, u) # us) ps = Ok r"
      by (blast elim: load_loop_key)
    from Cons.IH [OF r] k Some show ?thesis by (auto split: if_splits)
  qed
qed simp

lemma load_loop_entries:
  "UserStore_load_loop fs us ps = Ok r \<Longrightarrow> (k, u) \<in> set r \<Longrightarrow> (k, u) \<notin> set us \<Longrightarrow>
   \<exists>p \<in> set ps. key_name p = Some u \<and> file_key fs p = Ok k"
proof (induction ps arbitrary: us)
  case (Cons p ps)
  show ?case
  proof (cases "key_name p")
    case None
    with Cons show ?thesis by (auto simp: load_loop_step)
  next
    case (Some v)
    with Cons.prems obtain k' where k': "file_key fs p = Ok k'"
      and r: "UserStore_load_loop fs (if k' \<in> fst ` set us then us else (k', v) # us) ps = Ok r"
      by (blast elim: load_loop_key)
    from Cons.IH [OF r Cons.prems(2)] Cons.prems(3) k' Some show ?thesis
      by (cases "k' \<in> fst ` set us") auto
  qed
qed simp

lemma load_loop_distinct:
  "UserStore_load_loop fs us ps = Ok r \<Longrightarrow> distinct (map fst us) \<Longrightarrow> distinct (map fst r)"
proof (induction ps arbitrary: us)
  case (Cons p ps)
  then show ?case
    by (cases "key_name p") (auto simp: load_loop_step and_then_eq_Inr split: if_splits)
qed simp

text \<open>The names of key files in a directory.\<close>

definition key_path :: "string \<Rightarrow> string \<Rightarrow> string" where
  "key_path dir u = path_join dir (u @ ''.key'')"

lemma file_name_key_path:
  "slash \<notin> set u \<Longrightarrow> file_name (key_path dir u) = u @ ''.key''"
proof -
  assume u: "slash \<notin> set u"
  have f: "take 1 (u @ ''.key'') \<noteq> [slash]" using u by (cases u) auto
  have tw: "takeWhile (\<lambda>c. c \<noteq> slash) (rev (u @ ''.key'') @ ys) =
      rev (u @ ''.key'') @ takeWhile (\<lambda>c. c \<noteq> slash) ys" for ys
    using u by (intro takeWhile_append2) auto
  have "takeWhile (\<lambda>c. c \<noteq> slash) (rev dir) = []" if "dir \<noteq> []" "last dir = slash"
    using that by (cases dir rule: rev_cases) auto
  then have "takeWhile (\<lambda>c. c \<noteq> slash) (rev (key_path dir u)) = rev (u @ ''.key'')"
    unfolding key_path_def path_join_def using f tw [of "[]"] tw [of "rev dir"] tw [of "slash # rev dir"]
    by auto
  then show ?thesis unfolding file_name_def by (metis rev_rev_ident)
qed

lemma split_ext_key: "u \<noteq> [] \<Longrightarrow> split_ext (u @ ''.key'') = (u, Some ''key'')"
  by (auto simp: split_ext_def Let_def)

lemma key_name_key_path: "slash \<notin> set u \<Longrightarrow> u \<noteq> [] \<Longrightarrow> key_name (key_path dir u) = Some u"
  by (simp add: key_name_def file_name_key_path split_ext_key)

lemma split_ext_Some: "split_ext name = (u, Some e) \<Longrightarrow> name = u @ CHR ''.'' # e \<and> u \<noteq> []"
proof -
  assume a: "split_ext name = (u, Some e)"
  let ?e = "takeWhile (\<lambda>c. c \<noteq> CHR ''.'') (rev name)" and ?r = "dropWhile (\<lambda>c. c \<noteq> CHR ''.'') (rev name)"
  from a have r: "length ?r > 1" and u: "u = rev (tl ?r)" and e: "e = rev ?e"
    by (auto simp: split_ext_def Let_def split: if_splits)
  from r obtain c r' where cr: "?r = c # r'" "r' \<noteq> []" by (cases ?r) auto
  then have "c = CHR ''.''" using hd_dropWhile [of "\<lambda>c. c \<noteq> CHR ''.''" "rev name"] by simp
  moreover have "rev name = ?e @ ?r" by simp
  ultimately have "name = rev r' @ CHR ''.'' # rev ?e"
    using cr by (metis append.assoc append_Cons append_Nil rev.simps(2) rev_append rev_rev_ident)
  with cr u e show ?thesis by simp
qed

lemma key_name_Some: "key_name p = Some u \<Longrightarrow> file_name p = u @ ''.key'' \<and> u \<noteq> [] \<and> slash \<notin> set u"
proof -
  assume "key_name p = Some u"
  then have "split_ext (file_name p) = (u, Some ''key'')"
    by (auto simp: key_name_def split: prod.splits if_splits)
  then have fn: "file_name p = u @ ''.key'' \<and> u \<noteq> []" by (auto dest: split_ext_Some)
  have "slash \<notin> set (file_name p)" by (auto simp: file_name_def dest: set_takeWhileD)
  with fn show ?thesis by auto
qed

lemma key_path_inj: "slash \<notin> set u \<Longrightarrow> slash \<notin> set v \<Longrightarrow> key_path dir u = key_path dir v \<Longrightarrow> u = v"
  by (metis append_same_eq file_name_key_path)

definition dir_entries :: "file_system \<Rightarrow> string \<Rightarrow> string set" where
  "dir_entries fs dir = {p \<in> fst ` set (files fs). p = path_join dir (file_name p) \<and> file_name p \<noteq> []}"

text \<open>Loading a directory, summed up.\<close>

lemma UserStore_load_ok:
  "(\<exists>st. UserStore_load fs dir = Ok st) \<longleftrightarrow>
   dir \<in> set (dirs fs) \<and> (\<forall>p \<in> dir_entries fs dir. good_entry fs p)"
proof -
  have "set (filter (\<lambda>p. p = path_join dir (file_name p) \<and> file_name p \<noteq> []) (map fst (files fs)))
      = dir_entries fs dir"
    by (auto simp: dir_entries_def)
  with load_loop_ok_iff [of fs "[]" "filter (\<lambda>p. p = path_join dir (file_name p) \<and> file_name p \<noteq> [])
      (map fst (files fs))"]
  show ?thesis
    by (auto simp: UserStore_load_def fs_exists_def read_dir_def and_then_eq_Inr simp del: filter_map set_filter)
qed

lemma UserStore_loadD:
  assumes "UserStore_load fs dir = Ok st"
  shows "users_dir st = dir \<and> dir \<in> set (dirs fs) \<and> distinct (map fst (users st))
    \<and> fst ` set (users st) = {k. \<exists>p \<in> dir_entries fs dir. key_name p \<noteq> None \<and> file_key fs p = Ok k}
    \<and> (\<forall>(k, u) \<in> set (users st). \<exists>p \<in> dir_entries fs dir. key_name p = Some u \<and> file_key fs p = Ok k)"
proof -
  let ?ps = "filter (\<lambda>p. p = path_join dir (file_name p) \<and> file_name p \<noteq> []) (map fst (files fs))"
  have ps: "set ?ps = dir_entries fs dir" by (auto simp: dir_entries_def)
  from assms have l: "UserStore_load_loop fs [] ?ps = Ok (users st)" and d: "users_dir st = dir"
    "dir \<in> set (dirs fs)"
    by (auto simp: UserStore_load_def read_dir_def and_then_eq_Inr split: if_splits)
  from load_loop_keys [OF l, unfolded ps] load_loop_entries [OF l, unfolded ps] load_loop_distinct [OF l] d
  show ?thesis by auto
qed

lemma key_entry_path: "p \<in> dir_entries fs dir \<Longrightarrow> key_name p = Some u \<Longrightarrow> p = key_path dir u"
  using key_name_Some [of p u] by (auto simp: dir_entries_def key_path_def)

lemma file_key_update:
  "file_key (fs\<lparr>files := AList.update q s (files fs)\<rparr>) p =
     (if p = q then and_then (read_to_string [q \<mapsto> s] q) (\<lambda>c. parse_hex (trim c)) else file_key fs p)"
  by (auto simp: file_key_def read_to_string_def update_conv')

lemma file_key_delete: "p \<noteq> q \<Longrightarrow> file_key (fs\<lparr>files := AList.delete q (files fs)\<rparr>) p = file_key fs p"
  by (simp add: file_key_def read_to_string_def delete_conv')

lemma dir_entries_update:
  "dir_entries (fs\<lparr>files := AList.update q s (files fs)\<rparr>) dir =
     dir_entries fs dir \<union> (if q = path_join dir (file_name q) \<and> file_name q \<noteq> [] then {q} else {})"
  by (auto simp: dir_entries_def dom_update simp del: image_iff)

lemma dir_entries_delete: "dir_entries (fs\<lparr>files := AList.delete q (files fs)\<rparr>) dir = dir_entries fs dir - {q}"
  by (auto simp: dir_entries_def delete_keys simp flip: set_map)

lemma utf8_ok_ascii: "\<forall>c \<in> set s. code c < 128 \<Longrightarrow> utf8_ok (map code s)"
  by (induction s) (simp_all add: utf8_ok.simps)

lemma file_key_written:
  assumes "length k = 32"
  shows "file_key (fs\<lparr>files := AList.update q (hex_encode k) (files fs)\<rparr>) q = Ok k"
proof -
  have "utf8_ok (map code (hex_encode k))"
    using visible_hex_encode [of k] by (intro utf8_ok_ascii) (auto simp: visible_def)
  moreover have "trim (hex_encode k) = hex_encode k"
    using trim_visible [OF visible_hex_encode, of "[]" "[]" k] assms by (auto simp: list_eq_iff_nth_eq)
  moreover have "parse_hex (hex_encode k) = Ok k"
    using parse_hex_encode [of "[]" "[]" k] assms by simp
  ultimately show ?thesis by (simp add: file_key_update read_to_string_def)
qed

section \<open>Properties\<close>

text \<open>
  Trial verification over any store, whatever the order of its map: a MAC is accepted exactly
  when the key of some user produces it, the user returned owns such a key, and where the keys of the
  store do not collide on the nonce the holder of a key is accepted under his own name.
\<close>

theorem UserStore_verify_correct:
  "(UserStore_verify_auth hmac st nonce mac \<noteq> None
      \<longleftrightarrow> (\<exists>k u. (k, u) \<in> set (users st) \<and> hmac k nonce = mac))
   \<and> (\<forall>u. UserStore_verify_auth hmac st nonce mac = Some u
      \<longrightarrow> (\<exists>k. (k, u) \<in> set (users st) \<and> hmac k nonce = mac))
   \<and> (distinct (map fst (users st)) \<and> inj_on (\<lambda>k. hmac k nonce) (fst ` set (users st))
      \<longrightarrow> (\<forall>(k, u) \<in> set (users st). UserStore_verify_auth hmac st nonce (hmac k nonce) = Some u))"
proof (intro conjI allI impI)
  show "UserStore_verify_auth hmac st nonce mac \<noteq> None
      \<longleftrightarrow> (\<exists>k u. (k, u) \<in> set (users st) \<and> hmac k nonce = mac)"
    by (rule users_auth.accepted_iff)
  show "UserStore_verify_auth hmac st nonce mac = Some u
      \<Longrightarrow> \<exists>k. (k, u) \<in> set (users st) \<and> hmac k nonce = mac" for u
    by (rule users_auth.verify_sound)
  assume a: "distinct (map fst (users st)) \<and> inj_on (\<lambda>k. hmac k nonce) (fst ` set (users st))"
  have "u = u'" if "(k, u) \<in> set (users st)" "(k', u') \<in> set (users st)" "hmac k nonce = hmac k' nonce"
    for k k' u u'
  proof -
    from a that have "k = k'" by (force simp: inj_on_def)
    with a that show ?thesis by (metis eq_key_imp_eq_value)
  qed
  then show "\<forall>(k, u) \<in> set (users st). UserStore_verify_auth hmac st nonce (hmac k nonce) = Some u"
    using users_auth.accepted_user [of st hmac nonce] by fast
qed

theorem UserStore_verify_correct_witness:
  "UserStore_verify_auth (\<lambda>k m. k @ m) \<lparr>users = [([1], ''ann''), ([2], ''bob'')], users_dir = ''u''\<rparr> [9] [2, 9]
   = Some ''bob''"
  using UserStore_verify_correct
    [of "\<lambda>k m. k @ m" "\<lparr>users = [([1], ''ann''), ([2], ''bob'')], users_dir = ''u''\<rparr>" "[9]" "[2, 9]"]
  by (simp add: inj_on_def)

text \<open>
  Claim C28. A new user is durable: after \<open>add_user\<close> has returned the hex key on a store loaded from its
  directory, the returned text reads back as the generated key, reloading the directory succeeds, the
  reloaded store accepts the new key, and every key accepted before is still accepted.
\<close>

theorem add_user_durable:
  assumes load: "UserStore_load fs dir = Ok st"
    and add: "UserStore_add_user fs st name k = (fs', st', Ok hex)"
    and name: "name \<noteq> []" "slash \<notin> set name" "utf8_ok (map code name)" and k: "length k = 32"
  shows "parse_psk_hex hex = Ok k
    \<and> (\<exists>st''. UserStore_reload fs' st' = (st'', Ok ())
         \<and> UserStore_verify_auth hmac st'' nonce (hmac k nonce) \<noteq> None
         \<and> insert k (fst ` set (users st)) \<subseteq> fst ` set (users st''))"
proof -
  let ?q = "key_path dir name"
  note L = UserStore_loadD [OF load]
  from add have hex: "hex = hex_encode k" and fresh: "name \<notin> snd ` set (users st)"
    and fs': "fs' = fs\<lparr>files := AList.update ?q (hex_encode k) (files fs)\<rparr>" and dir': "users_dir st' = dir"
    using L by (auto simp: UserStore_add_user_def fs_write_def key_path_def Let_def split: if_splits sum.splits)
  have q: "key_name ?q = Some name" by (rule key_name_key_path [OF name(2,1)])
  have ents: "dir_entries fs' dir = insert ?q (dir_entries fs dir)"
    using file_name_key_path [OF name(2), of dir] by (auto simp: fs' dir_entries_update) (simp add: key_path_def)
  have fk: "file_key fs' p = (if p = ?q then Ok k else file_key fs p)" for p
    using file_key_written [OF k, of ?q fs] file_key_update [of ?q "hex_encode k" fs p] by (auto simp: fs')
  have "\<forall>p \<in> dir_entries fs' dir. good_entry fs' p"
    using UserStore_load_ok [of fs dir] load q name(3) fk by (fastforce simp: ents good_entry_def)
  then obtain n where n: "UserStore_load fs' dir = Ok n"
    using UserStore_load_ok [of fs' dir] L by (auto simp: fs')
  note N = UserStore_loadD [OF n]
  have k_in: "k \<in> fst ` set (users n)" using N ents q fk by auto
  moreover have "k' \<in> fst ` set (users n)" if mem: "(k', u) \<in> set (users st)" for k' u
  proof -
    from mem L obtain p where p: "p \<in> dir_entries fs dir" "key_name p = Some u" "file_key fs p = Ok k'" by blast
    from mem fresh have "u \<noteq> name" by force
    with p q have "p \<noteq> ?q" by auto
    with p N ents fk show ?thesis by auto
  qed
  moreover have "UserStore_reload fs' st' = (st'\<lparr>users := users n\<rparr>, Ok ())"
    by (simp add: UserStore_reload_def dir' n)
  moreover have "UserStore_verify_auth hmac (st'\<lparr>users := users n\<rparr>) nonce (hmac k nonce) \<noteq> None"
    using k_in users_auth.accepted_iff [of hmac "st'\<lparr>users := users n\<rparr>"] by auto
  moreover have "parse_psk_hex hex = Ok k"
    using parse_hex_encode [of "[]" "[]" k] k by (simp add: hex parse_psk_hex_def)
  ultimately show ?thesis by auto
qed

theorem add_user_durable_witness:
  "let fs = \<lparr>files = [], dirs = [''u''], writable = (\<lambda>_. True)\<rparr>; k = replicate 32 7 in
   \<exists>st fs' st' hex st''. UserStore_load fs ''u'' = Ok st
     \<and> UserStore_add_user fs st ''bob'' k = (fs', st', Ok hex)
     \<and> UserStore_reload fs' st' = (st'', Ok ()) \<and> UserStore_verify_auth (\<lambda>k m. k @ m) st'' [1] (k @ [1]) \<noteq> None"
proof -
  define fs :: file_system where "fs = \<lparr>files = [], dirs = [''u''], writable = (\<lambda>_. True)\<rparr>"
  define k :: bytes where "k = replicate 32 7"
  have load: "UserStore_load fs ''u'' = Ok \<lparr>users = [], users_dir = ''u''\<rparr>"
    by (simp add: fs_def UserStore_load_def fs_exists_def read_dir_def)
  have "parent (path_join ''u'' (''bob'' @ ''.key'')) = ''u''" "path_join ''u'' (''bob'' @ ''.key'') \<noteq> ''u''"
    by (simp_all add: parent_def path_join_def)
  then obtain fs' st' hex where add:
    "UserStore_add_user fs \<lparr>users = [], users_dir = ''u''\<rparr> ''bob'' k = (fs', st', Ok hex)"
    by (auto simp: UserStore_add_user_def fs_write_def fs_def Let_def)
  have "utf8_ok (map code ''bob'')" by (rule utf8_ok_ascii) (simp add: code_def)
  with add_user_durable [OF load add, of "\<lambda>k m. k @ m" "[1]"] load add show ?thesis
    by (fastforce simp: k_def fs_def Let_def)
qed

text \<open>
  Claim C29. Removal: \<open>remove_user\<close> on a store loaded from its directory takes exactly one key out of
  the store, one that belonged to the named user, even when deleting the file fails; and after a
  successful removal no later reload brings a user of that name back.
\<close>

theorem remove_user_revokes:
  assumes load: "UserStore_load fs dir = Ok st"
    and rem: "UserStore_remove_user fs st name = (fs', st', r)" and user: "name \<in> snd ` set (users st)"
  shows "\<exists>k. (k, name) \<in> set (users st) \<and> set (users st') = set (users st) - {(k, name)}
    \<and> (\<forall>nonce. inj_on (\<lambda>k. hmac k nonce) (fst ` set (users st))
         \<longrightarrow> UserStore_verify_auth hmac st' nonce (hmac k nonce) = None)
    \<and> (r = Ok () \<longrightarrow> (\<forall>st''. UserStore_reload fs' st' = (st'', Ok ()) \<longrightarrow> name \<notin> snd ` set (users st'')))"
proof -
  let ?q = "key_path dir name"
  note L = UserStore_loadD [OF load]
  from user obtain k where f: "find (\<lambda>(_, u). u = name) (users st) = Some (k, name)"
    by (cases "find (\<lambda>(_, u). u = name) (users st)") (auto simp: find_None_iff find_Some_iff)
  then have mem: "(k, name) \<in> set (users st)" by (metis find_Some_iff nth_mem)
  from rem f L have st': "users st' = AList.delete k (users st)" "users_dir st' = dir"
    and fs': "r = Ok () \<Longrightarrow> fs' = (if fs_exists fs ?q then fs\<lparr>files := AList.delete ?q (files fs)\<rparr> else fs)"
    by (auto simp: UserStore_remove_user_def fs_remove_def key_path_def Let_def split: if_splits sum.splits)
  have set': "set (users st') = set (users st) - {(k, name)}"
    using L mem by (auto simp: st' AList.delete_eq dest: eq_key_imp_eq_value)
  moreover have "UserStore_verify_auth hmac st' nonce (hmac k nonce) = None"
    if inj: "inj_on (\<lambda>k. hmac k nonce) (fst ` set (users st))" for nonce
  proof (rule ccontr)
    assume "UserStore_verify_auth hmac st' nonce (hmac k nonce) \<noteq> None"
    then obtain k' u where ku: "(k', u) \<in> set (users st')" "hmac k' nonce = hmac k nonce"
      using users_auth.accepted_iff [of hmac st' nonce] by blast
    with set' inj mem have "k' = k" by (force simp: inj_on_def)
    with ku(1) show False by (auto simp: st' AList.delete_eq)
  qed
  moreover have "name \<notin> snd ` set (users st'')" if ok: "r = Ok ()" and re: "UserStore_reload fs' st' = (st'', Ok ())"
    for st''
  proof
    assume "name \<in> snd ` set (users st'')"
    then obtain k' where k': "(k', name) \<in> set (users st'')" by auto
    from re obtain n where n: "UserStore_load fs' dir = Ok n" and "users st'' = users n"
      by (auto simp: UserStore_reload_def st' split: sum.splits)
    with UserStore_loadD [OF n] k' obtain p where "p \<in> dir_entries fs' dir" "key_name p = Some name" by auto
    then have "?q \<in> dir_entries fs' dir" using key_entry_path by metis
    with fs' [OF ok] show False
      by (auto simp: fs_exists_def dir_entries_def AList.delete_eq split: if_splits)
  qed
  ultimately show ?thesis using mem by blast
qed

theorem remove_user_revokes_witness:
  "let fs = \<lparr>files = [(''u/bob.key'', hex_encode (replicate 32 7))], dirs = [''u''], writable = (\<lambda>_. True)\<rparr> in
   \<exists>st fs' st' r. UserStore_load fs ''u'' = Ok st \<and> UserStore_remove_user fs st ''bob'' = (fs', st', r)
     \<and> set (users st) = {(replicate 32 7, ''bob'')} \<and> users st' = []"
proof -
  define fs where "fs = \<lparr>files = [(''u/bob.key'', hex_encode (replicate 32 7))], dirs = [''u''], writable = (\<lambda>_. True)\<rparr>"
  let ?st = "\<lparr>users = [(replicate 32 7, ''bob'')], users_dir = ''u''\<rparr>"
  have fk: "file_key fs ''u/bob.key'' = Ok (replicate 32 7)"
    using file_key_written [of "replicate 32 7" "''u/bob.key''" "\<lparr>files = [], dirs = [''u''], writable = (\<lambda>_. True)\<rparr>"]
    by (simp add: fs_def)
  have kn: "key_name ''u/bob.key'' = Some ''bob''"
    using key_name_key_path [of "''bob''" "''u''"] by (simp add: key_path_def path_join_def)
  have "utf8_ok (map code ''bob'')" by (rule utf8_ok_ascii) (simp add: code_def)
  then have load: "UserStore_load fs ''u'' = Ok ?st"
    using fk kn by (simp add: UserStore_load_def fs_exists_def read_dir_def load_loop_step)
      (simp add: fs_def file_name_def path_join_def load_loop_step)
  obtain fs' st' r where rem: "UserStore_remove_user fs ?st ''bob'' = (fs', st', r)" by (rule prod_cases3)
  from remove_user_revokes [OF load rem] have "set (users st') = {}" by auto
  with load rem show ?thesis unfolding fs_def Let_def by auto
qed

end
