(* ===== verification/IpPool.thy ===== *)
theory IpPool
  imports Prelude
begin

text \<open>
  The address allocator of the VPN subnet, \<^verbatim>\<open>src/crates/redpill-quic/src/ip_pool.rs\<close>, and the
  interface \<open>address_pool\<close> the server's session handlers rely on.
\<close>

record ip_pool =
  pool_base :: "u8 \<times> u8 \<times> u8"
  pool_allocated :: "u8 set"

definition IpPool_new :: "ipv4 \<Rightarrow> ip_pool" where
  "IpPool_new base =
     (case base of Ipv4Addr a b c d \<Rightarrow> \<lparr>pool_base = (a, b, c), pool_allocated = {}\<rparr>)"

text \<open>The candidates of \<open>for host in 2..=254u8\<close>, in order.\<close>

definition host_range :: "u8 list" where
  "host_range = map of_nat [2..<255]"

fun allocate_loop :: "ip_pool \<Rightarrow> u8 list \<Rightarrow> ip_pool \<times> ipv4 option" where
  "allocate_loop self [] = (self, None)"
| "allocate_loop self (host # hosts) =
     (if host \<notin> pool_allocated self then
        (case pool_base self of (a, b, c) \<Rightarrow>
           (self\<lparr>pool_allocated := insert host (pool_allocated self)\<rparr>, Some (Ipv4Addr a b c host)))
      else allocate_loop self hosts)"

definition IpPool_allocate :: "ip_pool \<Rightarrow> ip_pool \<times> ipv4 option" where
  "IpPool_allocate self = allocate_loop self host_range"

definition IpPool_release :: "ip_pool \<Rightarrow> ipv4 \<Rightarrow> ip_pool" where
  "IpPool_release self ip =
     (case (ip, pool_base self) of (Ipv4Addr a b c d, (a', b', c')) \<Rightarrow>
        if a = a' \<and> b = b' \<and> c = c' then self\<lparr>pool_allocated := pool_allocated self - {d}\<rparr> else self)"

definition IpPool_is_allocated :: "ip_pool \<Rightarrow> ipv4 \<Rightarrow> bool" where
  "IpPool_is_allocated self ip =
     (case (ip, pool_base self) of (Ipv4Addr a b c d, (a', b', c')) \<Rightarrow>
        if a = a' \<and> b = b' \<and> c = c' then d \<in> pool_allocated self else False)"

definition IpPool_len :: "ip_pool \<Rightarrow> nat" where
  "IpPool_len self = card (pool_allocated self)"

definition IpPool_is_empty :: "ip_pool \<Rightarrow> bool" where
  "IpPool_is_empty self \<longleftrightarrow> pool_allocated self = {}"

section \<open>The interface of an address pool\<close>

text \<open>
  \<open>alloc_n\<close> is a client's use of the pool: the addresses handed out by \<open>n\<close> allocations in a row.
\<close>

fun alloc_n :: "('p \<Rightarrow> 'p \<times> 'a option) \<Rightarrow> nat \<Rightarrow> 'p \<Rightarrow> 'p \<times> 'a list" where
  "alloc_n alloc 0 p = (p, [])"
| "alloc_n alloc (Suc n) p =
     (case alloc p of
        (p, None) \<Rightarrow> (p, [])
      | (p, Some a) \<Rightarrow> (case alloc_n alloc n p of (p, as) \<Rightarrow> (p, a # as)))"

locale address_pool =
  fixes alloc :: "'p \<Rightarrow> 'p \<times> 'a option"
    and release :: "'p \<Rightarrow> 'a \<Rightarrow> 'p"
    and held :: "'p \<Rightarrow> 'a set"
    and space :: "'p \<Rightarrow> 'a set"
    and invar :: "'p \<Rightarrow> bool"
  assumes finite_space: "finite (space p)"
    and held_subset: "invar p \<Longrightarrow> held p \<subseteq> space p"
    and alloc_Some: "invar p \<Longrightarrow> alloc p = (p', Some a) \<Longrightarrow>
          a \<in> space p \<and> a \<notin> held p \<and> held p' = insert a (held p) \<and> space p' = space p \<and> invar p'"
    and alloc_None: "invar p \<Longrightarrow> alloc p = (p', None) \<Longrightarrow> p' = p \<and> held p = space p"
    and release_law: "invar p \<Longrightarrow>
          held (release p a) = held p - {a} \<and> space (release p a) = space p \<and> invar (release p a)"
begin

lemma card_held_le: "invar p \<Longrightarrow> card (held p) \<le> card (space p)"
  by (rule card_mono [OF finite_space held_subset])

lemma alloc_free: "invar p \<Longrightarrow> card (held p) < card (space p) \<Longrightarrow> \<exists>p' a. alloc p = (p', Some a)"
  using alloc_None by (cases "alloc p"; cases "snd (alloc p)") auto

lemma alloc_iff_free:
  assumes inv: "invar p"
  shows "snd (alloc p) \<noteq> None \<longleftrightarrow> card (held p) < card (space p)"
proof
  assume "snd (alloc p) \<noteq> None"
  then obtain a where "alloc p = (fst (alloc p), Some a)" by (cases "alloc p") auto
  with alloc_Some [OF inv] have "a \<in> space p - held p" by blast
  with held_subset [OF inv] have "held p \<subset> space p" by blast
  then show "card (held p) < card (space p)" by (rule psubset_card_mono [OF finite_space])
qed (use alloc_free [OF inv] in auto)

lemma release_alloc:
  "invar p \<Longrightarrow> alloc p = (p', Some a) \<Longrightarrow> held (release p' a) = held p"
  using alloc_Some [of p p' a] release_law [of p' a] by auto

lemma alloc_n_law:
  "invar p \<Longrightarrow> alloc_n alloc n p = (p', as) \<Longrightarrow>
   invar p' \<and> space p' = space p \<and> held p' = held p \<union> set as \<and> distinct as
   \<and> set as \<inter> held p = {} \<and> length as = min n (card (space p) - card (held p))"
proof (induction n arbitrary: p p' as)
  case 0
  then show ?case by simp
next
  case (Suc n)
  obtain p1 r where al: "alloc p = (p1, r)" by fastforce
  show ?case
  proof (cases r)
    case None
    with al Suc.prems have "p' = p" "as = []" "held p = space p"
      using alloc_None by auto
    with Suc.prems show ?thesis by simp
  next
    case (Some a)
    obtain p2 as2 where rest: "alloc_n alloc n p1 = (p2, as2)" by fastforce
    with al Some Suc.prems have eq: "p' = p2" "as = a # as2" by auto
    from alloc_Some [OF Suc.prems(1)] al Some
    have a: "a \<in> space p" "a \<notin> held p" "held p1 = insert a (held p)" "space p1 = space p" "invar p1"
      by auto
    have fin: "finite (held p)"
      using finite_space held_subset [OF Suc.prems(1)] by (rule finite_subset [rotated])
    have "card (held p) < card (space p)"
      using a(1,2) held_subset [OF Suc.prems(1)] finite_space by (intro psubset_card_mono) auto
    with Suc.IH [OF a(5) rest] a eq fin show ?thesis by auto
  qed
qed

end

section \<open>The pool implements it\<close>

definition pool_addr :: "ip_pool \<Rightarrow> u8 \<Rightarrow> ipv4" where
  "pool_addr p h = (case pool_base p of (a, b, c) \<Rightarrow> Ipv4Addr a b c h)"

definition pool_held :: "ip_pool \<Rightarrow> ipv4 set" where
  "pool_held p = pool_addr p ` pool_allocated p"

definition pool_space :: "ip_pool \<Rightarrow> ipv4 set" where
  "pool_space p = pool_addr p ` set host_range"

definition pool_invar :: "ip_pool \<Rightarrow> bool" where
  "pool_invar p \<longleftrightarrow> pool_allocated p \<subseteq> set host_range"

lemma pool_addr_inj [simp]: "pool_addr p h = pool_addr p h' \<longleftrightarrow> h = h'"
  by (auto simp: pool_addr_def split: prod.splits)

lemma pool_addr_upd [simp]: "pool_addr (p\<lparr>pool_allocated := A\<rparr>) = pool_addr p"
  by (rule ext) (simp add: pool_addr_def)

lemma unat_of_nat_u8: "n < 256 \<Longrightarrow> unat (of_nat n :: u8) = n"
  by (simp add: unat_of_nat take_bit_eq_mod)

lemma set_host_range: "set host_range = of_nat ` {2..<255}"
  by (simp only: host_range_def set_map set_upt)

lemma length_host_range: "length host_range = 253"
  by (simp add: host_range_def del: upt_rec_numeral)

lemma host_range_iff: "h \<in> set host_range \<longleftrightarrow> 2 \<le> unat h \<and> unat h \<le> 254"
proof
  assume "h \<in> set host_range"
  then obtain n where "n \<in> {2..<255}" "h = of_nat n" unfolding set_host_range by blast
  then show "2 \<le> unat h \<and> unat h \<le> 254" by (simp add: unat_of_nat_u8)
next
  assume "2 \<le> unat h \<and> unat h \<le> 254"
  then have "h = of_nat (unat h)" "unat h \<in> {2..<255}" by auto
  then show "h \<in> set host_range" unfolding set_host_range by (rule image_eqI)
qed

lemma distinct_host_range: "distinct host_range"
proof -
  have "inj_on (of_nat :: nat \<Rightarrow> u8) {2..<255}"
  proof (rule inj_onI)
    fix x y :: nat
    assume "x \<in> {2..<255}" "y \<in> {2..<255}" and eq: "(of_nat x :: u8) = of_nat y"
    then have "x < 256" "y < 256" by auto
    moreover from eq have "unat (of_nat x :: u8) = unat (of_nat y :: u8)" by (rule arg_cong)
    ultimately show "x = y" by (simp only: unat_of_nat_u8)
  qed
  then show ?thesis by (simp only: host_range_def distinct_map distinct_upt set_upt)
qed

lemma card_pool_space: "card (pool_space p) = 253"
proof -
  have "card (set host_range) = 253"
    using distinct_card [OF distinct_host_range] by (simp only: length_host_range)
  then show ?thesis
    unfolding pool_space_def by (subst card_image) (auto intro: inj_onI)
qed

lemma allocate_loop_Some:
  "allocate_loop p hs = (p', Some ip) \<Longrightarrow>
   \<exists>h \<in> set hs. h \<notin> pool_allocated p \<and> ip = pool_addr p h
     \<and> p' = p\<lparr>pool_allocated := insert h (pool_allocated p)\<rparr>"
  by (induction p hs rule: allocate_loop.induct)
    (auto simp: pool_addr_def split: if_splits prod.splits)

lemma allocate_loop_None:
  "allocate_loop p hs = (p', None) \<Longrightarrow> p' = p \<and> set hs \<subseteq> pool_allocated p"
  by (induction p hs rule: allocate_loop.induct) (auto split: if_splits prod.splits)

lemma IpPool_release_eq:
  "IpPool_release p ip = p\<lparr>pool_allocated := {h \<in> pool_allocated p. pool_addr p h \<noteq> ip}\<rparr>"
  by (cases ip; cases p) (auto simp: IpPool_release_def pool_addr_def split: prod.splits)

interpretation pool: address_pool IpPool_allocate IpPool_release pool_held pool_space pool_invar
proof unfold_locales
  fix p :: ip_pool
  show "finite (pool_space p)" by (simp add: pool_space_def)
  show "pool_invar p \<Longrightarrow> pool_held p \<subseteq> pool_space p"
    by (auto simp: pool_invar_def pool_held_def pool_space_def)
next
  fix p p' :: ip_pool and a
  assume "pool_invar p" and "IpPool_allocate p = (p', Some a)"
  then show "a \<in> pool_space p \<and> a \<notin> pool_held p \<and> pool_held p' = insert a (pool_held p)
      \<and> pool_space p' = pool_space p \<and> pool_invar p'"
    unfolding IpPool_allocate_def
    by (auto dest!: allocate_loop_Some simp: pool_invar_def pool_held_def pool_space_def)
next
  fix p p' :: ip_pool
  assume "pool_invar p" and "IpPool_allocate p = (p', None)"
  then show "p' = p \<and> pool_held p = pool_space p"
    unfolding IpPool_allocate_def
    by (auto dest!: allocate_loop_None simp: pool_invar_def pool_held_def pool_space_def)
next
  fix p :: ip_pool and a
  assume "pool_invar p"
  then show "pool_held (IpPool_release p a) = pool_held p - {a}
      \<and> pool_space (IpPool_release p a) = pool_space p \<and> pool_invar (IpPool_release p a)"
    by (auto simp: IpPool_release_eq pool_invar_def pool_held_def pool_space_def)
qed

lemma pool_invar_new [invar_intros]: "pool_invar (IpPool_new base)"
  by (cases base) (simp add: IpPool_new_def pool_invar_def)

lemma pool_held_new: "pool_held (IpPool_new base) = {}"
  by (cases base) (simp add: IpPool_new_def pool_held_def)

lemma IpPool_is_allocated_iff: "IpPool_is_allocated p ip \<longleftrightarrow> ip \<in> pool_held p"
  by (cases ip) (auto simp: IpPool_is_allocated_def pool_held_def pool_addr_def split: prod.splits)

lemma fresh_pool_allocates:
  "IpPool_allocate (IpPool_new (Ipv4Addr a b c d))
   = (\<lparr>pool_base = (a, b, c), pool_allocated = {2}\<rparr>, Some (Ipv4Addr a b c 2))"
proof -
  obtain hs where hr: "host_range = 2 # hs" by (simp add: host_range_def upt_conv_Cons)
  show ?thesis by (simp add: IpPool_allocate_def IpPool_new_def hr)
qed

section \<open>Properties\<close>

text \<open>
  Claim C27. Allocation on every branch: an allocated address lies in the pool's /24 with host part 2 to
  254 (never the network, server or broadcast address), was not allocated before, is marked allocated
  afterwards and nothing else changes; allocation fails only when all 253 addresses are taken.
\<close>

theorem IpPool_allocate_correct:
  assumes "pool_invar p"
  shows "case IpPool_allocate p of
      (p', Some ip) \<Rightarrow>
        (\<exists>h. ip = pool_addr p h \<and> 2 \<le> unat h \<and> unat h \<le> 254) \<and> \<not> IpPool_is_allocated p ip
        \<and> (\<forall>ip'. IpPool_is_allocated p' ip' \<longleftrightarrow> ip' = ip \<or> IpPool_is_allocated p ip') \<and> pool_invar p'
    | (p', None) \<Rightarrow> p' = p \<and> card (pool_held p) = 253"
proof -
  obtain p' r where al: "IpPool_allocate p = (p', r)" by fastforce
  show ?thesis
  proof (cases r)
    case None
    with al pool.alloc_None [OF assms] show ?thesis by (simp add: card_pool_space)
  next
    case (Some ip)
    with al pool.alloc_Some [OF assms] show ?thesis
      by (auto simp: IpPool_is_allocated_iff pool_space_def host_range_iff)
  qed
qed

theorem IpPool_allocate_correct_witness:
  "\<exists>p'. IpPool_allocate (IpPool_new (Ipv4Addr 10 0 1 0)) = (p', Some (Ipv4Addr 10 0 1 2))
     \<and> IpPool_is_allocated p' (Ipv4Addr 10 0 1 2)"
proof -
  have "IpPool_allocate (IpPool_new (Ipv4Addr 10 0 1 0))
      = (\<lparr>pool_base = (10, 0, 1), pool_allocated = {2}\<rparr>, Some (Ipv4Addr 10 0 1 2))"
    by (rule fresh_pool_allocates)
  with IpPool_allocate_correct [OF pool_invar_new, of "Ipv4Addr 10 0 1 0"]
  show ?thesis by auto
qed

text \<open>
  Capacity: starting from a new pool, a run of \<open>n\<close> allocations hands out exactly
  \<open>min n 253\<close> addresses, all distinct, and they are exactly the ones marked allocated.
\<close>

theorem IpPool_serves_253:
  "case alloc_n IpPool_allocate n (IpPool_new base) of (p, ips) \<Rightarrow>
     length ips = min n 253 \<and> distinct ips \<and> pool_held p = set ips"
proof -
  obtain p ips where r: "alloc_n IpPool_allocate n (IpPool_new base) = (p, ips)" by fastforce
  from pool.alloc_n_law [OF pool_invar_new r] show ?thesis
    by (simp add: r pool_held_new card_pool_space)
qed

lemma IpPool_len_held: "IpPool_len p = card (pool_held p)"
  unfolding IpPool_len_def pool_held_def by (subst card_image) (auto intro: inj_onI)

end
