(* ===== verification/Reality.thy ===== *)
theory Reality
  imports Control Users IpPool
begin

text \<open>
  The TCP Reality front door, \<^verbatim>\<open>src/crates/redpill-quic/src/reality.rs\<close>: after the TLS handshake the
  first 66 bytes decide whether the peer is a VPN client or a probe, and a probe is relayed to a real web
  site. What the sockets do is the argument \<open>io\<close>; the result records what the server wrote to the peer and
  what it forwarded to the site, the bidirectional copy included.
\<close>

text \<open>Outcome of the first read: 66 bytes, or fewer before an error or the 5 s timeout.\<close>

datatype first_read = FullRead bytes | FailedRead bytes | TimedOut bytes

text \<open>
  The two copies of the relay, in the order in which they get on: bytes read on one side and written on the
  other, the end of the input of a side after all of it was copied, or an error. Bytes that were read but not
  written when the relay ends are in no event.
\<close>

datatype relay_side = ClientSide | TargetSide

datatype copy_event = CopyBytes bytes | CopyEof | CopyFailed

type_synonym relay_event = "relay_side \<times> copy_event"

record tcp_io =
  tls_accept :: "string + unit"
  first_read :: first_read
  write_config_ok :: bool
  target_connect_ok :: bool
  target_write_ok :: bool
  relay_io :: "relay_event list"

record reality_config =
  rc_server_ip :: ipv4
  rc_dns_ip :: ipv4
  rc_mtu :: u32

datatype reality_result = Vpn ipv4 string | Proxied | RealityError string

record reality_out =
  to_client :: bytes
  to_target :: "bytes option"
  outcome :: reality_result

text \<open>
  Both copies run until one of them is done; the result is what was written to the client and to the target.
\<close>

fun proxy_bidirectional :: "relay_event list \<Rightarrow> bytes \<times> bytes" where
  "proxy_bidirectional [] = ([], [])"
| "proxy_bidirectional ((ClientSide, CopyBytes bs) # es) = (case proxy_bidirectional es of (c, t) \<Rightarrow> (c, bs @ t))"
| "proxy_bidirectional ((TargetSide, CopyBytes bs) # es) = (case proxy_bidirectional es of (c, t) \<Rightarrow> (bs @ c, t))"
| "proxy_bidirectional ((_, CopyEof) # es) = ([], [])"
| "proxy_bidirectional ((_, CopyFailed) # es) = ([], [])"

definition proxy_with_initial_data :: "tcp_io \<Rightarrow> bytes \<Rightarrow> reality_out" where
  "proxy_with_initial_data io initial_data =
     (if \<not> target_connect_ok io then \<lparr>to_client = [], to_target = None, outcome = RealityError ''target connect''\<rparr>
      else if initial_data \<noteq> [] \<and> \<not> target_write_ok io
      then \<lparr>to_client = [], to_target = Some [], outcome = RealityError ''target write''\<rparr>
      else case proxy_bidirectional (relay_io io) of
        (c, t) \<Rightarrow> \<lparr>to_client = c, to_target = Some (initial_data @ t), outcome = Proxied\<rparr>)"

definition handle_tcp_connection ::
  "(bytes \<Rightarrow> bytes \<Rightarrow> string option) \<Rightarrow> reality_config \<Rightarrow> tcp_io \<Rightarrow> ip_pool \<Rightarrow> ip_pool \<times> reality_out" where
  "handle_tcp_connection verify_auth config io pool =
     (case tls_accept io of
        Inl e \<Rightarrow> (pool, \<lparr>to_client = [], to_target = None, outcome = RealityError ''TLS handshake''\<rparr>)
      | Inr _ \<Rightarrow>
        (case first_read io of
           FailedRead _ \<Rightarrow> (pool, proxy_with_initial_data io [])
         | TimedOut _ \<Rightarrow> (pool, proxy_with_initial_data io [])
         | FullRead auth_buf \<Rightarrow>
           (case ClientAuth_decode auth_buf of
              None \<Rightarrow> (pool, proxy_with_initial_data io auth_buf)
            | Some client_auth \<Rightarrow>
              if auth_buf ! 0 \<noteq> MSG_CLIENT_AUTH then (pool, proxy_with_initial_data io auth_buf)
              else
              (case verify_auth (ca_nonce client_auth) (ca_mac client_auth) of
                 None \<Rightarrow> (pool, proxy_with_initial_data io auth_buf)
               | Some username \<Rightarrow>
                 (case IpPool_allocate pool of
                    (pool, None) \<Rightarrow>
                      (pool, \<lparr>to_client = [], to_target = None, outcome = RealityError ''IP pool exhausted''\<rparr>)
                  | (pool, Some client_ip) \<Rightarrow>
                      let session_config =
                            \<lparr>sc_client_ip = client_ip, sc_server_ip = rc_server_ip config,
                             sc_dns_ip = rc_dns_ip config, sc_mtu = ucast (rc_mtu config),
                             sc_keepalive_secs = 10, sc_flags = 0\<rparr> in
                      if \<not> write_config_ok io
                      then (IpPool_release pool client_ip,
                            \<lparr>to_client = [], to_target = None, outcome = RealityError ''write session config''\<rparr>)
                      else (pool, \<lparr>to_client = SessionConfig_encode session_config, to_target = None,
                                   outcome = Vpn client_ip username\<rparr>))))))"

section \<open>Lemmas\<close>

text \<open>Whom an authenticator takes the sender of a buffer for.\<close>

definition accepted_as :: "(bytes \<Rightarrow> bytes \<Rightarrow> string option) \<Rightarrow> bytes \<Rightarrow> string option" where
  "accepted_as verify_auth buf =
     (case ClientAuth_decode buf of
        None \<Rightarrow> None
      | Some a \<Rightarrow> verify_auth (ca_nonce a) (ca_mac a))"

text \<open>What a side has sent through the relay, and the part of a run before one of the copies is done.\<close>

definition copied :: "relay_side \<Rightarrow> relay_event list \<Rightarrow> bytes" where
  "copied side es = concat (map (\<lambda>(s, e). case e of CopyBytes bs \<Rightarrow> if s = side then bs else [] | _ \<Rightarrow> []) es)"

definition relaying :: "relay_event list \<Rightarrow> relay_event list" where
  "relaying es = takeWhile (\<lambda>(s, e). e \<noteq> CopyEof \<and> e \<noteq> CopyFailed) es"

lemma proxy_bidirectional_copied:
  "proxy_bidirectional es = (copied TargetSide (relaying es), copied ClientSide (relaying es))"
  by (induction es rule: proxy_bidirectional.induct) (simp_all add: copied_def relaying_def)

lemma proxy_outcome:
  "outcome (proxy_with_initial_data io b) \<noteq> Vpn ip u"
  "to_client (proxy_with_initial_data io b) =
     (if outcome (proxy_with_initial_data io b) = Proxied then copied TargetSide (relaying (relay_io io)) else [])"
  by (simp_all add: proxy_with_initial_data_def proxy_bidirectional_copied)

lemma proxy_relays:
  "target_connect_ok io \<Longrightarrow> b = [] \<or> target_write_ok io \<Longrightarrow>
     proxy_with_initial_data io b =
       \<lparr>to_client = copied TargetSide (relaying (relay_io io)),
        to_target = Some (b @ copied ClientSide (relaying (relay_io io))), outcome = Proxied\<rparr>"
  by (auto simp: proxy_with_initial_data_def proxy_bidirectional_copied)

lemma handle_not_accepted:
  assumes "tls_accept io = Inr ()" "first_read io = FullRead b" "accepted_as v b = None"
  shows "handle_tcp_connection v cfg io pool = (pool, proxy_with_initial_data io b)"
  using assms by (auto simp: handle_tcp_connection_def accepted_as_def split: option.splits)

lemma handle_accepted:
  assumes "tls_accept io = Inr ()" "first_read io = FullRead b" "accepted_as v b = Some u"
  shows "handle_tcp_connection v cfg io pool =
    (case IpPool_allocate pool of
       (p, None) \<Rightarrow> (p, \<lparr>to_client = [], to_target = None, outcome = RealityError ''IP pool exhausted''\<rparr>)
     | (p, Some ip) \<Rightarrow>
         if \<not> write_config_ok io
         then (IpPool_release p ip, \<lparr>to_client = [], to_target = None, outcome = RealityError ''write session config''\<rparr>)
         else (p, \<lparr>to_client = SessionConfig_encode
                      \<lparr>sc_client_ip = ip, sc_server_ip = rc_server_ip cfg, sc_dns_ip = rc_dns_ip cfg,
                       sc_mtu = ucast (rc_mtu cfg), sc_keepalive_secs = 10, sc_flags = 0\<rparr>,
                   to_target = None, outcome = Vpn ip u\<rparr>))"
  using assms
  by (auto simp: handle_tcp_connection_def accepted_as_def Let_def
      dest: ClientAuth_decode_tag split: option.splits)

text \<open>What the connection does to the pool.\<close>

lemma handle_tcp_connection_pool:
  assumes "pool_invar pool"
  shows "case handle_tcp_connection v cfg io pool of (pool', out) \<Rightarrow>
    (case outcome out of
       Vpn ip u \<Rightarrow> IpPool_allocate pool = (pool', Some ip)
     | _ \<Rightarrow> pool_invar pool' \<and> pool_held pool' = pool_held pool)"
proof -
  obtain p r where al: "IpPool_allocate pool = (p, r)" by fastforce
  have "r = None \<Longrightarrow> p = pool" using al pool.alloc_None [OF assms] by auto
  moreover have "pool_invar (IpPool_release p ip) \<and> pool_held (IpPool_release p ip) = pool_held pool" if "r = Some ip" for ip
    using al that pool.alloc_Some [OF assms] pool.release_alloc [OF assms] pool.release_law by blast
  moreover have "(case outcome (proxy_with_initial_data io b) of
      Vpn ip u \<Rightarrow> IpPool_allocate pool = (pool, Some ip) | _ \<Rightarrow> True)" for b
    using proxy_outcome(1) by (auto split: reality_result.split)
  ultimately show ?thesis using al assms proxy_outcome(1) [of io]
    by (auto simp: handle_tcp_connection_def Let_def
        split: sum.split first_read.split option.split reality_result.split)
qed

section \<open>Properties\<close>

text \<open>
  Claim C22. Whoever does not present an accepted auth message takes no address from the pool and gets no byte but
  those of the target site, in their order; without a TLS handshake or a connection to the site it gets none. When
  the site is reached, it receives exactly this: if the first read got its 66 bytes, these bytes, in order and
  unchanged, and then what the relay copies; if the peer closed or stalled before that, only what the relay
  copies, and the bytes already read are lost.
\<close>

theorem probe_is_relayed:
  assumes "\<forall>b. first_read io = FullRead b \<longrightarrow> accepted_as v b = None"
  shows "case handle_tcp_connection v cfg io pool of (pool', out) \<Rightarrow>
    pool' = pool \<and> (\<forall>ip u. outcome out \<noteq> Vpn ip u)
    \<and> to_client out = (if outcome out = Proxied then copied TargetSide (relaying (relay_io io)) else [])
    \<and> (tls_accept io \<noteq> Inr () \<or> \<not> target_connect_ok io \<longrightarrow> to_target out = None \<and> outcome out \<noteq> Proxied)
    \<and> (tls_accept io = Inr () \<and> target_connect_ok io \<and> target_write_ok io \<longrightarrow>
         outcome out = Proxied
         \<and> to_target out = Some ((case first_read io of FullRead b \<Rightarrow> b | FailedRead b \<Rightarrow> [] | TimedOut b \<Rightarrow> [])
                                 @ copied ClientSide (relaying (relay_io io))))"
proof (cases "tls_accept io")
  case (Inr u)
  have unreached: "\<not> target_connect_ok io \<Longrightarrow> to_target (proxy_with_initial_data io b) = None \<and> outcome (proxy_with_initial_data io b) \<noteq> Proxied" for b
    by (simp add: proxy_with_initial_data_def)
  show ?thesis
  proof (cases "first_read io")
    case (FullRead b)
    with Inr assms have "handle_tcp_connection v cfg io pool = (pool, proxy_with_initial_data io b)"
      by (simp add: handle_not_accepted)
    with FullRead Inr show ?thesis using proxy_outcome [of io b] unreached [of b] by (auto simp: proxy_relays)
  qed (use Inr proxy_outcome [of io "[]"] unreached [of "[]"] in \<open>auto simp: handle_tcp_connection_def proxy_relays\<close>)
qed (simp add: handle_tcp_connection_def)

text \<open>A probe of 66 bytes, its further bytes, an answer of the site and the end of the client's input.\<close>

definition sample_probe :: "relay_event list \<Rightarrow> tcp_io" where
  "sample_probe es = \<lparr>tls_accept = Inr (), first_read = FullRead (replicate 66 0x47), write_config_ok = True,
     target_connect_ok = True, target_write_ok = True, relay_io = es\<rparr>"

definition sample_reality :: reality_config where
  "sample_reality = \<lparr>rc_server_ip = Ipv4Addr 10 0 1 1, rc_dns_ip = Ipv4Addr 1 1 1 1, rc_mtu = 1200\<rparr>"

lemma sample_probe_rejected: "\<forall>b. first_read (sample_probe es) = FullRead b \<longrightarrow> accepted_as v b = None"
  by (simp add: accepted_as_def sample_probe_def ClientAuth_decode_def control_consts)

theorem probe_is_relayed_witness:
  "let out = snd (handle_tcp_connection (\<lambda>_ _. Some ''x'') sample_reality
       (sample_probe [(ClientSide, CopyBytes [1, 2]), (TargetSide, CopyBytes [9])]) (IpPool_new (Ipv4Addr 10 0 1 0))) in
   to_target out = Some (replicate 66 0x47 @ [1, 2]) \<and> to_client out = [9]"
proof -
  let ?es = "[(ClientSide, CopyBytes [1, 2]), (TargetSide, CopyBytes [9])]"
  from probe_is_relayed [of "sample_probe ?es" "\<lambda>_ _. Some ''x''" "IpPool_new (Ipv4Addr 10 0 1 0)" sample_reality, OF sample_probe_rejected]
  show ?thesis by (auto simp: Let_def sample_probe_def copied_def relaying_def split: prod.splits)
qed

text \<open>
  The relay ends with the first direction that is done, so a peer that closes its sending side after the
  request loses the answer: whatever the target sends afterwards never reaches it.
\<close>

theorem half_close_cuts_answer:
  assumes "tls_accept io = Inr ()" "first_read io = FullRead b" "accepted_as v b = None"
    and "target_connect_ok io" "target_write_ok io"
    and run: "relay_io io = es @ (ClientSide, CopyEof) # answer" and flowing: "relaying es = es"
  shows "to_client (snd (handle_tcp_connection v cfg io pool)) = copied TargetSide es"
proof -
  have "relaying (relay_io io) = es"
    using flowing unfolding run relaying_def by (simp add: takeWhile_append)
  with assms(1-5) show ?thesis by (simp add: handle_not_accepted proxy_relays)
qed

theorem half_close_cuts_answer_witness:
  "to_client (snd (handle_tcp_connection (\<lambda>_ _. None) sample_reality
      (sample_probe [(ClientSide, CopyEof), (TargetSide, CopyBytes [0x48, 0x54, 0x54, 0x50])]) (IpPool_new (Ipv4Addr 10 0 1 0)))) = []"
proof -
  let ?io = "sample_probe [(ClientSide, CopyEof), (TargetSide, CopyBytes [0x48, 0x54, 0x54, 0x50])]"
  have "tls_accept ?io = Inr ()" "first_read ?io = FullRead (replicate 66 0x47)" "target_connect_ok ?io" "target_write_ok ?io"
    and "relay_io ?io = [] @ (ClientSide, CopyEof) # [(TargetSide, CopyBytes [0x48, 0x54, 0x54, 0x50])]"
    by (simp_all add: sample_probe_def)
  with half_close_cuts_answer [of ?io "replicate 66 0x47" "\<lambda>_ _. None" "[]"] sample_probe_rejected
  show ?thesis by (simp add: relaying_def copied_def)
qed

text \<open>
  An incomplete probe is not relayed faithfully: the bytes a peer sent before it stalled or
  closed short of 66 bytes are dropped, and the target site receives only what comes after them.
\<close>

theorem short_probe_bytes_lost:
  assumes "tls_accept io = Inr ()" "first_read io = FailedRead b \<or> first_read io = TimedOut b"
    and "target_connect_ok io"
  shows "to_target (snd (handle_tcp_connection v cfg io pool)) = Some (copied ClientSide (relaying (relay_io io)))"
  using assms by (auto simp: handle_tcp_connection_def proxy_relays)

theorem short_probe_bytes_lost_witness:
  "to_target (snd (handle_tcp_connection (\<lambda>_ _. None) sample_reality
      ((sample_probe [(ClientSide, CopyBytes [0x20])])\<lparr>first_read := TimedOut [0x47, 0x45, 0x54]\<rparr>) (IpPool_new (Ipv4Addr 10 0 1 0))))
   = Some [0x20]"
  by (subst short_probe_bytes_lost [where b = "[0x47, 0x45, 0x54]"]) (simp_all add: sample_probe_def relaying_def copied_def)

text \<open>
  An accepted client gets a usable session: on success the bytes written to it decode to a
  session configuration carrying an address that was free, is now allocated, and the server's settings,
  with no batching; on every failure the pool holds exactly the addresses it held before.
\<close>

theorem reality_client_session:
  assumes pool: "pool_invar pool" and tls: "tls_accept io = Inr ()"
    and rd: "first_read io = FullRead b" and acc: "accepted_as v b = Some u"
  shows "case handle_tcp_connection v cfg io pool of (pool', out) \<Rightarrow>
    pool_invar pool' \<and>
    (case outcome out of
       Vpn ip u' \<Rightarrow>
         u' = u \<and> ip \<notin> pool_held pool \<and> pool_held pool' = insert ip (pool_held pool)
         \<and> SessionConfig_decode (to_client out) =
             Some \<lparr>sc_client_ip = ip, sc_server_ip = rc_server_ip cfg, sc_dns_ip = rc_dns_ip cfg,
                   sc_mtu = ucast (rc_mtu cfg), sc_keepalive_secs = 10, sc_flags = 0\<rparr>
     | Proxied \<Rightarrow> False
     | RealityError e \<Rightarrow> pool_held pool' = pool_held pool \<and> to_client out = [])"
proof -
  obtain p r where al: "IpPool_allocate pool = (p, r)" by fastforce
  show ?thesis
  proof (cases r)
    case None
    with al pool.alloc_None [OF pool] pool show ?thesis by (simp add: handle_accepted [OF tls rd acc])
  next
    case (Some ip)
    with al have a: "IpPool_allocate pool = (p, Some ip)" by simp
    note A = pool.alloc_Some [OF pool a] and R = pool.release_alloc [OF pool a]
    have "pool_invar (IpPool_release p ip)" using A pool.release_law by blast
    moreover have "SessionConfig_decode (SessionConfig_encode c) = Some c" for c
      by (rule session_config_codec.decode_exact) simp
    ultimately show ?thesis using A R by (simp add: handle_accepted [OF tls rd acc] a)
  qed
qed

text \<open>An auth message and a pool to run the handlers on.\<close>

definition sample_auth :: client_auth where
  "sample_auth = \<lparr>ca_nonce = replicate 32 1, ca_mac = replicate 32 2, ca_version = 1\<rparr>"

lemma sample_auth_decodes: "ClientAuth_decode (ClientAuth_encode sample_auth) = Some sample_auth"
  by (rule client_auth_codec.decode_exact) (simp add: wf_client_auth_def sample_auth_def)

theorem reality_client_session_witness:
  "let io = \<lparr>tls_accept = Inr (), first_read = FullRead (ClientAuth_encode sample_auth), write_config_ok = True,
             target_connect_ok = True, target_write_ok = True, relay_io = []\<rparr>;
       cfg = \<lparr>rc_server_ip = Ipv4Addr 10 0 1 1, rc_dns_ip = Ipv4Addr 1 1 1 1, rc_mtu = 1200\<rparr>;
       out = snd (handle_tcp_connection (\<lambda>_ _. Some ''ann'') cfg io (IpPool_new (Ipv4Addr 10 0 1 0))) in
   outcome out = Vpn (Ipv4Addr 10 0 1 2) ''ann''
   \<and> map_option sc_client_ip (SessionConfig_decode (to_client out)) = Some (Ipv4Addr 10 0 1 2)"
proof -
  define io where "io = \<lparr>tls_accept = Inr (), first_read = FullRead (ClientAuth_encode sample_auth),
    write_config_ok = True, target_connect_ok = True, target_write_ok = True, relay_io = []\<rparr>"
  define cfg where "cfg = \<lparr>rc_server_ip = Ipv4Addr 10 0 1 1, rc_dns_ip = Ipv4Addr 1 1 1 1, rc_mtu = 1200\<rparr>"
  let ?h = "handle_tcp_connection (\<lambda>_ _. Some ''ann'') cfg io (IpPool_new (Ipv4Addr 10 0 1 0))"
  have tls: "tls_accept io = Inr ()" and rd: "first_read io = FullRead (ClientAuth_encode sample_auth)"
    by (simp_all add: io_def)
  have acc: "accepted_as (\<lambda>_ _. Some ''ann'') (ClientAuth_encode sample_auth) = Some ''ann''"
    by (simp add: accepted_as_def sample_auth_decodes)
  have out: "outcome (snd ?h) = Vpn (Ipv4Addr 10 0 1 2) ''ann''"
    by (simp add: handle_accepted [OF tls rd acc] fresh_pool_allocates) (simp add: io_def)
  with reality_client_session [OF pool_invar_new tls rd acc, where cfg = cfg, of "Ipv4Addr 10 0 1 0"]
  have "SessionConfig_decode (to_client (snd ?h)) =
      Some \<lparr>sc_client_ip = Ipv4Addr 10 0 1 2, sc_server_ip = rc_server_ip cfg, sc_dns_ip = rc_dns_ip cfg,
            sc_mtu = ucast (rc_mtu cfg), sc_keepalive_secs = 10, sc_flags = 0\<rparr>"
    by (auto split: prod.splits)
  with out show ?thesis by (simp add: Let_def io_def cfg_def)
qed

end
