(* ===== verification/Datagram.thy ===== *)
theory Datagram
  imports Prelude
begin

text \<open>
  The datagram helpers of \<^verbatim>\<open>src/crates/redpill-quic/src/datagram.rs\<close>: IP version detection, the
  source-address check of the anti-spoofing filter, destination extraction, and the write of a packet
  to the TUN device. The operating system's write call and its address-family numbers are arguments.
\<close>

definition version_nibble :: "u8 \<Rightarrow> u8" where
  "version_nibble b = drop_bit 4 b"

definition ip_version :: "bytes \<Rightarrow> u8 option" where
  "ip_version packet =
     (if packet = [] then None
      else if version_nibble (packet ! 0) = 4 then Some 4
      else if version_nibble (packet ! 0) = 6 then Some 6
      else None)"

definition validate_source_ip :: "bytes \<Rightarrow> ipv4 \<Rightarrow> bool" where
  "validate_source_ip packet expected_ip =
     (case ip_version packet of
        Some v \<Rightarrow>
          if v = 4 then
            (if length packet < 20 then False
             else Ipv4Addr (packet ! 12) (packet ! 13) (packet ! 14) (packet ! 15) = expected_ip)
          else if v = 6 then True
          else False
      | None \<Rightarrow> False)"

definition extract_dst_ipv4 :: "bytes \<Rightarrow> ipv4 option" where
  "extract_dst_ipv4 packet =
     (if length packet < 20 then None
      else if version_nibble (packet ! 0) \<noteq> 4 then None
      else Some (Ipv4Addr (packet ! 16) (packet ! 17) (packet ! 18) (packet ! 19)))"

section \<open>The same functions with every index checked\<close>

definition ip_version_chk :: "bytes \<Rightarrow> u8 option rust" where
  "ip_version_chk packet =
     (if packet = [] then Some None
      else do {
        b \<leftarrow> idx packet 0;
        Some (if version_nibble b = 4 then Some 4 else if version_nibble b = 6 then Some 6 else None)
      })"

definition validate_source_ip_chk :: "bytes \<Rightarrow> ipv4 \<Rightarrow> bool rust" where
  "validate_source_ip_chk packet expected_ip =
     do {
       v \<leftarrow> ip_version_chk packet;
       if v = Some 4 then
         (if length packet < 20 then Some False
          else do {
            a \<leftarrow> idx packet 12; b \<leftarrow> idx packet 13; c \<leftarrow> idx packet 14; d \<leftarrow> idx packet 15;
            Some (Ipv4Addr a b c d = expected_ip)
          })
       else Some (v = Some 6)
     }"

definition extract_dst_ipv4_chk :: "bytes \<Rightarrow> ipv4 option rust" where
  "extract_dst_ipv4_chk packet =
     (if length packet < 20 then Some None
      else do {
        v \<leftarrow> idx packet 0;
        if version_nibble v \<noteq> 4 then Some None
        else do {
          a \<leftarrow> idx packet 16; b \<leftarrow> idx packet 17; c \<leftarrow> idx packet 18; d \<leftarrow> idx packet 19;
          Some (Some (Ipv4Addr a b c d))
        }
      })"

section \<open>Writing to the TUN device\<close>

datatype target_os = Linux | MacOs

definition u32_to_be :: "u32 \<Rightarrow> bytes" where
  "u32_to_be w = [ucast (drop_bit 24 w), ucast (drop_bit 16 w), ucast (drop_bit 8 w), ucast w]"

text \<open>
  \<open>wr\<close> is the system's write (or writev) call on the device: it takes the device and the bytes and
  returns the device with an error, if any. \<open>AF_INET\<close> and \<open>AF_INET6\<close> are the platform's numbers.
\<close>

definition tun_frame :: "u32 \<Rightarrow> u32 \<Rightarrow> target_os \<Rightarrow> bytes \<Rightarrow> bytes" where
  "tun_frame af_inet af_inet6 os packet =
     (case os of
        Linux \<Rightarrow> packet
      | MacOs \<Rightarrow>
          (let af = (if version_nibble (packet ! 0) = 6 then af_inet6 else af_inet)
           in u32_to_be af @ packet))"

definition write_to_tun ::
  "u32 \<Rightarrow> u32 \<Rightarrow> target_os \<Rightarrow> ('d \<Rightarrow> bytes \<Rightarrow> 'd \<times> 'e option) \<Rightarrow> 'd \<Rightarrow> bytes \<Rightarrow> 'd \<times> ('e + unit)" where
  "write_to_tun af_inet af_inet6 os wr dev packet =
     (if packet = [] then (dev, Inr ())
      else case wr dev (tun_frame af_inet af_inet6 os packet) of
        (dev', Some err) \<Rightarrow> (dev', Inl err)
      | (dev', None) \<Rightarrow> (dev', Inr ()))"

section \<open>Lemmas and properties\<close>

lemma ip_version_cases:
  "ip_version p = Some v \<Longrightarrow> p \<noteq> [] \<and> (v = 4 \<or> v = 6) \<and> version_nibble (p ! 0) = v"
  by (auto simp: ip_version_def split: if_splits)

lemma slice_4: "k + 4 \<le> length xs \<Longrightarrow> slice xs k (k + 4) = [xs ! k, xs ! (k + 1), xs ! (k + 2), xs ! (k + 3)]"
  by (rule nth_equalityI) (auto simp: slice_def nth_Cons' less_Suc_eq numeral_eq_Suc)

lemma Ipv4Addr_eq_iff: "Ipv4Addr a b c d = ip \<longleftrightarrow> octets ip = [a, b, c, d]"
  by (cases ip) auto

text \<open>
  Exact behaviour of the anti-spoofing check: it accepts a packet iff it is IPv6 (by its
  version nibble), or it is IPv4, at least 20 bytes long, and bytes 12 to 15 are the session's
  assigned address. Everything else, the empty packet included, is rejected.
\<close>

theorem validate_source_ip_iff:
  "validate_source_ip p ip \<longleftrightarrow>
     0 < length p \<and>
     (version_nibble (p ! 0) = 6 \<or>
      version_nibble (p ! 0) = 4 \<and> 20 \<le> length p \<and> slice p 12 16 = octets ip)"
proof -
  have "20 \<le> length p \<Longrightarrow>
      (slice p 12 16 = octets ip \<longleftrightarrow> Ipv4Addr (p ! 12) (p ! 13) (p ! 14) (p ! 15) = ip)"
    using slice_4 [of 12 p] Ipv4Addr_eq_iff [of "p ! 12" "p ! 13" "p ! 14" "p ! 15" ip] by auto
  then show ?thesis
    by (auto simp: validate_source_ip_def ip_version_def not_less)
qed

lemma validate_source_ip_v4:
  "validate_source_ip p ip \<Longrightarrow> version_nibble (p ! 0) = 4 \<Longrightarrow>
   20 \<le> length p \<and> Ipv4Addr (p ! 12) (p ! 13) (p ! 14) (p ! 15) = ip"
  by (auto simp: validate_source_ip_def ip_version_def split: if_splits)

lemma validate_source_ip_nonempty: "validate_source_ip p ip \<Longrightarrow> p \<noteq> []"
  by (auto simp: validate_source_ip_def ip_version_def)

text \<open>An IPv4 packet is accepted for at most one address.\<close>

lemma validate_source_ip_unique:
  "validate_source_ip p ip \<Longrightarrow> validate_source_ip p ip' \<Longrightarrow> version_nibble (p ! 0) = 4 \<Longrightarrow> ip = ip'"
  using validate_source_ip_v4 by blast

lemma ip_version_no_panic [panic_free]: "ip_version_chk p = Some (ip_version p)"
  by (cases p) (simp_all add: ip_version_chk_def ip_version_def)

lemma validate_source_ip_no_panic [panic_free]:
  "validate_source_ip_chk p ip = Some (validate_source_ip p ip)"
  by (cases "length p < 20")
    (auto simp: validate_source_ip_chk_def validate_source_ip_def panic_free ip_version_def not_less)

lemma extract_dst_ipv4_no_panic [panic_free]:
  "extract_dst_ipv4_chk p = Some (extract_dst_ipv4 p)"
  by (cases "length p < 20")
    (simp_all add: extract_dst_ipv4_chk_def extract_dst_ipv4_def not_less del: length_greater_0_conv)

text \<open>On Linux the device receives the packet unchanged; on macOS it follows a 4-byte header.\<close>

lemma tun_frame_payload:
  "tun_frame ai ai6 Linux p = p"
  "drop 4 (tun_frame ai ai6 MacOs p) = p"
  by (simp_all add: tun_frame_def u32_to_be_def Let_def)

lemma write_to_tun_empty [simp]: "write_to_tun ai ai6 os wr dev [] = (dev, Inr ())"
  by (simp add: write_to_tun_def)

end
