(* ===== verification/Priority.thy ===== *)
theory Priority
  imports Datagram "HOL-Library.Sublist"
begin

text \<open>
  Traffic prioritisation, \<^verbatim>\<open>src/crates/redpill-quic/src/priority.rs\<close>: the packet classifier and the
  two-lane queue of one client. Instants are nanoseconds since an arbitrary origin and are arguments of
  the operations that read the clock (\<open>Instant::duration_since\<close> is 0 for an earlier instant, as
  subtraction on \<open>nat\<close> is). The wake-up of a waiting consumer (\<open>tokio::sync::Notify\<close>) carries no data
  and is not part of the state; \<open>pop\<close> is \<open>try_pop\<close> repeated after each wake-up.
\<close>

definition REALTIME_MAX_AGE :: nat where
  "REALTIME_MAX_AGE = 10 * 1000000"

datatype priority = Realtime | Bulk

definition classify :: "bytes \<Rightarrow> priority" where
  "classify packet =
     (if length packet < 20 then Bulk
      else if drop_bit 4 (packet ! 0) \<noteq> 4 then Bulk
      else
        let dscp = drop_bit 2 (packet ! 1) in
        if dscp = 46 then Realtime
        else
          let protocol = packet ! 9 in
          if protocol \<noteq> 17 then Bulk
          else
            let ihl = unat (packet ! 0 AND 0x0F) * 4 in
            if length packet < ihl + 4 then Bulk
            else
              let dst_port = u16_from_be (packet ! (ihl + 2)) (packet ! (ihl + 3)) in
              if dst_port = 53 then Realtime
              else if length packet < 300 then Realtime
              else Bulk)"

definition classify_chk :: "bytes \<Rightarrow> priority rust" where
  "classify_chk packet =
     (if length packet < 20 then Some Bulk
      else do {
        b0 \<leftarrow> idx packet 0;
        if drop_bit 4 b0 \<noteq> 4 then Some Bulk
        else do {
          b1 \<leftarrow> idx packet 1;
          if drop_bit 2 b1 = 46 then Some Realtime
          else do {
            protocol \<leftarrow> idx packet 9;
            if protocol \<noteq> 17 then Some Bulk
            else
              let ihl = unat (b0 AND 0x0F) * 4 in
              if length packet < ihl + 4 then Some Bulk
              else do {
                h \<leftarrow> idx packet (ihl + 2);
                l \<leftarrow> idx packet (ihl + 3);
                Some (if u16_from_be h l = 53 then Realtime
                      else if length packet < 300 then Realtime else Bulk)
              }
          }
        }
      })"

record priority_queue =
  realtime :: "(nat \<times> bytes) list"
  bulk :: "bytes list"
  capacity :: nat

definition PriorityQueue_new :: "nat \<Rightarrow> priority_queue" where
  "PriorityQueue_new cap = \<lparr>realtime = [], bulk = [], capacity = cap\<rparr>"

definition PriorityQueue_push ::
  "nat \<Rightarrow> priority_queue \<Rightarrow> bytes \<Rightarrow> priority \<Rightarrow> priority_queue \<times> bool" where
  "PriorityQueue_push now self packet prio =
     (case prio of
        Realtime \<Rightarrow>
          if length (realtime self) \<ge> capacity self div 4 then (self, False)
          else (self\<lparr>realtime := realtime self @ [(now, packet)]\<rparr>, True)
      | Bulk \<Rightarrow>
          if length (bulk self) \<ge> capacity self then (self, False)
          else (self\<lparr>bulk := bulk self @ [packet]\<rparr>, True))"

text \<open>The \<open>while let Some((ts, pkt)) = q.pop_front()\<close> loop.\<close>

fun pop_realtime :: "nat \<Rightarrow> (nat \<times> bytes) list \<Rightarrow> (nat \<times> bytes) list \<times> bytes option" where
  "pop_realtime now [] = ([], None)"
| "pop_realtime now ((ts, pkt) # q) =
     (if now - ts \<le> REALTIME_MAX_AGE then (q, Some pkt) else pop_realtime now q)"

text \<open>
  The code takes the locks of the two lanes one after the other; the definition is the pop without a push
  between the two.
\<close>

definition PriorityQueue_try_pop :: "nat \<Rightarrow> priority_queue \<Rightarrow> priority_queue \<times> bytes option" where
  "PriorityQueue_try_pop now self =
     (case pop_realtime now (realtime self) of
        (q, Some pkt) \<Rightarrow> (self\<lparr>realtime := q\<rparr>, Some pkt)
      | (q, None) \<Rightarrow>
          (case bulk self of
             [] \<Rightarrow> (self\<lparr>realtime := q\<rparr>, None)
           | pkt # b \<Rightarrow> (self\<lparr>realtime := q, bulk := b\<rparr>, Some pkt)))"

section \<open>Runs of a queue\<close>

text \<open>
  One client's queue is used by one producer and one consumer; a run is the sequence of their
  operations in the order the lane locks serialise them. The log keeps what was accepted and what was
  delivered, lane by lane.
\<close>

datatype qop = Push nat bytes priority | Pop nat

record qlog =
  accepted_rt :: "bytes list"
  accepted_bulk :: "bytes list"
  delivered_rt :: "bytes list"
  delivered_bulk :: "bytes list"

definition empty_log :: qlog where
  "empty_log = \<lparr>accepted_rt = [], accepted_bulk = [], delivered_rt = [], delivered_bulk = []\<rparr>"

fun queue_step :: "priority_queue \<times> qlog \<Rightarrow> qop \<Rightarrow> priority_queue \<times> qlog" where
  "queue_step (q, l) (Push now pkt prio) =
     (case PriorityQueue_push now q pkt prio of
        (q', ok) \<Rightarrow>
          (q', if \<not> ok then l
               else case prio of
                 Realtime \<Rightarrow> l\<lparr>accepted_rt := accepted_rt l @ [pkt]\<rparr>
               | Bulk \<Rightarrow> l\<lparr>accepted_bulk := accepted_bulk l @ [pkt]\<rparr>))"
| "queue_step (q, l) (Pop now) =
     (case PriorityQueue_try_pop now q of
        (q', None) \<Rightarrow> (q', l)
      | (q', Some pkt) \<Rightarrow>
          (q', if snd (pop_realtime now (realtime q)) = None
               then l\<lparr>delivered_bulk := delivered_bulk l @ [pkt]\<rparr>
               else l\<lparr>delivered_rt := delivered_rt l @ [pkt]\<rparr>))"

definition queue_run :: "priority_queue \<Rightarrow> qop list \<Rightarrow> priority_queue \<times> qlog" where
  "queue_run q ops = fold (\<lambda>op s. queue_step s op) ops (q, empty_log)"

section \<open>Lemmas\<close>

lemma classify_no_panic [panic_free]: "classify_chk p = Some (classify p)"
  by (cases "length p < 20")
    (simp_all add: classify_chk_def classify_def Let_def not_less del: length_greater_0_conv)

lemma pop_realtime_dropWhile:
  "pop_realtime now q =
     (case dropWhile (\<lambda>(ts, _). now - ts > REALTIME_MAX_AGE) q of
        [] \<Rightarrow> ([], None)
      | (ts, pkt) # q' \<Rightarrow> (q', Some pkt))"
  by (induction now q rule: pop_realtime.induct) auto

lemma pop_realtime_Some:
  "pop_realtime now q = (q', Some pkt) \<Longrightarrow>
   \<exists>stale ts. q = stale @ (ts, pkt) # q' \<and> now - ts \<le> REALTIME_MAX_AGE
            \<and> (\<forall>(t, _) \<in> set stale. now - t > REALTIME_MAX_AGE)"
proof (induction now q rule: pop_realtime.induct)
  case (1 now)
  then show ?case by simp
next
  case (2 now ts p q)
  show ?case
  proof (cases "now - ts \<le> REALTIME_MAX_AGE")
    case True
    with "2.prems" show ?thesis by (intro exI [of _ "[]"]) auto
  next
    case False
    with 2 obtain stale t where "q = stale @ (t, pkt) # q'" "now - t \<le> REALTIME_MAX_AGE"
      "\<forall>(t, _) \<in> set stale. now - t > REALTIME_MAX_AGE" by auto
    with False show ?thesis by (intro exI [of _ "(ts, p) # stale"]) auto
  qed
qed

lemma pop_realtime_None:
  "pop_realtime now q = (q', None) \<Longrightarrow>
   q' = [] \<and> (\<forall>(t, _) \<in> set q. now - t > REALTIME_MAX_AGE)"
  by (induction now q rule: pop_realtime.induct) (auto split: if_splits)

definition queue_invar :: "priority_queue \<Rightarrow> bool" where
  "queue_invar q \<longleftrightarrow> length (realtime q) \<le> capacity q div 4 \<and> length (bulk q) \<le> capacity q"

lemma queue_invar_new [invar_intros]: "queue_invar (PriorityQueue_new cap)"
  by (simp add: queue_invar_def PriorityQueue_new_def)

lemma queue_invar_push [invar_intros]:
  "queue_invar q \<Longrightarrow> queue_invar (fst (PriorityQueue_push now q p prio))"
  by (cases prio) (auto simp: queue_invar_def PriorityQueue_push_def)

lemma queue_capacity_push [simp]: "capacity (fst (PriorityQueue_push now q p prio)) = capacity q"
  by (cases prio) (auto simp: PriorityQueue_push_def)

lemma length_pop_realtime: "length (fst (pop_realtime now q)) \<le> length q"
  by (induction now q rule: pop_realtime.induct) auto

lemma queue_invar_pop [invar_intros]:
  assumes "queue_invar q"
  shows "queue_invar (fst (PriorityQueue_try_pop now q))"
  using assms length_pop_realtime [of now "realtime q"]
  by (auto simp: queue_invar_def PriorityQueue_try_pop_def split: prod.splits option.splits list.splits)

lemma queue_capacity_pop [simp]: "capacity (fst (PriorityQueue_try_pop now q)) = capacity q"
  by (auto simp: PriorityQueue_try_pop_def split: prod.splits option.splits list.splits)

text \<open>The invariant of a run: conservation in the bulk lane, a subsequence in the realtime lane.\<close>

definition run_invar :: "nat \<Rightarrow> priority_queue \<times> qlog \<Rightarrow> bool" where
  "run_invar cap s \<longleftrightarrow>
     (case s of (q, l) \<Rightarrow>
        queue_invar q \<and> capacity q = cap
        \<and> accepted_bulk l = delivered_bulk l @ bulk q
        \<and> subseq (delivered_rt l @ map snd (realtime q)) (accepted_rt l))"

lemma run_invar_push: "run_invar cap (q, l) \<Longrightarrow> run_invar cap (queue_step (q, l) (Push now p prio))"
  by (cases prio)
    (auto simp: run_invar_def PriorityQueue_push_def queue_invar_def
      intro: list_emb_append_mono simp flip: append_assoc)

lemma run_invar_pop:
  assumes inv: "run_invar cap (q, l)"
  shows "run_invar cap (queue_step (q, l) (Pop now))"
proof -
  obtain rt' r where pr: "pop_realtime now (realtime q) = (rt', r)" by fastforce
  from inv have q: "queue_invar (fst (PriorityQueue_try_pop now q))"
    and cap: "capacity (fst (PriorityQueue_try_pop now q)) = cap"
    by (auto simp: run_invar_def intro: queue_invar_pop)
  show ?thesis
  proof (cases r)
    case None
    with pr have "rt' = []" by (auto dest: pop_realtime_None)
    moreover have "subseq (delivered_rt l) (delivered_rt l @ map snd (realtime q))"
      by (simp add: prefix_imp_subseq)
    with inv have "subseq (delivered_rt l) (accepted_rt l)"
      by (auto simp: run_invar_def intro: subseq_order.trans)
    ultimately show ?thesis using inv pr None q cap
      by (auto simp: run_invar_def PriorityQueue_try_pop_def split: list.splits)
  next
    case (Some pkt)
    with pr obtain stale ts where rt: "realtime q = stale @ (ts, pkt) # rt'"
      by (blast dest: pop_realtime_Some)
    have "subseq (delivered_rt l @ pkt # map snd rt') (delivered_rt l @ map snd (realtime q))"
      by (simp add: rt list_emb_append_mono list_emb_append2)
    with inv have "subseq (delivered_rt l @ pkt # map snd rt') (accepted_rt l)"
      by (auto simp: run_invar_def intro: subseq_order.trans)
    then show ?thesis using inv pr Some q cap
      by (auto simp: run_invar_def PriorityQueue_try_pop_def)
  qed
qed

lemma run_invar_step: "run_invar cap s \<Longrightarrow> run_invar cap (queue_step s op)"
  by (cases s; cases op) (simp_all only: run_invar_push run_invar_pop)

lemma run_invar_run: "run_invar cap s \<Longrightarrow> run_invar cap (fold (\<lambda>op s. queue_step s op) ops s)"
  by (induction ops arbitrary: s) (simp_all add: run_invar_step)

section \<open>Properties\<close>

text \<open>
  The classifier cannot be crashed: for every byte string, of any length and with any header
  length field, all its indices are in range; and small packets other than IPv4 UDP or DSCP EF are bulk.
\<close>

theorem classify_total:
  "classify_chk p = Some (classify p)
   \<and> (classify p = Realtime \<longleftrightarrow>
        20 \<le> length p \<and> drop_bit 4 (p ! 0) = 4 \<and>
        (drop_bit 2 (p ! 1) = 46 \<or>
         p ! 9 = 17 \<and> unat (p ! 0 AND 0x0F) * 4 + 4 \<le> length p \<and>
         (length p < 300 \<or>
          u16_from_be (p ! (unat (p ! 0 AND 0x0F) * 4 + 2)) (p ! (unat (p ! 0 AND 0x0F) * 4 + 3)) = 53)))"
  by (auto simp: classify_no_panic classify_def Let_def)

text \<open>
  Claim C25. Whatever the sequence of pushes and pops on a queue created with a given capacity: the
  realtime lane never holds more than a quarter of the capacity and the bulk lane never more than the
  capacity; no accepted bulk packet is lost, duplicated or reordered; and the realtime packets
  delivered or still queued are a subsequence of those accepted (stale ones are dropped, never reordered).
\<close>

theorem queue_run_correct:
  "case queue_run (PriorityQueue_new cap) ops of (q, l) \<Rightarrow>
     length (realtime q) \<le> cap div 4 \<and> length (bulk q) \<le> cap
     \<and> accepted_bulk l = delivered_bulk l @ bulk q
     \<and> subseq (delivered_rt l @ map snd (realtime q)) (accepted_rt l)"
proof -
  have "run_invar cap (PriorityQueue_new cap, empty_log)"
    by (simp add: run_invar_def queue_invar_new empty_log_def) (simp add: PriorityQueue_new_def)
  then have "run_invar cap (queue_run (PriorityQueue_new cap) ops)"
    unfolding queue_run_def by (rule run_invar_run)
  then show ?thesis by (auto simp: run_invar_def queue_invar_def)
qed

text \<open>
  What a pop delivers: a realtime packet at most 10 ms old, with only stale packets ahead of
  it, or, only when no realtime packet in the queue is fresh, the oldest bulk packet; it delivers
  nothing only when neither lane has such a packet.
\<close>

theorem try_pop_priority:
  "(\<exists>stale ts pkt rt. realtime q = stale @ (ts, pkt) # rt \<and> now - ts \<le> REALTIME_MAX_AGE
       \<and> (\<forall>e \<in> set stale. now - fst e > REALTIME_MAX_AGE)
       \<and> PriorityQueue_try_pop now q = (q\<lparr>realtime := rt\<rparr>, Some pkt))
   \<or> ((\<forall>e \<in> set (realtime q). now - fst e > REALTIME_MAX_AGE)
       \<and> PriorityQueue_try_pop now q =
           (q\<lparr>realtime := [], bulk := tl (bulk q)\<rparr>,
            (case bulk q of [] \<Rightarrow> None | pkt # _ \<Rightarrow> Some pkt)))"
proof -
  obtain rt' r where pr: "pop_realtime now (realtime q) = (rt', r)" by fastforce
  show ?thesis
  proof (cases r)
    case None
    with pr have "rt' = []" and "\<forall>e \<in> set (realtime q). now - fst e > REALTIME_MAX_AGE"
      by (auto dest!: pop_realtime_None)
    with pr None show ?thesis
      by (intro disjI2) (auto simp: PriorityQueue_try_pop_def split: list.splits)
  next
    case (Some pkt)
    with pr obtain stale ts where rt: "realtime q = stale @ (ts, pkt) # rt'" "now - ts \<le> REALTIME_MAX_AGE"
      and st: "\<forall>(t, _) \<in> set stale. now - t > REALTIME_MAX_AGE"
      using pop_realtime_Some by blast
    from st have "\<forall>e \<in> set stale. now - fst e > REALTIME_MAX_AGE" by auto
    moreover from pr Some have "PriorityQueue_try_pop now q = (q\<lparr>realtime := rt'\<rparr>, Some pkt)"
      by (simp add: PriorityQueue_try_pop_def)
    ultimately show ?thesis using rt by blast
  qed
qed

theorem try_pop_priority_witness:
  "PriorityQueue_try_pop 30000000
     \<lparr>realtime = [(0, [1]), (25000000, [2])], bulk = [[3]], capacity = 8\<rparr>
   = (\<lparr>realtime = [], bulk = [[3]], capacity = 8\<rparr>, Some [2])"
  using try_pop_priority [of "\<lparr>realtime = [(0, [1]), (25000000, [2])], bulk = [[3]], capacity = 8\<rparr>" 30000000]
  by (auto simp: REALTIME_MAX_AGE_def Cons_eq_append_conv)

end
