(* ===== verification/Demux.thy ===== *)
theory Demux
  imports Priority
begin

text \<open>
  The demultiplexer, \<^verbatim>\<open>src/crates/redpill-quic/src/demux.rs\<close>. The router's table maps an address to a
  queue shared (\<open>Arc\<close>) with the client's sender task, so the queues live in an explicit store: a queue
  is a reference, the table holds references, and a queue taken out of the table stays in the store for
  the task that still holds it. A \<open>ClientHandle\<close> is its address; dropping it removes whatever entry
  the table has for that address.
\<close>

type_synonym qref = nat

record client_router =
  routes :: "ipv4 \<rightharpoonup> qref"
  queues :: "qref \<Rightarrow> priority_queue"
  next_ref :: qref

record client_handle =
  handle_ip :: ipv4

definition ClientRouter_new :: client_router where
  "ClientRouter_new = \<lparr>routes = Map.empty, queues = (\<lambda>_. PriorityQueue_new 0), next_ref = 0\<rparr>"

definition ClientRouter_register ::
  "client_router \<Rightarrow> ipv4 \<Rightarrow> nat \<Rightarrow> client_router \<times> client_handle \<times> qref" where
  "ClientRouter_register self client_ip buffer =
     (let q = next_ref self in
      (self\<lparr>routes := (routes self)(client_ip \<mapsto> q),
            queues := (queues self)(q := PriorityQueue_new buffer),
            next_ref := q + 1\<rparr>,
       \<lparr>handle_ip = client_ip\<rparr>, q))"

definition ClientRouter_route ::
  "nat \<Rightarrow> client_router \<Rightarrow> ipv4 \<Rightarrow> bytes \<Rightarrow> client_router \<times> bool" where
  "ClientRouter_route now self dst_ip packet =
     (case routes self dst_ip of
        Some q \<Rightarrow>
          (case PriorityQueue_push now (queues self q) packet (classify packet) of
             (queue, ok) \<Rightarrow> (self\<lparr>queues := (queues self)(q := queue)\<rparr>, ok))
      | None \<Rightarrow> (self, False))"

definition ClientRouter_len :: "client_router \<Rightarrow> nat" where
  "ClientRouter_len self = card (dom (routes self))"

definition ClientRouter_is_empty :: "client_router \<Rightarrow> bool" where
  "ClientRouter_is_empty self \<longleftrightarrow> dom (routes self) = {}"

definition ClientRouter_unregister :: "client_router \<Rightarrow> ipv4 \<Rightarrow> client_router" where
  "ClientRouter_unregister self ip = self\<lparr>routes := (routes self)(ip := None)\<rparr>"

definition ClientHandle_drop :: "client_router \<Rightarrow> client_handle \<Rightarrow> client_router" where
  "ClientHandle_drop router h = ClientRouter_unregister router (handle_ip h)"

definition queue_pop :: "nat \<Rightarrow> client_router \<Rightarrow> qref \<Rightarrow> client_router \<times> bytes option" where
  "queue_pop now self q =
     (case PriorityQueue_try_pop now (queues self q) of
        (queue, r) \<Rightarrow> (self\<lparr>queues := (queues self)(q := queue)\<rparr>, r))"

section \<open>The interface of a router\<close>

text \<open>
  What the tunnels rely on: an invariant under which different addresses have different queues, and
  routing to an address only touches its owner's queue.
\<close>

definition router_invar :: "client_router \<Rightarrow> bool" where
  "router_invar r \<longleftrightarrow>
     finite (dom (routes r)) \<and> inj_on (routes r) (dom (routes r))
     \<and> (\<forall>q \<in> ran (routes r). q < next_ref r) \<and> (\<forall>q. queue_invar (queues r q))"

definition queued :: "client_router \<Rightarrow> qref \<Rightarrow> bytes list" where
  "queued r q = map snd (realtime (queues r q)) @ bulk (queues r q)"

locale packet_router =
  fixes register :: "'r \<Rightarrow> ipv4 \<Rightarrow> nat \<Rightarrow> 'r \<times> 'h \<times> 'q"
    and route :: "nat \<Rightarrow> 'r \<Rightarrow> ipv4 \<Rightarrow> bytes \<Rightarrow> 'r \<times> bool"
    and drop_handle :: "'r \<Rightarrow> 'h \<Rightarrow> 'r"
    and owner :: "'r \<Rightarrow> ipv4 \<rightharpoonup> 'q"
    and contents :: "'r \<Rightarrow> 'q \<Rightarrow> bytes list"
    and addr :: "'h \<Rightarrow> ipv4"
    and inv :: "'r \<Rightarrow> bool"
  assumes register_law: "inv r \<Longrightarrow> register r ip n = (r', h, q) \<Longrightarrow>
        inv r' \<and> addr h = ip \<and> owner r' = (owner r)(ip \<mapsto> q) \<and> contents r' q = []
        \<and> q \<notin> ran (owner r) \<and> (\<forall>q'. q' \<noteq> q \<longrightarrow> contents r' q' = contents r q')"
    and route_law: "inv r \<Longrightarrow> route t r ip p = (r', ok) \<Longrightarrow>
        inv r' \<and> owner r' = owner r \<and>
        (if ok then \<exists>q. owner r ip = Some q \<and> set (contents r' q) = insert p (set (contents r q))
                  \<and> length (contents r' q) = length (contents r q) + 1
                  \<and> (\<forall>q'. q' \<noteq> q \<longrightarrow> contents r' q' = contents r q')
         else contents r' = contents r)"
    and drop_law: "inv r \<Longrightarrow>
        inv (drop_handle r h) \<and> owner (drop_handle r h) = (owner r)(addr h := None)
        \<and> contents (drop_handle r h) = contents r"
    and owner_inj: "inv r \<Longrightarrow> owner r ip = Some q \<Longrightarrow> owner r ip' = Some q \<Longrightarrow> ip = ip'"
begin

text \<open>A packet routed to one address never reaches the queue of another.\<close>

lemma route_isolated:
  assumes "inv r" "route t r ip p = (r', ok)" "owner r ip' = Some q" "ip' \<noteq> ip"
  shows "contents r' q = contents r q"
  using route_law [OF assms(1,2)] owner_inj [OF assms(1) assms(3)] assms(4)
  by (cases ok) (auto, metis)

text \<open>After its handle is dropped, an address gets no packet.\<close>

lemma drop_stops:
  assumes "inv r"
  shows "snd (route t (drop_handle r h) (addr h) p) = False"
proof -
  obtain r' ok where ro: "route t (drop_handle r h) (addr h) p = (r', ok)" by fastforce
  from drop_law [OF assms, of h] have inv': "inv (drop_handle r h)"
    and none: "owner (drop_handle r h) (addr h) = None" by auto
  from route_law [OF inv' ro] none ro show ?thesis by (cases ok) auto
qed

lemma drop_keeps_others:
  "inv r \<Longrightarrow> ip \<noteq> addr h \<Longrightarrow> owner (drop_handle r h) ip = owner r ip"
  using drop_law by auto

text \<open>
  A handle is known only by its address: if the address is registered again before the handle of its
  former owner is dropped, the drop removes the new owner's entry.
\<close>

lemma late_drop_unregisters:
  assumes "inv r" "register r ip n = (r1, h1, q1)" "register r1 ip n' = (r2, h2, q2)"
  shows "owner r2 ip = Some q2 \<and> owner (drop_handle r2 h1) ip = None"
  using register_law [OF assms(1,2)] register_law [OF _ assms(3)] drop_law [of r2 h1] by auto

end

section \<open>The router implements it\<close>

lemma router_invar_new [invar_intros]: "router_invar ClientRouter_new"
  by (simp add: router_invar_def ClientRouter_new_def queue_invar_new)

lemma router_invar_register [invar_intros]:
  assumes "router_invar r"
  shows "router_invar (fst (ClientRouter_register r ip n))"
proof -
  from assms have lt: "\<And>a q. routes r a = Some q \<Longrightarrow> q < next_ref r"
    by (auto simp: router_invar_def ran_def)
  then have fresh: "routes r a \<noteq> Some (next_ref r)" for a by (meson less_irrefl)
  then have "inj_on ((routes r)(ip \<mapsto> next_ref r)) (insert ip (dom (routes r)))"
    using assms by (auto simp: router_invar_def inj_on_def dom_def)
  moreover have "\<forall>q \<in> ran ((routes r)(ip \<mapsto> next_ref r)). q < next_ref r + 1"
    using lt by (auto simp: ran_def less_Suc_eq)
  ultimately show ?thesis using assms
    by (simp add: router_invar_def ClientRouter_register_def Let_def queue_invar_new)
qed

lemma router_invar_route [invar_intros]:
  assumes "router_invar r"
  shows "router_invar (fst (ClientRouter_route now r ip p))"
proof (cases "routes r ip")
  case (Some q)
  with assms queue_invar_push [of "queues r q" now p "classify p"] show ?thesis
    by (auto simp: router_invar_def ClientRouter_route_def split: prod.splits)
qed (use assms in \<open>simp add: ClientRouter_route_def\<close>)

lemma router_invar_drop [invar_intros]:
  "router_invar r \<Longrightarrow> router_invar (ClientHandle_drop r h)"
  by (auto simp: router_invar_def ClientHandle_drop_def ClientRouter_unregister_def inj_on_def ran_def)

lemma router_invar_pop [invar_intros]:
  "router_invar r \<Longrightarrow> router_invar (fst (queue_pop now r q))"
  using queue_invar_pop [of "queues r q" now]
  by (auto simp: router_invar_def queue_pop_def split: prod.splits)

lemma push_contents:
  "PriorityQueue_push now q p prio = (q', ok) \<Longrightarrow>
   (if ok then set (map snd (realtime q') @ bulk q') = insert p (set (map snd (realtime q) @ bulk q))
             \<and> length (map snd (realtime q') @ bulk q') = length (map snd (realtime q) @ bulk q) + 1
    else q' = q)"
  by (cases prio) (auto simp: PriorityQueue_push_def split: if_splits)

lemma ClientRouter_route_law:
  assumes "router_invar r" "ClientRouter_route t r ip p = (r', ok)"
  shows "routes r' = routes r \<and>
    (if ok then \<exists>q. routes r ip = Some q \<and> set (queued r' q) = insert p (set (queued r q))
              \<and> length (queued r' q) = length (queued r q) + 1
              \<and> (\<forall>q'. q' \<noteq> q \<longrightarrow> queued r' q' = queued r q')
     else queued r' = queued r)"
proof (cases "routes r ip")
  case (Some q)
  obtain queue ok' where push: "PriorityQueue_push t (queues r q) p (classify p) = (queue, ok')"
    by fastforce
  with assms(2) Some have r': "r' = r\<lparr>queues := (queues r)(q := queue)\<rparr>" and ok: "ok' = ok"
    by (auto simp: ClientRouter_route_def)
  from r' have upd: "queued r' = (queued r)(q := map snd (realtime queue) @ bulk queue)"
    by (auto simp: queued_def)
  have q: "queued r q = map snd (realtime (queues r q)) @ bulk (queues r q)"
    by (simp add: queued_def)
  show ?thesis
  proof (cases ok)
    case True
    with push_contents [OF push] ok Some r' upd q show ?thesis
      by (intro conjI) (simp, simp only: if_True, intro exI [of _ q], simp)
  next
    case False
    with push_contents [OF push] ok r' upd q show ?thesis by auto
  qed
qed (use assms(2) in \<open>auto simp: ClientRouter_route_def\<close>)

interpretation router: packet_router ClientRouter_register ClientRouter_route ClientHandle_drop
  routes queued handle_ip router_invar
proof unfold_locales
  fix r ip n r' h q
  assume inv: "router_invar r" and reg: "ClientRouter_register r ip n = (r', h, q)"
  from inv have "next_ref r \<notin> ran (routes r)" by (auto simp: router_invar_def)
  with router_invar_register [OF inv, of ip n] reg
  show "router_invar r' \<and> handle_ip h = ip \<and> routes r' = (routes r)(ip \<mapsto> q) \<and> queued r' q = []
        \<and> q \<notin> ran (routes r) \<and> (\<forall>q'. q' \<noteq> q \<longrightarrow> queued r' q' = queued r q')"
    by (auto simp: ClientRouter_register_def Let_def queued_def PriorityQueue_new_def)
next
  fix r t ip p r' ok
  assume inv: "router_invar r" and ro: "ClientRouter_route t r ip p = (r', ok)"
  from router_invar_route [OF inv, of t ip p] ro have "router_invar r'" by simp
  from this ClientRouter_route_law [OF inv ro]
  show "router_invar r' \<and> routes r' = routes r \<and>
    (if ok then \<exists>q. routes r ip = Some q \<and> set (queued r' q) = insert p (set (queued r q))
              \<and> length (queued r' q) = length (queued r q) + 1
              \<and> (\<forall>q'. q' \<noteq> q \<longrightarrow> queued r' q' = queued r q')
     else queued r' = queued r)" by (rule conjI)
next
  fix r h
  assume "router_invar r"
  then have "router_invar (ClientHandle_drop r h)" by (rule router_invar_drop)
  then show "router_invar (ClientHandle_drop r h)
      \<and> routes (ClientHandle_drop r h) = (routes r)(handle_ip h := None)
      \<and> queued (ClientHandle_drop r h) = queued r"
    by (auto simp: ClientHandle_drop_def ClientRouter_unregister_def queued_def fun_eq_iff)
next
  fix r ip q ip'
  assume "router_invar r" "routes r ip = Some q" "routes r ip' = Some q"
  then show "ip = ip'" by (auto simp: router_invar_def inj_on_def dom_def)
qed

section \<open>Properties\<close>

text \<open>
  Isolation of clients: routing a packet to one address leaves the queue of every other
  registered address as it was, reports success only when the destination is registered, and then the
  packet is in the owner's queue and nothing left it.
\<close>

theorem route_delivers_to_owner_only:
  assumes "router_invar r" and "ClientRouter_route now r dst p = (r', ok)"
  shows "routes r' = routes r
    \<and> (\<forall>ip q. routes r ip = Some q \<and> ip \<noteq> dst \<longrightarrow> queued r' q = queued r q)
    \<and> (ok \<longrightarrow> (\<exists>q. routes r dst = Some q \<and> set (queued r' q) = insert p (set (queued r q))))
    \<and> (\<not> ok \<longrightarrow> queued r' = queued r)"
  using router.route_law [OF assms] router.route_isolated [OF assms] by (cases ok) auto

theorem route_delivers_to_owner_only_witness:
  "let r = fst (ClientRouter_register
                 (fst (ClientRouter_register ClientRouter_new (Ipv4Addr 10 0 0 2) 8)) (Ipv4Addr 10 0 0 3) 8);
       r' = fst (ClientRouter_route 0 r (Ipv4Addr 10 0 0 3) [1, 2]) in
   queued r' 0 = queued r 0 \<and> queued r' 1 = [[1, 2]]"
proof -
  define r0 where "r0 = fst (ClientRouter_register ClientRouter_new (Ipv4Addr 10 0 0 2) 8)"
  define r where "r = fst (ClientRouter_register r0 (Ipv4Addr 10 0 0 3) 8)"
  have inv: "router_invar r" unfolding r_def r0_def by (intro invar_intros)
  have rts: "routes r (Ipv4Addr 10 0 0 2) = Some 0"
    by (simp add: r_def r0_def ClientRouter_register_def ClientRouter_new_def)
  have q1: "queued (fst (ClientRouter_route 0 r (Ipv4Addr 10 0 0 3) [1, 2])) 1 = [[1, 2]]"
    by (simp add: r_def r0_def ClientRouter_register_def ClientRouter_new_def ClientRouter_route_def
        queued_def PriorityQueue_push_def PriorityQueue_new_def classify_def)
  moreover from route_delivers_to_owner_only [OF inv surjective_pairing, of 0 "Ipv4Addr 10 0 0 3" "[1, 2]"]
  have "\<forall>ip q. routes r ip = Some q \<and> ip \<noteq> Ipv4Addr 10 0 0 3
      \<longrightarrow> queued (fst (ClientRouter_route 0 r (Ipv4Addr 10 0 0 3) [1, 2])) q = queued r q" by blast
  then have "queued (fst (ClientRouter_route 0 r (Ipv4Addr 10 0 0 3) [1, 2])) 0 = queued r 0"
    by (rule allE [where x = "Ipv4Addr 10 0 0 2"]) (use rts in auto)
  ultimately show ?thesis by (simp add: r_def [unfolded r0_def] Let_def)
qed

text \<open>
  A hazard of handles that carry only an address: when an address is registered again
  before the handle of its previous owner is dropped, dropping that handle removes the new owner's
  entry, and every later packet to the address is refused although its new owner is still connected.
\<close>

theorem stale_handle_unregisters_new_owner:
  assumes "router_invar r"
    and "ClientRouter_register r ip n = (r1, h1, q1)"
    and "ClientRouter_register r1 ip n = (r2, h2, q2)"
  shows "routes r2 ip = Some q2 \<and> snd (ClientRouter_route now (ClientHandle_drop r2 h1) ip p) = False"
proof -
  from router.register_law [OF assms(1,2)] have r1: "router_invar r1" and h1: "handle_ip h1 = ip" by auto
  from router.register_law [OF r1 assms(3)] have r2: "router_invar r2" by simp
  from router.late_drop_unregisters [OF assms] router.drop_stops [OF r2, of now h1 p] h1
  show ?thesis by simp
qed

theorem stale_handle_unregisters_new_owner_witness:
  "\<exists>r1 h1 q1 r2 h2 q2.
     ClientRouter_register ClientRouter_new (Ipv4Addr 10 0 0 2) 8 = (r1, h1, q1)
     \<and> ClientRouter_register r1 (Ipv4Addr 10 0 0 2) 8 = (r2, h2, q2)
     \<and> snd (ClientRouter_route 0 (ClientHandle_drop r2 h1) (Ipv4Addr 10 0 0 2) [1]) = False"
proof -
  obtain r1 h1 q1 where a: "ClientRouter_register ClientRouter_new (Ipv4Addr 10 0 0 2) 8 = (r1, h1, q1)"
    by (rule prod_cases3)
  obtain r2 h2 q2 where b: "ClientRouter_register r1 (Ipv4Addr 10 0 0 2) 8 = (r2, h2, q2)"
    by (rule prod_cases3)
  from stale_handle_unregisters_new_owner [OF router_invar_new a b, of 0 "[1]"] a b
  show ?thesis by blast
qed

end
