(* ===== verification/Shaper.thy ===== *)
theory Shaper
  imports Prelude
begin

text \<open>
  Traffic shaping, \<^verbatim>\<open>src/crates/redpill-quic/src/shaper.rs\<close>: the token bucket, the rate limiter
  with its drop counters and the adaptive shaper. All quantities are \<open>u64\<close> words, so products and sums
  wrap where the release build wraps. The operations are given twice: as what they do when no other
  thread interferes, and, for \<open>check\<close>, as the sequence of atomic accesses it performs, to be
  interleaved with those of other threads.
\<close>

definition saturating_sub :: "u64 \<Rightarrow> u64 \<Rightarrow> u64" where
  "saturating_sub a b = (if b \<le> a then a - b else 0)"

section \<open>Token bucket\<close>

record token_bucket =
  tokens :: u64
  tb_rate :: u64
  tb_burst :: u64
  last_refill :: u64

definition TokenBucket_new :: "u64 \<Rightarrow> u64 \<Rightarrow> token_bucket" where
  "TokenBucket_new r b = \<lparr>tokens = b * 1000, tb_rate = r, tb_burst = b, last_refill = 0\<rparr>"

definition TokenBucket_refill :: "u64 \<Rightarrow> token_bucket \<Rightarrow> token_bucket" where
  "TokenBucket_refill now_micros self =
     (let elapsed_micros = saturating_sub now_micros (last_refill self) in
      if elapsed_micros < 100 then self
      else
        let add = tb_rate self * elapsed_micros div 1000; mx = tb_burst self * 1000 in
        self\<lparr>last_refill := now_micros, tokens := min (tokens self + add) mx\<rparr>)"

definition TokenBucket_check :: "u64 \<Rightarrow> token_bucket \<Rightarrow> nat \<Rightarrow> token_bucket \<times> bool" where
  "TokenBucket_check now_micros self bytes =
     (if tb_rate self = 0 then (self, True)
      else
        let self = TokenBucket_refill now_micros self; cost = of_nat bytes * 1000 in
        if tokens self < cost then (self, False)
        else (self\<lparr>tokens := tokens self - cost\<rparr>, True))"

definition TokenBucket_set_rate :: "token_bucket \<Rightarrow> u64 \<Rightarrow> token_bucket" where
  "TokenBucket_set_rate self rate_bytes_per_sec =
     (let b = if rate_bytes_per_sec > 0 then rate_bytes_per_sec div 10 else 0; mx = b * 1000 in
      self\<lparr>tb_rate := rate_bytes_per_sec, tb_burst := b,
           tokens := if tokens self > mx then mx else tokens self\<rparr>)"

section \<open>Rate limiter and adaptive shaper\<close>

record rate_limiter =
  bucket :: token_bucket
  dropped_bytes :: u64
  dropped_packets :: u64

definition RateLimiter_new :: "u64 \<Rightarrow> rate_limiter" where
  "RateLimiter_new rate_mbps =
     (let rate_bytes = rate_mbps * 1000000 div 8;
          b = if rate_bytes > 0 then rate_bytes div 10 else 0 in
      \<lparr>bucket = TokenBucket_new rate_bytes b, dropped_bytes = 0, dropped_packets = 0\<rparr>)"

definition RateLimiter_check :: "u64 \<Rightarrow> rate_limiter \<Rightarrow> nat \<Rightarrow> rate_limiter \<times> bool" where
  "RateLimiter_check now self bytes =
     (case TokenBucket_check now (bucket self) bytes of
        (b, True) \<Rightarrow> (self\<lparr>bucket := b\<rparr>, True)
      | (b, False) \<Rightarrow>
          (self\<lparr>bucket := b, dropped_bytes := dropped_bytes self + of_nat bytes,
                dropped_packets := dropped_packets self + 1\<rparr>, False))"

definition RateLimiter_set_rate :: "rate_limiter \<Rightarrow> u64 \<Rightarrow> rate_limiter" where
  "RateLimiter_set_rate self r = self\<lparr>bucket := TokenBucket_set_rate (bucket self) r\<rparr>"

record adaptive_shaper =
  limiter :: rate_limiter
  base_rtt :: u64
  current_rate :: u64
  min_rate :: u64
  max_rate :: u64
  qdelay_low :: nat
  qdelay_high :: nat

definition AdaptiveShaper_new :: "u64 \<Rightarrow> adaptive_shaper" where
  "AdaptiveShaper_new max_bandwidth_mbps =
     (let mx = if max_bandwidth_mbps > 0 then max_bandwidth_mbps * 1000000 div 8 else 0;
          mn = 1000000 div 8;
          initial_rate = if mx > 0 then mx else 0 in
      \<lparr>limiter = RateLimiter_new max_bandwidth_mbps, base_rtt = - 1, current_rate = initial_rate,
       min_rate = mn, max_rate = mx, qdelay_low = 5000, qdelay_high = 25000\<rparr>)"

definition AdaptiveShaper_check :: "u64 \<Rightarrow> adaptive_shaper \<Rightarrow> nat \<Rightarrow> adaptive_shaper \<times> bool" where
  "AdaptiveShaper_check now self bytes =
     (case RateLimiter_check now (limiter self) bytes of (l, ok) \<Rightarrow> (self\<lparr>limiter := l\<rparr>, ok))"

text \<open>\<open>rtt_nanos\<close> is the measured duration; thresholds are in microseconds.\<close>

definition AdaptiveShaper_update_rtt :: "adaptive_shaper \<Rightarrow> nat \<Rightarrow> adaptive_shaper" where
  "AdaptiveShaper_update_rtt self rtt_nanos =
     (if max_rate self = 0 then self
      else
        let rtt_us = of_nat (rtt_nanos div 1000) :: u64;
            self = (if rtt_us < base_rtt self then self\<lparr>base_rtt := rtt_us\<rparr> else self);
            base = base_rtt self in
        if base = - 1 then self
        else
          let qdelay = unat (saturating_sub rtt_us base);
              current = current_rate self;
              new_rate =
                (if qdelay < qdelay_low self then min (current + current div 20) (max_rate self)
                 else if qdelay > qdelay_high self then max (current - current div 10) (min_rate self)
                 else current) in
          if new_rate \<noteq> current
          then self\<lparr>current_rate := new_rate, limiter := RateLimiter_set_rate (limiter self) new_rate\<rparr>
          else self)"

definition AdaptiveShaper_dropped_packets :: "adaptive_shaper \<Rightarrow> u64" where
  "AdaptiveShaper_dropped_packets self = dropped_packets (limiter self)"

definition AdaptiveShaper_dropped_bytes :: "adaptive_shaper \<Rightarrow> u64" where
  "AdaptiveShaper_dropped_bytes self = dropped_bytes (limiter self)"

text \<open>The smallest round-trip time seen, in nanoseconds, or none before the first measurement.\<close>

definition AdaptiveShaper_base_rtt :: "adaptive_shaper \<Rightarrow> nat option" where
  "AdaptiveShaper_base_rtt self = (if base_rtt self = - 1 then None else Some (unat (base_rtt self) * 1000))"

section \<open>The atomic steps of \<open>check\<close>\<close>

text \<open>
  Program points of a thread inside \<open>TokenBucket::check\<close> (with \<open>refill\<close> inlined), with its local
  variables. One step performs one atomic access of the shared record. A weak compare-exchange may
  fail spuriously, which the argument \<open>spurious\<close> of the step decides; the strong one of
  \<open>last_refill\<close> fails only on a mismatch.
\<close>

datatype pc =
    CheckStart u64
  | RefillStart u64
  | RefillCas u64 u64 u64
  | RefillLoad u64 u64
  | RefillLoop u64 u64 u64
  | TakeLoad u64
  | TakeLoop u64 u64
  | Returned bool u64

fun check_step :: "u64 \<Rightarrow> bool \<Rightarrow> token_bucket \<times> pc \<Rightarrow> token_bucket \<times> pc" where
  "check_step now spurious (sh, CheckStart cost) =
     (sh, if tb_rate sh = 0 then Returned True 0 else RefillStart cost)"
| "check_step now spurious (sh, RefillStart cost) =
     (let seen = last_refill sh in
      (sh, if saturating_sub now seen < 100 then TakeLoad cost else RefillCas cost seen now))"
| "check_step now spurious (sh, RefillCas cost seen now') =
     (if last_refill sh = seen
      then (sh\<lparr>last_refill := now'\<rparr>, RefillLoad cost (tb_rate sh * (now' - seen) div 1000))
      else (sh, TakeLoad cost))"
| "check_step now spurious (sh, RefillLoad cost add) = (sh, RefillLoop cost add (tokens sh))"
| "check_step now spurious (sh, RefillLoop cost add current) =
     (let new = min (current + add) (tb_burst sh * 1000) in
      if new = current then (sh, TakeLoad cost)
      else if tokens sh = current \<and> \<not> spurious then (sh\<lparr>tokens := new\<rparr>, TakeLoad cost)
      else (sh, RefillLoop cost add (tokens sh)))"
| "check_step now spurious (sh, TakeLoad cost) = (sh, TakeLoop cost (tokens sh))"
| "check_step now spurious (sh, TakeLoop cost current) =
     (if current < cost then (sh, Returned False cost)
      else if tokens sh = current \<and> \<not> spurious then (sh\<lparr>tokens := current - cost\<rparr>, Returned True cost)
      else (sh, TakeLoop cost (tokens sh)))"
| "check_step now spurious (sh, Returned ok cost) = (sh, Returned ok cost)"

text \<open>
  Any number of threads over one bucket: a schedule names, step by step, the thread that runs, the
  clock it reads and whether a weak exchange fails.
\<close>

definition threads_step :: "nat \<times> u64 \<times> bool \<Rightarrow> token_bucket \<times> pc list \<Rightarrow> token_bucket \<times> pc list" where
  "threads_step e s =
     (case (e, s) of ((i, now, spurious), (sh, ts)) \<Rightarrow>
        if i < length ts then
          (case check_step now spurious (sh, ts ! i) of (sh', t) \<Rightarrow> (sh', ts[i := t]))
        else (sh, ts))"

definition threads_run :: "(nat \<times> u64 \<times> bool) list \<Rightarrow> token_bucket \<times> pc list \<Rightarrow> token_bucket \<times> pc list" where
  "threads_run sched s = fold threads_step sched s"

text \<open>What a thread has been granted, in thousandths of a byte.\<close>

fun granted :: "pc \<Rightarrow> nat" where
  "granted (Returned True cost) = unat cost"
| "granted _ = 0"

text \<open>What a thread has taken out of the clock and not yet put into the bucket.\<close>

fun pending :: "pc \<Rightarrow> nat" where
  "pending (RefillLoad cost add) = unat add"
| "pending (RefillLoop cost add current) = unat add"
| "pending _ = 0"

section \<open>Lemmas\<close>

lemma unat_mult_less: "unat a * unat b < 2 ^ 64 \<Longrightarrow> unat (a * b :: u64) = unat a * unat b"
  by (simp add: unat_word_ariths)

lemma unat_add_less: "unat a + unat b < 2 ^ 64 \<Longrightarrow> unat (a + b :: u64) = unat a + unat b"
  by (simp add: unat_word_ariths)

lemma unat_min: "unat (min a b :: u64) = min (unat a) (unat b)"
  by (simp add: min_def word_le_nat_alt)

lemma unat_max: "unat (max a b :: u64) = max (unat a) (unat b)"
  by (simp add: max_def word_le_nat_alt)

lemma unat_saturating_sub: "unat (saturating_sub a b) = unat a - unat b"
  by (auto simp: saturating_sub_def unat_sub word_le_nat_alt)

lemma div_add_le: "(a :: nat) div k + b div k \<le> (a + b) div k"
  by (metis add_leE div_add1_eq le_add1 order_refl)

text \<open>
  The bounds under which no product or sum of the bucket wraps, up to a time \<open>h\<close> (microseconds since
  the bucket's creation).
\<close>

definition tb_fits :: "u64 \<Rightarrow> u64 \<Rightarrow> nat \<Rightarrow> bool" where
  "tb_fits r b h \<longleftrightarrow> unat r * h < 2 ^ 64 \<and> unat b * 1000 + unat r * h div 1000 < 2 ^ 64"

lemma tb_fits_burst: "tb_fits r b h \<Longrightarrow> unat (b * 1000) = unat b * 1000"
  by (auto simp: tb_fits_def unat_word_ariths)

fun pc_ok :: "u64 \<Rightarrow> u64 \<Rightarrow> nat \<Rightarrow> pc \<Rightarrow> bool" where
  "pc_ok r b h (RefillCas cost seen now) \<longleftrightarrow> seen \<le> now \<and> unat now \<le> h"
| "pc_ok r b h (RefillLoad cost add) \<longleftrightarrow> unat add \<le> unat r * h div 1000"
| "pc_ok r b h (RefillLoop cost add current) \<longleftrightarrow>
     unat add \<le> unat r * h div 1000 \<and> unat current \<le> unat b * 1000"
| "pc_ok r b h _ \<longleftrightarrow> True"

definition tb_invar :: "u64 \<Rightarrow> u64 \<Rightarrow> nat \<Rightarrow> token_bucket \<Rightarrow> bool" where
  "tb_invar r b h sh \<longleftrightarrow>
     tb_rate sh = r \<and> tb_burst sh = b \<and> unat (tokens sh) \<le> unat b * 1000 \<and> unat (last_refill sh) \<le> h"

text \<open>The credit a state holds against the clock: no step increases it by more than the clock allows.\<close>

definition clock_credit :: "token_bucket \<Rightarrow> nat" where
  "clock_credit sh = unat (tb_rate sh) * unat (last_refill sh) div 1000"

lemma refill_credit:
  assumes fits: "tb_fits r b h" and le: "seen \<le> now" "unat now \<le> h"
  shows "unat (r * (now - seen) div 1000) = unat r * (unat now - unat seen) div 1000"
    and "unat r * unat seen div 1000 + unat r * (unat now - unat seen) div 1000 \<le> unat r * unat now div 1000"
    and "unat r * (unat now - unat seen) div 1000 \<le> unat r * h div 1000"
proof -
  have sub: "unat (now - seen) = unat now - unat seen" using le by (simp add: unat_sub)
  have "unat r * (unat now - unat seen) \<le> unat r * h" using le by (intro mult_le_mono) auto
  also have "\<dots> < 2 ^ 64" using fits by (simp add: tb_fits_def)
  finally have "unat (r * (now - seen)) = unat r * (unat now - unat seen)"
    by (metis sub unat_mult_less)
  then show "unat (r * (now - seen) div 1000) = unat r * (unat now - unat seen) div 1000"
    by (simp add: unat_div)
  have "unat r * unat seen + unat r * (unat now - unat seen) = unat r * unat now"
    using le by (simp add: word_le_nat_alt flip: add_mult_distrib2)
  then show "unat r * unat seen div 1000 + unat r * (unat now - unat seen) div 1000 \<le> unat r * unat now div 1000"
    by (metis div_add_le)
  show "unat r * (unat now - unat seen) div 1000 \<le> unat r * h div 1000"
    using le by (intro div_le_mono mult_le_mono) auto
qed

lemma check_step_ok:
  assumes "tb_invar r b h sh" "pc_ok r b h t" "unat now \<le> h" "tb_fits r b h"
    and step: "check_step now sp (sh, t) = (sh', t')"
  shows "tb_invar r b h sh' \<and> pc_ok r b h t'
    \<and> unat (tokens sh') + granted t' + pending t' + clock_credit sh
        \<le> unat (tokens sh) + granted t + pending t + clock_credit sh'"
proof (cases t)
  case (RefillStart cost)
  then show ?thesis using assms
    by (auto simp: Let_def saturating_sub_def split: if_splits)
next
  case (RefillCas cost seen now')
  then show ?thesis using assms refill_credit [of r b h seen now']
    by (auto simp: tb_invar_def clock_credit_def split: if_splits)
next
  case (RefillLoop cost add current)
  have mx: "unat (b * 1000) = unat b * 1000" using assms(4) by (rule tb_fits_burst)
  have sum: "unat (current + add) = unat current + unat add"
    using assms RefillLoop by (intro unat_add_less) (auto simp: tb_fits_def)
  show ?thesis using assms RefillLoop mx sum
    by (auto simp: tb_invar_def clock_credit_def Let_def unat_min split: if_splits)
next
  case (TakeLoop cost current)
  then show ?thesis using assms
    by (auto simp: tb_invar_def clock_credit_def unat_sub word_le_nat_alt not_less split: if_splits)
qed (use assms in \<open>auto simp: tb_invar_def split: if_splits\<close>)

text \<open>Lifting to the threads: the sum of what they hold.\<close>

definition threads_invar :: "u64 \<Rightarrow> u64 \<Rightarrow> nat \<Rightarrow> token_bucket \<times> pc list \<Rightarrow> bool" where
  "threads_invar r b h s \<longleftrightarrow>
     (case s of (sh, ts) \<Rightarrow>
        tb_invar r b h sh \<and> list_all (pc_ok r b h) ts
        \<and> unat (tokens sh) + (\<Sum>t\<leftarrow>ts. granted t + pending t) \<le> unat b * 1000 + clock_credit sh)"

lemma sum_list_split:
  "i < length xs \<Longrightarrow> (\<Sum>x\<leftarrow>xs. f x) = (\<Sum>x\<leftarrow>take i xs. f x) + (f (xs ! i) + (\<Sum>x\<leftarrow>drop (Suc i) xs. f x))"
  for f :: "'a \<Rightarrow> nat"
  by (subst id_take_nth_drop [of i xs]) simp_all

lemma sum_list_set:
  "i < length xs \<Longrightarrow> (\<Sum>x\<leftarrow>xs[i := y]. f x) + f (xs ! i) = (\<Sum>x\<leftarrow>xs. f x) + f y"
  for f :: "'a \<Rightarrow> nat"
  using sum_list_split [of i "xs[i := y]" f] sum_list_split [of i xs f] by simp

lemma threads_invar_step:
  assumes "threads_invar r b h s" "tb_fits r b h" "unat now \<le> h"
  shows "threads_invar r b h (threads_step (i, now, sp) s)"
proof -
  obtain sh ts where s: "s = (sh, ts)" by fastforce
  show ?thesis
  proof (cases "i < length ts")
    case True
    obtain sh' t' where st: "check_step now sp (sh, ts ! i) = (sh', t')" by fastforce
    have inv: "tb_invar r b h sh" and pcs: "list_all (pc_ok r b h) ts"
      and sum: "unat (tokens sh) + (\<Sum>t\<leftarrow>ts. granted t + pending t) \<le> unat b * 1000 + clock_credit sh"
      using assms(1) by (auto simp: threads_invar_def s)
    from pcs True have "pc_ok r b h (ts ! i)" by (simp add: list_all_length)
    note ok = check_step_ok [OF inv this assms(3,2) st]
    have "(\<Sum>t\<leftarrow>ts[i := t']. granted t + pending t) + (granted (ts ! i) + pending (ts ! i))
        = (\<Sum>t\<leftarrow>ts. granted t + pending t) + (granted t' + pending t')"
      by (rule sum_list_set [OF True])
    with ok sum have "unat (tokens sh') + (\<Sum>t\<leftarrow>ts[i := t']. granted t + pending t) \<le> unat b * 1000 + clock_credit sh'"
      by linarith
    moreover have "list_all (pc_ok r b h) (ts[i := t'])"
      using pcs ok set_update_subset_insert [of ts i t'] by (auto simp: list_all_iff)
    ultimately show ?thesis using ok True st by (simp add: threads_step_def threads_invar_def s)
  qed (use assms in \<open>simp add: threads_step_def s\<close>)
qed

lemma threads_invar_run:
  "threads_invar r b h s \<Longrightarrow> tb_fits r b h \<Longrightarrow> \<forall>(i, now, sp) \<in> set sched. unat now \<le> h \<Longrightarrow>
   threads_invar r b h (threads_run sched s)"
proof (induction sched arbitrary: s)
  case (Cons e sched)
  obtain i now sp where e: "e = (i, now, sp)" by (rule prod_cases3)
  from Cons.prems have "threads_invar r b h (threads_step e s)"
    by (auto simp: e intro: threads_invar_step)
  with Cons show ?case by (simp add: threads_run_def)
qed (simp add: threads_run_def)

text \<open>Each thread keeps asking for what it asked for.\<close>

fun pc_cost :: "pc \<Rightarrow> u64" where
  "pc_cost (CheckStart cost) = cost"
| "pc_cost (RefillStart cost) = cost"
| "pc_cost (RefillCas cost _ _) = cost"
| "pc_cost (RefillLoad cost _) = cost"
| "pc_cost (RefillLoop cost _ _) = cost"
| "pc_cost (TakeLoad cost) = cost"
| "pc_cost (TakeLoop cost _) = cost"
| "pc_cost (Returned _ cost) = cost"

lemma check_step_cost:
  "tb_rate sh \<noteq> 0 \<Longrightarrow> check_step now sp (sh, t) = (sh', t') \<Longrightarrow> tb_rate sh' = tb_rate sh \<and> pc_cost t' = pc_cost t"
  by (cases t) (auto simp: Let_def split: if_splits)

lemma threads_run_cost:
  "tb_rate (fst s) \<noteq> 0 \<Longrightarrow> map pc_cost (snd (threads_run sched s)) = map pc_cost (snd s)"
proof (induction sched arbitrary: s)
  case (Cons e sched)
  obtain i now sp sh ts where es: "e = (i, now, sp)" "s = (sh, ts)" by (metis prod_cases3 surj_pair)
  obtain sh' t' where st: "check_step now sp (sh, ts ! i) = (sh', t')" by fastforce
  have "tb_rate (fst (threads_step e s)) \<noteq> 0 \<and> map pc_cost (snd (threads_step e s)) = map pc_cost ts"
    using check_step_cost [OF _ st] Cons.prems st
    by (auto simp: threads_step_def es map_update list_update_same_conv)
  with Cons.IH [of "threads_step e s"] show ?case by (simp add: threads_run_def es)
qed (simp add: threads_run_def)

lemma granted_bound:
  assumes inv: "threads_invar r b h (sh, ts)"
  shows "(\<Sum>t\<leftarrow>ts. granted t) \<le> unat b * 1000 + unat r * h div 1000"
proof -
  have "(\<Sum>t\<leftarrow>ts. granted t) \<le> (\<Sum>t\<leftarrow>ts. granted t + pending t)" by (rule sum_list_mono) simp
  also have "\<dots> \<le> unat b * 1000 + clock_credit sh" using inv by (auto simp: threads_invar_def)
  also have "clock_credit sh \<le> unat r * h div 1000"
    using inv by (auto simp: threads_invar_def tb_invar_def clock_credit_def intro!: div_le_mono)
  finally show ?thesis by simp
qed

lemma threads_invar_init:
  assumes "tb_fits r b h"
  shows "threads_invar r b h (TokenBucket_new r b, map (\<lambda>n. CheckStart (of_nat n * 1000)) sizes)"
proof -
  have "(\<Sum>t\<leftarrow>map (\<lambda>n. CheckStart (of_nat n * 1000)) sizes. granted t + pending t) = 0"
    by (induction sizes) simp_all
  then show ?thesis using tb_fits_burst [OF assms]
    by (auto simp: threads_invar_def tb_invar_def TokenBucket_new_def clock_credit_def list_all_iff)
qed

section \<open>Properties\<close>

text \<open>
  Claim C21. The rate limit holds under concurrency: whatever the number of threads calling \<open>check\<close> on
  one bucket, however their atomic accesses interleave and whichever weak exchanges fail spuriously,
  the bytes admitted up to time \<open>h\<close> (microseconds) are at most the burst plus rate times time,
  as long as no product overflows.
\<close>

theorem concurrent_rate_bound:
  assumes fits: "tb_fits r b h" and r: "r \<noteq> 0"
    and clock: "\<forall>(i, now, sp) \<in> set sched. unat now \<le> h"
    and sizes: "\<forall>n \<in> set sizes. n * 1000 < 2 ^ 64"
    and run: "threads_run sched (TokenBucket_new r b, map (\<lambda>n. CheckStart (of_nat n * 1000)) sizes) = (sh, ts)"
  shows "1000 * (\<Sum>i | i < length sizes \<and> (\<exists>c. ts ! i = Returned True c). sizes ! i)
           \<le> unat b * 1000 + unat r * h div 1000
    \<and> unat (tokens sh) \<le> unat b * 1000"
proof -
  let ?init = "(TokenBucket_new r b, map (\<lambda>n. CheckStart (of_nat n * 1000)) sizes)"
  have inv: "threads_invar r b h (sh, ts)"
    using threads_invar_run [OF threads_invar_init [OF fits] fits clock, of sizes] by (simp add: run)
  have costs: "map pc_cost ts = map (\<lambda>n. of_nat n * 1000) sizes"
    using threads_run_cost [of ?init sched] r unfolding run by (simp add: TokenBucket_new_def comp_def)
  then have len: "length ts = length sizes" by (metis length_map)
  have g: "granted (ts ! i) = 1000 * sizes ! i" if "i < length sizes" "ts ! i = Returned True c" for i c
  proof -
    from that len costs have "c = of_nat (sizes ! i) * 1000" by (metis nth_map pc_cost.simps(8))
    moreover have "sizes ! i * 1000 < 2 ^ 64" using sizes that by simp
    ultimately show ?thesis using that by (simp add: unat_word_ariths unat_of_nat take_bit_eq_mod)
  qed
  let ?A = "{i. i < length sizes \<and> (\<exists>c. ts ! i = Returned True c)}"
  have "1000 * (\<Sum>i \<in> ?A. sizes ! i) = (\<Sum>i \<in> ?A. granted (ts ! i))"
    unfolding sum_distrib_left using g by (intro sum.cong) (auto simp del: granted.simps)
  also have "\<dots> \<le> (\<Sum>i \<in> {0..<length ts}. granted (ts ! i))" by (rule sum_mono2) (auto simp: len)
  also have "\<dots> = (\<Sum>t\<leftarrow>ts. granted t)" by (simp add: sum_list_sum_nth)
  also have "\<dots> \<le> unat b * 1000 + unat r * h div 1000" by (rule granted_bound [OF inv])
  finally show ?thesis using inv by (simp add: threads_invar_def tb_invar_def)
qed

text \<open>The schedule of the witness: two threads take turns, so that one exchange fails and is retried.\<close>

definition two_takers :: "(nat \<times> u64 \<times> bool) list" where
  "two_takers = [(0, 0, False), (1, 0, False), (0, 0, False), (1, 0, False), (0, 0, False), (1, 0, False),
                 (0, 0, False), (1, 0, False), (1, 0, False)]"

lemma two_takers_run:
  "threads_run two_takers (TokenBucket_new 10000 1000, map (\<lambda>n. CheckStart (of_nat n * 1000)) [600, 700])
   = (\<lparr>tokens = 400000, tb_rate = 10000, tb_burst = 1000, last_refill = 0\<rparr>, [Returned True 600000, Returned False 700000])"
  by (simp add: threads_run_def two_takers_def threads_step_def TokenBucket_new_def saturating_sub_def)

theorem concurrent_rate_bound_witness:
  "\<exists>sh ts. threads_run two_takers (TokenBucket_new 10000 1000, map (\<lambda>n. CheckStart (of_nat n * 1000)) [600, 700]) = (sh, ts)
     \<and> ts ! 0 = Returned True 600000 \<and> ts ! 1 = Returned False 700000
     \<and> 1000 * (\<Sum>i | i < length [600, 700 :: nat] \<and> (\<exists>c. ts ! i = Returned True c). [600, 700 :: nat] ! i) \<le> 1000 * 1000"
proof -
  have "tb_fits 10000 1000 0" by (simp add: tb_fits_def)
  from concurrent_rate_bound [OF this _ _ _ two_takers_run] show ?thesis
    unfolding two_takers_run by (auto simp: two_takers_def)
qed

text \<open>
  Without interference the atomic steps of \<open>check\<close> do what the sequential definition says:
  eight steps of a thread running alone bring it to its return, with the same bucket and answer.
\<close>

theorem check_alone:
  "\<exists>c. (check_step now False ^^ 8) (sh, CheckStart (of_nat bytes * 1000))
     = (fst (TokenBucket_check now sh bytes), Returned (snd (TokenBucket_check now sh bytes)) c)"
proof (cases "saturating_sub now (last_refill sh) < 100")
  case True
  then show ?thesis
    by (auto simp: TokenBucket_check_def TokenBucket_refill_def Let_def numeral_eq_Suc)
next
  case False
  define new where
    "new = min (tokens sh + tb_rate sh * (now - last_refill sh) div 1000) (tb_burst sh * 1000)"
  from False have sub: "saturating_sub now (last_refill sh) = now - last_refill sh"
    by (auto simp: saturating_sub_def split: if_splits)
  have check: "TokenBucket_check now sh bytes =
      (if tb_rate sh = 0 then (sh, True)
       else if new < of_nat bytes * 1000 then (sh\<lparr>last_refill := now, tokens := new\<rparr>, False)
       else (sh\<lparr>last_refill := now, tokens := new - of_nat bytes * 1000\<rparr>, True))"
    using False by (simp add: TokenBucket_check_def TokenBucket_refill_def Let_def sub flip: new_def)
  have "new = tokens sh \<Longrightarrow> sh\<lparr>last_refill := now, tokens := new\<rparr> = sh\<lparr>last_refill := now\<rparr>" by simp
  then show ?thesis unfolding check using False
    by (cases "tb_rate sh = 0"; cases "new = tokens sh"; cases "new < of_nat bytes * 1000")
      (simp_all add: Let_def numeral_eq_Suc sub flip: new_def)
qed

text \<open>The adaptive shaper's invariant: the configured limits, and the bucket follows the current rate.\<close>

definition shaper_invar :: "adaptive_shaper \<Rightarrow> bool" where
  "shaper_invar a \<longleftrightarrow>
     (if max_rate a = 0 then tb_rate (bucket (limiter a)) = 0
      else min_rate a = 125000 \<and> unat (max_rate a) \<le> 125000000000000
        \<and> 125000 \<le> unat (current_rate a) \<and> unat (current_rate a) \<le> unat (max_rate a)
        \<and> tb_rate (bucket (limiter a)) = current_rate a
        \<and> tb_burst (bucket (limiter a)) = current_rate a div 10
        \<and> unat (tokens (bucket (limiter a))) \<le> unat (current_rate a div 10) * 1000)"

text \<open>Bandwidths (Mbps) for which none of the products of the shaper wraps.\<close>

definition mbps_fits :: "u64 \<Rightarrow> bool" where
  "mbps_fits m \<longleftrightarrow> unat m \<le> 1000000000"

lemma max_rate_new: "max_rate (AdaptiveShaper_new m) = m * 1000000 div 8"
  by (auto simp: AdaptiveShaper_new_def Let_def word_gt_0)

lemma mbps_bytes: "mbps_fits m \<Longrightarrow> unat (m * 1000000 div 8) = unat m * 125000"
proof -
  assume "mbps_fits m"
  then have "unat m * unat (1000000 :: u64) < 2 ^ 64" by (simp add: mbps_fits_def)
  then have "unat (m * 1000000) = unat m * unat (1000000 :: u64)" by (rule unat_mult_less)
  then show ?thesis by (simp add: unat_div)
qed

lemma shaper_invar_new:
  assumes "mbps_fits m"
  shows "shaper_invar (AdaptiveShaper_new m)"
proof -
  let ?r = "m * 1000000 div 8 :: u64"
  have bytes: "unat ?r = unat m * 125000" by (rule mbps_bytes [OF assms])
  have burst: "unat (?r div 10 * 1000) = unat (?r div 10) * 1000"
  proof -
    have "unat (?r div 10) * unat (1000 :: u64) < 2 ^ 64"
      using assms bytes by (simp add: unat_div mbps_fits_def)
    then have "unat (?r div 10 * 1000) = unat (?r div 10) * unat (1000 :: u64)" by (rule unat_mult_less)
    then show ?thesis by simp
  qed
  have "m \<noteq> 0 \<Longrightarrow> 125000 \<le> unat ?r" using bytes by (cases "unat m") (simp_all add: word_le_nat_alt unat_eq_0)
  moreover have "?r = 0 \<longleftrightarrow> m = 0" using bytes by (metis mult_is_0 unat_eq_zero zero_neq_numeral)
  moreover have "unat ?r \<le> 125000000000000" using bytes assms by (simp add: mbps_fits_def)
  ultimately show ?thesis using burst
    by (auto simp: shaper_invar_def AdaptiveShaper_new_def RateLimiter_new_def TokenBucket_new_def Let_def word_gt_0)
qed

lemma burst_fits: "unat r \<le> 125000000000000 \<Longrightarrow> unat (r div 10 * 1000 :: u64) = unat (r div 10) * 1000"
proof -
  assume "unat r \<le> 125000000000000"
  then have "unat (r div 10) * unat (1000 :: u64) < 2 ^ 64" by (simp add: unat_div)
  then have "unat (r div 10 * 1000) = unat (r div 10) * unat (1000 :: u64)" by (rule unat_mult_less)
  then show ?thesis by simp
qed

lemma set_rate_bucket:
  assumes "125000 \<le> unat r" "unat r \<le> 125000000000000"
  shows "tb_rate (TokenBucket_set_rate t r) = r" "tb_burst (TokenBucket_set_rate t r) = r div 10"
    "unat (tokens (TokenBucket_set_rate t r)) \<le> unat (r div 10) * 1000"
  using assms burst_fits [OF assms(2)]
  by (auto simp: TokenBucket_set_rate_def Let_def word_gt_0 word_less_nat_alt not_less)

text \<open>The three possible rates after a measurement.\<close>

lemma new_rate_bounds:
  fixes c m :: u64
  assumes "125000 \<le> unat c" "unat c \<le> unat m" "unat m \<le> 125000000000000"
  shows "unat (min (c + c div 20) m) = min (unat c + unat c div 20) (unat m)"
    and "unat (max (c - c div 10) 125000) = max (unat c - unat c div 10) 125000"
proof -
  have "unat (c + c div 20) = unat c + unat (c div 20)"
    using assms by (intro unat_add_less) (simp add: unat_div)
  then show "unat (min (c + c div 20) m) = min (unat c + unat c div 20) (unat m)"
    by (simp add: unat_min unat_div)
  have "c div 10 \<le> c" by (simp add: word_le_nat_alt unat_div)
  then show "unat (max (c - c div 10) 125000) = max (unat c - unat c div 10) 125000"
    by (simp add: unat_max unat_sub unat_div)
qed

lemma shaper_invar_update_rtt:
  assumes inv: "shaper_invar a"
  shows "shaper_invar (AdaptiveShaper_update_rtt a rtt) \<and> max_rate (AdaptiveShaper_update_rtt a rtt) = max_rate a"
proof (cases "max_rate a = 0")
  case False
  with inv have lims: "min_rate a = 125000" "unat (max_rate a) \<le> 125000000000000"
    "125000 \<le> unat (current_rate a)" "unat (current_rate a) \<le> unat (max_rate a)"
    by (auto simp: shaper_invar_def)
  note nr = new_rate_bounds [OF lims(3,4,2)]
  have key: "shaper_invar (a'\<lparr>current_rate := n, limiter := RateLimiter_set_rate (limiter a') n\<rparr>)"
    if "125000 \<le> unat n" "unat n \<le> unat (max_rate a)" "max_rate a' = max_rate a" "min_rate a' = 125000" for n a'
  proof -
    have "unat n \<le> 125000000000000" using that lims by simp
    from set_rate_bucket [OF that(1) this] that lims False show ?thesis
      by (simp add: shaper_invar_def RateLimiter_set_rate_def)
  qed
  have low: "125000 \<le> unat (min (current_rate a + current_rate a div 20) (max_rate a))"
     "unat (min (current_rate a + current_rate a div 20) (max_rate a)) \<le> unat (max_rate a)"
    using lims unfolding nr(1) by auto
  have high: "125000 \<le> unat (max (current_rate a - current_rate a div 10) 125000)"
     "unat (max (current_rate a - current_rate a div 10) 125000) \<le> unat (max_rate a)"
    using lims unfolding nr(2) by auto
  have same: "shaper_invar (a\<lparr>base_rtt := x\<rparr>)" for x using inv by (simp add: shaper_invar_def)
  show ?thesis
    using inv same lims False key [OF low, of a] key [OF high, of a]
      key [OF low, of "a\<lparr>base_rtt := of_nat (rtt div 1000)\<rparr>"]
      key [OF high, of "a\<lparr>base_rtt := of_nat (rtt div 1000)\<rparr>"]
    by (simp add: AdaptiveShaper_update_rtt_def Let_def)
qed (use inv in \<open>simp add: AdaptiveShaper_update_rtt_def\<close>)

lemma check_bucket:
  assumes "TokenBucket_check now t n = (t', ok)" "unat (tokens t) \<le> unat (tb_burst t * 1000)"
  shows "tb_rate t' = tb_rate t" "tb_burst t' = tb_burst t" "unat (tokens t') \<le> unat (tb_burst t * 1000)"
    "tb_rate t = 0 \<Longrightarrow> ok"
proof -
  have refill: "unat (tokens (TokenBucket_refill now t)) \<le> unat (tb_burst t * 1000)"
    "tb_rate (TokenBucket_refill now t) = tb_rate t" "tb_burst (TokenBucket_refill now t) = tb_burst t"
    using assms(2) by (auto simp: TokenBucket_refill_def Let_def unat_min)
  have sub: "unat (tokens (TokenBucket_refill now t) - c) \<le> unat (tb_burst t * 1000)"
    if "\<not> tokens (TokenBucket_refill now t) < c" for c
    using that refill(1) by (simp add: unat_sub not_less)
  from refill assms show "tb_rate t' = tb_rate t" "tb_burst t' = tb_burst t"
    "unat (tokens t') \<le> unat (tb_burst t * 1000)" "tb_rate t = 0 \<Longrightarrow> ok"
    by (auto simp: TokenBucket_check_def Let_def split: if_splits intro: sub)
qed

lemma shaper_invar_check:
  assumes inv: "shaper_invar a" and chk: "AdaptiveShaper_check now a n = (a', ok)"
  shows "shaper_invar a' \<and> max_rate a' = max_rate a \<and> (max_rate a = 0 \<longrightarrow> ok)"
proof -
  obtain t' ok' where t: "TokenBucket_check now (bucket (limiter a)) n = (t', ok')" by fastforce
  with chk have a': "max_rate a' = max_rate a" "min_rate a' = min_rate a" "current_rate a' = current_rate a"
    "bucket (limiter a') = t'" "ok = ok'"
    by (auto simp: AdaptiveShaper_check_def RateLimiter_check_def split: bool.splits)
  show ?thesis
  proof (cases "max_rate a = 0")
    case True
    with inv t have "t' = bucket (limiter a)" "ok'"
      by (auto simp: shaper_invar_def TokenBucket_check_def)
    with True inv a' show ?thesis by (auto simp: shaper_invar_def)
  next
    case False
    let ?b = "bucket (limiter a)"
    from False inv have "unat (tb_burst ?b * 1000) = unat (current_rate a div 10) * 1000"
      and "unat (tokens ?b) \<le> unat (current_rate a div 10) * 1000"
      by (auto simp: shaper_invar_def intro!: burst_fits)
    with check_bucket [OF t] False inv a' show ?thesis by (auto simp: shaper_invar_def)
  qed
qed

text \<open>A history of the shaper: measurements and packets in any order.\<close>

datatype shaper_op = Measure nat | Packet u64 nat

fun shaper_step :: "adaptive_shaper \<Rightarrow> shaper_op \<Rightarrow> adaptive_shaper" where
  "shaper_step a (Measure rtt) = AdaptiveShaper_update_rtt a rtt"
| "shaper_step a (Packet now n) = fst (AdaptiveShaper_check now a n)"

lemma shaper_run_invar:
  "shaper_invar a \<Longrightarrow> shaper_invar (foldl shaper_step a ops) \<and> max_rate (foldl shaper_step a ops) = max_rate a"
proof (induction ops rule: rev_induct)
  case (snoc op ops)
  then show ?case
    using shaper_invar_update_rtt [of "foldl shaper_step a ops"]
      shaper_invar_check [of "foldl shaper_step a ops", OF _ surjective_pairing]
    by (cases op) auto
qed simp

text \<open>
  The adaptive rate stays inside its limits: after any sequence of RTT measurements and packet
  checks, a shaper configured with a bandwidth of 1 to 1000000000 Mbps has a current rate between 1 Mbps
  and the configured bandwidth, its bucket runs at that rate with a tenth of it as burst, and the tokens
  never exceed the burst; a shaper configured with 0 admits every packet.
\<close>

theorem shaper_stays_in_limits:
  assumes "mbps_fits m"
  shows "let a = foldl shaper_step (AdaptiveShaper_new m) ops; b = bucket (limiter a) in
    (m \<noteq> 0 \<longrightarrow> 125000 \<le> unat (current_rate a) \<and> unat (current_rate a) \<le> unat m * 125000
       \<and> tb_rate b = current_rate a \<and> unat (tb_burst b) = unat (current_rate a) div 10
       \<and> unat (tokens b) \<le> unat (tb_burst b) * 1000)
    \<and> (m = 0 \<longrightarrow> snd (AdaptiveShaper_check now a n))"
proof -
  let ?a = "foldl shaper_step (AdaptiveShaper_new m) ops"
  from shaper_run_invar [OF shaper_invar_new [OF assms], of ops]
  have inv: "shaper_invar ?a" and mx: "max_rate ?a = m * 1000000 div 8" by (auto simp: max_rate_new)
  have r: "unat (max_rate ?a) = unat m * 125000" using mbps_bytes [OF assms] mx by simp
  then have "m \<noteq> 0 \<Longrightarrow> max_rate ?a \<noteq> 0" by (metis mult_is_0 unat_eq_zero unat_0 zero_neq_numeral)
  moreover have "m = 0 \<Longrightarrow> snd (AdaptiveShaper_check now ?a n)"
    using shaper_invar_check [OF inv surjective_pairing, of now n] mx by simp
  ultimately show ?thesis using inv r by (auto simp: Let_def shaper_invar_def unat_div)
qed

theorem shaper_stays_in_limits_witness:
  "let a = foldl shaper_step (AdaptiveShaper_new 100) [Measure 10000000, Measure 60000000, Packet 50 1400] in
   125000 \<le> unat (current_rate a) \<and> unat (current_rate a) \<le> 100 * 125000"
  using shaper_stays_in_limits [of 100 "[Measure 10000000, Measure 60000000, Packet 50 1400]"]
  by (simp add: mbps_fits_def Let_def)

text \<open>
  What the shaper reports. The round-trip times measured in a history, in microseconds, and the packets
  it refused.
\<close>

definition measured :: "shaper_op list \<Rightarrow> nat list" where
  "measured ops = concat (map (\<lambda>p. case p of Measure rtt \<Rightarrow> [rtt div 1000] | Packet _ _ \<Rightarrow> []) ops)"

fun refused :: "adaptive_shaper \<Rightarrow> shaper_op list \<Rightarrow> nat list" where
  "refused a [] = []"
| "refused a (op # ops) =
     (case op of Packet now n \<Rightarrow> if snd (AdaptiveShaper_check now a n) then [] else [n] | Measure _ \<Rightarrow> [])
     @ refused (shaper_step a op) ops"

lemma base_rtt_update:
  "max_rate a \<noteq> 0 \<Longrightarrow> base_rtt (AdaptiveShaper_update_rtt a rtt) = min (base_rtt a) (of_nat (rtt div 1000))"
  by (cases "of_nat (rtt div 1000) < base_rtt a")
    (auto simp: AdaptiveShaper_update_rtt_def Let_def min.absorb1 min.absorb4 not_less if_distrib [of base_rtt]
      word_order.extremum_strict cong: if_cong)

lemma base_rtt_run:
  "shaper_invar a \<Longrightarrow> max_rate a \<noteq> 0 \<Longrightarrow>
   base_rtt (foldl shaper_step a ops) = foldl min (base_rtt a) (map of_nat (measured ops))"
proof (induction ops arbitrary: a)
  case (Cons op ops)
  show ?case
  proof (cases op)
    case (Measure rtt)
    with Cons.IH [of "AdaptiveShaper_update_rtt a rtt"] shaper_run_invar [OF Cons.prems(1), of "[op]"] Cons.prems(2)
    show ?thesis by (simp add: measured_def base_rtt_update)
  next
    case (Packet now n)
    have "base_rtt (fst (AdaptiveShaper_check now a n)) = base_rtt a"
      by (simp add: AdaptiveShaper_check_def split: prod.splits)
    with Packet Cons.IH [of "fst (AdaptiveShaper_check now a n)"] shaper_run_invar [OF Cons.prems(1), of "[op]"] Cons.prems(2)
    show ?thesis by (simp add: measured_def)
  qed
qed (simp add: measured_def)

lemma fold_min_word:
  fixes x :: u64
  assumes "\<forall>r \<in> set rs. r < 2 ^ 64"
  shows "unat (foldl min x (map of_nat rs)) = Min (insert (unat x) (set rs))"
  using assms
proof (induction rs arbitrary: x)
  case (Cons r rs)
  have r: "unat (of_nat r :: u64) = r" using Cons.prems by (simp add: unat_of_nat)
  have "unat (min x (of_nat r)) = min (unat x) r" by (simp add: unat_min r)
  with Cons show ?case by (cases "rs = []") (simp_all add: insert_commute min.assoc)
qed simp

text \<open>
  The base round-trip time of a shaper with a bandwidth is the least one measured, in any history of
  measurements and packets whose measurements fit in 64 bits of microseconds.
\<close>

theorem base_rtt_least:
  assumes "mbps_fits m" "m \<noteq> 0" "measured ops \<noteq> []" "\<forall>r \<in> set (measured ops). r < 2 ^ 64 - 1"
  shows "AdaptiveShaper_base_rtt (foldl shaper_step (AdaptiveShaper_new m) ops) = Some (Min (set (measured ops)) * 1000)"
proof -
  let ?a = "AdaptiveShaper_new m" and ?M = "Min (set (measured ops))"
  have inv: "shaper_invar ?a" by (rule shaper_invar_new [OF assms(1)])
  have "unat (max_rate ?a) = unat m * 125000" using mbps_bytes [OF assms(1)] by (simp add: max_rate_new)
  with assms(2) have mx: "max_rate ?a \<noteq> 0" by (metis mult_is_0 unat_eq_zero unat_0 zero_neq_numeral)
  have M: "?M \<in> set (measured ops)" using assms(3) by (intro Min_in) auto
  with assms(4) have lt: "?M < 2 ^ 64 - 1" by blast
  have "(- 1 :: u64) = 18446744073709551615" by simp
  then have top: "unat (- 1 :: u64) = 2 ^ 64 - 1" by (simp only:) simp
  have "unat (base_rtt (foldl shaper_step ?a ops)) = Min (insert (2 ^ 64 - 1) (set (measured ops)))"
    using fold_min_word [of "measured ops" "- 1"] assms(4) unfolding base_rtt_run [OF inv mx] top
    by (fastforce simp: AdaptiveShaper_new_def Let_def)
  also have "\<dots> = ?M" using lt assms(3) by (simp add: Min_insert)
  finally have u: "unat (base_rtt (foldl shaper_step ?a ops)) = ?M" .
  with lt have "base_rtt (foldl shaper_step ?a ops) \<noteq> - 1" using top by auto
  with u show ?thesis by (simp add: AdaptiveShaper_base_rtt_def)
qed

theorem base_rtt_least_witness:
  "AdaptiveShaper_base_rtt (foldl shaper_step (AdaptiveShaper_new 100) [Measure 20000000, Packet 50 1400, Measure 15000700])
     = Some 15000000"
  using base_rtt_least [of 100 "[Measure 20000000, Packet 50 1400, Measure 15000700]"]
  by (simp add: mbps_fits_def measured_def)

text \<open>The counters count: packets and bytes refused, modulo the width of the counters.\<close>

lemma dropped_update:
  "AdaptiveShaper_dropped_packets (AdaptiveShaper_update_rtt a rtt) = AdaptiveShaper_dropped_packets a"
  "AdaptiveShaper_dropped_bytes (AdaptiveShaper_update_rtt a rtt) = AdaptiveShaper_dropped_bytes a"
  by (simp_all add: AdaptiveShaper_update_rtt_def Let_def AdaptiveShaper_dropped_packets_def AdaptiveShaper_dropped_bytes_def
      RateLimiter_set_rate_def)

lemma dropped_check:
  "AdaptiveShaper_dropped_packets (fst (AdaptiveShaper_check now a n))
     = AdaptiveShaper_dropped_packets a + (if snd (AdaptiveShaper_check now a n) then 0 else 1)"
  "AdaptiveShaper_dropped_bytes (fst (AdaptiveShaper_check now a n))
     = AdaptiveShaper_dropped_bytes a + (if snd (AdaptiveShaper_check now a n) then 0 else of_nat n)"
  by (auto simp: AdaptiveShaper_check_def RateLimiter_check_def AdaptiveShaper_dropped_packets_def
      AdaptiveShaper_dropped_bytes_def split: prod.splits bool.splits)

theorem drops_counted:
  "AdaptiveShaper_dropped_packets (foldl shaper_step a ops) = AdaptiveShaper_dropped_packets a + of_nat (length (refused a ops))
   \<and> AdaptiveShaper_dropped_bytes (foldl shaper_step a ops) = AdaptiveShaper_dropped_bytes a + of_nat (sum_list (refused a ops))"
proof (induction ops arbitrary: a)
  case (Cons op ops)
  show ?case by (cases op) (simp_all add: Cons.IH dropped_update dropped_check)
qed simp

text \<open>
  Overflow after a long idle period: with 10000 Mbps configured and an empty bucket, a refill
  14757395259 microseconds (4.1 hours) after the last one credits 40448 thousandths of a byte instead of
  filling the bucket, because the product of rate and elapsed time wraps at 64 bits.
\<close>

theorem refill_overflow:
  "let b = (bucket (RateLimiter_new 10000))\<lparr>tokens := 0\<rparr> in
   tokens (TokenBucket_refill 14757395259 b) = 40448
   \<and> unat (tb_rate b) * 14757395259 div 1000 > unat (tb_burst b) * 1000
   \<and> snd (TokenBucket_check 14757395259 b 1400) = False"
  by (simp add: RateLimiter_new_def TokenBucket_new_def TokenBucket_check_def TokenBucket_refill_def
      saturating_sub_def Let_def)

end
