(* ===== verification/Float64.thy ===== *)
theory Float64
  imports Prelude "HOL-Library.Log_Nat"
begin

text \<open>
  The part of \<open>f64\<close> arithmetic the program uses: conversions from integers, sum, product, quotient and comparison of
  numbers that are not negative, each the exact result rounded to the nearest binary64 number, ties to even,
  with subnormal numbers and overflow. It is used for the rates of the statistics and the round-trip times
  of the health monitor.
\<close>

section \<open>Rounding\<close>

text \<open>The exponent of the leading bit of a positive rational.\<close>

definition binade :: "rat \<Rightarrow> int" where
  "binade x = (let (n, d) = quotient_of x; k = bitlen n - bitlen d in if 2 powi k \<le> x then k else k - 1)"

definition round_even :: "rat \<Rightarrow> int" where
  "round_even q =
     (let f = \<lfloor>q\<rfloor>; r = q - of_int f in
      if r < 1 / 2 then f else if r > 1 / 2 then f + 1 else if even f then f else f + 1)"

text \<open>The exponent of the last bit: 53 bits, or that of the smallest subnormal number.\<close>

definition ulp_exp :: "rat \<Rightarrow> int" where
  "ulp_exp x = max (binade x - 52) (- 1074)"

definition f64_round :: "rat \<Rightarrow> rat" where
  "f64_round x = (if x = 0 then 0 else of_int (round_even (x / 2 powi ulp_exp x)) * 2 powi ulp_exp x)"

section \<open>Values and operations\<close>

datatype f64 = Finite rat | Infinity | NotANumber

definition f64_of :: "rat \<Rightarrow> f64" where
  "f64_of x = (if f64_round x < 2 powi 1024 then Finite (f64_round x) else Infinity)"

definition f64_add :: "f64 \<Rightarrow> f64 \<Rightarrow> f64" where
  "f64_add a b =
     (case (a, b) of
        (Finite x, Finite y) \<Rightarrow> f64_of (x + y)
      | (NotANumber, _) \<Rightarrow> NotANumber
      | (_, NotANumber) \<Rightarrow> NotANumber
      | _ \<Rightarrow> Infinity)"

definition f64_mul :: "f64 \<Rightarrow> f64 \<Rightarrow> f64" where
  "f64_mul a b =
     (case (a, b) of
        (Finite x, Finite y) \<Rightarrow> f64_of (x * y)
      | (NotANumber, _) \<Rightarrow> NotANumber
      | (_, NotANumber) \<Rightarrow> NotANumber
      | (Infinity, Finite y) \<Rightarrow> if y = 0 then NotANumber else Infinity
      | (Finite x, Infinity) \<Rightarrow> if x = 0 then NotANumber else Infinity
      | _ \<Rightarrow> Infinity)"

definition f64_div :: "f64 \<Rightarrow> f64 \<Rightarrow> f64" where
  "f64_div a b =
     (case (a, b) of
        (Finite x, Finite y) \<Rightarrow> if y = 0 then (if x = 0 then NotANumber else Infinity) else f64_of (x / y)
      | (NotANumber, _) \<Rightarrow> NotANumber
      | (_, NotANumber) \<Rightarrow> NotANumber
      | (Infinity, Finite y) \<Rightarrow> Infinity
      | (Finite x, Infinity) \<Rightarrow> Finite 0
      | _ \<Rightarrow> NotANumber)"

definition f64_gt :: "f64 \<Rightarrow> f64 \<Rightarrow> bool" where
  "f64_gt a b =
     (case (a, b) of
        (Finite x, Finite y) \<Rightarrow> x > y
      | (Infinity, Finite y) \<Rightarrow> True
      | _ \<Rightarrow> False)"

text \<open>\<open>as f64\<close> of an integer and \<open>as u64\<close> of a float, which truncates and saturates.\<close>

definition f64_of_nat :: "nat \<Rightarrow> f64" where
  "f64_of_nat n = f64_of (of_nat n)"

definition f64_to_u64 :: "f64 \<Rightarrow> nat" where
  "f64_to_u64 a =
     (case a of
        Finite x \<Rightarrow> min (nat \<lfloor>x\<rfloor>) (2 ^ 64 - 1)
      | Infinity \<Rightarrow> 2 ^ 64 - 1
      | NotANumber \<Rightarrow> 0)"

text \<open>\<open>Duration::as_secs_f64\<close>; a duration is its seconds and nanoseconds.\<close>

definition as_secs_f64 :: "nat \<times> nat \<Rightarrow> f64" where
  "as_secs_f64 d = f64_add (f64_of_nat (fst d)) (f64_div (f64_of_nat (snd d)) (f64_of_nat 1000000000))"

section \<open>Rounding: lemmas\<close>

lemma binade_bounds:
  assumes "0 < x"
  shows "2 powi binade x \<le> x" "x < 2 powi (binade x + 1)"
proof -
  obtain n d where q: "quotient_of x = (n, d)" by fastforce
  have d: "0 < d" using quotient_of_denom_pos [OF q] .
  have x: "x = of_int n / of_int d" using quotient_of_div [OF q] .
  have n: "0 < n" using assms d by (simp add: x zero_less_divide_iff)
  let ?k = "bitlen n - bitlen d"
  have pw: "of_int (2 ^ nat k) = (2 :: rat) powi k" if "0 \<le> k" for k using that by (simp add: power_int_def)
  have bl: "2 powi (bitlen m - 1) \<le> (of_int m :: rat) \<and> (of_int m :: rat) < 2 powi bitlen m" if "0 < m" for m
  proof -
    have "2 ^ nat (bitlen m - 1) \<le> m \<and> m < 2 ^ nat (bitlen m)" using bitlen_bounds [OF that] .
    then have "(of_int (2 ^ nat (bitlen m - 1)) :: rat) \<le> of_int m \<and> (of_int m :: rat) < of_int (2 ^ nat (bitlen m))"
      by (simp only: of_int_le_iff of_int_less_iff)
    moreover have "0 \<le> bitlen m - 1" "0 \<le> bitlen m" using that by (simp_all add: bitlen_nonneg) (metis bitlen_eq_zero_iff bitlen_nonneg int_one_le_iff_zero_less less_le not_le that)
    ultimately show ?thesis by (simp only: pw)
  qed
  have up: "x < 2 powi (?k + 1)"
  proof -
    have "x < 2 powi bitlen n / 2 powi (bitlen d - 1)"
      unfolding x by (rule frac_less) (use bl [OF n] bl [OF d] n d in auto)
    also have "\<dots> = 2 powi (?k + 1)" by (simp add: power_int_diff power_int_add)
    finally show ?thesis .
  qed
  have lo: "2 powi (?k - 1) \<le> x"
  proof -
    have "2 powi (?k - 1) = (2 powi (bitlen n - 1) / 2 powi bitlen d :: rat)" by (simp add: power_int_diff)
    also have "\<dots> \<le> x" unfolding x by (rule frac_le) (use bl [OF n] bl [OF d] n d in auto)
    finally show ?thesis .
  qed
  show "2 powi binade x \<le> x" using lo by (simp add: binade_def q Let_def)
  show "x < 2 powi (binade x + 1)" using up by (simp add: binade_def q Let_def)
qed

lemma powi_mono: "i \<le> j \<Longrightarrow> (2 :: rat) powi i \<le> 2 powi j"
  by (rule power_int_increasing) simp_all

lemma powi_pos: "0 < (2 :: rat) powi i"
  by simp

lemma binade_mono:
  assumes "0 < x" "x \<le> y"
  shows "binade x \<le> binade y"
proof (rule ccontr)
  assume "\<not> binade x \<le> binade y"
  then have "(2 :: rat) powi (binade y + 1) \<le> 2 powi binade x" by (intro powi_mono) simp
  with binade_bounds [OF assms(1)] binade_bounds [of y] assms show False by simp
qed

lemma ulp_exp_mono: "0 < x \<Longrightarrow> x \<le> y \<Longrightarrow> ulp_exp x \<le> ulp_exp y"
  using binade_mono [of x y] by (simp add: ulp_exp_def)

lemma round_even_range: "\<lfloor>q\<rfloor> \<le> round_even q \<and> round_even q \<le> \<lfloor>q\<rfloor> + 1"
  by (simp add: round_even_def Let_def)

lemma round_even_near: "\<bar>of_int (round_even q) - q\<bar> \<le> 1 / 2"
proof -
  have "of_int \<lfloor>q\<rfloor> \<le> q" "q < of_int \<lfloor>q\<rfloor> + 1" using floor_correct [of q] by simp_all
  then show ?thesis by (auto simp: round_even_def Let_def abs_le_iff)
qed

lemma round_even_of_int [simp]: "round_even (of_int k) = k"
  by (simp add: round_even_def)

lemma round_even_mono:
  assumes "q \<le> q'"
  shows "round_even q \<le> round_even q'"
proof (cases "\<lfloor>q\<rfloor> = \<lfloor>q'\<rfloor>")
  case True
  with assms show ?thesis by (auto simp: round_even_def Let_def)
next
  case False
  then have "\<lfloor>q\<rfloor> + 1 \<le> \<lfloor>q'\<rfloor>" using floor_mono [OF assms] by simp
  with round_even_range [of q] round_even_range [of q'] show ?thesis by linarith
qed

text \<open>A number with an exact multiple of the last bit's weight keeps its value.\<close>

lemma round_even_powi:
  assumes "0 \<le> k"
  shows "of_int (round_even (2 powi k)) = (2 powi k :: rat)"
proof -
  have "(2 powi k :: rat) = of_int (2 ^ nat k)" using assms by (simp add: power_int_def)
  then show ?thesis by (metis round_even_of_int)
qed

lemma f64_round_nonneg: "0 \<le> x \<Longrightarrow> 0 \<le> f64_round x"
proof -
  assume "0 \<le> x"
  then have "0 \<le> x / 2 powi ulp_exp x" by simp
  from round_even_mono [OF this] round_even_of_int [of 0] have "0 \<le> round_even (x / 2 powi ulp_exp x)" by simp
  then show ?thesis by (simp add: f64_round_def)
qed

lemma f64_round_below:
  assumes "0 < x" "x \<le> 2 powi e" "ulp_exp x \<le> e"
  shows "f64_round x \<le> 2 powi e"
proof -
  have "x / 2 powi ulp_exp x \<le> 2 powi (e - ulp_exp x)"
    using assms(2) by (simp add: power_int_diff divide_right_mono)
  from round_even_mono [OF this]
  have "(of_int (round_even (x / 2 powi ulp_exp x)) :: rat) \<le> of_int (round_even (2 powi (e - ulp_exp x)))" by simp
  also have "\<dots> = 2 powi (e - ulp_exp x)" by (rule round_even_powi) (use assms(3) in simp)
  finally have "of_int (round_even (x / 2 powi ulp_exp x)) * 2 powi ulp_exp x \<le> (2 :: rat) powi (e - ulp_exp x) * 2 powi ulp_exp x"
    by (rule mult_right_mono) simp
  then show ?thesis using assms(1) by (simp add: f64_round_def power_int_diff)
qed

lemma f64_round_above:
  assumes "0 < x" "2 powi e \<le> x" "ulp_exp x \<le> e"
  shows "2 powi e \<le> f64_round x"
proof -
  have "2 powi (e - ulp_exp x) \<le> x / 2 powi ulp_exp x"
    using assms(2) by (simp add: power_int_diff divide_right_mono)
  from round_even_mono [OF this]
  have "(of_int (round_even (2 powi (e - ulp_exp x))) :: rat) \<le> of_int (round_even (x / 2 powi ulp_exp x))" by simp
  moreover have "of_int (round_even (2 powi (e - ulp_exp x))) = (2 powi (e - ulp_exp x) :: rat)"
    by (rule round_even_powi) (use assms(3) in simp)
  ultimately have "(2 :: rat) powi (e - ulp_exp x) * 2 powi ulp_exp x \<le> of_int (round_even (x / 2 powi ulp_exp x)) * 2 powi ulp_exp x"
    by (intro mult_right_mono) simp_all
  then show ?thesis using assms(1) by (simp add: f64_round_def power_int_diff)
qed

theorem f64_round_mono:
  assumes "0 \<le> x" "x \<le> y"
  shows "f64_round x \<le> f64_round y"
proof (cases "x = 0")
  case True
  then show ?thesis using f64_round_nonneg [of y] assms by (simp add: f64_round_def)
next
  case False
  then have x: "0 < x" "0 < y" using assms by simp_all
  show ?thesis
  proof (cases "ulp_exp x = ulp_exp y")
    case True
    have "x / 2 powi ulp_exp x \<le> y / 2 powi ulp_exp x" using assms(2) by (simp add: divide_right_mono)
    from round_even_mono [OF this] show ?thesis
      using x True by (simp add: f64_round_def mult_right_mono)
  next
    case False
    then have lt: "ulp_exp x < ulp_exp y" using ulp_exp_mono [OF x(1) assms(2)] by simp
    then have b: "binade x + 1 \<le> binade y" "ulp_exp y \<le> binade y" by (auto simp: ulp_exp_def)
    have "x \<le> 2 powi binade y"
      using binade_bounds(2) [OF x(1)] powi_mono [OF b(1)] by linarith
    then have "f64_round x \<le> 2 powi binade y" by (rule f64_round_below [OF x(1)]) (use lt b in simp)
    also have "\<dots> \<le> f64_round y" by (rule f64_round_above [OF x(2) binade_bounds(1) [OF x(2)] b(2)])
    finally show ?thesis .
  qed
qed

text \<open>The error is at most half of the last bit, and for normal numbers relative to the number.\<close>

lemma f64_round_error:
  assumes "0 < x"
  shows "\<bar>f64_round x - x\<bar> \<le> 2 powi (ulp_exp x - 1)"
proof -
  let ?u = "(2 :: rat) powi ulp_exp x"
  have "f64_round x - x = (of_int (round_even (x / ?u)) - x / ?u) * ?u" using assms by (simp add: f64_round_def left_diff_distrib)
  then have "\<bar>f64_round x - x\<bar> = \<bar>of_int (round_even (x / ?u)) - x / ?u\<bar> * ?u" by (simp add: abs_mult)
  also have "\<dots> \<le> 1 / 2 * ?u" by (rule mult_right_mono [OF round_even_near]) simp
  also have "\<dots> = 2 powi (ulp_exp x - 1)" by (simp add: power_int_diff)
  finally show ?thesis .
qed

lemma f64_round_error_below:
  assumes "0 \<le> x" "x < 2 powi e" "- 1021 \<le> e"
  shows "\<bar>f64_round x - x\<bar> \<le> 2 powi (e - 54)"
proof (cases "x = 0")
  case False
  then have x: "0 < x" using assms(1) by simp
  have "binade x < e"
  proof (rule ccontr)
    assume "\<not> binade x < e"
    then have "(2 :: rat) powi e \<le> 2 powi binade x" by (intro powi_mono) simp
    with binade_bounds(1) [OF x] assms(2) show False by simp
  qed
  then have "ulp_exp x - 1 \<le> e - 54" using assms(3) by (simp add: ulp_exp_def)
  with f64_round_error [OF x] powi_mono show ?thesis by (blast intro: order_trans)
qed (simp add: f64_round_def)

lemma f64_round_relative:
  assumes "2 powi (- 1022) \<le> x"
  shows "x * (1 - 1 / 2 ^ 53) \<le> f64_round x" "f64_round x \<le> x * (1 + 1 / 2 ^ 53)"
proof -
  have x: "0 < x" using assms by (rule less_le_trans [rotated]) simp
  have "- 1022 \<le> binade x"
  proof (rule ccontr)
    assume "\<not> - 1022 \<le> binade x"
    then have "(2 :: rat) powi (binade x + 1) \<le> 2 powi (- 1022)" by (intro powi_mono) simp
    with binade_bounds(2) [OF x] assms show False by simp
  qed
  then have "ulp_exp x = binade x - 52" by (simp add: ulp_exp_def)
  then have "ulp_exp x - 1 = binade x - 53" by simp
  then have "2 powi (ulp_exp x - 1) = (2 powi binade x / 2 powi 53 :: rat)" by (simp only:) (rule power_int_diff, simp)
  also have "\<dots> = 2 powi binade x / 2 ^ 53" by (simp only: power_int_numeral)
  also have "\<dots> \<le> x / 2 ^ 53" using binade_bounds(1) [OF x] by (simp add: divide_right_mono)
  finally have "\<bar>f64_round x - x\<bar> \<le> x / 2 ^ 53" using f64_round_error [OF x] by linarith
  then have "x - x / 2 ^ 53 \<le> f64_round x" "f64_round x \<le> x + x / 2 ^ 53" by linarith+
  then show "x * (1 - 1 / 2 ^ 53) \<le> f64_round x" "f64_round x \<le> x * (1 + 1 / 2 ^ 53)"
    by (simp_all only: distrib_left right_diff_distrib mult_1_right times_divide_eq_right)
qed

text \<open>Integers of up to 53 bits are exact, and rounding twice is rounding once.\<close>

lemma f64_round_exact:
  assumes "0 < x" "x = of_int k * 2 powi e" "ulp_exp x \<le> e"
  shows "f64_round x = x"
proof -
  define u where "u = ulp_exp x"
  have "x / 2 powi u = of_int k * (2 powi e / 2 powi u)" by (simp add: assms(2))
  also have "(2 powi e / 2 powi u :: rat) = 2 powi (e - u)" by (simp add: power_int_diff)
  also have "\<dots> = of_int (2 ^ nat (e - u))" using assms(3) by (simp add: power_int_def u_def)
  finally have "x / 2 powi ulp_exp x = of_int (k * 2 ^ nat (e - u))" by (simp add: u_def)
  then have "of_int (round_even (x / 2 powi ulp_exp x)) = x / 2 powi ulp_exp x" by (simp del: of_int_mult)
  with assms(1) show ?thesis by (simp add: f64_round_def)
qed

lemma f64_round_of_nat:
  assumes "n < 2 ^ 53"
  shows "f64_round (of_nat n) = of_nat n"
proof (cases "n = 0")
  case False
  then have n: "0 < (of_nat n :: rat)" by simp
  have "binade (of_nat n) \<le> 52"
  proof (rule ccontr)
    assume "\<not> binade (of_nat n) \<le> 52"
    then have "(2 :: rat) powi 53 \<le> 2 powi binade (of_nat n)" by (intro powi_mono) simp
    with binade_bounds(1) [OF n] have "(2 :: rat) ^ 53 \<le> of_nat n" by (simp add: power_int_def)
    moreover have "(of_nat n :: rat) < of_nat (2 ^ 53)" using assms by (simp only: of_nat_less_iff)
    ultimately show False by simp
  qed
  then have "ulp_exp (of_nat n) \<le> 0" by (simp add: ulp_exp_def)
  from f64_round_exact [OF n _ this, of "int n"] show ?thesis by simp
qed (simp add: f64_round_def)

lemma f64_round_round [simp]:
  assumes "0 \<le> x"
  shows "f64_round (f64_round x) = f64_round x"
proof (cases "f64_round x = 0")
  case False
  then have x: "0 < x" using assms by (auto simp: f64_round_def split: if_splits)
  then have r: "0 < f64_round x" using False f64_round_nonneg [OF assms] by simp
  let ?y = "f64_round x"
  have y: "?y = of_int (round_even (x / 2 powi ulp_exp x)) * 2 powi ulp_exp x" using x by (simp add: f64_round_def)
  show ?thesis
  proof (cases "ulp_exp ?y \<le> ulp_exp x")
    case True
    show ?thesis by (rule f64_round_exact [OF r y True])
  next
    case False
    then have b: "binade x < binade ?y" "ulp_exp ?y = binade ?y - 52" by (auto simp: ulp_exp_def)
    define e where "e = max (binade x + 1) (ulp_exp x)"
    have "x \<le> 2 powi e" using binade_bounds(2) [OF x] powi_mono [of "binade x + 1" e] by (simp add: e_def)
    then have le: "?y \<le> 2 powi e" by (rule f64_round_below [OF x]) (simp add: e_def)
    have "\<not> e < binade ?y"
    proof
      assume "e < binade ?y"
      then have "(2 :: rat) powi (e + 1) \<le> 2 powi binade ?y" by (intro powi_mono) simp
      moreover have "(2 :: rat) powi (e + 1) = 2 * 2 powi e" by (simp add: power_int_add)
      ultimately show False using le binade_bounds(1) [OF r] powi_pos [of e] by linarith
    qed
    then have "binade ?y = e" using b False by (auto simp: e_def)
    then have "?y = of_int 1 * 2 powi binade ?y" using le binade_bounds(1) [OF r] by simp
    from f64_round_exact [OF r this] b(2) show ?thesis by simp
  qed
qed (simp add: f64_round_def)

section \<open>Operations: lemmas\<close>

lemma f64_of_finite:
  assumes "0 \<le> x" "x \<le> 2 powi 1023"
  shows "f64_of x = Finite (f64_round x)"
proof -
  have top: "(2 :: rat) powi 1023 < 2 powi 1024" by (rule power_int_strict_increasing) simp_all
  have "f64_round x \<le> 2 powi 1023"
  proof (cases "x = 0")
    case False
    then have x: "0 < x" using assms(1) by simp
    have "binade x \<le> 1023"
    proof (rule ccontr)
      assume "\<not> binade x \<le> 1023"
      then have "(2 :: rat) powi 1024 \<le> 2 powi binade x" by (intro powi_mono) simp
      with binade_bounds(1) [OF x] assms(2) top show False by linarith
    qed
    then show ?thesis by (intro f64_round_below [OF x assms(2)]) (simp add: ulp_exp_def)
  next
    case True
    then show ?thesis using powi_pos [of 1023] by (simp add: f64_round_def del: power_int_numeral)
  qed
  with top show ?thesis by (auto simp: f64_of_def simp del: power_int_numeral)
qed

text \<open>Everything the program computes stays far below the largest number.\<close>

lemma small_finite: "0 \<le> x \<Longrightarrow> x \<le> 2 ^ 200 \<Longrightarrow> f64_of x = Finite (f64_round x)"
proof (rule f64_of_finite)
  assume "x \<le> 2 ^ 200"
  also have "(2 :: rat) ^ 200 = 2 powi 200" by (simp only: power_int_numeral)
  also have "\<dots> \<le> 2 powi 1023" by (rule powi_mono) simp
  finally show "x \<le> 2 powi 1023" .
qed

lemma f64_of_nat_exact: "n < 2 ^ 53 \<Longrightarrow> f64_of_nat n = Finite (of_nat n)"
proof -
  assume n: "n < 2 ^ 53"
  then have "(of_nat n :: rat) \<le> of_nat (2 ^ 53)" by (simp only: of_nat_le_iff less_imp_le)
  then have "(of_nat n :: rat) \<le> 2 ^ 200" by simp
  with f64_round_of_nat [OF n] show ?thesis by (simp add: f64_of_nat_def small_finite)
qed

lemma f64_of_nat_small [simp]:
  "f64_of_nat 3 = Finite 3" "f64_of_nat 8 = Finite 8" "f64_of_nat 100 = Finite 100" "f64_of_nat 1000 = Finite 1000"
  "f64_of_nat 1000000 = Finite 1000000" "f64_of_nat 1000000000 = Finite 1000000000"
  by (simp_all add: f64_of_nat_exact)

text \<open>The smallest normal number is far below what the program divides by and multiplies.\<close>

lemma normal_small: "1 / 2 ^ 200 \<le> x \<Longrightarrow> 2 powi (- 1022) \<le> (x :: rat)"
proof -
  assume x: "1 / 2 ^ 200 \<le> x"
  have "(2 :: rat) powi (- 1022) \<le> 2 powi (- 200)" by (rule powi_mono) simp
  also have "(2 :: rat) powi (- 200) = 1 / 2 ^ 200" by (simp add: power_int_minus inverse_eq_divide)
  finally show ?thesis using x by linarith
qed

lemmas f64_round_rel = f64_round_relative [OF normal_small]

text \<open>The value of a rounding, from the binade of its argument.\<close>

lemma round_even_unique: "\<bar>q - of_int m\<bar> < 1 / 2 \<Longrightarrow> round_even q = m"
proof -
  assume "\<bar>q - of_int m\<bar> < 1 / 2"
  then have "\<bar>of_int (round_even q) - of_int m\<bar> < (1 :: rat)" using round_even_near [of q] by linarith
  then have "\<bar>round_even q - m\<bar> < 1" by (simp flip: of_int_diff of_int_abs)
  then show ?thesis by simp
qed

lemma f64_round_value:
  assumes "2 powi k \<le> x" "x < 2 powi (k + 1)" "- 1022 \<le> k" "\<bar>x / 2 powi (k - 52) - of_int m\<bar> < 1 / 2"
    "v = of_int m * 2 powi (k - 52)"
  shows "f64_round x = v"
proof -
  have x: "0 < x" using assms(1) powi_pos [of k] by linarith
  have "\<not> binade x < k"
  proof
    assume "binade x < k"
    then have "(2 :: rat) powi (binade x + 1) \<le> 2 powi k" by (intro powi_mono) simp
    with binade_bounds(2) [OF x] assms(1) show False by linarith
  qed
  moreover have "\<not> k < binade x"
  proof
    assume "k < binade x"
    then have "(2 :: rat) powi (k + 1) \<le> 2 powi binade x" by (intro powi_mono) simp
    with binade_bounds(1) [OF x] assms(2) show False by linarith
  qed
  ultimately have "ulp_exp x = k - 52" using assms(3) by (simp add: ulp_exp_def)
  with x round_even_unique [OF assms(4)] assms(5) show ?thesis by (simp add: f64_round_def)
qed

section \<open>Error of a computation\<close>

text \<open>\<open>y\<close> is what \<open>k\<close> roundings may make of \<open>x\<close>.\<close>

definition approx :: "nat \<Rightarrow> rat \<Rightarrow> rat \<Rightarrow> bool" where
  "approx k x y \<longleftrightarrow> x * (1 - 1 / 2 ^ 53) ^ k \<le> y \<and> y \<le> x * (1 + 1 / 2 ^ 53) ^ k"

lemma approx_refl [simp]: "approx 0 x x"
  by (simp add: approx_def)

lemma approx_mult:
  assumes "approx k x y" "0 \<le> c"
  shows "approx k (x * c) (y * c)"
proof -
  have "x * c * a = x * a * c" for a :: rat by (simp add: ac_simps)
  then show ?thesis using assms mult_right_mono [OF _ assms(2)] unfolding approx_def by presburger
qed

lemma approx_add:
  assumes "approx 1 x y" "0 \<le> a"
  shows "approx 1 (a + x) (a + y)"
  using assms by (simp add: approx_def distrib_right)

lemma approx_divide: "approx k x y \<Longrightarrow> 0 < c \<Longrightarrow> approx k (x / c) (y / c)"
  using approx_mult [of k x y "1 / c"] by simp

lemma approx_round:
  assumes "approx k x y" "1 / 2 ^ 200 \<le> y"
  shows "approx (Suc k) x (f64_round y)"
proof -
  have y: "y * (1 - 1 / 2 ^ 53) \<le> f64_round y" "f64_round y \<le> y * (1 + 1 / 2 ^ 53)" using f64_round_rel [OF assms(2)] .
  have "x * (1 - 1 / 2 ^ 53) ^ k * (1 - 1 / 2 ^ 53) \<le> y * (1 - 1 / 2 ^ 53)"
    by (rule mult_right_mono) (use assms(1) in \<open>simp_all add: approx_def\<close>)
  moreover have "y * (1 + 1 / 2 ^ 53) \<le> x * (1 + 1 / 2 ^ 53) ^ k * (1 + 1 / 2 ^ 53)"
    by (rule mult_right_mono) (use assms(1) in \<open>simp_all add: approx_def\<close>)
  ultimately show ?thesis using y unfolding approx_def power_Suc2 mult.assoc [symmetric] by linarith
qed

text \<open>A few roundings change a positive number by less than a factor of two.\<close>

lemma approx_factor:
  assumes "approx k x y" "0 \<le> x" "k \<le> 8"
  shows "x / 2 \<le> y" "y \<le> x * 2"
proof -
  have "(1 - 1 / 2 ^ 53 :: rat) ^ 8 \<le> (1 - 1 / 2 ^ 53) ^ k" by (rule power_decreasing) (use assms(3) in simp_all)
  moreover have "(1 / 2 :: rat) \<le> (1 - 1 / 2 ^ 53) ^ 8" by (simp add: power_divide)
  ultimately have lo: "(1 / 2 :: rat) \<le> (1 - 1 / 2 ^ 53) ^ k" by linarith
  have "(1 + 1 / 2 ^ 53 :: rat) ^ k \<le> (1 + 1 / 2 ^ 53) ^ 8" by (rule power_increasing) (use assms(3) in simp_all)
  moreover have "(1 + 1 / 2 ^ 53 :: rat) ^ 8 \<le> 2" by (simp add: power_divide)
  ultimately have hi: "(1 + 1 / 2 ^ 53 :: rat) ^ k \<le> 2" by linarith
  from mult_left_mono [OF lo assms(2)] mult_left_mono [OF hi assms(2)] assms(1)
  show "x / 2 \<le> y" "y \<le> x * 2" by (simp_all add: approx_def)
qed

lemma approx_step:
  assumes "approx k x y" "k \<le> 8" "1 / 2 ^ 190 \<le> x" "x \<le> 2 ^ 190"
  shows "f64_of y = Finite (f64_round y)" "approx (Suc k) x (f64_round y)"
proof -
  have x: "0 \<le> x" using assms(3) by (rule order_trans [rotated]) simp
  note F = approx_factor [OF assms(1) x assms(2)]
  have "(1 / 2 ^ 200 :: rat) \<le> 1 / 2 ^ 190 / 2" by simp
  also have "\<dots> \<le> x / 2" using assms(3) by (simp add: divide_right_mono)
  finally have lo: "1 / 2 ^ 200 \<le> y" using F(1) by linarith
  then show "approx (Suc k) x (f64_round y)" by (rule approx_round [OF assms(1)])
  have "x * 2 \<le> 2 ^ 190 * 2" using assms(4) by simp
  then have "y \<le> 2 ^ 190 * 2" using F(2) by linarith
  then have "y \<le> 2 ^ 200" by (rule order_trans) simp
  moreover have "0 \<le> y" using lo by (rule order_trans [rotated]) simp
  ultimately show "f64_of y = Finite (f64_round y)" by (intro small_finite)
qed

text \<open>Seconds of a duration, exactly and as computed.\<close>

definition secs :: "nat \<times> nat \<Rightarrow> rat" where
  "secs d = of_nat (fst d) + of_nat (snd d) / 10 ^ 9"

definition duration :: "nat \<times> nat \<Rightarrow> bool" where
  "duration d \<longleftrightarrow> fst d < 2 ^ 53 \<and> snd d < 10 ^ 9 \<and> d \<noteq> (0, 0)"

lemma secs_bounds:
  assumes "duration d"
  shows "1 / 2 ^ 30 \<le> secs d" "secs d \<le> 2 ^ 54"
proof -
  have "(of_nat (fst d) :: rat) \<le> of_nat (2 ^ 53)" "(of_nat (snd d) :: rat) \<le> of_nat (10 ^ 9)"
    using assms by (simp_all only: of_nat_le_iff duration_def less_imp_le)
  then show "secs d \<le> 2 ^ 54" by (simp add: secs_def)
  have "1 \<le> fst d \<or> 1 \<le> snd d" using assms by (cases d) (auto simp: duration_def)
  then have "(1 :: rat) \<le> of_nat (fst d) \<or> (1 :: rat) \<le> of_nat (snd d)" by simp
  then have "1 / 10 ^ 9 \<le> secs d" by (auto simp: secs_def intro: add_increasing add_increasing2)
  then show "1 / 2 ^ 30 \<le> secs d" by simp
qed

lemma as_secs_approx:
  assumes d: "duration d"
  shows "\<exists>e. as_secs_f64 d = Finite e \<and> approx 2 (secs d) e"
proof -
  define n where "n = (of_nat (snd d) / 10 ^ 9 :: rat)"
  have s: "f64_of_nat (fst d) = Finite (of_nat (fst d))" "f64_of_nat (snd d) = Finite (of_nat (snd d))"
    using d by (simp_all add: f64_of_nat_exact duration_def)
  have n: "f64_of n = Finite (f64_round n) \<and> approx 1 n (f64_round n)"
  proof (cases "snd d = 0")
    case False
    then have "(1 :: rat) \<le> of_nat (snd d)" by simp
    moreover have "(of_nat (snd d) :: rat) \<le> of_nat (10 ^ 9)" using d by (simp only: of_nat_le_iff duration_def less_imp_le)
    ultimately have "1 / 2 ^ 190 \<le> n" "n \<le> 2 ^ 190" by (simp_all add: n_def field_simps)
    from approx_step [OF approx_refl _ this] show ?thesis by simp
  qed (simp add: n_def f64_of_def f64_round_def approx_def power_int_def)
  have "secs d = of_nat (fst d) + n" by (simp add: secs_def n_def)
  then have "approx 1 (secs d) (of_nat (fst d) + f64_round n)" using approx_add [of n "f64_round n" "of_nat (fst d)"] n by simp
  moreover have "1 / 2 ^ 190 \<le> secs d" "secs d \<le> 2 ^ 190"
    using secs_bounds [OF d] by (simp_all add: order_trans [rotated])
  ultimately have "f64_of (of_nat (fst d) + f64_round n) = Finite (f64_round (of_nat (fst d) + f64_round n))"
    "approx 2 (secs d) (f64_round (of_nat (fst d) + f64_round n))"
    using approx_step [of 1 "secs d" "of_nat (fst d) + f64_round n"] by (simp_all add: numeral_2_eq_2)
  moreover have "as_secs_f64 d = f64_of (of_nat (fst d) + f64_round n)"
    using n s by (simp add: as_secs_f64_def f64_add_def f64_div_def n_def)
  ultimately show ?thesis by auto
qed

section \<open>A fifth\<close>

text \<open>The literal 0.2, and the product with it of delays that are used.\<close>

lemma powi_numeral_simps:
  "(2 :: rat) powi (- numeral n) = 1 / 2 ^ numeral n" "(2 :: rat) powi numeral n = 2 ^ numeral n"
  by (simp_all add: power_int_minus inverse_eq_divide)

lemma f64_fifth: "f64_of (1 / 5) = Finite (3602879701896397 / 2 ^ 54)"
proof -
  have "f64_round (1 / 5) = 3602879701896397 / 2 ^ 54"
    by (rule f64_round_value [where k = "- 3" and m = 7205759403792794]) (simp_all add: powi_numeral_simps)
  then show ?thesis using small_finite [of "1 / 5"] by simp
qed

lemma fifth_of:
  "f64_round (1000 * (3602879701896397 / 2 ^ 54)) = 200" "f64_round (2000 * (3602879701896397 / 2 ^ 54)) = 400"
  "f64_round (4000 * (3602879701896397 / 2 ^ 54)) = 800" "f64_round (8000 * (3602879701896397 / 2 ^ 54)) = 1600"
  "f64_round (16000 * (3602879701896397 / 2 ^ 54)) = 3200" "f64_round (30000 * (3602879701896397 / 2 ^ 54)) = 6000"
       apply (rule f64_round_value [where k = 7 and m = "200 * 2 ^ 45"], simp_all add: powi_numeral_simps)
      apply (rule f64_round_value [where k = 8 and m = "400 * 2 ^ 44"], simp_all add: powi_numeral_simps)
     apply (rule f64_round_value [where k = 9 and m = "800 * 2 ^ 43"], simp_all add: powi_numeral_simps)
    apply (rule f64_round_value [where k = 10 and m = "1600 * 2 ^ 42"], simp_all add: powi_numeral_simps)
   apply (rule f64_round_value [where k = 11 and m = "3200 * 2 ^ 41"], simp_all add: powi_numeral_simps)
  apply (rule f64_round_value [where k = 12 and m = "6000 * 2 ^ 40"], simp_all add: powi_numeral_simps)
  done

end
