(* ===== verification/Stats.thy ===== *)
theory Stats
  imports Float64
begin

text \<open>
  Counters: \<^verbatim>\<open>src/crates/redpill-quic/src/stats.rs\<close> (per-tunnel statistics) and
  \<^verbatim>\<open>src/crates/redpill-quic/src/metrics.rs\<close> (the server's Prometheus metrics). Counters are 64-bit
  words. \<open>report\<close> and \<open>report_basic\<close> are modelled by the integers and the floating-point figures they print.
  The histogram of round-trip times is the list of what was observed; the buckets and the text encoding
  of the registry are the library's.
\<close>

record stats =
  datagrams_sent :: u64
  datagrams_recv :: u64
  datagrams_blocked :: u64
  datagrams_too_large :: u64
  bytes_sent :: u64
  bytes_recv :: u64
  tun_reads :: u64
  tun_writes :: u64
  st_spoofed :: u64
  datagrams_wait_timeouts :: u64
  dg_size_min :: u64
  dg_size_max :: u64
  dg_size_sum :: u64

definition Stats_new :: stats where
  "Stats_new = \<lparr>datagrams_sent = 0, datagrams_recv = 0, datagrams_blocked = 0, datagrams_too_large = 0,
     bytes_sent = 0, bytes_recv = 0, tun_reads = 0, tun_writes = 0, st_spoofed = 0,
     datagrams_wait_timeouts = 0, dg_size_min = - 1, dg_size_max = 0, dg_size_sum = 0\<rparr>"

definition update_dg_size :: "stats \<Rightarrow> nat \<Rightarrow> stats" where
  "update_dg_size self n =
     (let sz = of_nat n;
          self = self\<lparr>dg_size_sum := dg_size_sum self + sz\<rparr>;
          self = (if sz < dg_size_min self then self\<lparr>dg_size_min := sz\<rparr> else self) in
      if sz > dg_size_max self then self\<lparr>dg_size_max := sz\<rparr> else self)"

definition record_send :: "stats \<Rightarrow> nat \<Rightarrow> stats" where
  "record_send self n =
     update_dg_size (self\<lparr>datagrams_sent := datagrams_sent self + 1, bytes_sent := bytes_sent self + of_nat n\<rparr>) n"

definition record_recv :: "stats \<Rightarrow> nat \<Rightarrow> stats" where
  "record_recv self n =
     self\<lparr>datagrams_recv := datagrams_recv self + 1, bytes_recv := bytes_recv self + of_nat n\<rparr>"

definition record_blocked :: "stats \<Rightarrow> stats" where
  "record_blocked self = self\<lparr>datagrams_blocked := datagrams_blocked self + 1\<rparr>"

definition record_too_large :: "stats \<Rightarrow> stats" where
  "record_too_large self = self\<lparr>datagrams_too_large := datagrams_too_large self + 1\<rparr>"

definition record_spoofed :: "stats \<Rightarrow> stats" where
  "record_spoofed self = self\<lparr>st_spoofed := st_spoofed self + 1\<rparr>"

definition record_wait_timeout :: "stats \<Rightarrow> stats" where
  "record_wait_timeout self = self\<lparr>datagrams_wait_timeouts := datagrams_wait_timeouts self + 1\<rparr>"

definition record_tun_read :: "stats \<Rightarrow> stats" where
  "record_tun_read self = self\<lparr>tun_reads := tun_reads self + 1\<rparr>"

definition record_tun_write :: "stats \<Rightarrow> stats" where
  "record_tun_write self = self\<lparr>tun_writes := tun_writes self + 1\<rparr>"

record stats_report =
  total_attempted :: u64
  dg_avg :: u64
  dg_min_display :: u64
  dg_max_display :: u64

definition Stats_report :: "stats \<Rightarrow> stats_report" where
  "Stats_report self =
     \<lparr>total_attempted = datagrams_sent self + datagrams_blocked self,
      dg_avg = (if datagrams_sent self > 0 then dg_size_sum self div datagrams_sent self else 0),
      dg_min_display = (if dg_size_min self = - 1 then 0 else dg_size_min self),
      dg_max_display = dg_size_max self\<rparr>"

text \<open>The figures both reports compute in floating point, and those of the connection's path.\<close>

definition percentage :: "u64 \<Rightarrow> u64 \<Rightarrow> f64" where
  "percentage part whole =
     (if whole > 0 then f64_mul (f64_div (f64_of_nat (unat part)) (f64_of_nat (unat whole))) (f64_of_nat 100) else Finite 0)"

definition mbps :: "u64 \<Rightarrow> f64 \<Rightarrow> f64" where
  "mbps bytes elapsed = f64_div (f64_div (f64_mul (f64_of_nat (unat bytes)) (f64_of_nat 8)) elapsed) (f64_of_nat 1000000)"

record stats_figures =
  blocked_pct :: f64
  tx_mbps :: f64
  rx_mbps :: f64
  tx_mb :: f64
  rx_mb :: f64

definition Stats_report_basic :: "nat \<times> nat \<Rightarrow> stats \<Rightarrow> stats_figures" where
  "Stats_report_basic start_elapsed self =
     (let elapsed = as_secs_f64 start_elapsed; total_attempted = datagrams_sent self + datagrams_blocked self in
      \<lparr>blocked_pct = percentage (datagrams_blocked self) total_attempted,
       tx_mbps = mbps (bytes_sent self) elapsed, rx_mbps = mbps (bytes_recv self) elapsed,
       tx_mb = f64_div (f64_of_nat (unat (bytes_sent self))) (f64_of_nat 1000000),
       rx_mb = f64_div (f64_of_nat (unat (bytes_recv self))) (f64_of_nat 1000000)\<rparr>)"

definition rtt_millis :: "nat \<times> nat \<Rightarrow> f64" where
  "rtt_millis rtt = f64_mul (as_secs_f64 rtt) (f64_of_nat 1000)"

definition path_figures :: "nat \<times> nat \<Rightarrow> u64 \<Rightarrow> u64 \<Rightarrow> f64 \<times> f64" where
  "path_figures rtt lost sent_pkts = (rtt_millis rtt, percentage lost sent_pkts)"

section \<open>Server metrics\<close>

record metrics =
  active_sessions :: int
  handshakes_total :: u64
  handshakes_failed :: u64
  bytes_in :: u64
  bytes_out :: u64
  datagrams_in :: u64
  datagrams_out :: u64
  drops_rate_limit :: u64
  drops_backpressure :: u64
  drops_stale :: u64
  m_spoofed :: u64
  bp_wait_count :: u64
  bp_wait_timeouts :: u64
  bp_rt_drops_congested :: u64
  sessions_by_user :: "string \<Rightarrow> int"
  rtt_ms :: "f64 list"

definition Metrics_new :: metrics where
  "Metrics_new = \<lparr>active_sessions = 0, handshakes_total = 0, handshakes_failed = 0, bytes_in = 0, bytes_out = 0,
     datagrams_in = 0, datagrams_out = 0, drops_rate_limit = 0, drops_backpressure = 0, drops_stale = 0,
     m_spoofed = 0, bp_wait_count = 0, bp_wait_timeouts = 0, bp_rt_drops_congested = 0,
     sessions_by_user = (\<lambda>_. 0), rtt_ms = []\<rparr>"

definition observe_rtt :: "nat \<times> nat \<Rightarrow> metrics \<Rightarrow> metrics" where
  "observe_rtt rtt m = m\<lparr>rtt_ms := rtt_ms m @ [rtt_millis rtt]\<rparr>"

text \<open>The HTTP endpoint: status and body for a request path; \<open>render\<close> is the registry's text form.\<close>

definition metrics_service :: "(metrics \<Rightarrow> string) \<Rightarrow> metrics \<Rightarrow> string \<Rightarrow> nat \<times> string" where
  "metrics_service render m path = (if path = ''/metrics'' then (200, render m) else (404, ''Not Found''))"

text \<open>
  The server behind it: without a listener it ends, a failed accept is skipped, and every connection is served by
  a task of its own; here with the path each asks for and the metrics at that time.
\<close>

fun metrics_loop :: "(metrics \<Rightarrow> string) \<Rightarrow> (string + string \<times> metrics) list \<Rightarrow> (nat \<times> string) list" where
  "metrics_loop render [] = []"
| "metrics_loop render (Inl e # rs) = metrics_loop render rs"
| "metrics_loop render (Inr (path, m) # rs) = metrics_service render m path # metrics_loop render rs"

definition spawn_metrics_server ::
  "(metrics \<Rightarrow> string) \<Rightarrow> string + unit \<Rightarrow> (string + string \<times> metrics) list \<Rightarrow> (nat \<times> string) list" where
  "spawn_metrics_server render listener rs = (case listener of Inl e \<Rightarrow> [] | Inr _ \<Rightarrow> metrics_loop render rs)"

section \<open>Lemmas\<close>

lemma update_dg_size_sel [simp]:
  "datagrams_sent (update_dg_size s n) = datagrams_sent s"
  "bytes_sent (update_dg_size s n) = bytes_sent s"
  "datagrams_blocked (update_dg_size s n) = datagrams_blocked s"
  "dg_size_sum (update_dg_size s n) = dg_size_sum s + of_nat n"
  "dg_size_min (update_dg_size s n) = min (of_nat n) (dg_size_min s)"
  "dg_size_max (update_dg_size s n) = max (of_nat n) (dg_size_max s)"
  by (auto simp: update_dg_size_def Let_def min_def max_def)

lemma record_sends_sum:
  "datagrams_sent (foldl record_send s ns) = datagrams_sent s + of_nat (length ns)
   \<and> bytes_sent (foldl record_send s ns) = bytes_sent s + of_nat (sum_list ns)
   \<and> dg_size_sum (foldl record_send s ns) = dg_size_sum s + of_nat (sum_list ns)"
  by (induction ns arbitrary: s) (simp_all add: record_send_def add.assoc)

lemma unat_of_nat_u64: "n < 2 ^ 64 \<Longrightarrow> unat (of_nat n :: u64) = n"
  by (simp add: unat_of_nat take_bit_eq_mod)

lemma unat_max_u64: "unat (- 1 :: u64) = 2 ^ 64 - 1"
  by (simp add: unsigned_minus_1_eq_mask mask_eq_exp_minus_1)

lemma record_sends_min_max:
  "\<forall>n \<in> set ns. n < 2 ^ 64 \<Longrightarrow>
   unat (dg_size_min (foldl record_send s ns)) = fold min ns (unat (dg_size_min s))
   \<and> unat (dg_size_max (foldl record_send s ns)) = fold max ns (unat (dg_size_max s))"
proof (induction ns arbitrary: s)
  case (Cons n ns)
  then have "unat (of_nat n :: u64) = n" by (simp add: unat_of_nat_u64)
  moreover have "unat (min a b) = min (unat a) (unat b)" "unat (max a b) = max (unat a) (unat b)"
    for a b :: u64
    by (auto simp: min_def max_def word_le_nat_alt)
  ultimately show ?case using Cons by (simp add: record_send_def)
qed simp

lemma record_sends_blocked: "datagrams_blocked (foldl record_send s ns) = datagrams_blocked s"
  by (induction ns arbitrary: s) (simp_all add: record_send_def)

lemma record_blocked_funpow:
  "(record_blocked ^^ k) s = s\<lparr>datagrams_blocked := datagrams_blocked s + of_nat k\<rparr>"
  by (induction k) (simp_all add: record_blocked_def ac_simps)

text \<open>Percentages.\<close>

lemma f64_round_le: "0 \<le> x \<Longrightarrow> x \<le> of_nat n \<Longrightarrow> n < 2 ^ 53 \<Longrightarrow> f64_round x \<le> of_nat n"
  using f64_round_mono [of x "of_nat n"] f64_round_of_nat [of n] by simp

definition share :: "nat \<Rightarrow> nat \<Rightarrow> f64" where
  "share b t = f64_mul (f64_div (f64_of_nat b) (f64_of_nat t)) (f64_of_nat 100)"

lemma f64_of_u64: "n < 2 ^ 64 \<Longrightarrow> f64_of_nat n = Finite (f64_round (of_nat n))"
proof -
  assume "n < 2 ^ 64"
  then have "(of_nat n :: rat) \<le> of_nat (2 ^ 64)" by (simp only: of_nat_le_iff less_imp_le)
  then show ?thesis unfolding f64_of_nat_def by (intro small_finite) simp_all
qed

lemma share_value:
  assumes "b \<le> t" "0 < t" "t < 2 ^ 64"
  shows "share b t = Finite (f64_round (f64_round (f64_round (of_nat b) / f64_round (of_nat t)) * 100))"
    "0 \<le> f64_round (of_nat b) / f64_round (of_nat t)" "f64_round (of_nat b) / f64_round (of_nat t) \<le> 1"
proof -
  let ?b = "f64_round (of_nat b)" and ?t = "f64_round (of_nat t)"
  have "(1 :: rat) \<le> of_nat t" using assms(2) by simp
  then have t: "1 \<le> ?t" using f64_round_mono [of 1 "of_nat t"] f64_round_of_nat [of 1] by simp
  have b: "0 \<le> ?b" "?b \<le> ?t" using assms(1) f64_round_mono by (simp_all add: f64_round_nonneg)
  show q: "0 \<le> ?b / ?t" "?b / ?t \<le> 1" using b t by (simp_all add: divide_le_eq)
  have r: "0 \<le> f64_round (?b / ?t)" "f64_round (?b / ?t) \<le> 1"
    using f64_round_nonneg [OF q(1)] f64_round_le [of "?b / ?t" 1] q by simp_all
  have "f64_of (?b / ?t) = Finite (f64_round (?b / ?t))" by (rule small_finite) (use q in simp_all)
  moreover have "f64_of (f64_round (?b / ?t) * 100) = Finite (f64_round (f64_round (?b / ?t) * 100))"
    by (rule small_finite) (use r in simp_all)
  ultimately show "share b t = Finite (f64_round (f64_round (?b / ?t) * 100))"
    using assms t by (simp add: share_def f64_of_u64 f64_div_def f64_mul_def)
qed

lemma share_bounds:
  assumes "b \<le> t" "0 < t" "t < 2 ^ 64"
  shows "\<exists>p. share b t = Finite p \<and> 0 \<le> p \<and> p \<le> 100 \<and> (t < 2 ^ 53 \<longrightarrow> \<bar>p - 100 * of_nat b / of_nat t\<bar> \<le> 1 / 2 ^ 45)"
proof -
  let ?q = "f64_round (of_nat b) / f64_round (of_nat t)"
  note V = share_value [OF assms]
  have r: "0 \<le> f64_round ?q" "f64_round ?q \<le> 1" using f64_round_nonneg [OF V(2)] f64_round_le [of ?q 1] V by simp_all
  let ?p = "f64_round (f64_round ?q * 100)"
  have p: "0 \<le> ?p" "?p \<le> 100" using f64_round_nonneg f64_round_le [of "f64_round ?q * 100" 100] r by simp_all
  have "\<bar>?p - 100 * of_nat b / of_nat t\<bar> \<le> 1 / 2 ^ 45" if small: "t < 2 ^ 53"
  proof -
    have q: "?q = of_nat b / of_nat t" using assms(1) small by (simp add: f64_round_of_nat)
    have "\<bar>f64_round ?q - ?q\<bar> \<le> 2 powi (1 - 54)" by (rule f64_round_error_below) (use V(2,3) in simp_all)
    also have "\<dots> = 1 / 2 ^ 53" by (simp add: power_int_minus inverse_eq_divide)
    finally have e1: "\<bar>f64_round ?q - ?q\<bar> \<le> 1 / 2 ^ 53" .
    have "\<bar>?p - f64_round ?q * 100\<bar> \<le> 2 powi (7 - 54)" by (rule f64_round_error_below) (use r in simp_all)
    also have "\<dots> = 1 / 2 ^ 47" by (simp add: power_int_minus inverse_eq_divide)
    finally have e2: "\<bar>?p - f64_round ?q * 100\<bar> \<le> 1 / 2 ^ 47" .
    have sum: "\<bar>r - q\<bar> \<le> a \<Longrightarrow> \<bar>p - r * 100\<bar> \<le> c \<Longrightarrow> \<bar>p - 100 * q\<bar> \<le> 100 * a + c" for p q r a c :: rat by linarith
    have "\<bar>?p - 100 * ?q\<bar> \<le> 100 * (1 / 2 ^ 53) + 1 / 2 ^ 47" by (rule sum [OF e1 e2])
    also have "\<dots> \<le> 1 / 2 ^ 45" by simp
    finally have "\<bar>?p - 100 * ?q\<bar> \<le> 1 / 2 ^ 45" .
    then show ?thesis by (simp add: q)
  qed
  with V(1) p show ?thesis by blast
qed

text \<open>Rates: four roundings, and two more in the divisor.\<close>

lemma quotient_close:
  fixes a v e t :: rat
  assumes "approx 4 (a / e) v" "approx 2 t e" "0 < a" "0 < t"
  shows "\<bar>v - a / t\<bar> \<le> a / t / 2 ^ 50"
proof -
  have e: "t * (1 - 1 / 2 ^ 53) ^ 2 \<le> e" "e \<le> t * (1 + 1 / 2 ^ 53) ^ 2" using assms(2) by (simp_all only: approx_def)
  have low: "(0 :: rat) < (1 - 1 / 2 ^ 53) ^ 2" by simp
  have pos: "0 < e" using e(1) mult_pos_pos [OF assms(4) low] by linarith
  have up: "a / e \<le> a / t * (1 / (1 - 1 / 2 ^ 53) ^ 2)"
  proof -
    have "a / e \<le> a / (t * (1 - 1 / 2 ^ 53) ^ 2)"
      by (rule divide_left_mono [OF e(1)]) (use assms(3) pos mult_pos_pos [OF assms(4) low] in \<open>simp_all only: less_imp_le mult_pos_pos\<close>)
    then show ?thesis by (simp only: divide_divide_eq_left times_divide_eq_right mult_1_right)
  qed
  have down: "a / t * (1 / (1 + 1 / 2 ^ 53) ^ 2) \<le> a / e"
  proof -
    have "a / (t * (1 + 1 / 2 ^ 53) ^ 2) \<le> a / e"
      by (rule divide_left_mono [OF e(2)]) (use assms(3,4) pos in \<open>simp_all add: less_imp_le mult_pos_pos\<close>)
    then show ?thesis by (simp only: divide_divide_eq_left times_divide_eq_right mult_1_right)
  qed
  have x: "0 < a / t" using assms(3,4) by simp
  have "v \<le> a / e * (1 + 1 / 2 ^ 53) ^ 4" using assms(1) by (simp only: approx_def)
  also have "\<dots> \<le> a / t * (1 / (1 - 1 / 2 ^ 53) ^ 2) * (1 + 1 / 2 ^ 53) ^ 4" by (rule mult_right_mono [OF up]) simp
  also have "\<dots> = a / t * ((1 + 1 / 2 ^ 53) ^ 4 / (1 - 1 / 2 ^ 53) ^ 2)" by simp
  also have "\<dots> \<le> a / t * (1 + 1 / 2 ^ 50)" by (rule mult_left_mono) (use x in \<open>simp_all add: power_divide\<close>)
  finally have hi: "v \<le> a / t + a / t / 2 ^ 50" by (simp add: distrib_left)
  have "a / t - a / t / 2 ^ 50 = a / t * (1 - 1 / 2 ^ 50)" by (simp add: right_diff_distrib)
  also have "\<dots> \<le> a / t * ((1 - 1 / 2 ^ 53) ^ 4 / (1 + 1 / 2 ^ 53) ^ 2)" by (rule mult_left_mono) (use x in \<open>simp_all add: power_divide\<close>)
  also have "\<dots> = a / t * (1 / (1 + 1 / 2 ^ 53) ^ 2) * (1 - 1 / 2 ^ 53) ^ 4" by simp
  also have "\<dots> \<le> a / e * (1 - 1 / 2 ^ 53) ^ 4" by (rule mult_right_mono [OF down]) simp
  also have "\<dots> \<le> v" using assms(1) by (simp only: approx_def)
  finally show ?thesis using hi by linarith
qed

lemma mbps_close:
  assumes d: "duration d" and b: "0 < b" "b < 2 ^ 64"
  shows "\<exists>v e. f64_div (f64_div (f64_mul (f64_of_nat b) (f64_of_nat 8)) (as_secs_f64 d)) (f64_of_nat 1000000) = Finite v
    \<and> approx 2 (secs d) e \<and> approx 4 (of_nat b * 8 / 1000000 / e) v"
proof -
  obtain e where e: "as_secs_f64 d = Finite e" "approx 2 (secs d) e" using as_secs_approx [OF d] by blast
  have sb: "1 / 2 ^ 30 \<le> secs d" "secs d \<le> 2 ^ 54" using secs_bounds [OF d] .
  then have "1 / 2 ^ 31 \<le> e" "e \<le> 2 ^ 55" using approx_factor [OF e(2)] by simp_all
  then have eb: "0 < e" "1 / 2 ^ 31 \<le> e" "e \<le> 2 ^ 55" by simp_all
  have "(of_nat b :: rat) \<le> of_nat (2 ^ 64)" using b(2) by (simp only: of_nat_le_iff less_imp_le)
  then have bb: "(1 :: rat) \<le> of_nat b" "(of_nat b :: rat) \<le> 2 ^ 64" using b(1) by simp_all
  define x1 where "x1 = (of_nat b * 8 :: rat)"
  define x2 where "x2 = x1 / e"
  define x3 where "x3 = x2 / 1000000"
  have range: "1 / 2 ^ 190 \<le> x" if "1 / 2 ^ 100 \<le> x" for x :: rat using that by (rule order_trans [rotated]) simp
  have range2: "x \<le> 2 ^ 190" if "x \<le> 2 ^ 130" for x :: rat using that by (rule order_trans) simp
  have x1: "8 \<le> x1" "x1 \<le> 2 ^ 67" using bb by (simp_all add: x1_def)
  have x2: "8 / 2 ^ 55 \<le> x2" "x2 \<le> 2 ^ 67 * 2 ^ 31"
  proof -
    show "8 / 2 ^ 55 \<le> x2" unfolding x2_def by (rule frac_le) (use x1 eb in simp_all)
    have "x2 \<le> 2 ^ 67 / (1 / 2 ^ 31)" unfolding x2_def by (rule frac_le) (use x1 eb in simp_all)
    then show "x2 \<le> 2 ^ 67 * 2 ^ 31" by simp
  qed
  have x3: "8 / 2 ^ 55 / 1000000 \<le> x3" "x3 \<le> 2 ^ 67 * 2 ^ 31" using x2 by (simp_all add: x3_def divide_right_mono)
  have bounds: "1 / 2 ^ 190 \<le> (of_nat b :: rat)" "(of_nat b :: rat) \<le> 2 ^ 190" "1 / 2 ^ 190 \<le> x1" "x1 \<le> 2 ^ 190"
    "1 / 2 ^ 190 \<le> x2" "x2 \<le> 2 ^ 190" "1 / 2 ^ 190 \<le> x3" "x3 \<le> 2 ^ 190"
    using bb x1 x2 x3 by (auto intro!: range range2 elim: order_trans [rotated] order_trans)
  obtain r0 where r0: "f64_of (of_nat b) = Finite r0" "approx 1 (of_nat b) r0"
    using approx_step [OF approx_refl _ bounds(1,2)] by simp
  obtain r1 where r1: "f64_of (r0 * 8) = Finite r1" "approx 2 x1 r1"
    using approx_step [OF approx_mult [OF r0(2), of 8, folded x1_def] _ bounds(3,4)] by (auto simp: numeral_2_eq_2)
  obtain r2 where r2: "f64_of (r1 / e) = Finite r2" "approx 3 x2 r2"
    using approx_step [OF approx_divide [OF r1(2) eb(1), folded x2_def] _ bounds(5,6)] by (auto simp: numeral_3_eq_3)
  obtain r3 where r3: "f64_of (r2 / 1000000) = Finite r3" "approx 4 x3 r3"
    using approx_step [OF approx_divide [OF r2(2), of 1000000, folded x3_def] _ bounds(7,8)] by (auto simp: eval_nat_numeral)
  have "x3 = of_nat b * 8 / 1000000 / e" by (simp add: x3_def x2_def x1_def)
  with e(2) r3(2) r0(1) r1(1) r2(1) r3(1) e(1) eb(1) show ?thesis
    by (intro exI [of _ r3] exI [of _ e]) (simp add: f64_mul_def f64_div_def f64_of_nat_def [of b])
qed

section \<open>Properties\<close>

text \<open>
  The rates of a report are accurate: after any time that is not zero, and for any number of bytes that is not
  zero, the rate in Mbit/s differs from the exact one by less than a \<open>2 ^ -50\<close> of it. A report in the very instant of
  the start shows no number.
\<close>

theorem mbps_accurate:
  assumes "duration d" "0 < bytes"
  shows "(\<exists>v. mbps bytes (as_secs_f64 d) = Finite v
      \<and> \<bar>v - of_nat (unat bytes) * 8 / 1000000 / secs d\<bar> \<le> of_nat (unat bytes) * 8 / 1000000 / secs d / 2 ^ 50)
    \<and> mbps 0 (as_secs_f64 (0, 0)) = NotANumber"
proof -
  have b: "0 < unat bytes" using assms(2) by (simp add: word_less_nat_alt)
  obtain v e where v: "mbps bytes (as_secs_f64 d) = Finite v" "approx 2 (secs d) e" "approx 4 (of_nat (unat bytes) * 8 / 1000000 / e) v"
    using mbps_close [OF assms(1) b] unsigned_less [of bytes, where ?'a = nat] by (auto simp: mbps_def simp del: of_nat_unat)
  have "0 < secs d" using secs_bounds(1) [OF assms(1)] by (rule less_le_trans [rotated]) simp
  moreover have "0 < (of_nat (unat bytes) * 8 / 1000000 :: rat)" using b by (simp del: of_nat_unat)
  ultimately have acc: "\<bar>v - of_nat (unat bytes) * 8 / 1000000 / secs d\<bar> \<le> of_nat (unat bytes) * 8 / 1000000 / secs d / 2 ^ 50"
    using quotient_close [OF v(3,2)] by (simp del: of_nat_unat)
  have zero: "f64_of_nat 0 = Finite 0" by (rule f64_of_nat_exact [of 0, simplified])
  have "f64_of 0 = Finite 0" by (simp add: f64_of_def f64_round_def power_int_def)
  then have "mbps 0 (as_secs_f64 (0, 0)) = NotANumber"
    by (simp add: mbps_def as_secs_f64_def zero f64_mul_def f64_div_def f64_add_def)
  with v(1) acc show ?thesis by blast
qed

theorem mbps_accurate_witness:
  "\<exists>v. mbps 1000000 (as_secs_f64 (2, 500000000)) = Finite v \<and> \<bar>v - 16 / 5\<bar> \<le> 16 / 5 / 2 ^ 50"
  using mbps_accurate [of "(2, 500000000)" 1000000] by (simp add: duration_def secs_def)


text \<open>
  The percentages of a report: a share of a non-zero whole is a number between 0 and 100, for all 64-bit counts,
  although both counts and two results are rounded; and for counts below \<open>2 ^ 53\<close>, which are exact, it is within
  \<open>2 ^ -45\<close> of the exact value. Before the first attempt it is zero.
\<close>

theorem percentage_bounds:
  assumes "part \<le> whole"
  shows "\<exists>p. percentage part whole = Finite p \<and> 0 \<le> p \<and> p \<le> 100
    \<and> (unat whole < 2 ^ 53 \<longrightarrow> 0 < whole \<longrightarrow> \<bar>p - 100 * of_nat (unat part) / of_nat (unat whole)\<bar> \<le> 1 / 2 ^ 45)"
proof (cases "whole = 0")
  case False
  then have "0 < unat whole" "0 < whole" using unat_eq_0 [of whole] by (simp_all add: word_greater_zero_iff)
  with share_bounds [of "unat part" "unat whole"] assms unsigned_less [of whole, where ?'a = nat] show ?thesis
    by (simp add: percentage_def share_def word_le_nat_alt del: of_nat_unat)
qed (use assms in \<open>simp add: percentage_def\<close>)

theorem percentage_bounds_witness:
  "\<exists>p. percentage 1 3 = Finite p \<and> \<bar>p - 100 / 3\<bar> \<le> 1 / 2 ^ 45"
  using percentage_bounds [of 1 3] by auto


text \<open>
  The figures of a report: after sending datagrams of the given sizes (at least one, none as
  large as \<open>u64::MAX\<close>, less than \<open>2 ^ 64\<close> bytes in all) and \<open>k\<close> blocked ones, the report shows the number
  attempted, the minimum, the maximum and the rounded-down average size of those sent; before any
  datagram it shows zeros.
\<close>

theorem stats_report_correct:
  assumes "ns \<noteq> []" "sum_list ns < 2 ^ 64" "length ns + k < 2 ^ 64" "\<forall>n \<in> set ns. n < 2 ^ 64 - 1"
  shows "let r = Stats_report ((record_blocked ^^ k) (foldl record_send Stats_new ns)) in
    unat (total_attempted r) = length ns + k \<and> unat (dg_avg r) = sum_list ns div length ns
    \<and> unat (dg_min_display r) = Min (set ns) \<and> unat (dg_max_display r) = Max (set ns)
    \<and> Stats_report Stats_new = \<lparr>total_attempted = 0, dg_avg = 0, dg_min_display = 0, dg_max_display = 0\<rparr>"
proof -
  let ?s = "foldl record_send Stats_new ns"
  note sums = record_sends_sum [of Stats_new ns]
  have lt: "\<forall>n \<in> set ns. n < 2 ^ 64" using assms(4) by fastforce
  have m: "unat (dg_size_min ?s) = Min (insert (2 ^ 64 - 1) (set ns))"
    "unat (dg_size_max ?s) = Max (insert 0 (set ns))"
    using record_sends_min_max [OF lt, of Stats_new] Min.set_eq_fold [of "2 ^ 64 - 1" ns]
      Max.set_eq_fold [of 0 ns]
    by (simp_all add: Stats_new_def unat_max_u64)
  obtain a where a: "a \<in> set ns" using assms(1) by (cases ns) auto
  have "Min (set ns) < 2 ^ 64 - 1" using assms(1,4) Min_in [of "set ns"] by auto
  then have mn: "unat (dg_size_min ?s) = Min (set ns)" and mx: "unat (dg_size_max ?s) = Max (set ns)"
    using m assms(1) by (simp_all add: Min_insert Max_insert)
  have "dg_size_min ?s \<noteq> - 1"
  proof
    assume "dg_size_min ?s = - 1"
    then have "unat (dg_size_min ?s) = 2 ^ 64 - 1" by (simp add: unat_max_u64)
    with mn \<open>Min (set ns) < 2 ^ 64 - 1\<close> show False by simp
  qed
  moreover have sent: "unat (datagrams_sent ?s) = length ns"
    using sums assms(3) unat_of_nat_u64 [of "length ns"] by (simp add: Stats_new_def)
  then have "datagrams_sent ?s > 0" using assms(1) by (simp add: word_less_nat_alt)
  moreover have "unat (dg_size_sum ?s div datagrams_sent ?s) = sum_list ns div length ns"
    using sums unat_of_nat_u64 [OF assms(2)] sent by (simp add: unat_div Stats_new_def)
  moreover have "unat (datagrams_sent ?s + of_nat k) = length ns + k"
    using sums unat_of_nat_u64 [OF assms(3)] by (simp add: Stats_new_def)
  moreover have "datagrams_blocked ?s = 0"
    by (simp only: record_sends_blocked) (simp add: Stats_new_def)
  moreover have "Stats_report Stats_new = \<lparr>total_attempted = 0, dg_avg = 0, dg_min_display = 0, dg_max_display = 0\<rparr>"
    by (simp add: Stats_report_def Stats_new_def)
  ultimately show ?thesis using mn mx
    by (simp add: record_blocked_funpow Stats_report_def Let_def)
qed

theorem stats_report_correct_witness:
  "let r = Stats_report ((record_blocked ^^ 2) (foldl record_send Stats_new [100, 1400, 600])) in
   unat (total_attempted r) = 5 \<and> unat (dg_avg r) = 700 \<and> unat (dg_min_display r) = 100"
  using stats_report_correct [of "[100, 1400, 600]" 2] by (simp add: Let_def)

end
