(* ===== verification/NetAddr.thy ===== *)
theory NetAddr
  imports Auth
begin

text \<open>
  The textual addresses of the standard library the sources parse and print
  (\<open>Ipv4Addr\<close>, \<open>SocketAddr\<close>, decimal integers). A parser consumes a prefix of its input. The address
  parsers are those of \<open>core::net\<close>: decimal octets of at most three digits without a leading zero, at most
  15 characters in all for a bare IPv4 address; groups of at most four hexadecimal digits, one \<open>::\<close> and an
  embedded IPv4 tail for IPv6; ports and scope identifiers in decimal.
\<close>

type_synonym 'a parser = "string \<Rightarrow> ('a \<times> string) option"

definition to_digit :: "nat \<Rightarrow> char \<Rightarrow> nat option" where
  "to_digit radix c =
     (case to_digit16 c of Some d \<Rightarrow> if d < radix then Some d else None | None \<Rightarrow> None)"

text \<open>The digits at the front of the input, their value and number.\<close>

fun read_digits :: "nat \<Rightarrow> string \<Rightarrow> nat list \<times> string" where
  "read_digits radix [] = ([], [])"
| "read_digits radix (c # s) =
     (case to_digit radix c of
        None \<Rightarrow> ([], c # s)
      | Some d \<Rightarrow> (case read_digits radix s of (ds, r) \<Rightarrow> (d # ds, r)))"

definition digits_value :: "nat \<Rightarrow> nat list \<Rightarrow> nat" where
  "digits_value radix ds = foldl (\<lambda>a d. a * radix + d) 0 ds"

definition read_number :: "nat \<Rightarrow> nat option \<Rightarrow> bool \<Rightarrow> nat \<Rightarrow> nat parser" where
  "read_number radix max_digits allow_zero_prefix limit s =
     (case read_digits radix s of (ds, r) \<Rightarrow>
        if ds = [] then None
        else if (case max_digits of Some m \<Rightarrow> length ds > m | None \<Rightarrow> False) then None
        else if digits_value radix ds \<ge> limit then None
        else if \<not> allow_zero_prefix \<and> hd ds = 0 \<and> length ds > 1 then None
        else Some (digits_value radix ds, r))"

definition read_given_char :: "char \<Rightarrow> unit parser" where
  "read_given_char c s = (case s of x # r \<Rightarrow> if x = c then Some ((), r) else None | [] \<Rightarrow> None)"

definition read_octet :: "nat parser" where
  "read_octet = read_number 10 (Some 3) False 256"

definition read_ipv4_addr :: "ipv4 parser" where
  "read_ipv4_addr s = do {
     (a, s) \<leftarrow> read_octet s; (_, s) \<leftarrow> read_given_char CHR ''.'' s;
     (b, s) \<leftarrow> read_octet s; (_, s) \<leftarrow> read_given_char CHR ''.'' s;
     (c, s) \<leftarrow> read_octet s; (_, s) \<leftarrow> read_given_char CHR ''.'' s;
     (d, s) \<leftarrow> read_octet s;
     Some (Ipv4Addr (of_nat a) (of_nat b) (of_nat c) (of_nat d), s) }"

text \<open>\<open>"...".parse::<Ipv4Addr>()\<close>.\<close>

definition parse_ipv4 :: "string \<Rightarrow> ipv4 option" where
  "parse_ipv4 s =
     (if length s > 15 then None
      else case read_ipv4_addr s of Some (a, []) \<Rightarrow> Some a | _ \<Rightarrow> None)"

text \<open>IPv6 groups: \<open>fuel\<close> is the number of groups that may still be read, \<open>i\<close> those read already.\<close>

definition read_separator :: "nat \<Rightarrow> 'a parser \<Rightarrow> 'a parser" where
  "read_separator i p s = (if i > 0 then (case read_given_char CHR '':'' s of Some (_, s) \<Rightarrow> p s | None \<Rightarrow> None) else p s)"

fun read_groups :: "nat \<Rightarrow> nat \<Rightarrow> string \<Rightarrow> nat list \<times> bool \<times> string" where
  "read_groups i 0 s = ([], False, s)"
| "read_groups i (Suc n) s =
     (case (if n > 0 then read_separator i read_ipv4_addr s else None) of
        Some (Ipv4Addr a b c d, s) \<Rightarrow> ([unat a * 256 + unat b, unat c * 256 + unat d], True, s)
      | None \<Rightarrow>
          (case read_separator i (read_number 16 (Some 4) True 65536) s of
             None \<Rightarrow> ([], False, s)
           | Some (g, s) \<Rightarrow> (case read_groups (Suc i) n s of (gs, v4, s) \<Rightarrow> (g # gs, v4, s))))"

definition read_ipv6_addr :: "nat list parser" where
  "read_ipv6_addr s =
     (case read_groups 0 8 s of (head, v4, s) \<Rightarrow>
        if length head = 8 then Some (head, s)
        else if v4 then None
        else do {
          (_, s) \<leftarrow> read_given_char CHR '':'' s;
          (_, s) \<leftarrow> read_given_char CHR '':'' s;
          (case read_groups 0 (7 - length head) s of (tail, _, s) \<Rightarrow>
             Some (head @ replicate (8 - length head - length tail) 0 @ tail, s)) })"

datatype socket_addr = V4 ipv4 nat | V6 "nat list" nat nat

definition read_port :: "nat parser" where
  "read_port s = (case read_given_char CHR '':'' s of Some (_, s) \<Rightarrow> read_number 10 None True 65536 s | None \<Rightarrow> None)"

definition read_scope_id :: "string \<Rightarrow> nat \<times> string" where
  "read_scope_id s =
     (case read_given_char CHR ''%'' s of
        None \<Rightarrow> (0, s)
      | Some (_, r) \<Rightarrow>
          (case read_number 10 None True 4294967296 r of Some (n, r) \<Rightarrow> (n, r) | None \<Rightarrow> (0, s)))"

definition read_socket_addr_v4 :: "socket_addr parser" where
  "read_socket_addr_v4 s = do { (ip, s) \<leftarrow> read_ipv4_addr s; (port, s) \<leftarrow> read_port s; Some (V4 ip port, s) }"

definition read_socket_addr_v6 :: "socket_addr parser" where
  "read_socket_addr_v6 s = do {
     (_, s) \<leftarrow> read_given_char CHR ''['' s;
     (ip, s) \<leftarrow> read_ipv6_addr s;
     (case read_scope_id s of (scope, s) \<Rightarrow> do {
        (_, s) \<leftarrow> read_given_char CHR '']'' s;
        (port, s) \<leftarrow> read_port s;
        Some (V6 ip port scope, s) }) }"

definition parse_socket_addr :: "string \<Rightarrow> socket_addr option" where
  "parse_socket_addr s =
     (case (case read_socket_addr_v4 s of Some x \<Rightarrow> Some x | None \<Rightarrow> read_socket_addr_v6 s) of
        Some (a, []) \<Rightarrow> Some a
      | _ \<Rightarrow> None)"

section \<open>Printing\<close>

text \<open>\<open>Display\<close> of an unsigned integer and of an IPv4 address.\<close>

fun show_nat :: "nat \<Rightarrow> string" where
  "show_nat n = (if n < 10 then [char_of (48 + n)] else show_nat (n div 10) @ [char_of (48 + n mod 10)])"

declare show_nat.simps [simp del]

definition show_ipv4 :: "ipv4 \<Rightarrow> string" where
  "show_ipv4 ip =
     (case ip of Ipv4Addr a b c d \<Rightarrow>
        show_nat (unat a) @ ''.'' @ show_nat (unat b) @ ''.'' @ show_nat (unat c) @ ''.'' @ show_nat (unat d))"

section \<open>Lemmas\<close>

lemma digit_chars:
  "char_of (48 :: nat) = CHR ''0''" "char_of (49 :: nat) = CHR ''1''" "char_of (50 :: nat) = CHR ''2''"
  "char_of (51 :: nat) = CHR ''3''" "char_of (52 :: nat) = CHR ''4''" "char_of (53 :: nat) = CHR ''5''"
  "char_of (54 :: nat) = CHR ''6''" "char_of (55 :: nat) = CHR ''7''" "char_of (56 :: nat) = CHR ''8''"
  "char_of (57 :: nat) = CHR ''9''"
  by code_simp+

lemmas show_simps = show_ipv4_def show_nat.simps digit_chars

lemma to_digit_dec [simp]: "d < 10 \<Longrightarrow> to_digit 10 (char_of (48 + d)) = Some d"
  by (simp add: to_digit_def to_digit16_def)

lemma read_digits_append:
  "\<forall>d \<in> set ds. d < 10 \<Longrightarrow> read_digits 10 r = ([], r) \<Longrightarrow>
   read_digits 10 (map (\<lambda>d. char_of (48 + d)) ds @ r) = (ds, r)"
  by (induction ds) auto

text \<open>The decimal digits of a number, most significant first.\<close>

fun dec_digits :: "nat \<Rightarrow> nat list" where
  "dec_digits n = (if n < 10 then [n] else dec_digits (n div 10) @ [n mod 10])"

declare dec_digits.simps [simp del]

lemma show_nat_digits: "show_nat n = map (\<lambda>d. char_of (48 + d)) (dec_digits n)"
proof (induction n rule: show_nat.induct)
  case (1 n)
  then show ?case by (simp add: show_nat.simps [of n] dec_digits.simps [of n])
qed

lemma dec_digits_range: "\<forall>d \<in> set (dec_digits n). d < 10"
proof (induction n rule: dec_digits.induct)
  case (1 n)
  then show ?case by (simp add: dec_digits.simps [of n])
qed

lemma dec_digits_value: "digits_value 10 (dec_digits n) = n"
proof (induction n rule: dec_digits.induct)
  case (1 n)
  then show ?case by (simp add: dec_digits.simps [of n] digits_value_def)
qed

lemma dec_digits_no_zero: "n \<noteq> 0 \<Longrightarrow> hd (dec_digits n) \<noteq> 0 \<and> dec_digits n \<noteq> []"
proof (induction n rule: dec_digits.induct)
  case (1 n)
  then show ?case by (auto simp: dec_digits.simps [of n] hd_append)
qed

lemma length_dec_digits: "n < 10 ^ Suc k \<Longrightarrow> length (dec_digits n) \<le> Suc k"
proof (induction n arbitrary: k rule: dec_digits.induct)
  case (1 n)
  show ?case
  proof (cases "n < 10")
    case False
    then obtain k' where k: "k = Suc k'" using 1(2) by (cases k) auto
    then have "n div 10 < 10 ^ Suc k'" using 1(2) by (simp add: less_mult_imp_div_less)
    from 1(1) [OF False this] k False show ?thesis by (simp add: dec_digits.simps [of n])
  qed (simp add: dec_digits.simps [of n])
qed

lemma dec_digits_0: "dec_digits 0 = [0]"
  by (simp add: dec_digits.simps)

lemma read_number_show:
  assumes "n < limit" "read_digits 10 r = ([], r)"
    and "case m of None \<Rightarrow> True | Some k \<Rightarrow> n < 10 ^ k \<and> 0 < k"
  shows "read_number 10 m z limit (show_nat n @ r) = Some (n, r)"
proof -
  have "read_digits 10 (show_nat n @ r) = (dec_digits n, r)"
    unfolding show_nat_digits by (rule read_digits_append [OF dec_digits_range assms(2)])
  moreover have "dec_digits n \<noteq> []" by (cases "n = 0") (auto simp: dec_digits_0 dec_digits_no_zero)
  moreover have "\<not> (hd (dec_digits n) = 0 \<and> length (dec_digits n) > 1)"
    by (cases "n = 0") (auto simp: dec_digits_0 dec_digits_no_zero)
  moreover have "case m of Some k \<Rightarrow> length (dec_digits n) \<le> k | None \<Rightarrow> True"
  proof (cases m)
    case (Some k)
    with assms(3) obtain j where "k = Suc j" "n < 10 ^ Suc j" by (cases k) auto
    with Some length_dec_digits [of n j] show ?thesis by simp
  qed simp
  ultimately show ?thesis using assms(1) by (auto simp: read_number_def dec_digits_value split: option.splits)
qed

lemma read_digits_stop [simp]:
  "read_digits 10 [] = ([], [])" "read_digits 10 (CHR ''.'' # r) = ([], CHR ''.'' # r)"
  "read_digits 10 (CHR '':'' # r) = ([], CHR '':'' # r)" "read_digits 10 (CHR ''/'' # r) = ([], CHR ''/'' # r)"
  by (simp_all add: to_digit_def to_digit16_def code_def read_digits.simps)

declare read_digits.simps(2) [simp del]

lemma read_octet_show: "read_digits 10 r = ([], r) \<Longrightarrow> read_octet (show_nat (unat (a :: u8)) @ r) = Some (unat a, r)"
  using unat_u8_less [of a] by (simp add: read_octet_def read_number_show)

lemma read_ipv4_show: "read_digits 10 r = ([], r) \<Longrightarrow> read_ipv4_addr (show_ipv4 ip @ r) = Some (ip, r)"
  by (cases ip) (simp add: read_ipv4_addr_def show_ipv4_def read_octet_show read_given_char_def)

lemma length_show_octet: "length (show_nat (unat (a :: u8))) \<le> 3"
  using unat_u8_less [of a] length_dec_digits [of "unat a" 2] by (simp add: show_nat_digits)

lemma length_show_ipv4: "length (show_ipv4 ip) \<le> 15"
proof (cases ip)
  case (Ipv4Addr a b c d)
  with length_show_octet [of a] length_show_octet [of b] length_show_octet [of c] length_show_octet [of d]
  show ?thesis by (simp add: show_ipv4_def)
qed

lemma parse_show_ipv4: "parse_ipv4 (show_ipv4 ip) = Some ip"
  using read_ipv4_show [of "[]" ip] length_show_ipv4 [of ip] by (simp add: parse_ipv4_def)

lemma show_ipv4_inj: "show_ipv4 a = show_ipv4 b \<longleftrightarrow> a = b"
  by (metis option.inject parse_show_ipv4)

lemma parse_socket_v4:
  "p < 65536 \<Longrightarrow> parse_socket_addr (show_ipv4 ip @ '':'' @ show_nat p) = Some (V4 ip p)"
  by (simp add: parse_socket_addr_def read_socket_addr_v4_def read_ipv4_show read_port_def
      read_given_char_def read_number_show [of _ _ "[]", simplified])

section \<open>Properties\<close>

text \<open>
  Addresses survive printing and parsing: every IPv4 address, printed, parses back to itself,
  and with a colon and any 16-bit port in decimal it parses as that socket address; hence distinct
  addresses print differently.
\<close>

theorem address_text_roundtrip:
  assumes "p < 65536"
  shows "parse_ipv4 (show_ipv4 ip) = Some ip
    \<and> parse_socket_addr (show_ipv4 ip @ '':'' @ show_nat p) = Some (V4 ip p)
    \<and> (show_ipv4 ip = show_ipv4 ip' \<longleftrightarrow> ip = ip')"
  using parse_show_ipv4 parse_socket_v4 [OF assms] show_ipv4_inj by blast

theorem address_text_roundtrip_witness:
  "parse_socket_addr ''10.0.1.1:443'' = Some (V4 (Ipv4Addr 10 0 1 1) 443)"
proof -
  have "show_ipv4 (Ipv4Addr 10 0 1 1) @ '':'' @ show_nat 443 = ''10.0.1.1:443''" by (simp add: show_simps)
  with address_text_roundtrip [of 443 "Ipv4Addr 10 0 1 1" "Ipv4Addr 10 0 1 1"] show ?thesis by simp
qed

end
