(* ===== verification/Config.thy ===== *)
theory Config
  imports NetAddr
begin

text \<open>
  Configuration, \<^verbatim>\<open>src/crates/redpill-quic/src/config.rs\<close>: the server's and the client's settings with
  their defaults, loading and validation. The TOML deserialiser is library code: it is the argument
  \<open>from_str\<close>, which is given the defaults of absent keys by the records below.
\<close>

section \<open>Server\<close>

record nat_config =
  nat_enabled :: bool
  nat_interface :: string

record decoy_config =
  decoy_enabled :: bool
  decoy_page :: string

record reality_server_config =
  reality_enabled :: bool
  reality_listen :: string
  reality_target :: string

record websocket_server_config =
  ws_enabled :: bool
  ws_listen :: string

record server_config =
  srv_listen :: string
  srv_tun_name :: string
  srv_tun_address :: string
  srv_tun_prefix_len :: u8
  srv_mtu :: u32
  srv_max_connections :: u32
  srv_max_bandwidth_mbps :: u64
  srv_metrics_listen :: string
  srv_psk_file :: string
  srv_users_dir :: "string option"
  srv_cert_file :: string
  srv_key_file :: string
  srv_domain :: "string option"
  srv_acme_dir :: string
  srv_acme_email :: "string option"
  srv_log_level :: string
  srv_dns :: string
  srv_nat :: nat_config
  srv_decoy :: decoy_config
  srv_reality :: reality_server_config
  srv_websocket :: websocket_server_config
  srv_sni_pool :: "string list"

definition default_listen :: string where "default_listen = ''0.0.0.0:443''"
definition default_tun_name :: string where "default_tun_name = ''redpill1''"
definition default_tun_address :: string where "default_tun_address = ''10.0.1.1''"
definition default_tun_prefix_len :: u8 where "default_tun_prefix_len = 24"
definition default_mtu :: u32 where "default_mtu = 1200"
definition default_max_connections :: u32 where "default_max_connections = 64"
definition default_psk_file :: string where "default_psk_file = ''/etc/redpill/psk''"
definition default_cert_file :: string where "default_cert_file = ''/etc/redpill/quic-cert.pem''"
definition default_key_file :: string where "default_key_file = ''/etc/redpill/quic-key.pem''"
definition default_log_level :: string where "default_log_level = ''info''"
definition default_dns :: string where "default_dns = ''1.1.1.1''"
definition default_wan_interface :: string where "default_wan_interface = ''ens1''"
definition default_decoy_page :: string where "default_decoy_page = ''/etc/redpill/decoy.html''"
definition default_metrics_listen :: string where "default_metrics_listen = ''127.0.0.1:9093''"
definition default_acme_dir :: string where "default_acme_dir = ''/etc/redpill/acme''"
definition default_reality_listen :: string where "default_reality_listen = ''0.0.0.0:8443''"
definition default_reality_target :: string where "default_reality_target = ''www.google.com:443''"
definition default_ws_listen :: string where "default_ws_listen = ''127.0.0.1:8443''"
definition default_transport_mode :: string where "default_transport_mode = ''auto''"
definition default_browser_profile :: string where "default_browser_profile = ''chrome''"

definition default_sni_pool :: "string list" where
  "default_sni_pool = [''dl.google.com'', ''www.google.com'', ''fonts.gstatic.com'', ''www.youtube.com'']"

definition NatConfig_default :: nat_config where
  "NatConfig_default = \<lparr>nat_enabled = True, nat_interface = default_wan_interface\<rparr>"

definition DecoyConfig_default :: decoy_config where
  "DecoyConfig_default = \<lparr>decoy_enabled = True, decoy_page = default_decoy_page\<rparr>"

definition RealityServerConfig_default :: reality_server_config where
  "RealityServerConfig_default =
     \<lparr>reality_enabled = False, reality_listen = default_reality_listen, reality_target = default_reality_target\<rparr>"

definition WebSocketServerConfig_default :: websocket_server_config where
  "WebSocketServerConfig_default = \<lparr>ws_enabled = False, ws_listen = default_ws_listen\<rparr>"

definition ServerConfig_default :: server_config where
  "ServerConfig_default =
     \<lparr>srv_listen = default_listen, srv_tun_name = default_tun_name, srv_tun_address = default_tun_address,
      srv_tun_prefix_len = default_tun_prefix_len, srv_mtu = default_mtu,
      srv_max_connections = default_max_connections, srv_max_bandwidth_mbps = 0,
      srv_metrics_listen = default_metrics_listen, srv_psk_file = default_psk_file, srv_users_dir = None,
      srv_cert_file = default_cert_file, srv_key_file = default_key_file, srv_domain = None,
      srv_acme_dir = default_acme_dir, srv_acme_email = None, srv_log_level = default_log_level,
      srv_dns = default_dns, srv_nat = NatConfig_default, srv_decoy = DecoyConfig_default,
      srv_reality = RealityServerConfig_default, srv_websocket = WebSocketServerConfig_default,
      srv_sni_pool = []\<rparr>"

definition ServerConfig_validate :: "server_config \<Rightarrow> unit result" where
  "ServerConfig_validate self =
     (if parse_socket_addr (srv_listen self) = None then Err (Bail ''invalid listen address'')
      else if parse_ipv4 (srv_tun_address self) = None then Err (Bail ''invalid tun_address'')
      else if parse_ipv4 (srv_dns self) = None then Err (Bail ''invalid dns'')
      else if parse_socket_addr (srv_metrics_listen self) = None then Err (Bail ''invalid metrics_listen'')
      else if srv_mtu self < 576 \<or> srv_mtu self > 1500 then Err (Bail ''mtu must be 576..1500'')
      else if srv_tun_prefix_len self = 0 \<or> srv_tun_prefix_len self > 32 then Err (Bail ''tun_prefix_len must be 1..32'')
      else if srv_max_connections self = 0 then Err (Bail ''max_connections must be > 0'')
      else Ok ())"

definition ServerConfig_load ::
  "(string \<Rightarrow> server_config result) \<Rightarrow> (string \<rightharpoonup> string) \<Rightarrow> string \<Rightarrow> server_config result" where
  "ServerConfig_load from_str fs path =
     and_then (read_to_string fs path) (\<lambda>content.
     and_then (from_str content) (\<lambda>config.
     and_then (ServerConfig_validate config) (\<lambda>_. Ok config)))"

section \<open>Client\<close>

record client_config =
  server_addr :: string
  cert_path :: string
  cc_psk :: bytes
  test_mode :: bool
  quiet :: bool

record client_camouflage_section =
  cam_sni_pool :: "string list"
  cam_padding :: bool
  cam_chrome_fingerprint :: bool
  cam_browser_profile :: string

record client_reality_section =
  cr_target :: string
  cr_address :: "string option"

record client_websocket_section =
  cw_url :: "string option"
  cw_host :: "string option"

record client_toml_config =
  toml_address :: "string option"
  toml_cert :: "string option"
  toml_psk :: "string option"
  toml_domain :: "string option"
  toml_mode :: string
  toml_camouflage :: client_camouflage_section
  toml_reality :: client_reality_section
  toml_websocket :: client_websocket_section

definition ClientCamouflageSection_default :: client_camouflage_section where
  "ClientCamouflageSection_default =
     \<lparr>cam_sni_pool = default_sni_pool, cam_padding = True, cam_chrome_fingerprint = True,
      cam_browser_profile = default_browser_profile\<rparr>"

definition ClientRealitySection_default :: client_reality_section where
  "ClientRealitySection_default = \<lparr>cr_target = default_reality_target, cr_address = None\<rparr>"

definition ClientTomlConfig_default :: client_toml_config where
  "ClientTomlConfig_default =
     \<lparr>toml_address = None, toml_cert = None, toml_psk = None, toml_domain = None,
      toml_mode = default_transport_mode, toml_camouflage = ClientCamouflageSection_default,
      toml_reality = ClientRealitySection_default, toml_websocket = \<lparr>cw_url = None, cw_host = None\<rparr>\<rparr>"

definition ClientTomlConfig_load ::
  "(string \<Rightarrow> client_toml_config result) \<Rightarrow> (string \<rightharpoonup> string) \<Rightarrow> string \<Rightarrow> client_toml_config result" where
  "ClientTomlConfig_load from_str fs path = and_then (read_to_string fs path) from_str"

section \<open>Properties\<close>

text \<open>
  Claim C23. Loading a server configuration: whatever the TOML reader returns, a configuration that is
  loaded has a listen and a metrics address that parse as socket addresses, a tunnel and a DNS address
  that parse as IPv4, an MTU of 576 to 1500, a prefix length of 1 to 32 and room for a connection; one
  that violates any of these is refused.
\<close>

theorem loaded_config_valid:
  "ServerConfig_load from_str fs path = Ok c \<longleftrightarrow>
     (\<exists>content. read_to_string fs path = Ok content \<and> from_str content = Ok c)
     \<and> parse_socket_addr (srv_listen c) \<noteq> None \<and> parse_socket_addr (srv_metrics_listen c) \<noteq> None
     \<and> parse_ipv4 (srv_tun_address c) \<noteq> None \<and> parse_ipv4 (srv_dns c) \<noteq> None
     \<and> 576 \<le> unat (srv_mtu c) \<and> unat (srv_mtu c) \<le> 1500
     \<and> 1 \<le> unat (srv_tun_prefix_len c) \<and> unat (srv_tun_prefix_len c) \<le> 32
     \<and> 1 \<le> unat (srv_max_connections c)"
proof -
  have nz: "w \<noteq> 0 \<longleftrightarrow> 1 \<le> unat w" for w :: u8
    by (simp add: Suc_le_eq word_neq_0_conv word_less_nat_alt)
  have nz': "w \<noteq> 0 \<longleftrightarrow> 1 \<le> unat w" for w :: u32
    by (simp add: Suc_le_eq word_neq_0_conv word_less_nat_alt)
  have mtu: "\<not> (m < 576 \<or> m > 1500) \<longleftrightarrow> 576 \<le> unat m \<and> unat m \<le> 1500" for m :: u32
    by (simp add: word_less_nat_alt not_less)
  have pl: "\<not> (w = 0 \<or> w > 32) \<longleftrightarrow> 1 \<le> unat w \<and> unat w \<le> 32" for w :: u8
    using nz [of w] by (simp add: word_less_nat_alt not_less)
  have "ServerConfig_validate c = Ok () \<longleftrightarrow>
     parse_socket_addr (srv_listen c) \<noteq> None \<and> parse_ipv4 (srv_tun_address c) \<noteq> None
     \<and> parse_ipv4 (srv_dns c) \<noteq> None \<and> parse_socket_addr (srv_metrics_listen c) \<noteq> None
     \<and> \<not> (srv_mtu c < 576 \<or> srv_mtu c > 1500) \<and> \<not> (srv_tun_prefix_len c = 0 \<or> srv_tun_prefix_len c > 32)
     \<and> srv_max_connections c \<noteq> 0"
    by (simp add: ServerConfig_validate_def)
  moreover have "ServerConfig_load from_str fs path = Ok c \<longleftrightarrow>
     (\<exists>content. read_to_string fs path = Ok content \<and> from_str content = Ok c) \<and> ServerConfig_validate c = Ok ()"
    by (auto simp: ServerConfig_load_def and_then_eq_Inr)
  ultimately show ?thesis unfolding mtu pl nz' by blast
qed

text \<open>The addresses among the defaults are well formed.\<close>

lemma default_parts:
  "parse_socket_addr default_listen \<noteq> None" "parse_socket_addr default_metrics_listen \<noteq> None"
  "parse_ipv4 default_tun_address \<noteq> None" "parse_ipv4 default_dns \<noteq> None"
proof -
  have eqs: "default_listen = show_ipv4 (Ipv4Addr 0 0 0 0) @ '':'' @ show_nat 443"
    "default_metrics_listen = show_ipv4 (Ipv4Addr 127 0 0 1) @ '':'' @ show_nat 9093"
    "default_tun_address = show_ipv4 (Ipv4Addr 10 0 1 1)" "default_dns = show_ipv4 (Ipv4Addr 1 1 1 1)"
    by (simp_all add: show_simps default_listen_def default_metrics_listen_def default_tun_address_def default_dns_def)
  show "parse_socket_addr default_listen \<noteq> None" unfolding eqs by (subst parse_socket_v4) simp_all
  show "parse_socket_addr default_metrics_listen \<noteq> None" unfolding eqs by (subst parse_socket_v4) simp_all
  show "parse_ipv4 default_tun_address \<noteq> None" unfolding eqs by (subst parse_show_ipv4) simp
  show "parse_ipv4 default_dns \<noteq> None" unfolding eqs by (subst parse_show_ipv4) simp
qed

text \<open>
  The built-in defaults form a configuration the validation accepts.
\<close>

theorem default_config_valid: "ServerConfig_validate ServerConfig_default = Ok ()"
proof -
  from default_parts show ?thesis
    by (simp add: ServerConfig_validate_def ServerConfig_default_def default_mtu_def
        default_tun_prefix_len_def default_max_connections_def)
qed

end
