(* ===== verification/Batch.thy ===== *)
theory Batch
  imports Datagram
begin

text \<open>
  Datagram batching, \<^verbatim>\<open>src/crates/redpill-quic/src/batch.rs\<close>: the wire format
  \<open>[2B len BE][data]...\<close>, its decoder (a loop over a cursor) and the batcher that accumulates small
  packets. The interface a sender needs from a batcher is the locale \<open>packet_batcher\<close>.
\<close>

definition BATCH_SIZE_THRESHOLD :: nat where "BATCH_SIZE_THRESHOLD = 300"
definition MAX_BATCH_SIZE :: nat where "MAX_BATCH_SIZE = 1100"
definition BATCHING :: u8 where "BATCHING = 0x01"

definition batch_encode :: "bytes list \<Rightarrow> bytes" where
  "batch_encode packets = fold (\<lambda>pkt buf. (buf @ u16_to_be (len_u16 pkt)) @ pkt) packets []"

function batch_decode_loop :: "bytes \<Rightarrow> nat \<Rightarrow> bytes list \<Rightarrow> bytes list" where
  "batch_decode_loop data pos packets =
     (if pos + 2 \<le> length data then
        (let len = unat (u16_from_be (data ! pos) (data ! (pos + 1)));
             pos = pos + 2
         in if pos + len > length data then packets
            else batch_decode_loop data (pos + len) (packets @ [slice data pos (pos + len)]))
      else packets)"
  by pat_completeness auto
termination
  by (relation "measure (\<lambda>(data, pos, packets). length data - pos)") auto

declare batch_decode_loop.simps [simp del]

definition batch_decode :: "bytes \<Rightarrow> bytes list" where
  "batch_decode data = batch_decode_loop data 0 []"

text \<open>The decoder with every index and slice checked.\<close>

function batch_decode_loop_chk :: "bytes \<Rightarrow> nat \<Rightarrow> bytes list \<Rightarrow> bytes list rust" where
  "batch_decode_loop_chk data pos packets =
     (if pos + 2 \<le> length data then
        (case idx data pos of None \<Rightarrow> None | Some h \<Rightarrow>
         case idx data (pos + 1) of None \<Rightarrow> None | Some l \<Rightarrow>
           (let len = unat (u16_from_be h l); pos = pos + 2
            in if pos + len > length data then Some packets
               else case slice_chk data pos (pos + len) of None \<Rightarrow> None | Some pkt \<Rightarrow>
                 batch_decode_loop_chk data (pos + len) (packets @ [pkt])))
      else Some packets)"
  by pat_completeness auto
termination
  by (relation "measure (\<lambda>(data, pos, packets). length data - pos)") auto

declare batch_decode_loop_chk.simps [simp del]

record datagram_batcher =
  pending :: "bytes list"
  pending_size :: nat

definition DatagramBatcher_new :: datagram_batcher where
  "DatagramBatcher_new = \<lparr>pending = [], pending_size = 0\<rparr>"

definition DatagramBatcher_flush :: "datagram_batcher \<Rightarrow> datagram_batcher \<times> bytes" where
  "DatagramBatcher_flush self =
     (if pending self = [] then (self, [])
      else (self\<lparr>pending := [], pending_size := 0\<rparr>, batch_encode (pending self)))"

definition DatagramBatcher_add :: "datagram_batcher \<Rightarrow> bytes \<Rightarrow> datagram_batcher \<times> bytes option" where
  "DatagramBatcher_add self packet =
     (let entry_size = 2 + length packet in
      if pending_size self + entry_size > MAX_BATCH_SIZE \<and> pending self \<noteq> [] then
        (case DatagramBatcher_flush self of
           (self, batch) \<Rightarrow>
             (self\<lparr>pending := pending self @ [packet], pending_size := entry_size\<rparr>, Some batch))
      else
        (self\<lparr>pending := pending self @ [packet], pending_size := pending_size self + entry_size\<rparr>,
         None))"

definition DatagramBatcher_has_pending :: "datagram_batcher \<Rightarrow> bool" where
  "DatagramBatcher_has_pending self \<longleftrightarrow> pending self \<noteq> []"

text \<open>
  What the receiving client does to tell a batch from a raw packet,
  \<open>is_batched_datagram\<close> of \<^verbatim>\<open>src/crates/redpill-quic/src/client.rs\<close>.
\<close>

definition is_batched_datagram :: "bytes \<Rightarrow> bool" where
  "is_batched_datagram data =
     (if data = [] then False
      else let n = version_nibble (data ! 0) in n \<noteq> 4 \<and> n \<noteq> 6)"

section \<open>Wire format\<close>

abbreviation frame :: "bytes \<Rightarrow> bytes" where
  "frame pkt \<equiv> u16_to_be (len_u16 pkt) @ pkt"

lemma batch_encode_concat: "batch_encode ps = concat (map frame ps)"
proof -
  have "fold (\<lambda>pkt buf. (buf @ u16_to_be (len_u16 pkt)) @ pkt) ps buf = buf @ concat (map frame ps)"
    for buf by (induction ps arbitrary: buf) simp_all
  then show ?thesis by (simp add: batch_encode_def)
qed

lemma batch_encode_simps [simp]:
  "batch_encode [] = []"
  "batch_encode (p # ps) = frame p @ batch_encode ps"
  by (simp_all add: batch_encode_concat)

lemma batch_encode_append: "batch_encode (ps @ qs) = batch_encode ps @ batch_encode qs"
  by (simp add: batch_encode_concat)

lemma length_batch_encode: "length (batch_encode ps) = (\<Sum>p\<leftarrow>ps. 2 + length p)"
  by (induction ps) simp_all

text \<open>One turn of the decoder at a frame boundary.\<close>

lemma decode_frame_step:
  assumes "length p < 65536"
  shows "batch_decode_loop (pre @ frame p @ post) (length pre) acc
       = batch_decode_loop ((pre @ frame p) @ post) (length (pre @ frame p)) (acc @ [p])"
proof -
  let ?d = "pre @ frame p @ post"
  have hdr: "?d ! length pre = ucast (drop_bit 8 (len_u16 p))"
    "?d ! (length pre + 1) = ucast (len_u16 p)"
    by (simp_all add: nth_append u16_to_be_def)
  have len: "unat (u16_from_be (?d ! length pre) (?d ! (length pre + 1))) = length p"
    unfolding hdr using assms by (simp add: unat_len_u16)
  have pkt: "slice ?d (length pre + 2) (length pre + 2 + length p) = p"
    by (simp add: slice_def)
  show ?thesis
    using len pkt by (subst batch_decode_loop.simps) (simp add: Let_def)
qed

lemma decode_frames:
  "list_all (\<lambda>p. length p < 65536) ps \<Longrightarrow>
   batch_decode_loop (pre @ batch_encode ps @ post) (length pre) acc
     = batch_decode_loop ((pre @ batch_encode ps) @ post) (length (pre @ batch_encode ps)) (acc @ ps)"
proof (induction ps arbitrary: pre acc)
  case Nil
  then show ?case by simp
next
  case (Cons p ps)
  then have p: "length p < 65536" and ps: "list_all (\<lambda>p. length p < 65536) ps" by simp_all
  have "batch_decode_loop (pre @ frame p @ batch_encode ps @ post) (length pre) acc
      = batch_decode_loop ((pre @ frame p) @ batch_encode ps @ post) (length (pre @ frame p)) (acc @ [p])"
    by (rule decode_frame_step [OF p])
  then show ?case using Cons.IH [OF ps, of "pre @ frame p" "acc @ [p]"] by simp
qed

text \<open>
  The decoder only ever cuts its input: what it returned so far, framed again, is what it consumed.
\<close>

lemma decode_consumes:
  "data = batch_encode acc @ drop pos data \<Longrightarrow>
   \<exists>rest. data = batch_encode (batch_decode_loop data pos acc) @ rest"
proof (induction data pos acc rule: batch_decode_loop.induct)
  case (1 data pos acc)
  define len where "len = unat (u16_from_be (data ! pos) (data ! (pos + 1)))"
  show ?case
  proof (cases "pos + 2 \<le> length data \<and> pos + 2 + len \<le> length data")
    case False
    then have "batch_decode_loop data pos acc = acc"
      by (subst batch_decode_loop.simps) (auto simp: len_def Let_def)
    with "1.prems" show ?thesis by metis
  next
    case True
    let ?p = "slice data (pos + 2) (pos + 2 + len)"
    have lp: "length ?p = len" using True by simp
    have len16: "len < 65536" unfolding len_def by (rule unat_u16_less)
    have "len_u16 ?p = u16_from_be (data ! pos) (data ! (pos + 1))"
      unfolding len_u16_def lp by (simp add: len_def)
    then have "u16_to_be (len_u16 ?p) = [data ! pos, data ! (pos + 1)]"
      by (simp add: u16_to_be_def u16_from_be_split)
    moreover have "drop pos data = [data ! pos, data ! (pos + 1)] @ drop (pos + 2) data"
      using True by (simp add: Cons_nth_drop_Suc)
    moreover have "drop (pos + 2) data = ?p @ drop (pos + 2 + len) data"
      unfolding slice_def by (metis add_diff_cancel_left' append_take_drop_id drop_drop add.commute)
    ultimately have "drop pos data = frame ?p @ drop (pos + 2 + len) data" by simp
    with "1.prems" have "data = batch_encode (acc @ [?p]) @ drop (pos + 2 + len) data"
      by (simp add: batch_encode_append)
    then obtain rest where "data = batch_encode (batch_decode_loop data (pos + 2 + len) (acc @ [?p])) @ rest"
      using "1.IH" [OF _ refl refl] True by (auto simp: len_def)
    moreover have "batch_decode_loop data pos acc = batch_decode_loop data (pos + 2 + len) (acc @ [?p])"
      using True by (subst batch_decode_loop.simps) (simp add: len_def Let_def)
    ultimately show ?thesis by metis
  qed
qed

lemma batch_decode_loop_no_panic:
  "batch_decode_loop_chk data pos acc = Some (batch_decode_loop data pos acc)"
proof (induction data pos acc rule: batch_decode_loop.induct)
  case (1 data pos acc)
  then show ?case
    by (subst batch_decode_loop_chk.simps, subst batch_decode_loop.simps) (auto simp: Let_def)
qed

section \<open>The interface of a batcher\<close>

text \<open>
  What a sender relies on: every accepted packet is either still pending or inside an emitted
  datagram, in order. \<open>feed\<close> is the sender's use of \<open>add\<close>: the datagrams emitted for a packet list.
\<close>

fun feed :: "('b \<Rightarrow> bytes \<Rightarrow> 'b \<times> bytes option) \<Rightarrow> 'b \<Rightarrow> bytes list \<Rightarrow> 'b \<times> bytes list" where
  "feed add b [] = (b, [])"
| "feed add b (p # ps) =
     (case add b p of (b, out) \<Rightarrow>
      case feed add b ps of (b, outs) \<Rightarrow> (b, (case out of None \<Rightarrow> outs | Some d \<Rightarrow> d # outs)))"

locale packet_batcher =
  fixes new :: 'b
    and add :: "'b \<Rightarrow> bytes \<Rightarrow> 'b \<times> bytes option"
    and flush :: "'b \<Rightarrow> 'b \<times> bytes"
    and held :: "'b \<Rightarrow> bytes list"
    and unpack :: "bytes \<Rightarrow> bytes list"
    and invar :: "'b \<Rightarrow> bool"
    and small :: "bytes \<Rightarrow> bool"
    and limit :: nat
  assumes held_new: "held new = []"
    and invar_new: "invar new"
    and add_law: "invar b \<Longrightarrow> small p \<Longrightarrow> add b p = (b', out) \<Longrightarrow>
        invar b' \<and>
        (case out of
           None \<Rightarrow> held b' = held b @ [p]
         | Some d \<Rightarrow> held b' = [p] \<and> unpack d = held b \<and> length d \<le> limit)"
    and flush_law: "invar b \<Longrightarrow> flush b = (b', d) \<Longrightarrow>
        invar b' \<and> held b' = [] \<and> unpack d = held b \<and> length d \<le> limit"
begin

lemma feed_law:
  "invar b \<Longrightarrow> list_all small ps \<Longrightarrow> feed add b ps = (b', outs) \<Longrightarrow>
   invar b' \<and> concat (map unpack outs) @ held b' = held b @ ps
   \<and> list_all (\<lambda>d. length d \<le> limit) outs"
proof (induction ps arbitrary: b b' outs)
  case Nil
  then show ?case by simp
next
  case (Cons p ps)
  obtain b1 out where add: "add b p = (b1, out)" by fastforce
  obtain b2 outs2 where rest: "feed add b1 ps = (b2, outs2)" by fastforce
  from Cons.prems add rest have eq: "b' = b2" "outs = (case out of None \<Rightarrow> outs2 | Some d \<Rightarrow> d # outs2)"
    by auto
  from Cons.prems add_law [OF _ _ add]
  have b1: "invar b1"
    and one: "case out of None \<Rightarrow> held b1 = held b @ [p]
              | Some d \<Rightarrow> held b1 = [p] \<and> unpack d = held b \<and> length d \<le> limit"
    by auto
  from Cons.IH [OF b1 _ rest] Cons.prems
  have "invar b2 \<and> concat (map unpack outs2) @ held b2 = held b1 @ ps
      \<and> list_all (\<lambda>d. length d \<le> limit) outs2" by simp
  with one eq show ?case by (cases out) simp_all
qed

text \<open>Feeding a new batcher and flushing it delivers the packets, in order, each exactly once.\<close>

lemma feed_flush_delivers:
  "list_all small ps \<Longrightarrow> feed add new ps = (b, outs) \<Longrightarrow> flush b = (b', d) \<Longrightarrow>
   concat (map unpack (outs @ [d])) = ps \<and> list_all (\<lambda>d. length d \<le> limit) (outs @ [d])"
  using feed_law [OF invar_new, of ps b outs] flush_law [of b b' d] held_new by auto

end

section \<open>The batcher implements it\<close>

definition batcher_invar :: "datagram_batcher \<Rightarrow> bool" where
  "batcher_invar b \<longleftrightarrow>
     pending_size b = (\<Sum>p\<leftarrow>pending b. 2 + length p) \<and> pending_size b \<le> MAX_BATCH_SIZE
     \<and> list_all (\<lambda>p. length p < BATCH_SIZE_THRESHOLD) (pending b)"

lemma batch_decode_encode_small:
  "list_all (\<lambda>p. length p < BATCH_SIZE_THRESHOLD) ps \<Longrightarrow> batch_decode (batch_encode ps) = ps"
proof -
  assume "list_all (\<lambda>p. length p < BATCH_SIZE_THRESHOLD) ps"
  then have "list_all (\<lambda>p. length p < 65536) ps"
    by (auto simp: list_all_iff BATCH_SIZE_THRESHOLD_def)
  from decode_frames [OF this, of "[]" "[]" "[]"] show ?thesis
    by (simp add: batch_decode_def) (simp add: batch_decode_loop.simps)
qed

lemma flush_spec:
  assumes "batcher_invar b" and "DatagramBatcher_flush b = (b', d)"
  shows "batcher_invar b' \<and> pending b' = [] \<and> pending_size b' = 0
       \<and> batch_decode d = pending b \<and> length d \<le> MAX_BATCH_SIZE"
  using assms batch_decode_encode_small [of "pending b"]
  by (auto simp: DatagramBatcher_flush_def batcher_invar_def length_batch_encode
      batch_decode_def batch_decode_loop.simps split: if_splits)

lemma add_spec:
  assumes inv: "batcher_invar b" and small: "length p < BATCH_SIZE_THRESHOLD"
    and add: "DatagramBatcher_add b p = (b', out)"
  shows "batcher_invar b' \<and>
    (case out of
       None \<Rightarrow> pending b' = pending b @ [p]
     | Some d \<Rightarrow> pending b' = [p] \<and> batch_decode d = pending b \<and> length d \<le> MAX_BATCH_SIZE)"
proof (cases "pending_size b + (2 + length p) > MAX_BATCH_SIZE \<and> pending b \<noteq> []")
  case True
  obtain b1 d where fl: "DatagramBatcher_flush b = (b1, d)" by fastforce
  with True add have "b' = b1\<lparr>pending := pending b1 @ [p], pending_size := 2 + length p\<rparr>"
    and "out = Some d"
    by (auto simp: DatagramBatcher_add_def Let_def)
  with flush_spec [OF inv fl] small show ?thesis
    by (simp add: batcher_invar_def MAX_BATCH_SIZE_def BATCH_SIZE_THRESHOLD_def)
next
  case False
  then have "pending b = [] \<or> pending_size b + (2 + length p) \<le> MAX_BATCH_SIZE" by auto
  with False inv small add show ?thesis
    by (auto simp: DatagramBatcher_add_def Let_def batcher_invar_def MAX_BATCH_SIZE_def
        BATCH_SIZE_THRESHOLD_def)
qed

interpretation batcher: packet_batcher DatagramBatcher_new DatagramBatcher_add DatagramBatcher_flush
  pending batch_decode batcher_invar "\<lambda>p. length p < BATCH_SIZE_THRESHOLD" MAX_BATCH_SIZE
proof unfold_locales
  show "pending DatagramBatcher_new = []" and "batcher_invar DatagramBatcher_new"
    by (simp_all add: DatagramBatcher_new_def batcher_invar_def)
qed (use add_spec flush_spec in blast)+

section \<open>Properties\<close>

text \<open>
  The batch format reads back: decoding an encoded list of packets, each shorter than
  64 KiB, gives the list.
\<close>

theorem batch_roundtrip:
  "list_all (\<lambda>p. length p < 65536) ps \<Longrightarrow> batch_decode (batch_encode ps) = ps"
proof -
  assume "list_all (\<lambda>p. length p < 65536) ps"
  from decode_frames [OF this, of "[]" "[]" "[]"] show ?thesis
    by (simp add: batch_decode_def) (simp add: batch_decode_loop.simps)
qed

theorem batch_roundtrip_witness:
  "batch_decode (batch_encode [[0x45, 1, 2], [], [0x60]]) = [[0x45, 1, 2], [], [0x60]]"
  using batch_roundtrip [of "[[0x45, 1, 2], [], [0x60]]"] by simp

text \<open>
  On any datagram from the network the batch decoder terminates without an out-of-range
  access, and what it returns is a reading of a prefix of the datagram: framing the returned packets
  again gives the bytes it consumed.
\<close>

theorem batch_decode_safe:
  "batch_decode_loop_chk d 0 [] = Some (batch_decode d)
   \<and> (\<exists>rest. d = batch_encode (batch_decode d) @ rest)"
  using decode_consumes [of d "[]" 0]
  by (simp add: batch_decode_def batch_decode_loop_no_panic)

text \<open>
  Claim C24. The batcher loses, duplicates and reorders nothing: for every sequence of small packets
  added to a new batcher, the datagrams it emits followed by the final flush decode to exactly that
  sequence, and no emitted datagram exceeds the 1100-byte limit.
\<close>

theorem batcher_delivers:
  assumes "list_all (\<lambda>p. length p < BATCH_SIZE_THRESHOLD) ps"
    and "feed DatagramBatcher_add DatagramBatcher_new ps = (b, outs)"
    and "DatagramBatcher_flush b = (b', d)"
  shows "concat (map batch_decode (outs @ [d])) = ps
       \<and> list_all (\<lambda>d. length d \<le> MAX_BATCH_SIZE) (outs @ [d])"
  using assms by (rule batcher.feed_flush_delivers)

theorem batcher_delivers_witness:
  "\<exists>b outs b' d. feed DatagramBatcher_add DatagramBatcher_new (replicate 5 (replicate 250 1)) = (b, outs)
     \<and> DatagramBatcher_flush b = (b', d) \<and> outs \<noteq> []
     \<and> concat (map batch_decode (outs @ [d])) = replicate 5 (replicate 250 1)"
proof -
  let ?p = "replicate 250 (1 :: u8)"
  obtain b outs where f: "feed DatagramBatcher_add DatagramBatcher_new (replicate 5 ?p) = (b, outs)"
    by fastforce
  obtain b' d where fl: "DatagramBatcher_flush b = (b', d)" by fastforce
  have small: "list_all (\<lambda>p. length p < BATCH_SIZE_THRESHOLD) (replicate 5 ?p)"
    by (simp add: list_all_iff BATCH_SIZE_THRESHOLD_def)
  have "outs \<noteq> []"
    using f by (auto simp: numeral_eq_Suc DatagramBatcher_add_def DatagramBatcher_new_def
        DatagramBatcher_flush_def MAX_BATCH_SIZE_def)
  with f fl batcher_delivers [OF small f fl] show ?thesis by blast
qed

text \<open>The high byte of a length below the threshold is 0 or 1, so a batch never looks like IP.\<close>

lemma version_nibble_small: "unat b < 2 \<Longrightarrow> version_nibble b = 0"
proof -
  assume "unat b < 2"
  then have "unat (drop_bit 4 b) = 0" by (simp only: unat_drop_bit_eq) (simp add: drop_bit_eq_div)
  then show ?thesis by (simp add: version_nibble_def unat_eq_0)
qed

lemma batch_is_batched:
  assumes "list_all (\<lambda>p. length p < BATCH_SIZE_THRESHOLD) ps" and "ps \<noteq> []"
  shows "is_batched_datagram (batch_encode ps)"
proof -
  from assms obtain p ps' where ps: "ps = p # ps'" and p: "length p < 300"
    by (cases ps) (auto simp: BATCH_SIZE_THRESHOLD_def)
  have "unat (ucast (drop_bit 8 (len_u16 p)) :: u8) < 2"
    using p by (simp add: unat_high_byte unat_len_u16 div_less_iff_less_mult)
  then have "version_nibble (batch_encode ps ! 0) = 0"
    by (simp add: ps u16_to_be_def version_nibble_small)
  moreover have "batch_encode ps \<noteq> []" by (simp add: ps u16_to_be_def)
  ultimately show ?thesis by (simp add: is_batched_datagram_def)
qed

lemma ip_not_batched: "ip_version q \<noteq> None \<Longrightarrow> \<not> is_batched_datagram q"
  by (auto simp: is_batched_datagram_def ip_version_def Let_def split: if_splits)

text \<open>
  The receiver's heuristic is exact on what the sender emits: a non-empty batch of packets
  below the batching threshold is recognised as a batch, and an IP packet sent on its own is not.
\<close>

theorem is_batched_datagram_exact:
  assumes "list_all (\<lambda>p. length p < BATCH_SIZE_THRESHOLD) ps" and "ps \<noteq> []"
    and "ip_version q \<noteq> None"
  shows "is_batched_datagram (batch_encode ps) \<and> \<not> is_batched_datagram q"
  using batch_is_batched [OF assms(1,2)] ip_not_batched [OF assms(3)] by simp

theorem is_batched_datagram_exact_witness:
  "is_batched_datagram (batch_encode [replicate 299 0x45]) \<and> \<not> is_batched_datagram [0x45, 0, 0, 20]"
  using is_batched_datagram_exact [of "[replicate 299 0x45]" "[0x45, 0, 0, 20]"]
  by (simp add: BATCH_SIZE_THRESHOLD_def ip_version_def version_nibble_def)

end
