(* ===== verification/Server.thy ===== *)
theory Server
  imports Reality Demux Shaper Stats Config Batch "HOL-Library.Char_ord" "HOL-Library.List_Lexorder"
begin

text \<open>
  The server's control plane, \<^verbatim>\<open>src/crates/redpill-quic/src/server.rs\<close>: the shared state, authentication
  modes, the accept decision, the handlers of QUIC connections, of TCP Reality and of WebSocket clients,
  configuration reload and the user commands. Each handler is the whole handler: what the connection
  delivers is its argument \<open>io\<close>, and what every other task and the tunnel itself do to the shared state
  while the tunnel runs is the argument \<open>tunnel\<close>. The interleaving of handlers, step by step, is in
  \<open>Sessions\<close>; the data plane inside the tunnel is in \<open>Tunnel\<close>.
\<close>

definition CLIENT_CHANNEL_SIZE :: nat where "CLIENT_CHANNEL_SIZE = 1024"
definition TCP_CLIENT_CHANNEL_SIZE :: nat where "TCP_CLIENT_CHANNEL_SIZE = 4096"

section \<open>State\<close>

datatype auth_mode = SinglePsk psk_authenticator | MultiUser user_store

definition AuthMode_verify :: "hmac \<Rightarrow> auth_mode \<Rightarrow> bytes \<Rightarrow> bytes \<Rightarrow> string option" where
  "AuthMode_verify hmac self nonce mac =
     (case self of
        SinglePsk auth \<Rightarrow> if PskAuthenticator_verify hmac auth nonce mac then Some ''default'' else None
      | MultiUser store \<Rightarrow> UserStore_verify hmac store nonce mac)"

record server_state =
  ss_auth :: auth_mode
  ss_pool :: ip_pool
  ss_active :: u32
  ss_max :: u32
  ss_cancelled :: bool
  ss_mtu :: u32
  ss_server_ip :: ipv4
  ss_dns_ip :: ipv4
  ss_decoy_enabled :: bool
  ss_decoy_page :: string
  ss_router :: client_router
  ss_shaper :: adaptive_shaper
  ss_metrics :: metrics
  ss_config_path :: string

definition subnet_from_config :: "server_config \<Rightarrow> string rust" where
  "subnet_from_config config =
     (case parse_ipv4 (srv_tun_address config) of
        None \<Rightarrow> None
      | Some (Ipv4Addr a b c d) \<Rightarrow>
          Some (show_nat (unat a) @ ''.'' @ show_nat (unat b) @ ''.'' @ show_nat (unat c) @ ''.0''))"

text \<open>The state built in \<open>main\<close> from the loaded configuration.\<close>

definition ServerState_new :: "server_config \<Rightarrow> auth_mode \<Rightarrow> string \<Rightarrow> server_state result rust" where
  "ServerState_new config auth path =
     (case subnet_from_config config of
        None \<Rightarrow> None
      | Some subnet \<Rightarrow>
          Some (case (parse_ipv4 (srv_tun_address config), parse_ipv4 subnet, parse_ipv4 (srv_dns config)) of
             (Some server_ip, Some base_ip, Some dns_ip) \<Rightarrow>
               Ok \<lparr>ss_auth = auth, ss_pool = IpPool_new base_ip, ss_active = 0,
                   ss_max = srv_max_connections config, ss_cancelled = False, ss_mtu = srv_mtu config,
                   ss_server_ip = server_ip, ss_dns_ip = dns_ip,
                   ss_decoy_enabled = decoy_enabled (srv_decoy config),
                   ss_decoy_page = decoy_page (srv_decoy config), ss_router = ClientRouter_new,
                   ss_shaper = AdaptiveShaper_new (srv_max_bandwidth_mbps config),
                   ss_metrics = Metrics_new, ss_config_path = path\<rparr>
           | _ \<Rightarrow> Err (ParseError ''AddrParseError'')))"

section \<open>Guards\<close>

definition ConnectionGuard_new :: "server_state \<Rightarrow> server_state" where
  "ConnectionGuard_new st = st\<lparr>ss_active := ss_active st + 1\<rparr>"

definition ConnectionGuard_drop :: "server_state \<Rightarrow> server_state" where
  "ConnectionGuard_drop st = st\<lparr>ss_active := ss_active st - 1\<rparr>"

definition SessionGuard_new :: "string \<Rightarrow> server_state \<Rightarrow> server_state" where
  "SessionGuard_new user st =
     st\<lparr>ss_metrics := (ss_metrics st)
          \<lparr>active_sessions := active_sessions (ss_metrics st) + 1,
           sessions_by_user := (sessions_by_user (ss_metrics st))(user := sessions_by_user (ss_metrics st) user + 1)\<rparr>\<rparr>"

definition SessionGuard_drop :: "string \<Rightarrow> server_state \<Rightarrow> server_state" where
  "SessionGuard_drop user st =
     st\<lparr>ss_metrics := (ss_metrics st)
          \<lparr>active_sessions := active_sessions (ss_metrics st) - 1,
           sessions_by_user := (sessions_by_user (ss_metrics st))(user := sessions_by_user (ss_metrics st) user - 1)\<rparr>\<rparr>"

definition inc_handshakes_total :: "server_state \<Rightarrow> server_state" where
  "inc_handshakes_total st =
     st\<lparr>ss_metrics := (ss_metrics st)\<lparr>handshakes_total := handshakes_total (ss_metrics st) + 1\<rparr>\<rparr>"

definition inc_handshakes_failed :: "server_state \<Rightarrow> server_state" where
  "inc_handshakes_failed st =
     st\<lparr>ss_metrics := (ss_metrics st)\<lparr>handshakes_failed := handshakes_failed (ss_metrics st) + 1\<rparr>\<rparr>"

definition release_ip :: "ipv4 \<Rightarrow> server_state \<Rightarrow> server_state" where
  "release_ip ip st = st\<lparr>ss_pool := IpPool_release (ss_pool st) ip\<rparr>"

definition drop_handle :: "client_handle \<Rightarrow> server_state \<Rightarrow> server_state" where
  "drop_handle h st = st\<lparr>ss_router := ClientHandle_drop (ss_router st) h\<rparr>"

definition session_config_for :: "server_state \<Rightarrow> ipv4 \<Rightarrow> u8 \<Rightarrow> session_config" where
  "session_config_for st ip fl =
     \<lparr>sc_client_ip = ip, sc_server_ip = ss_server_ip st, sc_dns_ip = ss_dns_ip st,
      sc_mtu = ucast (ss_mtu st), sc_keepalive_secs = 10, sc_flags = fl\<rparr>"

section \<open>QUIC handlers\<close>

record quic_io =
  accept_bi_ok :: bool
  auth_read :: "bytes option"
  config_write_ok :: bool

text \<open>How a handler left the connection: untouched, or closed with a code and reason.\<close>

datatype conn_close = NotClosed | Closed nat string

type_synonym tunnel_effect = "ipv4 \<Rightarrow> qref \<Rightarrow> server_state \<Rightarrow> server_state"

text \<open>
  The part \<open>handle_vpn\<close> and \<open>handle_vpn_h3\<close> share: read and check the auth message, open the session,
  allocate, register, answer, run the tunnel, release, and drop the handle and the guards in that order.
  The third component is what was written to the control stream.
\<close>

definition vpn_control ::
  "hmac \<Rightarrow> quic_io \<Rightarrow> tunnel_effect \<Rightarrow> server_state \<Rightarrow> server_state \<times> conn_close \<times> bytes" where
  "vpn_control hmac io tunnel st =
     (case auth_read io of
        None \<Rightarrow> (ConnectionGuard_drop st, Closed ERR_AUTH_FAILED ''auth read error'', [])
      | Some auth_buf \<Rightarrow>
        (case ClientAuth_decode auth_buf of
           None \<Rightarrow> (ConnectionGuard_drop st, Closed ERR_AUTH_FAILED ''malformed auth'', [])
         | Some client_auth \<Rightarrow>
           let st = inc_handshakes_total st in
           (case AuthMode_verify hmac (ss_auth st) (ca_nonce client_auth) (ca_mac client_auth) of
              None \<Rightarrow> (ConnectionGuard_drop (inc_handshakes_failed st), Closed ERR_AUTH_FAILED ''auth failed'', [])
            | Some username \<Rightarrow>
              let st = SessionGuard_new username st in
              (case IpPool_allocate (ss_pool st) of
                 (pool, None) \<Rightarrow>
                   (ConnectionGuard_drop (SessionGuard_drop username (st\<lparr>ss_pool := pool\<rparr>)),
                    Closed 3 ''ip pool exhausted'', [])
               | (pool, Some client_ip) \<Rightarrow>
                   let st = st\<lparr>ss_pool := pool\<rparr> in
                   (case ClientRouter_register (ss_router st) client_ip CLIENT_CHANNEL_SIZE of
                      (router, client_handle, client_queue) \<Rightarrow>
                        let st = st\<lparr>ss_router := router\<rparr>;
                            session_config = session_config_for st client_ip BATCHING;
                            finish = (\<lambda>st. ConnectionGuard_drop (SessionGuard_drop username
                                        (drop_handle client_handle (release_ip client_ip st)))) in
                        if \<not> config_write_ok io then (finish st, NotClosed, [])
                        else (finish (tunnel client_ip client_queue st), NotClosed,
                              SessionConfig_encode session_config))))))"

definition handle_vpn ::
  "hmac \<Rightarrow> quic_io \<Rightarrow> tunnel_effect \<Rightarrow> server_state \<Rightarrow> server_state \<times> conn_close \<times> bytes" where
  "handle_vpn hmac io tunnel st =
     (let st = ConnectionGuard_new st in
      if \<not> accept_bi_ok io then (ConnectionGuard_drop st, NotClosed, [])
      else vpn_control hmac io tunnel st)"

definition handle_vpn_h3 ::
  "hmac \<Rightarrow> quic_io \<Rightarrow> tunnel_effect \<Rightarrow> server_state \<Rightarrow> server_state \<times> conn_close \<times> bytes" where
  "handle_vpn_h3 hmac io tunnel st = vpn_control hmac io tunnel (ConnectionGuard_new st)"

text \<open>
  An accepted connection: its handshake result and ALPN, and, for \<open>h3\<close>, whether a bidirectional stream
  arrived within two seconds. The result also names the decoy page served.
\<close>

record incoming =
  handshake_ok :: bool
  alpn :: "string option"
  bi_within_2s :: bool
  inc_io :: quic_io

definition handle_incoming ::
  "hmac \<Rightarrow> incoming \<Rightarrow> tunnel_effect \<Rightarrow> server_state \<Rightarrow> server_state \<times> conn_close \<times> bytes \<times> string option" where
  "handle_incoming hmac inc tunnel st =
     (if \<not> handshake_ok inc then (st, NotClosed, [], None)
      else if alpn inc = Some ALPN_VPN then
        (case handle_vpn hmac (inc_io inc) tunnel st of (st, c, w) \<Rightarrow> (st, c, w, None))
      else if alpn inc = Some ALPN_H3 then
        (if bi_within_2s inc then
           (case handle_vpn_h3 hmac (inc_io inc) tunnel st of (st, c, w) \<Rightarrow> (st, c, w, None))
         else if ss_decoy_enabled st then (st, NotClosed, [], Some (ss_decoy_page st))
         else (st, Closed 2 ''unknown'', [], None))
      else (st, Closed 2 ''unknown ALPN'', [], None))"

text \<open>The accept decision of the main loop.\<close>

definition accept_refused :: "server_state \<Rightarrow> bool" where
  "accept_refused st \<longleftrightarrow> ss_active st \<ge> ss_max st"

section \<open>TCP Reality and WebSocket handlers\<close>

definition tcp_reality_task ::
  "hmac \<Rightarrow> tcp_io \<Rightarrow> tunnel_effect \<Rightarrow> server_state \<Rightarrow> server_state \<times> reality_out" where
  "tcp_reality_task hmac io tunnel st =
     (let auth = ss_auth st in
      case handle_tcp_connection (AuthMode_verify hmac auth)
             \<lparr>rc_server_ip = ss_server_ip st, rc_dns_ip = ss_dns_ip st, rc_mtu = ss_mtu st\<rparr> io (ss_pool st) of
        (pool, out) \<Rightarrow>
          let st = st\<lparr>ss_pool := pool\<rparr> in
          (case outcome out of
             Vpn client_ip username \<Rightarrow>
               let st = SessionGuard_new username (ConnectionGuard_new st) in
               (case ClientRouter_register (ss_router st) client_ip TCP_CLIENT_CHANNEL_SIZE of
                  (router, handle, client_queue) \<Rightarrow>
                    let st = tunnel client_ip client_queue (st\<lparr>ss_router := router\<rparr>) in
                    (ConnectionGuard_drop (SessionGuard_drop username (drop_handle handle (release_ip client_ip st))), out))
           | Proxied \<Rightarrow> (st, out)
           | RealityError e \<Rightarrow> (st, out)))"

datatype ws_first = WsBinary bytes | WsOther | WsReadError | WsClosed | WsTimeout

record ws_io =
  ws_accept_ok :: bool
  ws_first :: ws_first
  ws_send_ok :: bool

definition handle_ws_connection ::
  "hmac \<Rightarrow> ws_io \<Rightarrow> (ipv4 \<Rightarrow> server_state \<Rightarrow> server_state) \<Rightarrow> server_state \<Rightarrow> server_state \<times> bytes" where
  "handle_ws_connection hmac io tunnel st =
     (if \<not> ws_accept_ok io then (st, [])
      else
        (case ws_first io of
           WsBinary auth_msg \<Rightarrow>
             if length auth_msg < CLIENT_AUTH_LEN then (st, [])
             else
               (case ClientAuth_decode auth_msg of
                  None \<Rightarrow> (st, [])
                | Some client_auth \<Rightarrow>
                  let st = inc_handshakes_total st in
                  (case AuthMode_verify hmac (ss_auth st) (ca_nonce client_auth) (ca_mac client_auth) of
                     None \<Rightarrow> (inc_handshakes_failed st, [])
                   | Some username \<Rightarrow>
                     (case IpPool_allocate (ss_pool st) of
                        (pool, None) \<Rightarrow> (st\<lparr>ss_pool := pool\<rparr>, [])
                      | (pool, Some client_ip) \<Rightarrow>
                          let st = st\<lparr>ss_pool := pool\<rparr>;
                              session_config = session_config_for st client_ip 0 in
                          if \<not> ws_send_ok io then (release_ip client_ip st, [])
                          else
                            let st = tunnel client_ip (SessionGuard_new username (ConnectionGuard_new st)) in
                            (ConnectionGuard_drop (SessionGuard_drop username (release_ip client_ip st)),
                             SessionConfig_encode session_config))))
         | _ \<Rightarrow> (st, [])))"

section \<open>Authentication set-up, reload and user commands\<close>

definition init_auth :: "file_system \<Rightarrow> server_config \<Rightarrow> file_system \<times> auth_mode result" where
  "init_auth fs config =
     (case srv_users_dir config of
        Some dir \<Rightarrow>
          (case (if fs_exists fs dir then Ok fs else create_dir_all fs dir) of
             Inl e \<Rightarrow> (fs, Err e)
           | Inr fs \<Rightarrow> (fs, and_then (UserStore_load fs dir) (\<lambda>store. Ok (MultiUser store))))
      | None \<Rightarrow>
          (fs, and_then (load_psk (map_of (files fs)) (srv_psk_file config)) (\<lambda>k.
                 Ok (SinglePsk (PskAuthenticator_new k)))))"

definition reload_config ::
  "(string \<Rightarrow> server_config result) \<Rightarrow> file_system \<Rightarrow> server_state \<Rightarrow> server_state" where
  "reload_config from_str fs st =
     (case ServerConfig_load from_str (map_of (files fs)) (ss_config_path st) of
        Inl e \<Rightarrow> st
      | Inr config \<Rightarrow>
          let st = (if srv_max_connections config \<noteq> ss_max st then st\<lparr>ss_max := srv_max_connections config\<rparr> else st);
              st = (if ss_decoy_page st \<noteq> decoy_page (srv_decoy config)
                    then st\<lparr>ss_decoy_page := decoy_page (srv_decoy config)\<rparr> else st) in
          (case srv_users_dir config of
             Some dir \<Rightarrow>
               (case UserStore_load fs dir of
                  Inr store \<Rightarrow> st\<lparr>ss_auth := MultiUser store\<rparr>
                | Inl e \<Rightarrow> st)
           | None \<Rightarrow>
               (case load_psk (map_of (files fs)) (srv_psk_file config) of
                  Inr new_psk \<Rightarrow> st\<lparr>ss_auth := SinglePsk (PskAuthenticator_new new_psk)\<rparr>
                | Inl e \<Rightarrow> st)))"

datatype command = AddUser string | RemoveUser string | ListUsers

definition quoted :: "string \<Rightarrow> string" where
  "quoted s = CHR 0x27 # s @ [CHR 0x27]"

text \<open>A user command: the resulting files and what is printed; \<open>rng\<close> is the generated key.\<close>

definition run_command ::
  "bytes \<Rightarrow> file_system \<Rightarrow> server_config \<Rightarrow> command \<Rightarrow> file_system \<times> string list result" where
  "run_command rng fs config cmd =
     (case srv_users_dir config of
        None \<Rightarrow> (fs, Err (Bail ''users_dir not set in config - multi-user mode not enabled''))
      | Some dir \<Rightarrow>
          (case (if fs_exists fs dir then Ok fs else create_dir_all fs dir) of
             Inl e \<Rightarrow> (fs, Err e)
           | Inr fs \<Rightarrow>
               (case UserStore_load fs dir of
                  Inl e \<Rightarrow> (fs, Err e)
                | Inr store \<Rightarrow>
                    (case cmd of
                       AddUser name \<Rightarrow>
                         (case UserStore_add_user fs store name rng of
                            (fs, _, r) \<Rightarrow> (fs, and_then r (\<lambda>hex. Ok [''User '' @ quoted name @ '' added. PSK: '' @ hex])))
                     | RemoveUser name \<Rightarrow>
                         (case UserStore_remove_user fs store name of
                            (fs, _, r) \<Rightarrow> (fs, and_then r (\<lambda>_. Ok [''User '' @ quoted name @ '' removed.''])))
                     | ListUsers \<Rightarrow>
                         let names = sort (UserStore_usernames store) in
                         (fs, Ok (if names = [] then [''No users configured.'']
                                  else (show_nat (length names) @ '' user(s):'') # map (\<lambda>n. ''  '' @ n) names))))))"

section \<open>Lemmas\<close>

primrec mode_creds :: "auth_mode \<Rightarrow> (bytes \<times> string) set" where
  "mode_creds (SinglePsk a) = {(auth_psk a, ''default'')}"
| "mode_creds (MultiUser s) = set (users s)"

interpretation mode_auth: authenticator hmac "AuthMode_verify hmac" mode_creds
  for hmac
proof unfold_locales
  fix a nonce mac u
  assume "AuthMode_verify hmac a nonce mac = Some u"
  then show "\<exists>k. (k, u) \<in> mode_creds a \<and> hmac k nonce = mac"
    using users_auth.verify_sound [of hmac _ nonce mac u]
    by (cases a) (auto simp: AuthMode_verify_def PskAuthenticator_verify_def UserStore_verify_auth_def split: if_splits)
next
  fix a nonce mac k u
  assume "AuthMode_verify hmac a nonce mac = None" "(k, u) \<in> mode_creds a"
  then show "hmac k nonce \<noteq> mac"
    using users_auth.verify_complete [of hmac _ nonce mac k u]
    by (cases a) (auto simp: AuthMode_verify_def PskAuthenticator_verify_def UserStore_verify_auth_def split: if_splits)
qed

text \<open>The shared resources a session takes and must give back.\<close>

record resources =
  r_held :: "ipv4 set"
  r_routes :: "ipv4 \<rightharpoonup> qref"
  r_active :: u32
  r_sessions :: int
  r_by_user :: "string \<Rightarrow> int"

definition resources_of :: "server_state \<Rightarrow> resources" where
  "resources_of st =
     \<lparr>r_held = pool_held (ss_pool st), r_routes = routes (ss_router st), r_active = ss_active st,
      r_sessions = active_sessions (ss_metrics st), r_by_user = sessions_by_user (ss_metrics st)\<rparr>"

definition server_invar :: "server_state \<Rightarrow> bool" where
  "server_invar st \<longleftrightarrow>
     pool_invar (ss_pool st) \<and> router_invar (ss_router st)
     \<and> dom (routes (ss_router st)) \<subseteq> pool_held (ss_pool st)"

text \<open>The tunnel, and whatever runs beside it, leaves the resources as they are.\<close>

definition quiet_tunnel :: "tunnel_effect \<Rightarrow> bool" where
  "quiet_tunnel tunnel \<longleftrightarrow>
     (\<forall>ip q st. server_invar st \<longrightarrow> server_invar (tunnel ip q st) \<and> resources_of (tunnel ip q st) = resources_of st)"

definition opened :: "string \<Rightarrow> ipv4 \<Rightarrow> (ipv4 \<rightharpoonup> qref) \<Rightarrow> resources \<Rightarrow> resources" where
  "opened u ip rts r =
     \<lparr>r_held = insert ip (r_held r), r_routes = rts, r_active = r_active r + 1, r_sessions = r_sessions r + 1,
      r_by_user = (r_by_user r)(u := r_by_user r u + 1)\<rparr>"

lemmas guard_defs = ConnectionGuard_new_def ConnectionGuard_drop_def SessionGuard_new_def SessionGuard_drop_def
  inc_handshakes_total_def inc_handshakes_failed_def release_ip_def drop_handle_def

lemma guards_invar [simp]:
  "server_invar (ConnectionGuard_new st) = server_invar st" "server_invar (ConnectionGuard_drop st) = server_invar st"
  "server_invar (SessionGuard_new u st) = server_invar st" "server_invar (SessionGuard_drop u st) = server_invar st"
  "server_invar (inc_handshakes_total st) = server_invar st" "server_invar (inc_handshakes_failed st) = server_invar st"
  by (simp_all add: server_invar_def guard_defs)

lemma guards_resources:
  "resources_of (inc_handshakes_total st) = resources_of st" "resources_of (inc_handshakes_failed st) = resources_of st"
  "resources_of (ConnectionGuard_drop (ConnectionGuard_new st)) = resources_of st"
  "resources_of (ConnectionGuard_drop (inc_handshakes_total (ConnectionGuard_new st))) = resources_of st"
  "resources_of (ConnectionGuard_drop (inc_handshakes_failed (inc_handshakes_total (ConnectionGuard_new st)))) = resources_of st"
  by (simp_all add: resources_of_def guard_defs)

lemma fresh_unregistered: "server_invar st \<Longrightarrow> ip \<notin> pool_held (ss_pool st) \<Longrightarrow> routes (ss_router st) ip = None"
  by (auto simp: server_invar_def)

text \<open>Taking an address out of the pool and entering it into the router.\<close>

lemma register_fresh:
  assumes inv: "server_invar st" and al: "IpPool_allocate (ss_pool st) = (p, Some ip)"
    and reg: "ClientRouter_register (ss_router st) ip n = (r, h, q)"
  shows "server_invar (st\<lparr>ss_pool := p, ss_router := r\<rparr>)" "handle_ip h = ip"
    "routes r = (routes (ss_router st))(ip \<mapsto> q)" "pool_held p = insert ip (pool_held (ss_pool st))"
    "ip \<notin> pool_held (ss_pool st)" "server_invar (st\<lparr>ss_pool := p\<rparr>)"
proof -
  from inv have pi: "pool_invar (ss_pool st)" and ri: "router_invar (ss_router st)"
    and d: "dom (routes (ss_router st)) \<subseteq> pool_held (ss_pool st)" by (auto simp: server_invar_def)
  from pool.alloc_Some [OF pi al] router.register_law [OF ri reg] d inv
  show "server_invar (st\<lparr>ss_pool := p, ss_router := r\<rparr>)" "handle_ip h = ip"
    "routes r = (routes (ss_router st))(ip \<mapsto> q)" "pool_held p = insert ip (pool_held (ss_pool st))"
    "ip \<notin> pool_held (ss_pool st)" "server_invar (st\<lparr>ss_pool := p\<rparr>)"
    by (auto simp: server_invar_def)
qed

text \<open>The common end of the handlers undoes exactly what was opened.\<close>

lemma close_session:
  assumes inv: "server_invar st" and res: "resources_of st = opened u ip rts r"
    and fresh: "ip \<notin> r_held r" and rts: "rts(ip := None) = r_routes r" and h: "handle_ip h = ip"
  shows "resources_of (ConnectionGuard_drop (SessionGuard_drop u (drop_handle h (release_ip ip st)))) = r"
    "server_invar (ConnectionGuard_drop (SessionGuard_drop u (drop_handle h (release_ip ip st))))"
proof -
  from inv have pi: "pool_invar (ss_pool st)" and ri: "router_invar (ss_router st)"
    and d: "dom (routes (ss_router st)) \<subseteq> pool_held (ss_pool st)" by (auto simp: server_invar_def)
  have rel: "pool_held (IpPool_release (ss_pool st) ip) = pool_held (ss_pool st) - {ip}"
    "pool_invar (IpPool_release (ss_pool st) ip)" using pool.release_law [OF pi] by auto
  have dr: "routes (ClientHandle_drop (ss_router st) h) = (routes (ss_router st))(ip := None)"
    "router_invar (ClientHandle_drop (ss_router st) h)" using router.drop_law [OF ri, of h] h by auto
  show "resources_of (ConnectionGuard_drop (SessionGuard_drop u (drop_handle h (release_ip ip st)))) = r"
    using res fresh rts by (cases r) (auto simp: resources_of_def guard_defs opened_def rel dr)
  show "server_invar (ConnectionGuard_drop (SessionGuard_drop u (drop_handle h (release_ip ip st))))"
    using rel dr d by (auto simp: server_invar_def guard_defs)
qed

text \<open>The authenticated part of a QUIC session, whatever becomes of it.\<close>

lemma vpn_session_resources:
  assumes inv: "server_invar st" and tun: "quiet_tunnel tunnel"
    and rd: "auth_read io = Some buf" and dec: "ClientAuth_decode buf = Some a"
    and ver: "AuthMode_verify hmac (ss_auth st) (ca_nonce a) (ca_mac a) = Some u"
  shows "server_invar (fst (vpn_control hmac io tunnel (ConnectionGuard_new st)))
    \<and> resources_of (fst (vpn_control hmac io tunnel (ConnectionGuard_new st))) = resources_of st"
proof -
  define s1 where "s1 = SessionGuard_new u (inc_handshakes_total (ConnectionGuard_new st))"
  have s1: "ss_pool s1 = ss_pool st" "ss_router s1 = ss_router st" "server_invar s1"
    using inv by (simp_all add: s1_def) (simp_all add: guard_defs)
  have ver': "AuthMode_verify hmac (ss_auth (inc_handshakes_total (ConnectionGuard_new st))) (ca_nonce a) (ca_mac a) = Some u"
    using ver by (simp add: guard_defs)
  obtain p r where al: "IpPool_allocate (ss_pool st) = (p, r)" by fastforce
  show ?thesis
  proof (cases r)
    case None
    with al inv have p: "p = ss_pool st" using pool.alloc_None [of "ss_pool st" p] by (auto simp: server_invar_def)
    have "s1\<lparr>ss_pool := p\<rparr> = s1" using s1 p by simp
    moreover have "resources_of (ConnectionGuard_drop (SessionGuard_drop u s1)) = resources_of st"
      by (simp add: s1_def resources_of_def guard_defs)
    ultimately show ?thesis using rd dec ver' al None s1
      by (simp add: vpn_control_def Let_def flip: s1_def)
  next
    case ip: (Some ip)
    obtain ro h q where reg: "ClientRouter_register (ss_router st) ip CLIENT_CHANNEL_SIZE = (ro, h, q)"
      by (rule prod_cases3)
    let ?s2 = "s1\<lparr>ss_pool := p, ss_router := ro\<rparr>"
    note R = register_fresh [of s1 p ip CLIENT_CHANNEL_SIZE ro h q, unfolded s1(1,2), OF s1(3) al [unfolded ip] reg]
    have op: "resources_of ?s2 = opened u ip (routes ro) (resources_of st)"
      using R by (simp add: resources_of_def opened_def s1_def guard_defs)
    have fr: "ip \<notin> r_held (resources_of st)" using R by (simp add: resources_of_def)
    have rt: "(routes ro)(ip := None) = r_routes (resources_of st)"
      using R fresh_unregistered [OF inv R(5)] by (auto simp: resources_of_def)
    have inv3: "server_invar (tunnel ip q ?s2)" "resources_of (tunnel ip q ?s2) = opened u ip (routes ro) (resources_of st)"
      using tun R(1) op by (auto simp: quiet_tunnel_def)
    show ?thesis
      using rd dec ver' al ip reg s1 close_session [OF R(1) op fr rt R(2)] close_session [OF inv3 fr rt R(2)]
      by (simp add: vpn_control_def Let_def flip: s1_def)
  qed
qed

lemma vpn_control_resources:
  assumes inv: "server_invar st" and tun: "quiet_tunnel tunnel"
  shows "server_invar (fst (vpn_control hmac io tunnel (ConnectionGuard_new st)))
    \<and> resources_of (fst (vpn_control hmac io tunnel (ConnectionGuard_new st))) = resources_of st"
proof (cases "auth_read io")
  case (Some buf)
  show ?thesis
  proof (cases "ClientAuth_decode buf")
    case dec: (Some a)
    show ?thesis
    proof (cases "AuthMode_verify hmac (ss_auth st) (ca_nonce a) (ca_mac a)")
      case None
      then have "AuthMode_verify hmac (ss_auth (inc_handshakes_total (ConnectionGuard_new st))) (ca_nonce a) (ca_mac a) = None"
        by (simp add: guard_defs)
      with Some dec inv show ?thesis by (simp add: vpn_control_def Let_def guards_resources)
    qed (rule vpn_session_resources [OF inv tun Some dec])
  qed (use Some inv in \<open>simp add: vpn_control_def guards_resources\<close>)
qed (use inv in \<open>simp add: vpn_control_def guards_resources\<close>)

text \<open>A session without a router entry: after the tunnel, or when the answer cannot be written.\<close>

lemma ws_session_core:
  assumes inv: "server_invar s"
    and tun: "\<And>ip st. server_invar st \<Longrightarrow> server_invar (tunnel ip st) \<and> resources_of (tunnel ip st) = resources_of st"
    and al: "IpPool_allocate (ss_pool s) = (p, Some ip)"
    and s': "s' = tunnel ip (SessionGuard_new u (ConnectionGuard_new (s\<lparr>ss_pool := p\<rparr>)))"
  shows "server_invar (ConnectionGuard_drop (SessionGuard_drop u (release_ip ip s')))"
    "resources_of (ConnectionGuard_drop (SessionGuard_drop u (release_ip ip s'))) = resources_of s"
    "server_invar (release_ip ip (s\<lparr>ss_pool := p\<rparr>))" "resources_of (release_ip ip (s\<lparr>ss_pool := p\<rparr>)) = resources_of s"
proof -
  from inv have pi: "pool_invar (ss_pool s)" and d: "dom (routes (ss_router s)) \<subseteq> pool_held (ss_pool s)"
    by (auto simp: server_invar_def)
  note A = pool.alloc_Some [OF pi al]
  have "server_invar (s\<lparr>ss_pool := p\<rparr>)" using A d inv by (auto simp: server_invar_def)
  with tun [of "SessionGuard_new u (ConnectionGuard_new (s\<lparr>ss_pool := p\<rparr>))" ip]
  have t: "server_invar s'" "resources_of s' = resources_of (SessionGuard_new u (ConnectionGuard_new (s\<lparr>ss_pool := p\<rparr>)))"
    by (simp_all add: s')
  then have held: "pool_held (ss_pool s') = insert ip (pool_held (ss_pool s))" "routes (ss_router s') = routes (ss_router s)"
    using A by (auto simp: resources_of_def guard_defs)
  have rel: "pool_held (IpPool_release (ss_pool s') ip) = pool_held (ss_pool s)" "pool_invar (IpPool_release (ss_pool s') ip)"
    "pool_held (IpPool_release p ip) = pool_held (ss_pool s)" "pool_invar (IpPool_release p ip)"
    using pool.release_law [of "ss_pool s'" ip] pool.release_law [of p ip] t(1) held A by (auto simp: server_invar_def)
  show "server_invar (ConnectionGuard_drop (SessionGuard_drop u (release_ip ip s')))"
    "server_invar (release_ip ip (s\<lparr>ss_pool := p\<rparr>))"
    using rel held d t(1) inv by (auto simp: server_invar_def guard_defs)
  show "resources_of (ConnectionGuard_drop (SessionGuard_drop u (release_ip ip s'))) = resources_of s"
    "resources_of (release_ip ip (s\<lparr>ss_pool := p\<rparr>)) = resources_of s"
    using t(2) rel by (auto simp: resources_of_def guard_defs)
qed

lemma allocate_None_same:
  "server_invar s \<Longrightarrow> IpPool_allocate (ss_pool s) = (p, None) \<Longrightarrow> s\<lparr>ss_pool := p\<rparr> = s"
  using pool.alloc_None [of "ss_pool s" p] by (auto simp: server_invar_def)

lemma ws_resources:
  assumes inv: "server_invar st"
    and tun: "\<And>ip st. server_invar st \<Longrightarrow> server_invar (tunnel ip st) \<and> resources_of (tunnel ip st) = resources_of st"
  shows "server_invar (fst (handle_ws_connection hmac io tunnel st))
    \<and> resources_of (fst (handle_ws_connection hmac io tunnel st)) = resources_of st"
proof -
  let ?s = "inc_handshakes_total st"
  have inv': "server_invar ?s" "resources_of ?s = resources_of st" using inv by (simp_all add: guards_resources)
  note core = ws_session_core [OF inv'(1) tun _ refl, unfolded inv'(2)]
  obtain p r where al: "IpPool_allocate (ss_pool ?s) = (p, r)" by fastforce
  show ?thesis
  proof (cases r)
    case None
    with al allocate_None_same [OF inv'(1)] inv inv' show ?thesis
      by (auto simp: handle_ws_connection_def Let_def guards_resources split: ws_first.split option.split)
  next
    case (Some ip)
    with al core [of p ip] inv inv' show ?thesis
      by (auto simp: handle_ws_connection_def Let_def guards_resources split: ws_first.split option.split)
  qed
qed

lemma tcp_resources:
  assumes inv: "server_invar st" and tun: "quiet_tunnel tunnel"
  shows "server_invar (fst (tcp_reality_task hmac io tunnel st))
    \<and> resources_of (fst (tcp_reality_task hmac io tunnel st)) = resources_of st"
proof -
  let ?cfg = "\<lparr>rc_server_ip = ss_server_ip st, rc_dns_ip = ss_dns_ip st, rc_mtu = ss_mtu st\<rparr>"
  let ?h = "handle_tcp_connection (AuthMode_verify hmac (ss_auth st)) ?cfg io (ss_pool st)"
  from inv have pi: "pool_invar (ss_pool st)" by (simp add: server_invar_def)
  note cases = handle_tcp_connection_pool [OF pi, of "AuthMode_verify hmac (ss_auth st)" ?cfg io]
  obtain p out where h: "?h = (p, out)" by fastforce
  show ?thesis
  proof (cases "outcome out")
    case (Vpn ip u)
    with cases h have al: "IpPool_allocate (ss_pool st) = (p, Some ip)" by simp
    define s1 where "s1 = SessionGuard_new u (ConnectionGuard_new st)"
    have s1: "ss_pool s1 = ss_pool st" "ss_router s1 = ss_router st" "server_invar s1"
      using inv by (simp_all add: s1_def) (simp_all add: guard_defs)
    obtain ro hd q where reg: "ClientRouter_register (ss_router st) ip TCP_CLIENT_CHANNEL_SIZE = (ro, hd, q)"
      by (rule prod_cases3)
    let ?s2 = "s1\<lparr>ss_pool := p, ss_router := ro\<rparr>"
    note R = register_fresh [of s1 p ip TCP_CLIENT_CHANNEL_SIZE ro hd q, unfolded s1(1,2), OF s1(3) al reg]
    have op: "resources_of ?s2 = opened u ip (routes ro) (resources_of st)"
      using R by (simp add: resources_of_def opened_def s1_def guard_defs)
    have fr: "ip \<notin> r_held (resources_of st)" using R by (simp add: resources_of_def)
    have rt: "(routes ro)(ip := None) = r_routes (resources_of st)"
      using R fresh_unregistered [OF inv R(5)] by (auto simp: resources_of_def)
    have inv3: "server_invar (tunnel ip q ?s2)" "resources_of (tunnel ip q ?s2) = opened u ip (routes ro) (resources_of st)"
      using tun R(1) op by (auto simp: quiet_tunnel_def)
    have eq: "SessionGuard_new u (ConnectionGuard_new (st\<lparr>ss_pool := p\<rparr>)) = s1\<lparr>ss_pool := p\<rparr>"
      by (simp add: s1_def guard_defs)
    show ?thesis using close_session [OF inv3 fr rt R(2)] reg s1
      by (simp add: tcp_reality_task_def h Vpn Let_def eq)
  qed (use cases h inv in \<open>simp_all add: tcp_reality_task_def server_invar_def resources_of_def\<close>)
qed

text \<open>What each handler writes on the control stream, as one function of its inputs.\<close>

definition session_answer :: "hmac \<Rightarrow> server_state \<Rightarrow> u8 \<Rightarrow> bool \<Rightarrow> bytes option \<Rightarrow> bytes" where
  "session_answer hmac st fl ok msg =
     (case msg of
        None \<Rightarrow> []
      | Some buf \<Rightarrow>
          (case (accepted_as (AuthMode_verify hmac (ss_auth st)) buf, snd (IpPool_allocate (ss_pool st))) of
             (Some u, Some ip) \<Rightarrow> if ok then SessionConfig_encode (session_config_for st ip fl) else []
           | _ \<Rightarrow> []))"

lemma guards_keep [simp]:
  "ss_auth (ConnectionGuard_new st) = ss_auth st" "ss_pool (ConnectionGuard_new st) = ss_pool st"
  "ss_auth (inc_handshakes_total st) = ss_auth st" "ss_pool (inc_handshakes_total st) = ss_pool st"
  "ss_pool (SessionGuard_new u st) = ss_pool st" "ss_router (SessionGuard_new u st) = ss_router st"
  "session_config_for (ConnectionGuard_new st) = session_config_for st"
  "session_config_for (inc_handshakes_total st) = session_config_for st"
  "session_config_for (SessionGuard_new u st) = session_config_for st"
  "session_config_for (st\<lparr>ss_pool := p\<rparr>) = session_config_for st"
  "session_config_for (st\<lparr>ss_router := r\<rparr>) = session_config_for st"
  by (simp_all add: guard_defs session_config_for_def fun_eq_iff)

lemma vpn_control_answer:
  "snd (snd (vpn_control hmac io tunnel (ConnectionGuard_new st)))
     = session_answer hmac st BATCHING (config_write_ok io) (auth_read io)"
  by (auto simp: vpn_control_def session_answer_def accepted_as_def Let_def split: option.split prod.split)

lemma ws_answer:
  "snd (handle_ws_connection hmac io tunnel st)
     = (case ws_first io of
          WsBinary msg \<Rightarrow> if ws_accept_ok io then session_answer hmac st 0 (ws_send_ok io) (Some msg) else []
        | _ \<Rightarrow> [])"
  by (auto simp: handle_ws_connection_def session_answer_def accepted_as_def ClientAuth_decode_def Let_def
      split: option.split prod.split ws_first.split)

lemma session_answer_cases:
  assumes inv: "server_invar st"
  shows "session_answer hmac st fl ok msg \<noteq> []
      \<longleftrightarrow> ok \<and> card (pool_held (ss_pool st)) < 253
        \<and> (\<exists>buf a k u. msg = Some buf \<and> ClientAuth_decode buf = Some a \<and> (k, u) \<in> mode_creds (ss_auth st)
             \<and> hmac k (ca_nonce a) = ca_mac a)" (is "?A \<longleftrightarrow> ?B")
    and "session_answer hmac st fl ok msg \<noteq> [] \<Longrightarrow>
      \<exists>ip \<in> pool_space (ss_pool st) - pool_held (ss_pool st).
        SessionConfig_decode (session_answer hmac st fl ok msg) = Some (session_config_for st ip fl)"
proof -
  from inv have pi: "pool_invar (ss_pool st)" by (simp add: server_invar_def)
  obtain p r where al: "IpPool_allocate (ss_pool st) = (p, r)" by fastforce
  have nonempty: "SessionConfig_encode c \<noteq> []" for c by (simp add: SessionConfig_encode_layout)
  have dec: "SessionConfig_decode (SessionConfig_encode c) = Some c" for c
    by (rule session_config_codec.decode_exact) simp
  have free: "r \<noteq> None \<longleftrightarrow> card (pool_held (ss_pool st)) < 253"
    using pool.alloc_iff_free [OF pi] by (simp add: al card_pool_space)
  have acc: "accepted_as (AuthMode_verify hmac (ss_auth st)) buf \<noteq> None
      \<longleftrightarrow> (\<exists>a k u. ClientAuth_decode buf = Some a \<and> (k, u) \<in> mode_creds (ss_auth st) \<and> hmac k (ca_nonce a) = ca_mac a)" for buf
    using mode_auth.accepted_iff [of hmac "ss_auth st"] by (auto simp: accepted_as_def split: option.splits)
  have "?A \<longleftrightarrow> ok \<and> r \<noteq> None \<and> (\<exists>buf. msg = Some buf \<and> accepted_as (AuthMode_verify hmac (ss_auth st)) buf \<noteq> None)"
    by (auto simp: session_answer_def al nonempty split: option.split)
  then show "?A \<longleftrightarrow> ?B" unfolding free acc by blast
  assume ?A
  then obtain ip where "r = Some ip" "session_answer hmac st fl ok msg = SessionConfig_encode (session_config_for st ip fl)"
    by (auto simp: session_answer_def al split: option.splits if_splits)
  with pool.alloc_Some [OF pi] al show "\<exists>ip \<in> pool_space (ss_pool st) - pool_held (ss_pool st).
        SessionConfig_decode (session_answer hmac st fl ok msg) = Some (session_config_for st ip fl)"
    by (auto simp: dec)
qed

section \<open>Properties\<close>

text \<open>
  Claim C13. Every handler gives back what it took, on every path (failed reads, malformed or refused
  authentication, exhausted pool, failed writes, end of the tunnel): the allocated addresses, the routing
  table, the connection count and the session gauges are the same after as before, for QUIC with either
  ALPN, TCP Reality and WebSocket, when the tunnel itself leaves them alone.
\<close>

theorem handlers_release_everything:
  assumes inv: "server_invar st" and tun: "quiet_tunnel tunnel"
  shows "resources_of (fst (handle_vpn hmac qio tunnel st)) = resources_of st
    \<and> resources_of (fst (handle_vpn_h3 hmac qio tunnel st)) = resources_of st
    \<and> resources_of (fst (tcp_reality_task hmac tio tunnel st)) = resources_of st
    \<and> resources_of (fst (handle_ws_connection hmac wio (\<lambda>ip. tunnel ip 0) st)) = resources_of st
    \<and> resources_of (fst (handle_incoming hmac inc tunnel st)) = resources_of st"
proof -
  note V = vpn_control_resources [OF inv tun]
  have vpn: "resources_of (fst (handle_vpn hmac io tunnel st)) = resources_of st" for io
    using V by (simp add: handle_vpn_def Let_def guards_resources)
  have h3: "resources_of (fst (handle_vpn_h3 hmac io tunnel st)) = resources_of st" for io
    using V by (simp add: handle_vpn_h3_def)
  have ws: "resources_of (fst (handle_ws_connection hmac wio (\<lambda>ip. tunnel ip 0) st)) = resources_of st"
    using ws_resources [OF inv, of "\<lambda>ip. tunnel ip 0"] tun by (simp add: quiet_tunnel_def)
  have "resources_of (fst (handle_incoming hmac inc tunnel st)) = resources_of st"
    using vpn [of "inc_io inc"] h3 [of "inc_io inc"] by (auto simp: handle_incoming_def split: prod.splits)
  with vpn h3 ws tcp_resources [OF inv tun] show ?thesis by simp
qed

text \<open>A server to run the handlers on: one shared key, a fresh pool and router.\<close>

definition sample_server :: server_state where
  "sample_server =
     \<lparr>ss_auth = SinglePsk \<lparr>auth_psk = [2]\<rparr>, ss_pool = IpPool_new (Ipv4Addr 10 0 1 0), ss_active = 0, ss_max = 100,
      ss_cancelled = False, ss_mtu = 1200, ss_server_ip = Ipv4Addr 10 0 1 1, ss_dns_ip = Ipv4Addr 1 1 1 1,
      ss_decoy_enabled = True, ss_decoy_page = ''p'', ss_router = ClientRouter_new,
      ss_shaper = AdaptiveShaper_new 0, ss_metrics = Metrics_new, ss_config_path = ''c''\<rparr>"

definition sample_hmac :: hmac where
  "sample_hmac k m = concat (replicate 32 k)"

lemma sample_server_invar: "server_invar sample_server"
  by (simp add: server_invar_def sample_server_def pool_invar_new router_invar_new pool_held_new)
    (simp add: ClientRouter_new_def)

definition sample_io :: quic_io where
  "sample_io = \<lparr>accept_bi_ok = True, auth_read = Some (ClientAuth_encode sample_auth), config_write_ok = True\<rparr>"

theorem handlers_release_everything_witness:
  "resources_of (fst (handle_vpn sample_hmac sample_io (\<lambda>ip q st. st) sample_server)) = resources_of sample_server"
  using handlers_release_everything [OF sample_server_invar, of "\<lambda>ip q st. st"] by (simp add: quiet_tunnel_def)

text \<open>
  Claim C1. A session is opened exactly for the holders of a credential: over QUIC with either ALPN and
  over WebSocket the server answers the auth message if and only if some configured key produces its MAC
  over its nonce, fewer than 253 addresses are in use and the answer can be written; the answer then
  decodes to the session parameters with an address of the pool that nobody held.
\<close>

theorem session_iff_credential:
  assumes inv: "server_invar st"
    and w: "(w, fl, ok, msg) \<in> {
      (snd (snd (handle_vpn hmac qio tunnel st)), BATCHING, accept_bi_ok qio \<and> config_write_ok qio, auth_read qio),
      (snd (snd (handle_vpn_h3 hmac qio tunnel st)), BATCHING, config_write_ok qio, auth_read qio),
      (snd (handle_ws_connection hmac wio wtunnel st), 0, ws_accept_ok wio \<and> ws_send_ok wio,
       case ws_first wio of WsBinary m \<Rightarrow> Some m | _ \<Rightarrow> None)}"
  shows "(w \<noteq> [] \<longleftrightarrow> ok \<and> card (pool_held (ss_pool st)) < 253
        \<and> (\<exists>buf a k u. msg = Some buf \<and> ClientAuth_decode buf = Some a \<and> (k, u) \<in> mode_creds (ss_auth st)
             \<and> hmac k (ca_nonce a) = ca_mac a))
    \<and> (w \<noteq> [] \<longrightarrow> (\<exists>ip \<in> pool_space (ss_pool st) - pool_held (ss_pool st).
        SessionConfig_decode w = Some (session_config_for st ip fl)))"
proof -
  have eq: "w = session_answer hmac st fl ok msg"
    using w vpn_control_answer [of hmac qio tunnel st] ws_answer [of hmac wio wtunnel st]
    by (auto simp: handle_vpn_def handle_vpn_h3_def Let_def session_answer_def split: option.split ws_first.splits)
  show ?thesis unfolding eq by (intro conjI impI session_answer_cases [OF inv])
qed

theorem session_iff_credential_witness:
  "snd (snd (handle_vpn sample_hmac sample_io (\<lambda>ip q st. st) sample_server)) \<noteq> []
   \<and> snd (snd (handle_vpn (\<lambda>_ _. []) sample_io (\<lambda>ip q st. st) sample_server)) = []"
proof -
  note inst = session_iff_credential [OF sample_server_invar, where qio = sample_io and tunnel = "\<lambda>ip q st. st"
      and wio = undefined and wtunnel = undefined and fl = BATCHING and ok = True and msg = "auth_read sample_io"]
  have "concat (replicate 32 [2]) = replicate 32 (2 :: u8)" by (simp add: numeral_eq_Suc)
  then show ?thesis
    using inst [where hmac = sample_hmac and w = "snd (snd (handle_vpn sample_hmac sample_io (\<lambda>ip q st. st) sample_server))"]
      inst [where hmac = "\<lambda>_ _. []" and w = "snd (snd (handle_vpn (\<lambda>_ _. []) sample_io (\<lambda>ip q st. st) sample_server))"]
    by (simp add: sample_io_def sample_auth_decodes sample_hmac_def)
      (simp add: sample_auth_def sample_server_def pool_held_new)
qed

text \<open>
  The decoy page is only for peers that open no stream: an \<open>h3\<close> peer that opens a bidirectional
  stream in the first two seconds, as every HTTP/3 request does, and sends anything but an accepted auth
  message is closed with the VPN's own authentication error and never sees the page.
\<close>

theorem h3_request_gets_no_page:
  assumes "handshake_ok inc" "alpn inc = Some ALPN_H3" "bi_within_2s inc"
    and "\<forall>b. auth_read (inc_io inc) = Some b \<longrightarrow> accepted_as (AuthMode_verify hmac (ss_auth st)) b = None"
  shows "case handle_incoming hmac inc tunnel st of (_, close, written, page) \<Rightarrow>
    page = None \<and> written = [] \<and> (\<exists>reason. close = Closed ERR_AUTH_FAILED reason)"
proof -
  have "ALPN_H3 \<noteq> ALPN_VPN" by (simp add: ALPN_H3_def ALPN_VPN_def)
  with assms show ?thesis
    by (auto simp: handle_incoming_def handle_vpn_h3_def vpn_control_def accepted_as_def Let_def
        split: option.splits prod.splits)
qed

theorem h3_request_gets_no_page_witness:
  "let inc = \<lparr>handshake_ok = True, alpn = Some ALPN_H3, bi_within_2s = True,
              inc_io = \<lparr>accept_bi_ok = True, auth_read = Some (0x01 # 0x40 # replicate 64 0), config_write_ok = True\<rparr>\<rparr> in
   snd (snd (snd (handle_incoming (\<lambda>_ _. []) inc (\<lambda>ip q st. st) sample_server))) = None \<and> ss_decoy_enabled sample_server"
proof -
  let ?inc = "\<lparr>handshake_ok = True, alpn = Some ALPN_H3, bi_within_2s = True,
     inc_io = \<lparr>accept_bi_ok = True, auth_read = Some (0x01 # 0x40 # replicate 64 0), config_write_ok = True\<rparr>\<rparr>"
  have "accepted_as (AuthMode_verify (\<lambda>_ _. []) (ss_auth sample_server)) (0x01 # 0x40 # replicate 64 0) = None"
    by (simp add: accepted_as_def ClientAuth_decode_def control_consts sample_server_def AuthMode_verify_def
        PskAuthenticator_verify_def slice_def)
  with h3_request_gets_no_page [of ?inc "\<lambda>_ _. []" sample_server "\<lambda>ip q st. st"] show ?thesis
    by (auto simp: Let_def sample_server_def split: prod.splits)
qed

text \<open>
  Reloading on SIGHUP: a configuration that fails to load or validate changes nothing; otherwise
  the connection limit and the decoy page become the configured ones, the credentials become those the
  files now hold or stay as they are when the files cannot be read, and nothing else changes: not the
  sessions' addresses and routes, and not the bandwidth limit.
\<close>

theorem reload_config_effect:
  "reload_config from_str fs st =
     (case ServerConfig_load from_str (map_of (files fs)) (ss_config_path st) of
        Inl e \<Rightarrow> st
      | Inr config \<Rightarrow>
          st\<lparr>ss_max := srv_max_connections config, ss_decoy_page := decoy_page (srv_decoy config),
             ss_auth := (case (case srv_users_dir config of
                                 Some dir \<Rightarrow> and_then (UserStore_load fs dir) (\<lambda>s. Ok (MultiUser s))
                               | None \<Rightarrow> and_then (load_psk (map_of (files fs)) (srv_psk_file config))
                                           (\<lambda>k. Ok (SinglePsk (PskAuthenticator_new k)))) of
                           Inl e \<Rightarrow> ss_auth st
                         | Inr auth \<Rightarrow> auth)\<rparr>)"
  by (auto simp: reload_config_def Let_def split: sum.split option.split)

text \<open>
  The pool does not know the server's own address: with \<open>tun_address\<close> 10.0.1.5, which the
  configuration accepts, the fourth client is assigned 10.0.1.5 itself.
\<close>

theorem pool_hands_out_server_ip:
  "ServerConfig_validate (ServerConfig_default\<lparr>srv_tun_address := ''10.0.1.5''\<rparr>) = Ok ()
   \<and> (\<exists>st. ServerState_new (ServerConfig_default\<lparr>srv_tun_address := ''10.0.1.5''\<rparr>) auth path = Some (Ok st)
        \<and> snd (alloc_n IpPool_allocate 4 (ss_pool st)) ! 3 = ss_server_ip st)"
proof -
  have eqs: "''10.0.1.5'' = show_ipv4 (Ipv4Addr 10 0 1 5)" "''10.0.1.0'' = show_ipv4 (Ipv4Addr 10 0 1 0)"
    "default_dns = show_ipv4 (Ipv4Addr 1 1 1 1)" by (simp_all add: show_simps default_dns_def)
  have p: "parse_ipv4 ''10.0.1.5'' = Some (Ipv4Addr 10 0 1 5)" "parse_ipv4 ''10.0.1.0'' = Some (Ipv4Addr 10 0 1 0)"
    "parse_ipv4 default_dns = Some (Ipv4Addr 1 1 1 1)" unfolding eqs by (rule parse_show_ipv4)+
  obtain hs where hr: "host_range = 2 # 3 # 4 # 5 # hs" by (simp add: host_range_def upt_conv_Cons)
  have n: "(4 :: nat) = Suc (Suc (Suc (Suc 0)))" by simp
  have al: "snd (alloc_n IpPool_allocate 4 (IpPool_new (Ipv4Addr 10 0 1 0))) ! 3 = Ipv4Addr 10 0 1 5"
    unfolding n by (simp add: IpPool_allocate_def IpPool_new_def hr)
  have "subnet_from_config (ServerConfig_default\<lparr>srv_tun_address := ''10.0.1.5''\<rparr>) = Some ''10.0.1.0''"
    by (simp add: subnet_from_config_def p show_simps)
  moreover have "ServerConfig_validate (ServerConfig_default\<lparr>srv_tun_address := ''10.0.1.5''\<rparr>) = Ok ()"
    using default_parts p
    by (simp add: ServerConfig_validate_def ServerConfig_default_def default_mtu_def
        default_tun_prefix_len_def default_max_connections_def)
  ultimately show ?thesis using al p by (simp add: ServerState_new_def) (simp add: ServerConfig_default_def p)
qed

end
