(* ===== verification/Padding.thy ===== *)
theory Padding
  imports Datagram
begin

text \<open>
  Packet size normalisation and idle padding, \<^verbatim>\<open>src/crates/redpill-quic/src/padding.rs\<close>.
  The random number generator (the \<open>rand\<close> crate) is an argument: \<open>gen_range lo hi\<close> is its draw from
  an inclusive range, \<open>fill n\<close> the \<open>n\<close> bytes it fills a buffer with.
\<close>

definition STANDARD_SIZES :: "nat list" where
  "STANDARD_SIZES = [128, 256, 512, 1024, 1200, 1400]"

text \<open>\<open>Vec::resize\<close>: extend with a value, or truncate.\<close>

definition vec_resize :: "'a list \<Rightarrow> nat \<Rightarrow> 'a \<Rightarrow> 'a list" where
  "vec_resize xs n x = take n xs @ replicate (n - length xs) x"

definition pad_to_standard :: "bytes \<Rightarrow> bytes" where
  "pad_to_standard data =
     (let target = (case find (\<lambda>s. s \<ge> length data) STANDARD_SIZES of
                      Some s \<Rightarrow> s
                    | None \<Rightarrow> length data)
      in vec_resize data target 0)"

definition strip_real_len :: "bytes \<Rightarrow> nat option" where
  "strip_real_len data =
     (let version = version_nibble (data ! 0) in
      if version = 4 \<and> length data \<ge> 4 then Some (unat (u16_from_be (data ! 2) (data ! 3)))
      else if version = 6 \<and> length data \<ge> 6 then Some (unat (u16_from_be (data ! 4) (data ! 5)) + 40)
      else None)"

definition strip_padding :: "bytes \<Rightarrow> bytes" where
  "strip_padding data =
     (if data = [] then data
      else case strip_real_len data of
        None \<Rightarrow> data
      | Some real_len \<Rightarrow>
          if real_len > 0 \<and> real_len \<le> length data then slice data 0 real_len else data)"

definition strip_padding_chk :: "bytes \<Rightarrow> bytes rust" where
  "strip_padding_chk data =
     (if data = [] then Some data
      else do {
        b \<leftarrow> idx data 0;
        real_len \<leftarrow>
          (if version_nibble b = 4 \<and> length data \<ge> 4 then do {
             h \<leftarrow> idx data 2; l \<leftarrow> idx data 3; Some (Some (unat (u16_from_be h l))) }
           else if version_nibble b = 6 \<and> length data \<ge> 6 then do {
             h \<leftarrow> idx data 4; l \<leftarrow> idx data 5; Some (Some (unat (u16_from_be h l) + 40)) }
           else Some None);
        case real_len of
          None \<Rightarrow> Some data
        | Some n \<Rightarrow> if n > 0 \<and> n \<le> length data then slice_chk data 0 n else Some data
      })"

record idle_padder =
  ip_interval_ms :: u64
  ip_min_size :: nat
  ip_max_size :: nat

definition IdlePadder_new :: "u64 \<Rightarrow> nat \<Rightarrow> nat \<Rightarrow> idle_padder" where
  "IdlePadder_new interval_ms min_size max_size =
     \<lparr>ip_interval_ms = interval_ms, ip_min_size = min_size, ip_max_size = max_size\<rparr>"

text \<open>\<open>gen_range\<close> panics on an empty range and \<open>buf[0]\<close> on an empty buffer.\<close>

definition IdlePadder_generate ::
  "(nat \<Rightarrow> nat \<Rightarrow> nat) \<Rightarrow> (nat \<Rightarrow> bytes) \<Rightarrow> idle_padder \<Rightarrow> bytes rust" where
  "IdlePadder_generate gen_range fill self =
     (if ip_min_size self > ip_max_size self then None
      else
        let size = gen_range (ip_min_size self) (ip_max_size self);
            buf = fill size
        in do { b \<leftarrow> idx buf 0; Some (buf[0 := b AND 0x0F]) })"

section \<open>Lemmas\<close>

lemma find_Some_mem: "find P xs = Some x \<Longrightarrow> x \<in> set xs \<and> P x"
  by (induction xs) (auto split: if_splits)

lemma pad_to_standard_eq:
  "\<exists>n. pad_to_standard p = p @ replicate n 0"
  by (auto simp: pad_to_standard_def vec_resize_def Let_def split: option.splits
      dest!: find_Some_mem)

lemma length_pad_to_standard:
  "length (pad_to_standard p) =
     (case find (\<lambda>s. length p \<le> s) STANDARD_SIZES of Some s \<Rightarrow> s | None \<Rightarrow> length p)"
  by (auto simp: pad_to_standard_def vec_resize_def Let_def split: option.splits
      dest!: find_Some_mem)

lemma length_pad_le: "length p \<le> length (pad_to_standard p)"
  using pad_to_standard_eq [of p] by auto

lemma nth_pad: "i < length p \<Longrightarrow> pad_to_standard p ! i = p ! i"
  using pad_to_standard_eq [of p] by (auto simp: nth_append)

lemma pad_nonempty: "p \<noteq> [] \<Longrightarrow> pad_to_standard p \<noteq> []"
  using length_pad_le [of p] by auto

lemma take_pad: "take (length p) (pad_to_standard p) = p"
  using pad_to_standard_eq [of p] by auto

text \<open>
  The total length an IP header announces: bytes 2 and 3 for IPv4, the payload length in bytes 4 and 5
  plus the fixed header for IPv6. A packet read from a TUN device is exactly that long.
\<close>

definition ip_wellformed :: "bytes \<Rightarrow> bool" where
  "ip_wellformed p \<longleftrightarrow> p \<noteq> [] \<and> strip_real_len p = Some (length p)"

lemma strip_real_len_pad:
  "ip_wellformed p \<Longrightarrow> strip_real_len (pad_to_standard p) = strip_real_len p"
  using length_pad_le [of p]
  by (auto simp: ip_wellformed_def strip_real_len_def Let_def nth_pad split: if_splits)

text \<open>Stripping a padded packet gives the packet back, when its header announces its length.\<close>

lemma strip_padding_pad:
  "ip_wellformed p \<Longrightarrow> strip_padding (pad_to_standard p) = p"
proof -
  assume wf: "ip_wellformed p"
  then have ne: "p \<noteq> []" and len: "strip_real_len (pad_to_standard p) = Some (length p)"
    using strip_real_len_pad [OF wf] by (simp_all add: ip_wellformed_def)
  from ne len show ?thesis
    using length_pad_le [of p]
    by (simp add: strip_padding_def pad_nonempty slice_def take_pad)
qed

text \<open>The UDP packet of 60 bytes the code's own round-trip test uses.\<close>

definition sample_ipv4_60 :: bytes where
  "sample_ipv4_60 = [0x45, 0, 0, 60] @ replicate 56 0"

lemma sample_ipv4_60_wf: "ip_wellformed sample_ipv4_60"
  by (simp add: ip_wellformed_def sample_ipv4_60_def strip_real_len_def version_nibble_def
      unat_u16_from_be)

lemma sample_ipv4_60_padded: "length (pad_to_standard sample_ipv4_60) = 128"
  by (simp add: length_pad_to_standard STANDARD_SIZES_def sample_ipv4_60_def)

section \<open>Properties\<close>

lemma find_sorted_Min:
  assumes "sorted xs" and "find P xs = Some x"
  shows "x = Min {y \<in> set xs. P y}"
proof -
  from assms(2) obtain i where i: "i < length xs" "P (xs ! i)" "x = xs ! i"
    and before: "\<And>j. j < i \<Longrightarrow> \<not> P (xs ! j)"
    by (auto simp: find_Some_iff)
  have "x \<le> y" if "y \<in> set xs" "P y" for y
  proof -
    from that obtain k where k: "k < length xs" "y = xs ! k" by (auto simp: in_set_conv_nth)
    with before that have "i \<le> k" by (metis not_le)
    with k i assms(1) show ?thesis by (simp add: sorted_nth_mono)
  qed
  with i show ?thesis by (intro Min_eqI [symmetric]) auto
qed

text \<open>
  The size on the wire is exactly the least standard size that fits the packet, or the
  packet's own size above 1400 bytes, and what is added is zeros after the packet.
\<close>

theorem pad_to_standard_sizes:
  "pad_to_standard p =
     p @ replicate ((if length p \<le> 1400 then Min {s \<in> set STANDARD_SIZES. length p \<le> s}
                     else length p) - length p) 0"
proof (cases "find (\<lambda>s. length p \<le> s) STANDARD_SIZES")
  case None
  then have "\<not> length p \<le> 1400"
    unfolding find_None_iff STANDARD_SIZES_def by (meson list.set_intros)
  with None show ?thesis by (simp add: pad_to_standard_def vec_resize_def)
next
  case (Some s)
  then have mem: "s \<in> set STANDARD_SIZES" "length p \<le> s" by (auto dest: find_Some_mem)
  then have "length p \<le> 1400" by (auto simp: STANDARD_SIZES_def)
  moreover have "s = Min {s \<in> set STANDARD_SIZES. length p \<le> s}"
    by (rule find_sorted_Min [OF _ Some]) (simp add: STANDARD_SIZES_def)
  ultimately show ?thesis using Some mem
    by (simp add: pad_to_standard_def vec_resize_def)
qed

lemma strip_padding_no_panic [panic_free]: "strip_padding_chk d = Some (strip_padding d)"
proof (cases "d = []")
  case True
  then show ?thesis by (simp add: strip_padding_chk_def strip_padding_def)
next
  case False
  then have "idx d 0 = Some (d ! 0)" by simp
  then show ?thesis using False
    by (simp add: strip_padding_chk_def strip_padding_def strip_real_len_def Let_def)
qed

text \<open>Stripping never invents bytes: the result is a prefix of the received datagram.\<close>

lemma strip_padding_prefix: "\<exists>n. strip_padding d = take n d"
proof -
  have "strip_padding d = d \<or> (\<exists>n. strip_padding d = slice d 0 n)"
    by (auto simp: strip_padding_def split: option.splits)
  then show ?thesis by (auto simp: slice_def intro: exI [of _ "length d"])
qed

lemma strip_padding_nonempty: "d \<noteq> [] \<Longrightarrow> strip_padding d \<noteq> []"
  by (auto simp: strip_padding_def slice_def split: option.splits)

lemma strip_padding_hd: "d \<noteq> [] \<Longrightarrow> strip_padding d ! 0 = d ! 0"
  using strip_padding_prefix [of d] strip_padding_nonempty [of d] by (cases d) auto

lemma version_nibble_masked: "version_nibble (b AND 0x0F) = 0"
  unfolding version_nibble_def
  by (rule bit_word_eqI) (auto simp: bit_simps numeral_eq_Suc)

text \<open>
  An idle-padding packet is never mistaken for traffic: for every generator that draws within
  the range it is given and fills what it is asked to fill, generation does not panic, the size is in
  the configured range, and the packet is not IP (its version nibble is 0).
\<close>

theorem idle_padding_not_ip:
  assumes range: "\<And>lo hi. lo \<le> hi \<Longrightarrow> lo \<le> gen_range lo hi \<and> gen_range lo hi \<le> hi"
    and fill: "\<And>n. length (fill n) = n"
    and sizes: "0 < ip_min_size s" "ip_min_size s \<le> ip_max_size s"
  shows "\<exists>pkt. IdlePadder_generate gen_range fill s = Some pkt
           \<and> ip_min_size s \<le> length pkt \<and> length pkt \<le> ip_max_size s
           \<and> version_nibble (pkt ! 0) = 0 \<and> ip_version pkt = None"
proof -
  let ?n = "gen_range (ip_min_size s) (ip_max_size s)"
  from range [OF sizes(2)] have n: "ip_min_size s \<le> ?n" "?n \<le> ip_max_size s" by auto
  with sizes(1) have pos: "0 < ?n" by linarith
  then have "fill ?n \<noteq> []" using fill [of ?n] by auto
  then show ?thesis using n pos sizes(2) fill [of ?n]
    by (intro exI [of _ "(fill ?n)[0 := fill ?n ! 0 AND 0x0F]"])
      (simp add: IdlePadder_generate_def Let_def ip_version_def version_nibble_masked)
qed

theorem idle_padding_not_ip_witness:
  "\<exists>pkt. IdlePadder_generate (\<lambda>lo hi. lo) (\<lambda>n. replicate n 0xFF) (IdlePadder_new 500 64 256) = Some pkt
     \<and> 64 \<le> length pkt \<and> length pkt \<le> 256 \<and> version_nibble (pkt ! 0) = 0 \<and> ip_version pkt = None"
  using idle_padding_not_ip [of "\<lambda>lo hi. lo" "\<lambda>n. replicate n 0xFF" "IdlePadder_new 500 64 256"]
  by (simp add: IdlePadder_new_def)

end
