(* ===== verification/Transport.thy ===== *)
theory Transport
  imports Batch Padding Control Config
begin

text \<open>
  The transports of \<^verbatim>\<open>src/crates/redpill-quic/src/transport/\<close>: the common types of \<open>mod.rs\<close>, raw and
  camouflaged QUIC datagrams (\<open>quic_raw.rs\<close>, \<open>quic_camouflaged.rs\<close>), length-framed packets over a TLS
  stream (\<open>tcp_reality.rs\<close>) and WebSocket messages (\<open>websocket_cdn.rs\<close>). What the network libraries
  return is an argument: the outcome of \<open>send_datagram\<close>, the bytes a stream delivers before it ends, the
  sequence of WebSocket messages.
\<close>

section \<open>Common types\<close>

datatype transport_mode = QuicRaw | QuicCamouflaged | TcpReality | WebSocketCdn

text \<open>The order of preference of the transports (fastest first).\<close>

primrec preference :: "transport_mode \<Rightarrow> nat" where
  "preference QuicRaw = 0"
| "preference QuicCamouflaged = 1"
| "preference TcpReality = 2"
| "preference WebSocketCdn = 3"

lemma preference_inj: "preference a = preference b \<Longrightarrow> a = b"
  by (cases a; cases b) simp_all

instantiation transport_mode :: linorder
begin

definition less_eq_transport_mode :: "transport_mode \<Rightarrow> transport_mode \<Rightarrow> bool" where
  "less_eq_transport_mode a b \<longleftrightarrow> preference a \<le> preference b"

definition less_transport_mode :: "transport_mode \<Rightarrow> transport_mode \<Rightarrow> bool" where
  "less_transport_mode a b \<longleftrightarrow> preference a < preference b"

instance
  by standard (auto simp: less_eq_transport_mode_def less_transport_mode_def dest: preference_inj)

end

primrec TransportMode_display :: "transport_mode \<Rightarrow> string" where
  "TransportMode_display QuicRaw = ''QUIC''"
| "TransportMode_display QuicCamouflaged = ''QUIC+Camo''"
| "TransportMode_display TcpReality = ''TCP+Reality''"
| "TransportMode_display WebSocketCdn = ''WS+CDN''"

datatype send_result = Sent | TooLarge | Blocked

datatype transport_error = ConnectionLost string | TransportIo string

type_synonym 'a tresult = "transport_error + 'a"

section \<open>QUIC datagrams\<close>

text \<open>The outcome of \<open>quinn::Connection::send_datagram\<close>.\<close>

datatype send_datagram = DgOk | DgTooLarge | DgConnectionLost string | DgUnsupported | DgDisabled

definition QuicRaw_send :: "(bytes \<Rightarrow> send_datagram) \<Rightarrow> bytes \<Rightarrow> send_result tresult" where
  "QuicRaw_send conn_send data =
     (case conn_send data of
        DgOk \<Rightarrow> Inr Sent
      | DgTooLarge \<Rightarrow> Inr TooLarge
      | DgConnectionLost e \<Rightarrow> Inl (ConnectionLost e)
      | _ \<Rightarrow> Inr Blocked)"

definition QuicRaw_recv :: "string + bytes \<Rightarrow> bytes tresult" where
  "QuicRaw_recv read_datagram =
     (case read_datagram of Inl e \<Rightarrow> Inl (ConnectionLost e) | Inr data \<Rightarrow> Inr data)"

text \<open>What the camouflaged transport hands to the raw one, and what it makes of a received datagram.\<close>

definition QuicCamouflaged_wire :: "bool \<Rightarrow> bytes \<Rightarrow> bytes" where
  "QuicCamouflaged_wire padding_enabled data = (if padding_enabled then pad_to_standard data else data)"

definition QuicCamouflaged_send :: "bool \<Rightarrow> (bytes \<Rightarrow> send_datagram) \<Rightarrow> bytes \<Rightarrow> send_result tresult" where
  "QuicCamouflaged_send padding_enabled conn_send data =
     QuicRaw_send conn_send (QuicCamouflaged_wire padding_enabled data)"

definition QuicCamouflaged_recv :: "bool \<Rightarrow> string + bytes \<Rightarrow> bytes tresult" where
  "QuicCamouflaged_recv padding_enabled read_datagram =
     (case QuicRaw_recv read_datagram of
        Inl e \<Rightarrow> Inl e
      | Inr data \<Rightarrow> Inr (if padding_enabled then strip_padding data else data))"

text \<open>
  Statistics. \<open>quic_info\<close> is what the connection reports: the path's round-trip time in nanoseconds, its
  window, packets lost and sent, and the largest datagram it takes now.
\<close>

record quic_info =
  qi_rtt :: nat
  qi_cwnd :: u64
  qi_lost :: u64
  qi_sent :: u64
  qi_max_datagram_size :: "nat option"

record transport_stats =
  ts_rtt :: "nat option"
  ts_cwnd :: "u64 option"
  ts_lost_packets :: "u64 option"
  ts_sent_packets :: "u64 option"
  ts_max_datagram_size :: "nat option"

definition TransportStats_default :: transport_stats where
  "TransportStats_default =
     \<lparr>ts_rtt = None, ts_cwnd = None, ts_lost_packets = None, ts_sent_packets = None, ts_max_datagram_size = None\<rparr>"

definition QuicRaw_stats :: "quic_info \<Rightarrow> transport_stats" where
  "QuicRaw_stats conn =
     \<lparr>ts_rtt = Some (qi_rtt conn), ts_cwnd = Some (qi_cwnd conn), ts_lost_packets = Some (qi_lost conn),
      ts_sent_packets = Some (qi_sent conn), ts_max_datagram_size = qi_max_datagram_size conn\<rparr>"

definition QuicRaw_max_datagram_size :: "quic_info \<Rightarrow> nat option" where
  "QuicRaw_max_datagram_size conn = qi_max_datagram_size conn"

definition QuicCamouflaged_stats :: "quic_info \<Rightarrow> transport_stats" where
  "QuicCamouflaged_stats conn = QuicRaw_stats conn"

definition QuicCamouflaged_max_datagram_size :: "quic_info \<Rightarrow> nat option" where
  "QuicCamouflaged_max_datagram_size conn = QuicRaw_max_datagram_size conn"

section \<open>Length-framed packets over TLS\<close>

definition MAX_FRAME_SIZE :: nat where "MAX_FRAME_SIZE = 65535"

definition TcpReality_stats :: transport_stats where
  "TcpReality_stats = TransportStats_default"

definition TcpReality_max_datagram_size :: "nat option" where
  "TcpReality_max_datagram_size = Some MAX_FRAME_SIZE"

text \<open>
  The two ends of one direction of a stream: the bytes written and not yet read, and the reader's
  packet buffer, which only grows.
\<close>

record tcp_link =
  tls_wire :: bytes
  pkt_buf :: bytes

definition TcpReality_new :: tcp_link where
  "TcpReality_new = \<lparr>tls_wire = [], pkt_buf = replicate 1500 0\<rparr>"

definition TcpReality_send :: "tcp_link \<Rightarrow> bytes \<Rightarrow> tcp_link \<times> send_result tresult" where
  "TcpReality_send l data =
     (if length data > MAX_FRAME_SIZE then (l, Inr TooLarge)
      else (l\<lparr>tls_wire := tls_wire l @ u16_to_be (len_u16 data) @ data\<rparr>, Inr Sent))"

text \<open>\<open>read_exact\<close>: it consumes what is left when the stream ends early, and fails.\<close>

definition read_exact :: "nat \<Rightarrow> bytes \<Rightarrow> bytes \<times> (string + bytes)" where
  "read_exact n s = (if length s < n then ([], Inl ''unexpected end of file'') else (drop n s, Inr (take n s)))"

definition TcpReality_recv :: "tcp_link \<Rightarrow> tcp_link \<times> bytes tresult" where
  "TcpReality_recv l =
     (case read_exact 2 (tls_wire l) of
        (w, Inl e) \<Rightarrow> (l\<lparr>tls_wire := w\<rparr>, Inl (ConnectionLost e))
      | (w, Inr len_buf) \<Rightarrow>
          let n = unat (u16_from_be (len_buf ! 0) (len_buf ! 1)) in
          if n = 0 \<or> n > MAX_FRAME_SIZE then (l\<lparr>tls_wire := w\<rparr>, Inl (ConnectionLost ''invalid frame length''))
          else
            let buf = (if n > length (pkt_buf l) then vec_resize (pkt_buf l) n 0 else pkt_buf l) in
            (case read_exact n w of
               (w, Inl e) \<Rightarrow> (l\<lparr>tls_wire := w, pkt_buf := buf\<rparr>, Inl (ConnectionLost e))
             | (w, Inr pkt) \<Rightarrow>
                 let buf = copy_at buf 0 pkt in
                 (l\<lparr>tls_wire := w, pkt_buf := buf\<rparr>, Inr (take n buf))))"

section \<open>WebSocket messages\<close>

datatype ws_message = Binary bytes | Ping bytes | Pong bytes | Close | OtherMessage bytes | WsError string

definition WebSocket_stats :: transport_stats where
  "WebSocket_stats = TransportStats_default"

definition WebSocket_max_datagram_size :: "nat option" where
  "WebSocket_max_datagram_size = Some 65535"

definition WebSocket_send :: "ws_message list \<Rightarrow> bytes \<Rightarrow> ws_message list \<times> send_result tresult" where
  "WebSocket_send stream data = (stream @ [Binary data], Inr Sent)"

fun WebSocket_recv :: "ws_message list \<Rightarrow> ws_message list \<times> bytes tresult" where
  "WebSocket_recv [] = ([], Inl (ConnectionLost ''WebSocket stream ended''))"
| "WebSocket_recv (Binary data # s) = (s, Inr data)"
| "WebSocket_recv (Ping _ # s) = WebSocket_recv s"
| "WebSocket_recv (Pong _ # s) = WebSocket_recv s"
| "WebSocket_recv (Close # s) = (s, Inl (ConnectionLost ''WebSocket closed''))"
| "WebSocket_recv (OtherMessage _ # s) = WebSocket_recv s"
| "WebSocket_recv (WsError e # s) = (s, Inl (ConnectionLost e))"

section \<open>The interface of an ordered transport\<close>

text \<open>
  The \<open>Transport\<close> trait over an ordered reliable channel: \<open>inflight\<close> are the packets sent and not yet
  received, \<open>carries\<close> the packets the transport can carry.
\<close>

text \<open>A client's use of a transport: sending a list of packets, and a number of receives in a row.\<close>

fun send_all :: "('c \<Rightarrow> bytes \<Rightarrow> 'c \<times> send_result tresult) \<Rightarrow> 'c \<Rightarrow> bytes list \<Rightarrow> 'c" where
  "send_all send c [] = c"
| "send_all send c (p # ps) = send_all send (fst (send c p)) ps"

fun recv_n :: "('c \<Rightarrow> 'c \<times> bytes tresult) \<Rightarrow> nat \<Rightarrow> 'c \<Rightarrow> 'c \<times> bytes tresult list" where
  "recv_n recv 0 c = (c, [])"
| "recv_n recv (Suc n) c = (case recv c of (c, r) \<Rightarrow> (case recv_n recv n c of (c, rs) \<Rightarrow> (c, r # rs)))"

locale ordered_transport =
  fixes send :: "'c \<Rightarrow> bytes \<Rightarrow> 'c \<times> send_result tresult"
    and recv :: "'c \<Rightarrow> 'c \<times> bytes tresult"
    and inflight :: "'c \<Rightarrow> bytes list"
    and wf :: "'c \<Rightarrow> bool"
    and carries :: "bytes \<Rightarrow> bool"
  assumes send_law: "wf c \<Longrightarrow> carries p \<Longrightarrow>
        \<exists>c'. send c p = (c', Inr Sent) \<and> wf c' \<and> inflight c' = inflight c @ [p]"
    and recv_law: "wf c \<Longrightarrow> inflight c = p # ps \<Longrightarrow>
        \<exists>c'. recv c = (c', Inr p) \<and> wf c' \<and> inflight c' = ps"
    and recv_end: "wf c \<Longrightarrow> inflight c = [] \<Longrightarrow> \<exists>c' e. recv c = (c', Inl (ConnectionLost e))"
begin

lemma send_all_law: "wf c \<Longrightarrow> list_all carries ps \<Longrightarrow> wf (send_all send c ps) \<and> inflight (send_all send c ps) = inflight c @ ps"
proof (induction ps arbitrary: c)
  case (Cons p ps)
  then obtain c' where "send c p = (c', Inr Sent)" "wf c'" "inflight c' = inflight c @ [p]"
    using send_law [of c p] by auto
  with Cons show ?case by simp
qed simp

lemma recv_n_law:
  "wf c \<Longrightarrow> n \<le> length (inflight c) \<Longrightarrow>
   \<exists>c'. recv_n recv n c = (c', map Inr (take n (inflight c))) \<and> wf c' \<and> inflight c' = drop n (inflight c)"
proof (induction n arbitrary: c)
  case (Suc n)
  then obtain p ps where i: "inflight c = p # ps" by (cases "inflight c") auto
  with Suc.prems obtain c1 where c1: "recv c = (c1, Inr p)" "wf c1" "inflight c1 = ps"
    using recv_law by blast
  from Suc.IH [of c1] Suc.prems i c1 show ?case by auto
qed simp

text \<open>Packets received without an error are the first in flight.\<close>

lemma received_first:
  "wf c \<Longrightarrow> recv_n recv (length ps) c = (c', map Inr ps) \<Longrightarrow> ps = take (length ps) (inflight c)"
proof (induction ps arbitrary: c)
  case (Cons p ps)
  then show ?case
  proof (cases "inflight c")
    case Nil
    with recv_end Cons.prems show ?thesis by (fastforce split: prod.splits)
  next
    case (Cons q qs)
    with recv_law Cons.prems(1) obtain c1 where c1: "recv c = (c1, Inr q)" "wf c1" "inflight c1 = qs" by blast
    with Cons.IH [of c1] Cons.prems(2) Cons show ?thesis by (auto split: prod.splits)
  qed
qed simp

text \<open>Everything sent is received once, in order, and then the end of the stream is an error.\<close>

lemma in_order_delivery:
  assumes "wf c" "inflight c = []" "list_all carries ps"
  shows "\<exists>c' e. recv_n recv (length ps) (send_all send c ps) = (c', map Inr ps) \<and> snd (recv c') = Inl (ConnectionLost e)"
proof -
  from send_all_law [OF assms(1,3)] assms(2) have s: "wf (send_all send c ps)" "inflight (send_all send c ps) = ps" by auto
  from recv_n_law [OF s(1), of "length ps"] s(2) obtain c' where
    c': "recv_n recv (length ps) (send_all send c ps) = (c', map Inr ps)" "wf c'" "inflight c' = []" by auto
  with recv_end [OF c'(2,3)] show ?thesis by fastforce
qed

end

section \<open>TCP Reality implements it\<close>

definition tcp_carries :: "bytes \<Rightarrow> bool" where
  "tcp_carries p \<longleftrightarrow> p \<noteq> [] \<and> length p \<le> MAX_FRAME_SIZE"

definition tcp_frame :: "bytes \<Rightarrow> bytes" where
  "tcp_frame p = u16_to_be (len_u16 p) @ p"

definition tcp_wf :: "tcp_link \<Rightarrow> bool" where
  "tcp_wf l \<longleftrightarrow> (\<exists>ps. list_all tcp_carries ps \<and> tls_wire l = concat (map tcp_frame ps))"

text \<open>The packets on the wire, by the reader's own loop.\<close>

function tcp_inflight_wire :: "bytes \<Rightarrow> bytes list" where
  "tcp_inflight_wire w =
     (case w of
        a # b # s \<Rightarrow> let n = unat (u16_from_be a b) in take n s # tcp_inflight_wire (drop n s)
      | _ \<Rightarrow> [])"
  by pat_completeness auto
termination
  by (relation "measure length") auto

declare tcp_inflight_wire.simps [simp del]

definition tcp_inflight :: "tcp_link \<Rightarrow> bytes list" where
  "tcp_inflight l = tcp_inflight_wire (tls_wire l)"

lemma tcp_frame_len:
  assumes "tcp_carries p"
  obtains a b where "u16_to_be (len_u16 p) = [a, b]" "unat (u16_from_be a b) = length p"
proof
  show "u16_to_be (len_u16 p) = [ucast (drop_bit 8 (len_u16 p)), ucast (len_u16 p)]" by (simp add: u16_to_be_def)
  show "unat (u16_from_be (ucast (drop_bit 8 (len_u16 p))) (ucast (len_u16 p))) = length p"
    using assms by (simp add: unat_len_u16 tcp_carries_def MAX_FRAME_SIZE_def)
qed

lemma tcp_inflight_frames: "list_all tcp_carries ps \<Longrightarrow> tcp_inflight_wire (concat (map tcp_frame ps)) = ps"
proof (induction ps)
  case Nil
  then show ?case by (simp add: tcp_inflight_wire.simps)
next
  case (Cons p ps)
  then obtain a b where ab: "u16_to_be (len_u16 p) = [a, b]" "unat (u16_from_be a b) = length p"
    using tcp_frame_len [of p] by auto
  
  then have "concat (map tcp_frame (p # ps)) = a # b # p @ concat (map tcp_frame ps)"
    by (simp add: tcp_frame_def)
  with ab Cons show ?case by (subst tcp_inflight_wire.simps) (simp add: Let_def)
qed

lemma tcp_recv_frame:
  assumes p: "tcp_carries p" and w: "tls_wire l = tcp_frame p @ rest"
  shows "\<exists>buf. TcpReality_recv l = (l\<lparr>tls_wire := rest, pkt_buf := buf\<rparr>, Inr p)"
proof -
  obtain a b where ab: "u16_to_be (len_u16 p) = [a, b]" "unat (u16_from_be a b) = length p"
    using tcp_frame_len [OF p] .
  from p have n: "p \<noteq> []" "\<not> length p > MAX_FRAME_SIZE" by (auto simp: tcp_carries_def)
  define buf where "buf = (if length p > length (pkt_buf l) then vec_resize (pkt_buf l) (length p) 0 else pkt_buf l)"
  have "TcpReality_recv l = (l\<lparr>tls_wire := rest, pkt_buf := copy_at buf 0 p\<rparr>, Inr (take (length p) (copy_at buf 0 p)))"
    using n by (simp add: TcpReality_recv_def w tcp_frame_def ab read_exact_def Let_def buf_def)
  moreover have "take (length p) (copy_at buf 0 p) = p" by (simp add: copy_at_def)
  ultimately show ?thesis by auto
qed

interpretation tcp: ordered_transport TcpReality_send TcpReality_recv tcp_inflight tcp_wf tcp_carries
proof unfold_locales
  fix l p
  assume "tcp_wf l" and p: "tcp_carries p"
  then obtain ps where ps: "list_all tcp_carries ps" "tls_wire l = concat (map tcp_frame ps)"
    by (auto simp: tcp_wf_def)
  let ?l = "l\<lparr>tls_wire := concat (map tcp_frame (ps @ [p]))\<rparr>"
  have "TcpReality_send l p = (?l, Inr Sent)"
    using p ps(2) by (simp add: TcpReality_send_def tcp_carries_def tcp_frame_def)
  moreover have "list_all tcp_carries (ps @ [p])" using ps p by simp
  then have "tcp_wf ?l" "tcp_inflight ?l = ps @ [p]"
    using tcp_inflight_frames [of "ps @ [p]"] unfolding tcp_wf_def tcp_inflight_def by fastforce+
  moreover have "tcp_inflight l = ps" using ps by (simp add: tcp_inflight_def tcp_inflight_frames)
  ultimately show "\<exists>c'. TcpReality_send l p = (c', Inr Sent) \<and> tcp_wf c' \<and> tcp_inflight c' = tcp_inflight l @ [p]"
    by auto
next
  fix l p ps
  assume "tcp_wf l" and i: "tcp_inflight l = p # ps"
  then obtain qs where qs: "list_all tcp_carries qs" "tls_wire l = concat (map tcp_frame qs)"
    by (auto simp: tcp_wf_def)
  with i have "qs = p # ps" by (simp add: tcp_inflight_def tcp_inflight_frames)
  with qs have p: "tcp_carries p" and ps: "list_all tcp_carries ps"
    and w: "tls_wire l = tcp_frame p @ concat (map tcp_frame ps)" by auto
  from tcp_recv_frame [OF p w] obtain buf where
    "TcpReality_recv l = (l\<lparr>tls_wire := concat (map tcp_frame ps), pkt_buf := buf\<rparr>, Inr p)" by blast
  with ps show "\<exists>c'. TcpReality_recv l = (c', Inr p) \<and> tcp_wf c' \<and> tcp_inflight c' = ps"
    by (auto simp: tcp_wf_def tcp_inflight_def tcp_inflight_frames)
next
  fix l
  assume "tcp_wf l" and i: "tcp_inflight l = []"
  then have "tls_wire l = []" by (auto simp: tcp_wf_def tcp_inflight_def tcp_inflight_frames)
  then show "\<exists>c' e. TcpReality_recv l = (c', Inl (ConnectionLost e))"
    by (simp add: TcpReality_recv_def read_exact_def)
qed

section \<open>WebSocket implements it\<close>

fun ws_inflight :: "ws_message list \<Rightarrow> bytes list" where
  "ws_inflight [] = []"
| "ws_inflight (Binary d # s) = d # ws_inflight s"
| "ws_inflight (_ # s) = ws_inflight s"

definition ws_wf :: "ws_message list \<Rightarrow> bool" where
  "ws_wf s \<longleftrightarrow> (\<forall>m \<in> set s. m \<noteq> Close \<and> (\<forall>e. m \<noteq> WsError e))"

lemma ws_inflight_append: "ws_inflight (s @ t) = ws_inflight s @ ws_inflight t"
  by (induction s rule: ws_inflight.induct) auto

lemma ws_recv_wf:
  "ws_wf s \<Longrightarrow>
   (case ws_inflight s of
      p # ps \<Rightarrow> \<exists>s'. WebSocket_recv s = (s', Inr p) \<and> ws_wf s' \<and> ws_inflight s' = ps
    | [] \<Rightarrow> \<exists>s' e. WebSocket_recv s = (s', Inl (ConnectionLost e)))"
  by (induction s rule: WebSocket_recv.induct) (auto simp: ws_wf_def split: list.splits)

interpretation ws: ordered_transport WebSocket_send WebSocket_recv ws_inflight ws_wf "\<lambda>_. True"
proof unfold_locales
  fix s p
  assume "ws_wf s"
  then show "\<exists>c'. WebSocket_send s p = (c', Inr Sent) \<and> ws_wf c' \<and> ws_inflight c' = ws_inflight s @ [p]"
    by (auto simp: WebSocket_send_def ws_wf_def ws_inflight_append)
next
  fix s p ps
  assume "ws_wf s" "ws_inflight s = p # ps"
  then show "\<exists>c'. WebSocket_recv s = (c', Inr p) \<and> ws_wf c' \<and> ws_inflight c' = ps"
    using ws_recv_wf [of s] by simp
next
  fix s
  assume "ws_wf s" "ws_inflight s = []"
  then show "\<exists>c' e. WebSocket_recv s = (c', Inl (ConnectionLost e))"
    using ws_recv_wf [of s] by simp
qed

section \<open>Properties\<close>

lemma tcp_wf_new: "tcp_wf TcpReality_new" "tcp_inflight TcpReality_new = []"
  using tcp_inflight_frames [of "[]"] by (auto simp: tcp_wf_def TcpReality_new_def tcp_inflight_def intro: exI [of _ "[]"])

text \<open>
  TCP Reality framing loses nothing: any sequence of packets of 1 to 65535 bytes sent on a new
  connection is received packet by packet, unchanged and in order, whatever the sizes do to the reader's
  buffer, and the end of the stream is then reported as a lost connection. The same holds for WebSocket
  messages of any size.
\<close>

theorem stream_transports_deliver:
  assumes "\<forall>p \<in> set ps. p \<noteq> [] \<and> length p \<le> MAX_FRAME_SIZE"
  shows "(\<exists>l e. recv_n TcpReality_recv (length ps) (send_all TcpReality_send TcpReality_new ps) = (l, map Inr ps)
            \<and> snd (TcpReality_recv l) = Inl (ConnectionLost e))
       \<and> (\<exists>s e. recv_n WebSocket_recv (length qs) (send_all WebSocket_send [] qs) = (s, map Inr qs)
            \<and> snd (WebSocket_recv s) = Inl (ConnectionLost e))"
proof
  have "list_all tcp_carries ps" using assms by (simp add: list_all_iff tcp_carries_def)
  then show "\<exists>l e. recv_n TcpReality_recv (length ps) (send_all TcpReality_send TcpReality_new ps) = (l, map Inr ps)
      \<and> snd (TcpReality_recv l) = Inl (ConnectionLost e)"
    by (rule tcp.in_order_delivery [OF tcp_wf_new])
  show "\<exists>s e. recv_n WebSocket_recv (length qs) (send_all WebSocket_send [] qs) = (s, map Inr qs)
      \<and> snd (WebSocket_recv s) = Inl (ConnectionLost e)"
    by (rule ws.in_order_delivery) (auto simp: ws_wf_def list_all_iff)
qed

theorem stream_transports_deliver_witness:
  "\<exists>l. recv_n TcpReality_recv 2 (send_all TcpReality_send TcpReality_new [[1, 2, 3], [4]]) = (l, [Inr [1, 2, 3], Inr [4]])"
  using stream_transports_deliver [of "[[1, 2, 3], [4]]" "[]"]
  by (auto simp: MAX_FRAME_SIZE_def numeral_2_eq_2 simp del: send_all.simps recv_n.simps)

text \<open>
  The framing has one packet it cannot carry: an empty packet is reported as sent, and its
  frame makes the peer's next receive fail as a lost connection.
\<close>

theorem empty_packet_breaks_link:
  assumes "tls_wire l = []"
  shows "\<exists>l'. TcpReality_send l [] = (l', Inr Sent)
       \<and> snd (TcpReality_recv l') = Inl (ConnectionLost ''invalid frame length'')"
proof -
  have "u16_to_be (len_u16 ([] :: bytes)) = [0, 0]" by (simp add: u16_to_be_def len_u16_def)
  moreover have "unat (u16_from_be 0 0) = 0" by (simp add: unat_u16_from_be)
  ultimately show ?thesis using assms
    by (simp add: TcpReality_send_def TcpReality_recv_def read_exact_def Let_def)
qed

theorem empty_packet_breaks_link_witness:
  "\<exists>l'. TcpReality_send TcpReality_new [] = (l', Inr Sent)
     \<and> snd (TcpReality_recv l') = Inl (ConnectionLost ''invalid frame length'')"
  using empty_packet_breaks_link [of TcpReality_new] by (simp add: TcpReality_new_def)

text \<open>
  Camouflaged QUIC is transparent for IP: a well-formed IP packet sent with padding on or off
  is, if its datagram arrives at a peer with the same setting, handed over exactly as it was sent; and a
  send reports what the QUIC library says of the padded datagram.
\<close>

theorem camouflaged_transparent:
  assumes "ip_wellformed p"
  shows "QuicCamouflaged_recv pad (Inr (QuicCamouflaged_wire pad p)) = Inr p
    \<and> QuicCamouflaged_send pad conn_send p = QuicRaw_send conn_send (QuicCamouflaged_wire pad p)"
  using strip_padding_pad [OF assms]
  by (simp add: QuicCamouflaged_recv_def QuicRaw_recv_def QuicCamouflaged_wire_def QuicCamouflaged_send_def)

theorem camouflaged_transparent_witness:
  "QuicCamouflaged_recv True (Inr (QuicCamouflaged_wire True sample_ipv4_60)) = Inr sample_ipv4_60
   \<and> length (QuicCamouflaged_wire True sample_ipv4_60) = 128"
  using camouflaged_transparent [OF sample_ipv4_60_wf, of True] sample_ipv4_60_padded
  by (simp add: QuicCamouflaged_wire_def)

text \<open>
  The advertised size is exactly what a TCP Reality link takes: a packet is refused, and nothing written,
  just when it is longer than the limit.
\<close>

theorem tcp_limit_exact:
  "TcpReality_send l p = (l, Inr TooLarge) \<longleftrightarrow> (\<exists>m. TcpReality_max_datagram_size = Some m \<and> m < length p)"
  by (auto simp: TcpReality_send_def TcpReality_max_datagram_size_def)

text \<open>
  Camouflaged QUIC advertises the limit of the connection below it, but pads before it sends: on a path
  that takes datagrams of \<open>m\<close> bytes, 1024 \<open><\<close> \<open>m\<close> \<open><\<close> 1200 (as a QUIC path does before its MTU discovery
  has finished), every packet longer than 1024 bytes is refused with padding, although it is within the
  advertised limit and the same packet passes without padding.
\<close>

theorem padding_exceeds_limit:
  assumes "QuicCamouflaged_max_datagram_size conn = Some m" "m < 1200"
    and "\<And>d. conn_send d = (if length d \<le> m then DgOk else DgTooLarge)"
    and "1024 < length p" "length p \<le> m"
  shows "QuicCamouflaged_send True conn_send p = Inr TooLarge \<and> QuicCamouflaged_send False conn_send p = Inr Sent"
proof -
  have "length (pad_to_standard p) = 1200"
    using assms(2,4,5) by (simp add: length_pad_to_standard STANDARD_SIZES_def)
  then show ?thesis
    using assms(2,3,5) by (simp add: QuicCamouflaged_send_def QuicCamouflaged_wire_def QuicRaw_send_def)
qed

theorem padding_exceeds_limit_witness:
  "QuicCamouflaged_send True (\<lambda>d. if length d \<le> 1162 then DgOk else DgTooLarge) (replicate 1100 0) = Inr TooLarge"
  using padding_exceeds_limit [of "\<lparr>qi_rtt = 0, qi_cwnd = 0, qi_lost = 0, qi_sent = 0, qi_max_datagram_size = Some 1162\<rparr>"
      1162 "\<lambda>d. if length d \<le> 1162 then DgOk else DgTooLarge" "replicate 1100 0"]
  by (simp add: QuicCamouflaged_max_datagram_size_def QuicRaw_max_datagram_size_def)

end
