(* ===== verification/Tunnel.thy ===== *)
theory Tunnel
  imports Server Transport
begin

text \<open>
  The server's data plane, \<^verbatim>\<open>src/crates/redpill-quic/src/server.rs\<close>: the global TUN reader, the two
  directions of \<open>run_vpn_tunnel\<close> (queue to datagrams with batching and back-pressure, datagrams to TUN
  with the anti-spoofing filter), the PMTU monitor and \<open>run_tcp_reality_tunnel\<close>; further the stream tunnels
  \<open>run_tcp_vpn_tunnel\<close> of \<^verbatim>\<open>transport/tcp_reality.rs\<close> and \<open>run_ws_vpn_tunnel\<close> of
  \<^verbatim>\<open>transport/websocket_cdn.rs\<close>. Each task is a run over the events it waits for; what the QUIC
  connection answers to a send is part of the event. Bytes go to the device as on Linux, without header.
\<close>

section \<open>Packets to datagrams\<close>

text \<open>What the connection answers while one packet is being sent.\<close>

record dg_conn =
  send_dg :: "bytes \<Rightarrow> send_datagram"
  buffer_space :: nat
  max_dg :: "nat option"
  send_wait :: "bytes \<Rightarrow> send_datagram option"

text \<open>The sending task's state; \<open>snd_wire\<close> are the datagrams the connection accepted.\<close>

record sender =
  snd_batcher :: datagram_batcher
  snd_stats :: stats
  snd_metrics :: metrics
  snd_wire :: "bytes list"

definition sender_new :: "metrics \<Rightarrow> sender" where
  "sender_new m = \<lparr>snd_batcher = DatagramBatcher_new, snd_stats = Stats_new, snd_metrics = m, snd_wire = []\<rparr>"

definition sent_ok :: "bytes \<Rightarrow> sender \<Rightarrow> sender" where
  "sent_ok data s =
     s\<lparr>snd_wire := snd_wire s @ [data], snd_stats := record_send (snd_stats s) (length data),
       snd_metrics := (snd_metrics s)\<lparr>datagrams_out := datagrams_out (snd_metrics s) + 1,
                                      bytes_out := bytes_out (snd_metrics s) + of_nat (length data)\<rparr>\<rparr>"

definition sent_too_large :: "sender \<Rightarrow> sender" where
  "sent_too_large s = s\<lparr>snd_stats := record_too_large (snd_stats s)\<rparr>"

definition sent_blocked :: "sender \<Rightarrow> sender" where
  "sent_blocked s =
     s\<lparr>snd_stats := record_blocked (snd_stats s),
       snd_metrics := (snd_metrics s)\<lparr>drops_backpressure := drops_backpressure (snd_metrics s) + 1\<rparr>\<rparr>"

definition wait_started :: "sender \<Rightarrow> sender" where
  "wait_started s = s\<lparr>snd_metrics := (snd_metrics s)\<lparr>bp_wait_count := bp_wait_count (snd_metrics s) + 1\<rparr>\<rparr>"

definition wait_timed_out :: "sender \<Rightarrow> sender" where
  "wait_timed_out s =
     s\<lparr>snd_stats := record_blocked (snd_stats s),
       snd_metrics := (snd_metrics s)\<lparr>bp_wait_timeouts := bp_wait_timeouts (snd_metrics s) + 1\<rparr>\<rparr>"

definition rt_congested :: "sender \<Rightarrow> sender" where
  "rt_congested s =
     s\<lparr>snd_metrics := (snd_metrics s)\<lparr>bp_rt_drops_congested := bp_rt_drops_congested (snd_metrics s) + 1\<rparr>,
       snd_stats := record_blocked (snd_stats s)\<rparr>"

definition send_rt :: "dg_conn \<Rightarrow> bytes \<Rightarrow> sender \<Rightarrow> sender result" where
  "send_rt conn data s =
     (case send_dg conn data of
        DgOk \<Rightarrow> Ok (sent_ok data s)
      | DgTooLarge \<Rightarrow> Ok (sent_too_large s)
      | DgConnectionLost e \<Rightarrow> Err (IoError e)
      | _ \<Rightarrow> Ok (sent_blocked s))"

definition send_bulk :: "dg_conn \<Rightarrow> bytes \<Rightarrow> sender \<Rightarrow> sender result" where
  "send_bulk conn data s =
     (if buffer_space conn \<ge> length data then send_rt conn data s
      else if (case max_dg conn of Some m \<Rightarrow> length data > m | None \<Rightarrow> False) then Ok (sent_too_large s)
      else
        let s = wait_started s in
        (case send_wait conn data of
           Some DgOk \<Rightarrow> Ok (sent_ok data s)
         | Some DgTooLarge \<Rightarrow> Ok (sent_too_large s)
         | Some (DgConnectionLost e) \<Rightarrow> Err (IoError e)
         | Some _ \<Rightarrow> Ok (sent_blocked s)
         | None \<Rightarrow> Ok (wait_timed_out s)))"

text \<open>Flush what is pending, if anything.\<close>

definition flush_pending :: "dg_conn \<Rightarrow> sender \<Rightarrow> sender result" where
  "flush_pending conn s =
     (case DatagramBatcher_flush (snd_batcher s) of
        (b, batch) \<Rightarrow>
          let s = s\<lparr>snd_batcher := b\<rparr> in
          if batch \<noteq> [] then send_rt conn batch s else Ok s)"

text \<open>
  One turn of the loop: a packet popped from the client's queue, or the 1 ms flush timer, which is armed
  only while packets are pending.
\<close>

datatype queue_event = Popped bytes | FlushTimer

definition send_packet :: "bool \<Rightarrow> dg_conn \<Rightarrow> bytes \<Rightarrow> sender \<Rightarrow> sender result" where
  "send_packet padded conn pkt s =
     (let packet = (if padded then pad_to_standard pkt else pkt) in
      if length packet \<ge> BATCH_SIZE_THRESHOLD then
        and_then (flush_pending conn s) (\<lambda>s.
          case classify packet of
            Realtime \<Rightarrow>
              if buffer_space conn \<ge> length packet then send_rt conn packet s
              else Ok (rt_congested s)
          | Bulk \<Rightarrow> send_bulk conn packet s)
      else
        (case DatagramBatcher_add (snd_batcher s) packet of
           (b, out) \<Rightarrow>
             let s = s\<lparr>snd_batcher := b\<rparr> in
             (case out of None \<Rightarrow> Ok s | Some batch \<Rightarrow> send_rt conn batch s)))"

definition queue2dg_step :: "bool \<Rightarrow> dg_conn \<times> queue_event \<Rightarrow> sender \<Rightarrow> sender result" where
  "queue2dg_step padded e s =
     (case e of
        (conn, Popped pkt) \<Rightarrow> send_packet padded conn pkt s
      | (conn, FlushTimer) \<Rightarrow>
          if DatagramBatcher_has_pending (snd_batcher s) then flush_pending conn s else Ok s)"

fun queue2dg_run :: "bool \<Rightarrow> (dg_conn \<times> queue_event) list \<Rightarrow> sender \<Rightarrow> sender result" where
  "queue2dg_run padded [] s = Ok s"
| "queue2dg_run padded (e # es) s = and_then (queue2dg_step padded e s) (queue2dg_run padded es)"

section \<open>Datagrams to the device\<close>

text \<open>The receiving loop's state; \<open>rcv_tun\<close> are the packets written to the device.\<close>

record receiver =
  rcv_stats :: stats
  rcv_metrics :: metrics
  rcv_shaper :: adaptive_shaper
  rcv_tun :: "bytes list"

text \<open>The filter both branches share: source address, rate limit, write.\<close>

definition accept_upload :: "ipv4 \<Rightarrow> u64 \<Rightarrow> bool \<Rightarrow> bytes \<Rightarrow> receiver \<Rightarrow> receiver" where
  "accept_upload client_ip now write_ok pkt r =
     (if \<not> validate_source_ip pkt client_ip then
        r\<lparr>rcv_stats := record_spoofed (rcv_stats r),
          rcv_metrics := (rcv_metrics r)\<lparr>m_spoofed := m_spoofed (rcv_metrics r) + 1\<rparr>\<rparr>
      else
        (case AdaptiveShaper_check now (rcv_shaper r) (length pkt) of
           (sh, False) \<Rightarrow>
             r\<lparr>rcv_shaper := sh,
               rcv_metrics := (rcv_metrics r)\<lparr>drops_rate_limit := drops_rate_limit (rcv_metrics r) + 1\<rparr>\<rparr>
         | (sh, True) \<Rightarrow>
             let r = r\<lparr>rcv_shaper := sh\<rparr> in
             if write_ok then r\<lparr>rcv_tun := rcv_tun r @ [pkt], rcv_stats := record_tun_write (rcv_stats r)\<rparr>
             else r))"

definition dg2tun_step :: "bool \<Rightarrow> ipv4 \<Rightarrow> u64 \<times> bool \<times> bytes \<Rightarrow> receiver \<Rightarrow> receiver" where
  "dg2tun_step padded client_ip e r =
     (case e of (now, write_ok, data) \<Rightarrow>
        if data = [] then r
        else
          let r = r\<lparr>rcv_stats := record_recv (rcv_stats r) (length data),
                    rcv_metrics := (rcv_metrics r)
                      \<lparr>datagrams_in := datagrams_in (rcv_metrics r) + 1,
                       bytes_in := bytes_in (rcv_metrics r) + of_nat (length data)\<rparr>\<rparr> in
          if padded then
            (if version_nibble (data ! 0) \<noteq> 4 \<and> version_nibble (data ! 0) \<noteq> 6 then r
             else accept_upload client_ip now write_ok (strip_padding data) r)
          else accept_upload client_ip now write_ok data r)"

definition dg2tun_run :: "bool \<Rightarrow> ipv4 \<Rightarrow> (u64 \<times> bool \<times> bytes) list \<Rightarrow> receiver \<Rightarrow> receiver" where
  "dg2tun_run padded client_ip es r = fold (dg2tun_step padded client_ip) es r"

section \<open>The global TUN reader\<close>

text \<open>Outcomes of the reads; a packet longer than the buffer of \<open>TUN_MTU + 4\<close> bytes is cut off.\<close>

datatype tun_read = TunPacket bytes | TunEmpty | TunAgain | TunError string

definition TUN_HDR :: "target_os \<Rightarrow> nat" where
  "TUN_HDR os = (case os of MacOs \<Rightarrow> 4 | Linux \<Rightarrow> 0)"

definition tun_buf_read :: "bytes \<Rightarrow> bytes" where
  "tun_buf_read pkt = take (TUN_MTU + 4) pkt"

record tun_reader =
  tr_router :: client_router
  tr_shaper :: adaptive_shaper
  tr_metrics :: metrics

definition tun_reader_packet :: "u64 \<Rightarrow> nat \<Rightarrow> bytes \<Rightarrow> tun_reader \<Rightarrow> tun_reader" where
  "tun_reader_packet now now_ms ip_pkt t =
     (case AdaptiveShaper_check now (tr_shaper t) (length ip_pkt) of
        (sh, False) \<Rightarrow>
          t\<lparr>tr_shaper := sh, tr_metrics := (tr_metrics t)\<lparr>drops_rate_limit := drops_rate_limit (tr_metrics t) + 1\<rparr>\<rparr>
      | (sh, True) \<Rightarrow>
          let t = t\<lparr>tr_shaper := sh\<rparr> in
          (case extract_dst_ipv4 ip_pkt of
             None \<Rightarrow> t
           | Some dst_ip \<Rightarrow>
               (case ClientRouter_route now_ms (tr_router t) dst_ip ip_pkt of
                  (ro, True) \<Rightarrow> t\<lparr>tr_router := ro\<rparr>
                | (ro, False) \<Rightarrow>
                    t\<lparr>tr_router := ro,
                      tr_metrics := (tr_metrics t)\<lparr>drops_backpressure := drops_backpressure (tr_metrics t) + 1\<rparr>\<rparr>)))"

text \<open>
  The inner loop after one wake-up: it stops after \<open>MAX_TUN_BATCH\<close> packets, at an empty read, or when the
  device would block (which clears the readiness). The result is the state, the reads not yet made and
  the error that ends the task, if any.
\<close>

fun tun_reader_batch ::
  "target_os \<Rightarrow> nat \<Rightarrow> (u64 \<times> nat \<times> tun_read) list \<Rightarrow> tun_reader \<Rightarrow> (tun_reader \<times> (u64 \<times> nat \<times> tun_read) list) result" where
  "tun_reader_batch os batch [] t = Ok (t, [])"
| "tun_reader_batch os batch ((now, now_ms, rd) # rs) t =
     (case rd of
        TunPacket raw \<Rightarrow>
          let n = length (tun_buf_read raw) in
          if n > TUN_HDR os then
            let t = tun_reader_packet now now_ms (drop (TUN_HDR os) (tun_buf_read raw)) t in
            if batch + 1 \<ge> MAX_TUN_BATCH then Ok (t, rs) else tun_reader_batch os (batch + 1) rs t
          else Ok (t, rs)
      | TunEmpty \<Rightarrow> Ok (t, rs)
      | TunAgain \<Rightarrow> Ok (t, rs)
      | TunError e \<Rightarrow> Err (IoError e))"

lemma tun_reader_batch_rest:
  "tun_reader_batch os b rs t = Ok (t', rs') \<Longrightarrow> length rs' \<le> length rs \<and> (rs \<noteq> [] \<longrightarrow> length rs' < length rs)"
  by (induction os b rs t arbitrary: t' rs' rule: tun_reader_batch.induct)
    (fastforce simp: Let_def split: tun_read.splits if_splits)+

text \<open>
  The outer loop: it returns the error that ends the task, or the state when no read is left, which is also where
  cancellation of the server ends it: that is looked at between two batches.
\<close>

function run_global_tun_reader ::
  "target_os \<Rightarrow> (u64 \<times> nat \<times> tun_read) list \<Rightarrow> tun_reader \<Rightarrow> tun_reader result" where
  "run_global_tun_reader os rs t =
     (if rs = [] then Ok t
      else case tun_reader_batch os 0 rs t of
        Inl e \<Rightarrow> Err e
      | Inr (t', rs') \<Rightarrow> run_global_tun_reader os rs' t')"
  by pat_completeness auto
termination
  by (relation "measure (\<lambda>(os, rs, t). length rs)") (auto dest: tun_reader_batch_rest)

declare run_global_tun_reader.simps [simp del]

section \<open>PMTU monitor\<close>

text \<open>
  Every five seconds the path MTU is compared with the last one announced; an update is written when they
  differ by more than 50. The result is what was written and the last announced MTU.
\<close>

fun run_pmtu_monitor :: "u16 \<Rightarrow> (u16 \<times> bool) list \<Rightarrow> bytes \<times> u16" where
  "run_pmtu_monitor last_mtu [] = ([], last_mtu)"
| "run_pmtu_monitor last_mtu ((current_mtu, write_ok) # ticks) =
     (let delta = nat \<bar>int (unat current_mtu) - int (unat last_mtu)\<bar> in
      if delta > 50 then
        (if \<not> write_ok then ([], last_mtu)
         else case run_pmtu_monitor current_mtu ticks of
           (w, l) \<Rightarrow> (SessionUpdate_encode \<lparr>su_mtu = current_mtu\<rparr> @ w, l))
      else run_pmtu_monitor last_mtu ticks)"

section \<open>Stream tunnels\<close>

text \<open>
  Queue to TLS: every popped packet becomes a length-prefixed frame, written through a \<open>BufWriter\<close> of
  64 KiB. A turn of the loop takes one packet and then whatever else is queued; after it a 1 ms timer
  flushes the buffer. A failed write ends the task.
\<close>

record tls_writer =
  tw_buf :: bytes
  tw_wire :: bytes
  tw_needs_flush :: bool

definition tls_writer_new :: tls_writer where
  "tls_writer_new = \<lparr>tw_buf = [], tw_wire = [], tw_needs_flush = False\<rparr>"

definition buf_flush :: "tls_writer \<Rightarrow> tls_writer" where
  "buf_flush w = w\<lparr>tw_wire := tw_wire w @ tw_buf w, tw_buf := []\<rparr>"

definition buf_write :: "bytes \<Rightarrow> tls_writer \<Rightarrow> tls_writer" where
  "buf_write data w =
     (let w = (if length (tw_buf w) + length data > 65536 then buf_flush w else w) in
      if length data \<ge> 65536 then w\<lparr>tw_wire := tw_wire w @ data\<rparr> else w\<lparr>tw_buf := tw_buf w @ data\<rparr>)"

datatype tls_event = TlsPackets "bytes list" | TlsIdle | TlsWriteFails string

fun queue2tls_step :: "tls_event \<Rightarrow> tls_writer \<Rightarrow> tls_writer result" where
  "queue2tls_step (TlsPackets ps) w = Ok (fold (\<lambda>p. buf_write (tcp_frame p)) ps (w\<lparr>tw_needs_flush := True\<rparr>))"
| "queue2tls_step TlsIdle w = Ok (if tw_needs_flush w then (buf_flush w)\<lparr>tw_needs_flush := False\<rparr> else w)"
| "queue2tls_step (TlsWriteFails e) w = Err (IoError e)"

fun queue2tls_run :: "tls_event list \<Rightarrow> tls_writer \<Rightarrow> tls_writer result" where
  "queue2tls_run [] w = Ok w"
| "queue2tls_run (e # es) w = and_then (queue2tls_step e w) (queue2tls_run es)"

text \<open>
  TLS to TUN: the frames of the stream, each checked against the client's address and, in
  \<open>run_tcp_reality_tunnel\<close>, the rate limit. The loop only ends with an error.
\<close>

function tls2tun_loop ::
  "ipv4 \<Rightarrow> (nat \<Rightarrow> 's \<Rightarrow> 's \<times> bool) \<Rightarrow> bytes \<Rightarrow> 's \<Rightarrow> bytes list \<Rightarrow> 's \<times> bytes list \<times> anyhow" where
  "tls2tun_loop client_ip check stream sh tun =
     (case read_exact 2 stream of
        (_, Inl e) \<Rightarrow> (sh, tun, IoError e)
      | (rest, Inr len_buf) \<Rightarrow>
          let n = unat (u16_from_be (len_buf ! 0) (len_buf ! 1)) in
          if n = 0 \<or> n > MAX_FRAME_SIZE then (sh, tun, Bail ''invalid frame length'')
          else
            (case read_exact n rest of
               (_, Inl e) \<Rightarrow> (sh, tun, IoError e)
             | (rest, Inr pkt) \<Rightarrow>
                 if \<not> validate_source_ip pkt client_ip then tls2tun_loop client_ip check rest sh tun
                 else
                   (case check n sh of
                      (sh, False) \<Rightarrow> tls2tun_loop client_ip check rest sh tun
                    | (sh, True) \<Rightarrow> tls2tun_loop client_ip check rest sh (tun @ [pkt]))))"
  by pat_completeness auto
termination
  by (relation "measure (\<lambda>(ip, check, stream, sh, tun). length stream)")
    (auto simp: read_exact_def split: if_splits)

declare tls2tun_loop.simps [simp del]

text \<open>\<open>run_tcp_reality_tunnel\<close> limits with the shaper; \<open>run_tcp_vpn_tunnel\<close> does not limit.\<close>

definition run_tcp_reality_upload ::
  "ipv4 \<Rightarrow> u64 \<Rightarrow> bytes \<Rightarrow> adaptive_shaper \<Rightarrow> adaptive_shaper \<times> bytes list \<times> anyhow" where
  "run_tcp_reality_upload client_ip now stream sh =
     tls2tun_loop client_ip (\<lambda>n sh. AdaptiveShaper_check now sh n) stream sh []"

definition run_tcp_vpn_upload :: "ipv4 \<Rightarrow> bytes \<Rightarrow> bytes list \<times> anyhow" where
  "run_tcp_vpn_upload client_ip stream = snd (tls2tun_loop client_ip (\<lambda>n u. (u, True)) stream () [])"

text \<open>WebSocket to TUN.\<close>

fun ws2tun_loop :: "ipv4 \<Rightarrow> ws_message list \<Rightarrow> bytes list \<Rightarrow> bytes list \<times> anyhow" where
  "ws2tun_loop client_ip [] tun = (tun, Bail ''WebSocket closed'')"
| "ws2tun_loop client_ip (Binary data # ms) tun =
     (if \<not> validate_source_ip data client_ip then ws2tun_loop client_ip ms tun
      else ws2tun_loop client_ip ms (if data = [] then tun else tun @ [data]))"
| "ws2tun_loop client_ip (Ping _ # ms) tun = ws2tun_loop client_ip ms tun"
| "ws2tun_loop client_ip (Pong _ # ms) tun = ws2tun_loop client_ip ms tun"
| "ws2tun_loop client_ip (Close # ms) tun = (tun, Bail ''WebSocket closed'')"
| "ws2tun_loop client_ip (OtherMessage _ # ms) tun = ws2tun_loop client_ip ms tun"
| "ws2tun_loop client_ip (WsError e # ms) tun = (tun, Bail (''WebSocket error: '' @ e))"

text \<open>
  TUN to stream, of both \<open>run_ws_vpn_tunnel\<close> and \<open>run_tcp_vpn_tunnel\<close>: everything read from the device
  is sent; \<open>enc\<close> is the framing. The task ends only with a failed read or write.
\<close>

fun tun2stream :: "target_os \<Rightarrow> (bytes \<Rightarrow> 'w list) \<Rightarrow> (tun_read \<times> bool) list \<Rightarrow> 'w list \<Rightarrow> 'w list \<times> anyhow option" where
  "tun2stream os enc [] out = (out, None)"
| "tun2stream os enc ((TunPacket raw, write_ok) # rs) out =
     (let buf = tun_buf_read raw in
      if length buf > TUN_HDR os then
        (if write_ok then tun2stream os enc rs (out @ enc (drop (TUN_HDR os) buf)) else (out, Some (IoError ''write'')))
      else tun2stream os enc rs out)"
| "tun2stream os enc ((TunEmpty, _) # rs) out = tun2stream os enc rs out"
| "tun2stream os enc ((TunAgain, _) # rs) out = tun2stream os enc rs out"
| "tun2stream os enc ((TunError e, _) # rs) out = (out, Some (IoError e))"

definition tun2ws :: "target_os \<Rightarrow> (tun_read \<times> bool) list \<Rightarrow> ws_message list \<times> anyhow option" where
  "tun2ws os rs = tun2stream os (\<lambda>p. [Binary p]) rs []"

definition tun2tls :: "target_os \<Rightarrow> (tun_read \<times> bool) list \<Rightarrow> bytes \<times> anyhow option" where
  "tun2tls os rs = tun2stream os tcp_frame rs []"

section \<open>Lemmas\<close>

subsection \<open>Accounting of the sender\<close>

text \<open>What is on the wire is what the counters say.\<close>

definition accounted :: "metrics \<Rightarrow> sender \<Rightarrow> bool" where
  "accounted m s \<longleftrightarrow>
     datagrams_sent (snd_stats s) = of_nat (length (snd_wire s))
     \<and> bytes_sent (snd_stats s) = of_nat (length (concat (snd_wire s)))
     \<and> datagrams_out (snd_metrics s) = datagrams_out m + of_nat (length (snd_wire s))
     \<and> bytes_out (snd_metrics s) = bytes_out m + of_nat (length (concat (snd_wire s)))"

lemma stats_other [simp]:
  "datagrams_sent (record_blocked t) = datagrams_sent t" "bytes_sent (record_blocked t) = bytes_sent t"
  "datagrams_sent (record_too_large t) = datagrams_sent t" "bytes_sent (record_too_large t) = bytes_sent t"
  by (simp_all add: record_blocked_def record_too_large_def)

text \<open>A property of the sending task that each of its counting steps keeps.\<close>

locale sender_property =
  fixes P :: "sender \<Rightarrow> bool"
  assumes keeps: "P s \<Longrightarrow> P (sent_ok d s)" "P s \<Longrightarrow> P (sent_too_large s)" "P s \<Longrightarrow> P (sent_blocked s)"
    "P s \<Longrightarrow> P (s\<lparr>snd_batcher := b\<rparr>)" "P s \<Longrightarrow> P (wait_started s)" "P s \<Longrightarrow> P (wait_timed_out s)" "P s \<Longrightarrow> P (rt_congested s)"
begin

lemma send_rt_keeps: "send_rt c d s = Ok s' \<Longrightarrow> P s \<Longrightarrow> P s'"
  by (auto simp: send_rt_def keeps split: send_datagram.splits)

lemma send_bulk_keeps: "send_bulk c d s = Ok s' \<Longrightarrow> P s \<Longrightarrow> P s'"
  by (auto simp: send_bulk_def Let_def dest: send_rt_keeps split: if_splits option.splits send_datagram.splits intro!: keeps)

lemma flush_pending_keeps: "flush_pending c s = Ok s' \<Longrightarrow> P s \<Longrightarrow> P s'"
  by (auto simp: flush_pending_def Let_def keeps split: prod.splits if_splits elim!: send_rt_keeps)

lemma send_packet_keeps: "send_packet pd c p s = Ok s' \<Longrightarrow> P s \<Longrightarrow> P s'"
proof (cases "length (if pd then pad_to_standard p else p) \<ge> BATCH_SIZE_THRESHOLD")
  case True
  assume "send_packet pd c p s = Ok s'" and acc: "P s"
  with True obtain s1 where s1: "flush_pending c s = Ok s1"
    and s': "s' = rt_congested s1 \<or> (\<exists>d. send_rt c d s1 = Ok s' \<or> send_bulk c d s1 = Ok s')"
    by (cases "classify (if pd then pad_to_standard p else p)")
      (auto simp: send_packet_def Let_def and_then_eq_Inr split: if_splits)
  from flush_pending_keeps [OF s1 acc] s' show ?thesis by (auto intro: keeps send_rt_keeps send_bulk_keeps)
qed (auto simp: send_packet_def Let_def keeps split: prod.splits option.splits if_splits elim!: send_rt_keeps)

lemma step_keeps: "queue2dg_step pd e s = Ok s' \<Longrightarrow> P s \<Longrightarrow> P s'"
  by (auto simp: queue2dg_step_def split: prod.splits queue_event.splits if_splits elim: send_packet_keeps flush_pending_keeps)

lemma run_keeps: "queue2dg_run pd es s = Ok s' \<Longrightarrow> P s \<Longrightarrow> P s'"
  by (induction es arbitrary: s) (auto simp: and_then_eq_Inr dest: step_keeps)

end

interpretation accounted: sender_property "accounted m" for m
  by unfold_locales (auto simp: accounted_def sent_ok_def sent_too_large_def sent_blocked_def record_send_def
      wait_started_def wait_timed_out_def rt_congested_def)

text \<open>The gauges that belong to sessions, which no data path touches.\<close>

definition gauges :: "metrics \<Rightarrow> int \<times> (string \<Rightarrow> int)" where
  "gauges m = (active_sessions m, sessions_by_user m)"

interpretation sender_gauges: sender_property "\<lambda>s. gauges (snd_metrics s) = g" for g
  by unfold_locales (auto simp: gauges_def sent_ok_def sent_too_large_def sent_blocked_def wait_started_def wait_timed_out_def rt_congested_def)

lemma dg2tun_step_gauges: "gauges (rcv_metrics (dg2tun_step pd ip e r)) = gauges (rcv_metrics r)"
  by (auto simp: dg2tun_step_def accept_upload_def gauges_def Let_def split: prod.splits bool.splits)

subsection \<open>A connection that takes everything\<close>

definition accepts_all :: "dg_conn \<Rightarrow> bool" where
  "accepts_all c \<longleftrightarrow> (\<forall>d. send_dg c d = DgOk) \<and> buffer_space c \<ge> 65536"

text \<open>What the receiving client makes of a datagram: a batch is unpacked, a packet is itself.\<close>

definition unpacked :: "bytes \<Rightarrow> bytes list" where
  "unpacked d = (if is_batched_datagram d then batch_decode d else [d])"

definition sender_delivers :: "sender \<Rightarrow> bytes list \<Rightarrow> bool" where
  "sender_delivers s ps \<longleftrightarrow>
     batcher_invar (snd_batcher s) \<and> concat (map unpacked (snd_wire s)) @ datagram_batcher.pending (snd_batcher s) = ps
     \<and> [] \<notin> set (snd_wire s)"

lemma batch_encode_unpacked:
  assumes "list_all (\<lambda>p. length p < BATCH_SIZE_THRESHOLD) ps" "ps \<noteq> []"
  shows "unpacked (batch_encode ps) = ps" "batch_encode ps \<noteq> []"
proof -
  obtain p ps' where ps: "ps = p # ps'" using assms(2) by (cases ps) auto
  have len: "length p < 300" using assms(1) by (simp add: ps BATCH_SIZE_THRESHOLD_def)
  then show "batch_encode ps \<noteq> []" by (simp add: ps u16_to_be_def)
  have "is_batched_datagram (batch_encode ps)" by (rule batch_is_batched [OF assms])
  then show "unpacked (batch_encode ps) = ps"
    using batch_decode_encode_small [OF assms(1)] by (simp add: unpacked_def)
qed

lemma send_rt_accepts: "accepts_all c \<Longrightarrow> send_rt c d s = Ok (sent_ok d s)"
  by (simp add: accepts_all_def send_rt_def)

lemma send_bulk_accepts: "accepts_all c \<Longrightarrow> length d < 65536 \<Longrightarrow> send_bulk c d s = Ok (sent_ok d s)"
  using send_rt_accepts [of c d s] by (auto simp: accepts_all_def send_bulk_def)

lemma sent_ok_sel [simp]: "snd_wire (sent_ok d s) = snd_wire s @ [d]" "snd_batcher (sent_ok d s) = snd_batcher s"
  by (simp_all add: sent_ok_def)

lemma flush_delivers:
  assumes c: "accepts_all c" and s: "sender_delivers s ps"
  shows "\<exists>s'. flush_pending c s = Ok s' \<and> sender_delivers s' ps \<and> datagram_batcher.pending (snd_batcher s') = []"
proof (cases "datagram_batcher.pending (snd_batcher s) = []")
  case True
  with s show ?thesis by (simp add: flush_pending_def DatagramBatcher_flush_def)
next
  case False
  from s have inv: "batcher_invar (snd_batcher s)" by (simp add: sender_delivers_def)
  then have small: "list_all (\<lambda>p. length p < BATCH_SIZE_THRESHOLD) (datagram_batcher.pending (snd_batcher s))"
    by (simp add: batcher_invar_def)
  obtain b' d where fl: "DatagramBatcher_flush (snd_batcher s) = (b', d)" by fastforce
  then have d: "d = batch_encode (datagram_batcher.pending (snd_batcher s))"
    using False by (auto simp: DatagramBatcher_flush_def)
  note U = batch_encode_unpacked [OF small False]
  from flush_spec [OF inv fl] s U show ?thesis
    by (auto simp: flush_pending_def fl Let_def send_rt_accepts [OF c] sender_delivers_def d)
qed

lemma packet_delivers:
  assumes c: "accepts_all c" and s: "sender_delivers s ps" and ip: "ip_version p \<noteq> None" and len: "length p < 65536"
  shows "\<exists>s'. send_packet False c p s = Ok s' \<and> sender_delivers s' (ps @ [p])"
proof (cases "length p \<ge> BATCH_SIZE_THRESHOLD")
  case True
  obtain s1 where s1: "flush_pending c s = Ok s1" "sender_delivers s1 ps" "datagram_batcher.pending (snd_batcher s1) = []"
    using flush_delivers [OF c s] by blast
  have "p \<noteq> []" using ip by (auto simp: ip_version_def)
  then have "sender_delivers (sent_ok p s1) (ps @ [p])"
    using s1 ip_not_batched [OF ip] by (auto simp: sender_delivers_def unpacked_def)
  moreover have "length p \<le> buffer_space c" using c len by (simp add: accepts_all_def)
  ultimately show ?thesis
    using True s1 send_rt_accepts [OF c] send_bulk_accepts [OF c len]
    by (cases "classify p") (simp_all add: send_packet_def and_then_def)
next
  case False
  obtain b' out where ad: "DatagramBatcher_add (snd_batcher s) p = (b', out)" by fastforce
  from s have inv: "batcher_invar (snd_batcher s)" by (simp add: sender_delivers_def)
  note A = add_spec [OF inv _ ad]
  show ?thesis
  proof (cases out)
    case None
    with A False s ad show ?thesis by (auto simp: send_packet_def sender_delivers_def)
  next
    case (Some d)
    then have d: "d = batch_encode (datagram_batcher.pending (snd_batcher s))"
      "datagram_batcher.pending (snd_batcher s) \<noteq> []"
      using ad by (auto simp: DatagramBatcher_add_def DatagramBatcher_flush_def Let_def split: if_splits)
    have small: "list_all (\<lambda>p. length p < BATCH_SIZE_THRESHOLD) (datagram_batcher.pending (snd_batcher s))"
      using inv by (simp add: batcher_invar_def)
    from A False s ad Some batch_encode_unpacked [OF small d(2)] show ?thesis
      by (auto simp: send_packet_def sender_delivers_def send_rt_accepts [OF c] simp flip: d(1))
  qed
qed

fun popped :: "queue_event \<Rightarrow> bytes list" where
  "popped (Popped p) = [p]"
| "popped FlushTimer = []"

lemma run_delivers:
  assumes "sender_delivers s ps"
    and "\<forall>(c, e) \<in> set es. accepts_all c \<and> (\<forall>p \<in> set (popped e). ip_version p \<noteq> None \<and> length p < 65536)"
  shows "\<exists>s'. queue2dg_run False es s = Ok s' \<and> sender_delivers s' (ps @ concat (map (popped \<circ> snd) es))"
  using assms
proof (induction es arbitrary: s ps)
  case (Cons e es)
  obtain c ev where e: "e = (c, ev)" by fastforce
  with Cons.prems have c: "accepts_all c" by simp
  have "\<exists>s1. queue2dg_step False e s = Ok s1 \<and> sender_delivers s1 (ps @ popped ev)"
  proof (cases ev)
    case (Popped p)
    with packet_delivers [OF c Cons.prems(1), of p] Cons.prems(2) e show ?thesis by (simp add: queue2dg_step_def)
  next
    case FlushTimer
    with flush_delivers [OF c Cons.prems(1)] Cons.prems(1) e show ?thesis by (auto simp: queue2dg_step_def)
  qed
  then obtain s1 where "queue2dg_step False e s = Ok s1" "sender_delivers s1 (ps @ popped ev)" by blast
  with Cons.IH [of s1 "ps @ popped ev"] Cons.prems(2) e show ?case by (simp add: and_then_def)
qed simp

lemma sender_delivers_new: "sender_delivers (sender_new m) []"
  by (simp add: sender_delivers_def sender_new_def DatagramBatcher_new_def batcher_invar_def)

subsection \<open>Upload\<close>

text \<open>A shaper without a limit admits everything and does not change.\<close>

lemma unlimited_check: "tb_rate (bucket (limiter sh)) = 0 \<Longrightarrow> AdaptiveShaper_check now sh n = (sh, True)"
  by (simp add: AdaptiveShaper_check_def RateLimiter_check_def TokenBucket_check_def)

lemma accept_upload_tun:
  "\<exists>ps. rcv_tun (accept_upload ip now ok p r) = rcv_tun r @ ps \<and> list_all (\<lambda>p. validate_source_ip p ip) ps"
  by (auto simp: accept_upload_def Let_def split: prod.split bool.split)

lemma dg2tun_step_tun:
  "\<exists>ps. rcv_tun (dg2tun_step padded ip e r) = rcv_tun r @ ps \<and> list_all (\<lambda>p. validate_source_ip p ip) ps"
proof -
  obtain now ok data where e: "e = (now, ok, data)" by (rule prod_cases3)
  show ?thesis
    using accept_upload_tun [of ip now ok _ "r\<lparr>rcv_stats := x, rcv_metrics := y\<rparr>" for x y]
    by (auto simp: dg2tun_step_def e Let_def)
qed

lemma dg2tun_run_tun:
  "\<exists>ps. rcv_tun (dg2tun_run padded ip es r) = rcv_tun r @ ps \<and> list_all (\<lambda>p. validate_source_ip p ip) ps"
proof (induction es arbitrary: r)
  case (Cons e es)
  from dg2tun_step_tun [of padded ip e r] Cons [of "dg2tun_step padded ip e r"] show ?case
    by (fastforce simp: dg2tun_run_def)
qed (simp add: dg2tun_run_def)

lemma tls2tun_loop_tun:
  "list_all (\<lambda>p. validate_source_ip p ip) tun \<Longrightarrow>
   list_all (\<lambda>p. validate_source_ip p ip) (fst (snd (tls2tun_loop ip check stream sh tun)))"
  by (induction ip check stream sh tun rule: tls2tun_loop.induct)
    (subst tls2tun_loop.simps, auto simp: Let_def split: prod.splits sum.splits bool.splits)

lemma ws2tun_loop_tun:
  "list_all (\<lambda>p. validate_source_ip p ip) tun \<Longrightarrow>
   list_all (\<lambda>p. validate_source_ip p ip) (fst (ws2tun_loop ip ms tun))"
  by (induction ip ms tun rule: ws2tun_loop.induct) auto

text \<open>Without a limit and with a device that takes every write, exactly the valid packets get through.\<close>

lemma dg2tun_run_exact:
  "tb_rate (bucket (limiter (rcv_shaper r))) = 0 \<Longrightarrow> \<forall>(now, ok, d) \<in> set es. ok \<Longrightarrow>
   rcv_tun (dg2tun_run False ip es r) = rcv_tun r @ filter (\<lambda>d. validate_source_ip d ip) (map (snd \<circ> snd) es)
   \<and> m_spoofed (rcv_metrics (dg2tun_run False ip es r)) = m_spoofed (rcv_metrics r)
       + of_nat (length (filter (\<lambda>d. d \<noteq> [] \<and> \<not> validate_source_ip d ip) (map (snd \<circ> snd) es)))"
proof (induction es arbitrary: r)
  case (Cons e es)
  obtain now ok d where e: "e = (now, ok, d)" by (rule prod_cases3)
  with Cons.prems have ok: "ok" by simp
  let ?r = "dg2tun_step False ip e r"
  have step: "rcv_tun ?r = rcv_tun r @ (if validate_source_ip d ip then [d] else [])
    \<and> m_spoofed (rcv_metrics ?r) = m_spoofed (rcv_metrics r) + (if d \<noteq> [] \<and> \<not> validate_source_ip d ip then 1 else 0)
    \<and> rcv_shaper ?r = rcv_shaper r"
    using Cons.prems ok by (auto simp: dg2tun_step_def e Let_def accept_upload_def unlimited_check
        dest: validate_source_ip_nonempty)
  with Cons.IH [of ?r] Cons.prems e show ?case by (auto simp: dg2tun_run_def)
qed (simp add: dg2tun_run_def)

lemma tls2tun_frame:
  assumes "tcp_carries p"
  shows "tls2tun_loop ip check (tcp_frame p @ rest) sh tun =
    (if \<not> validate_source_ip p ip then tls2tun_loop ip check rest sh tun
     else case check (length p) sh of
       (sh, False) \<Rightarrow> tls2tun_loop ip check rest sh tun
     | (sh, True) \<Rightarrow> tls2tun_loop ip check rest sh (tun @ [p]))"
proof -
  obtain a b where ab: "u16_to_be (len_u16 p) = [a, b]" "unat (u16_from_be a b) = length p"
    using tcp_frame_len [OF assms] .
  from assms have n: "p \<noteq> []" "\<not> length p > MAX_FRAME_SIZE" by (auto simp: tcp_carries_def)
  show ?thesis
    by (subst tls2tun_loop.simps) (simp add: tcp_frame_def ab read_exact_def Let_def n)
qed

lemma tls2tun_frames:
  "list_all tcp_carries ps \<Longrightarrow>
   tls2tun_loop ip (\<lambda>n u. (u, True)) (concat (map tcp_frame ps)) u tun
     = (u, tun @ filter (\<lambda>p. validate_source_ip p ip) ps, IoError ''unexpected end of file'')"
proof (induction ps arbitrary: tun)
  case Nil
  then show ?case by (subst tls2tun_loop.simps) (simp add: read_exact_def)
qed (simp add: tls2tun_frame)

subsection \<open>Download over streams\<close>

lemma buf_write_bytes: "tw_wire (buf_write d w) @ tw_buf (buf_write d w) = tw_wire w @ tw_buf w @ d"
  by (cases "tw_buf w") (auto simp: buf_write_def buf_flush_def Let_def)

lemma fold_buf_write_bytes:
  "tw_wire (fold (\<lambda>p. buf_write (tcp_frame p)) ps w) @ tw_buf (fold (\<lambda>p. buf_write (tcp_frame p)) ps w)
     = tw_wire w @ tw_buf w @ concat (map tcp_frame ps)"
  by (induction ps arbitrary: w) (simp_all add: buf_write_bytes)

fun tls_packets :: "tls_event \<Rightarrow> bytes list" where
  "tls_packets (TlsPackets ps) = ps"
| "tls_packets _ = []"

definition writer_invar :: "tls_writer \<Rightarrow> bool" where
  "writer_invar w \<longleftrightarrow> tw_needs_flush w \<or> tw_buf w = []"

lemma fold_buf_write_flag:
  "tw_needs_flush (fold (\<lambda>p. buf_write (tcp_frame p)) ps w) = tw_needs_flush w"
  by (induction ps arbitrary: w) (simp_all add: buf_write_def buf_flush_def Let_def)

lemma queue2tls_run_bytes:
  "queue2tls_run es w = Ok w' \<Longrightarrow> writer_invar w \<Longrightarrow>
   writer_invar w' \<and> tw_wire w' @ tw_buf w' = tw_wire w @ tw_buf w @ concat (map tcp_frame (concat (map tls_packets es)))"
proof (induction es arbitrary: w)
  case (Cons e es)
  then obtain w1 where w1: "queue2tls_step e w = Ok w1" "queue2tls_run es w1 = Ok w'" by (auto simp: and_then_eq_Inr)
  have "writer_invar w1 \<and> tw_wire w1 @ tw_buf w1 = tw_wire w @ tw_buf w @ concat (map tcp_frame (tls_packets e))"
    using w1(1) Cons.prems(2) fold_buf_write_bytes [of _ "w\<lparr>tw_needs_flush := True\<rparr>"]
    by (cases e) (auto simp: writer_invar_def fold_buf_write_flag buf_flush_def split: if_splits)
  with Cons.IH [OF w1(2)] show ?case by (auto simp flip: append_assoc)
qed simp

lemma tun2stream_packets:
  "tun2stream os enc (map (\<lambda>p. (TunPacket p, True)) ps) out
     = (out @ concat (map (enc \<circ> drop (TUN_HDR os)) (filter (\<lambda>p. length p > TUN_HDR os) (map tun_buf_read ps))), None)"
  by (induction ps arbitrary: out) (simp_all add: Let_def)

subsection \<open>The global reader\<close>

fun read_packet :: "target_os \<Rightarrow> u64 \<times> nat \<times> tun_read \<Rightarrow> (u64 \<times> nat \<times> bytes) list" where
  "read_packet os (now, now_ms, TunPacket raw) =
     (if length (tun_buf_read raw) > TUN_HDR os then [(now, now_ms, drop (TUN_HDR os) (tun_buf_read raw))] else [])"
| "read_packet os (now, now_ms, _) = []"

definition read_packets :: "target_os \<Rightarrow> (u64 \<times> nat \<times> tun_read) list \<Rightarrow> (u64 \<times> nat \<times> bytes) list" where
  "read_packets os rs = concat (map (read_packet os) rs)"

definition route_packets :: "(u64 \<times> nat \<times> bytes) list \<Rightarrow> tun_reader \<Rightarrow> tun_reader" where
  "route_packets ps t = fold (\<lambda>(now, now_ms, p). tun_reader_packet now now_ms p) ps t"

lemma tun_reader_batch_work:
  "tun_reader_batch os b rs t = Ok (t', rs') \<Longrightarrow>
   route_packets (read_packets os rs') t' = route_packets (read_packets os rs) t"
proof (induction os b rs t arbitrary: t' rs' rule: tun_reader_batch.induct)
  case (2 os b now now_ms rd rs t)
  then show ?case
    by (cases rd) (auto simp: Let_def read_packets_def route_packets_def split: if_splits)
qed (simp add: read_packets_def)

lemma tun_reader_batch_subset: "tun_reader_batch os b rs t = Ok (t', rs') \<Longrightarrow> e \<in> set rs' \<Longrightarrow> e \<in> set rs"
  by (induction os b rs t arbitrary: t' rs' rule: tun_reader_batch.induct)
    (fastforce simp: Let_def split: tun_read.splits if_splits)+

lemma tun_reader_batch_ok:
  "\<forall>(a, c, rd) \<in> set rs. \<forall>e. rd \<noteq> TunError e \<Longrightarrow> \<exists>t' rs'. tun_reader_batch os b rs t = Ok (t', rs')"
proof (induction os b rs t rule: tun_reader_batch.induct)
  case (2 os b now now_ms rd rs t)
  then show ?case by (cases rd) (auto simp: Let_def)
qed simp

lemma reader_is_fold:
  "\<forall>(a, c, rd) \<in> set rs. \<forall>e. rd \<noteq> TunError e \<Longrightarrow>
   run_global_tun_reader os rs t = Ok (route_packets (read_packets os rs) t)"
proof (induction os rs t rule: run_global_tun_reader.induct)
  case (1 os rs t)
  show ?case
  proof (cases "rs = []")
    case True
    then show ?thesis by (simp add: run_global_tun_reader.simps read_packets_def route_packets_def)
  next
    case False
    from tun_reader_batch_ok [OF 1(2)] obtain t' rs' where b: "tun_reader_batch os 0 rs t = Ok (t', rs')" by blast
    from 1(1) [OF False b refl] tun_reader_batch_work [OF b] tun_reader_batch_subset [OF b] 1(2) have "run_global_tun_reader os rs' t' = Ok (route_packets (read_packets os rs) t)"
      by fastforce
    then show ?thesis using False b by (simp add: run_global_tun_reader.simps [of os rs])
  qed
qed

lemma tun_reader_packet_isolated:
  assumes inv: "router_invar (tr_router t)"
  shows "router_invar (tr_router (tun_reader_packet now ms p t))
    \<and> routes (tr_router (tun_reader_packet now ms p t)) = routes (tr_router t)
    \<and> (routes (tr_router t) ip = Some q \<longrightarrow>
        set (queued (tr_router (tun_reader_packet now ms p t)) q)
          \<subseteq> set (queued (tr_router t) q) \<union> (if extract_dst_ipv4 p = Some ip then {p} else {}))"
proof (cases "extract_dst_ipv4 p")
  case None
  then show ?thesis using inv
    by (auto simp: tun_reader_packet_def split: prod.split bool.split)
next
  case (Some dst)
  obtain ro ok where ro: "ClientRouter_route ms (tr_router t) dst p = (ro, ok)" by fastforce
  have set_sub: "set (queued ro q) \<subseteq> set (queued (tr_router t) q) \<union> (if dst = ip then {p} else {})"
    if "routes (tr_router t) ip = Some q"
    using router.route_law [OF inv ro] router.route_isolated [OF inv ro that] that by (cases ok; cases "dst = ip") auto
  have "tr_router (tun_reader_packet now ms p t) = ro \<or> tr_router (tun_reader_packet now ms p t) = tr_router t"
    using Some ro by (auto simp: tun_reader_packet_def Let_def split: prod.split bool.split)
  with router.route_law [OF inv ro] set_sub inv Some show ?thesis by auto
qed

lemma route_packets_isolated:
  "router_invar (tr_router t) \<Longrightarrow>
   router_invar (tr_router (route_packets ps t)) \<and> routes (tr_router (route_packets ps t)) = routes (tr_router t)
   \<and> (routes (tr_router t) ip = Some q \<longrightarrow>
      set (queued (tr_router (route_packets ps t)) q)
        \<subseteq> set (queued (tr_router t) q) \<union> {p. (\<exists>a c. (a, c, p) \<in> set ps) \<and> extract_dst_ipv4 p = Some ip})"
proof (induction ps arbitrary: t)
  case (Cons e ps)
  obtain now ms p where e: "e = (now, ms, p)" by (rule prod_cases3)
  note S = tun_reader_packet_isolated [OF Cons.prems, of now ms p ip q]
  with Cons.IH [of "tun_reader_packet now ms p t"] show ?case
    by (auto simp: route_packets_def e split: if_splits) blast+
qed (simp add: route_packets_def)

subsection \<open>PMTU\<close>

fun mtu_updates :: "u16 \<Rightarrow> u16 list \<Rightarrow> u16 list" where
  "mtu_updates l [] = []"
| "mtu_updates l (m # ms) =
     (if nat \<bar>int (unat m) - int (unat l)\<bar> > 50 then m # mtu_updates m ms else mtu_updates l ms)"

lemma pmtu_monitor_updates:
  "run_pmtu_monitor l (map (\<lambda>m. (m, True)) ms) =
     (concat (map (\<lambda>m. SessionUpdate_encode \<lparr>su_mtu = m\<rparr>) (mtu_updates l ms)), last (l # mtu_updates l ms))"
  by (induction ms arbitrary: l) (simp_all add: Let_def)

lemma mtu_updates_close:
  "ms \<noteq> [] \<Longrightarrow> \<bar>int (unat (last ms)) - int (unat (last (l # mtu_updates l ms)))\<bar> \<le> 50"
proof (induction ms arbitrary: l)
  case (Cons m ms)
  show ?case
  proof (cases "ms = []")
    case False
    with Cons.IH [OF False, of m] Cons.IH [OF False, of l] show ?thesis by (simp split: if_splits)
  qed auto
qed simp

section \<open>Properties\<close>

text \<open>
  Claim C10. Anti-spoofing on every upload path: whatever datagrams, TLS bytes or WebSocket messages a
  client sends, every packet the server writes to the TUN device for it is IPv6 or carries the client's
  assigned address as its IPv4 source.
\<close>

theorem upload_never_spoofed:
  assumes "p \<in> set (rcv_tun (dg2tun_run padded ip es (r\<lparr>rcv_tun := []\<rparr>)))
    \<or> p \<in> set (fst (snd (run_tcp_reality_upload ip now stream sh)))
    \<or> p \<in> set (fst (run_tcp_vpn_upload ip stream))
    \<or> p \<in> set (fst (ws2tun_loop ip ms []))"
  shows "version_nibble (p ! 0) = 6 \<or> version_nibble (p ! 0) = 4 \<and> 20 \<le> length p
    \<and> Ipv4Addr (p ! 12) (p ! 13) (p ! 14) (p ! 15) = ip"
proof -
  from dg2tun_run_tun [of padded ip es "r\<lparr>rcv_tun := []\<rparr>"]
  have "list_all (\<lambda>p. validate_source_ip p ip) (rcv_tun (dg2tun_run padded ip es (r\<lparr>rcv_tun := []\<rparr>)))" by auto
  moreover have "list_all (\<lambda>p. validate_source_ip p ip) (fst (snd (run_tcp_reality_upload ip now stream sh)))"
    "list_all (\<lambda>p. validate_source_ip p ip) (fst (run_tcp_vpn_upload ip stream))"
    "list_all (\<lambda>p. validate_source_ip p ip) (fst (ws2tun_loop ip ms []))"
    by (simp_all add: run_tcp_reality_upload_def run_tcp_vpn_upload_def tls2tun_loop_tun ws2tun_loop_tun)
  ultimately have "validate_source_ip p ip" using assms by (auto simp: list_all_iff)
  then show ?thesis using validate_source_ip_v4 [of p ip]
    by (auto simp: validate_source_ip_def ip_version_def split: if_splits)
qed

text \<open>A 20-byte IPv4 packet from one address to another.\<close>

definition ipv4_packet :: "ipv4 \<Rightarrow> ipv4 \<Rightarrow> bytes" where
  "ipv4_packet src dst = [0x45, 0, 0, 20, 0, 0, 0, 0, 64, 17, 0, 0] @ octets src @ octets dst"

lemma ipv4_packet_valid: "validate_source_ip (ipv4_packet src dst) ip \<longleftrightarrow> src = ip"
  by (cases src) (auto simp: ipv4_packet_def validate_source_ip_def ip_version_def version_nibble_def)

theorem upload_never_spoofed_witness:
  "fst (ws2tun_loop (Ipv4Addr 10 0 1 2) [Binary (ipv4_packet (Ipv4Addr 10 0 1 3) (Ipv4Addr 8 8 8 8)),
      Binary (ipv4_packet (Ipv4Addr 10 0 1 2) (Ipv4Addr 8 8 8 8))] [])
     = [ipv4_packet (Ipv4Addr 10 0 1 2) (Ipv4Addr 8 8 8 8)]
   \<and> ipv4_packet (Ipv4Addr 10 0 1 2) (Ipv4Addr 8 8 8 8) ! 15 = 2"
proof -
  let ?p = "ipv4_packet (Ipv4Addr 10 0 1 2) (Ipv4Addr 8 8 8 8)"
  have run: "fst (ws2tun_loop (Ipv4Addr 10 0 1 2) [Binary (ipv4_packet (Ipv4Addr 10 0 1 3) (Ipv4Addr 8 8 8 8)), Binary ?p] []) = [?p]"
    by (simp add: ipv4_packet_valid) (simp add: ipv4_packet_def)
  moreover have "version_nibble (?p ! 0) \<noteq> 6" by (simp add: ipv4_packet_def version_nibble_def)
  ultimately show ?thesis
    using upload_never_spoofed [of ?p _ "Ipv4Addr 10 0 1 2" _ _ _ _ _
        "[Binary (ipv4_packet (Ipv4Addr 10 0 1 3) (Ipv4Addr 8 8 8 8)), Binary ?p]"] by simp
qed

text \<open>
  The unpadded upload path drops nothing else: with no bandwidth limit and a device that takes
  every write, the packets written are exactly the received ones with a valid source, in order, and the
  spoofed counter grows by exactly the number of the others.
\<close>

theorem upload_exact:
  assumes "tb_rate (bucket (limiter (rcv_shaper r))) = 0" "\<forall>(now, ok, d) \<in> set es. ok"
  shows "rcv_tun (dg2tun_run False ip es r)
      = rcv_tun r @ filter (\<lambda>d. validate_source_ip d ip) (map (snd \<circ> snd) es)
   \<and> m_spoofed (rcv_metrics (dg2tun_run False ip es r)) = m_spoofed (rcv_metrics r)
       + of_nat (length (filter (\<lambda>d. d \<noteq> [] \<and> \<not> validate_source_ip d ip) (map (snd \<circ> snd) es)))"
  using assms by (rule dg2tun_run_exact)

definition sample_receiver :: receiver where
  "sample_receiver = \<lparr>rcv_stats = Stats_new, rcv_metrics = Metrics_new, rcv_shaper = AdaptiveShaper_new 0, rcv_tun = []\<rparr>"

theorem upload_exact_witness:
  "let p = ipv4_packet (Ipv4Addr 10 0 1 2) (Ipv4Addr 8 8 8 8); q = ipv4_packet (Ipv4Addr 10 0 1 9) (Ipv4Addr 8 8 8 8);
       r = dg2tun_run False (Ipv4Addr 10 0 1 2) [(0, True, p), (5, True, q), (9, True, p)] sample_receiver in
   rcv_tun r = [p, p] \<and> m_spoofed (rcv_metrics r) = 1"
proof -
  have z: "tb_rate (bucket (limiter (rcv_shaper sample_receiver))) = 0"
    by (simp add: sample_receiver_def AdaptiveShaper_new_def RateLimiter_new_def TokenBucket_new_def Let_def)
  show ?thesis
    using upload_exact [OF z, of "[(0, True, ipv4_packet (Ipv4Addr 10 0 1 2) (Ipv4Addr 8 8 8 8)),
      (5, True, ipv4_packet (Ipv4Addr 10 0 1 9) (Ipv4Addr 8 8 8 8)), (9, True, ipv4_packet (Ipv4Addr 10 0 1 2) (Ipv4Addr 8 8 8 8))]"
      "Ipv4Addr 10 0 1 2"]
    by (simp add: Let_def ipv4_packet_valid) (simp add: ipv4_packet_def sample_receiver_def Metrics_new_def)
qed

text \<open>
  Claim C11. Nothing read from the device is lost or reordered by the reader's batching: as long as no read
  fails, the loop that stops after 64 packets and is woken again routes exactly the packets read, in order;
  and whatever it routes, the queue of an address only ever gains packets destined to that address.
\<close>

theorem tun_reader_routes_all:
  assumes ok: "\<forall>(a, c, rd) \<in> set rs. \<forall>e. rd \<noteq> TunError e" and inv: "router_invar (tr_router t)"
  shows "\<exists>t'. run_global_tun_reader os rs t = Ok t' \<and> t' = route_packets (read_packets os rs) t
    \<and> routes (tr_router t') = routes (tr_router t)
    \<and> (\<forall>ip q. routes (tr_router t) ip = Some q \<longrightarrow>
        set (queued (tr_router t') q) \<subseteq> set (queued (tr_router t) q) \<union> {p. extract_dst_ipv4 p = Some ip})"
  using reader_is_fold [OF ok] route_packets_isolated [OF inv, of "read_packets os rs"] by auto blast

definition sample_reader :: tun_reader where
  "sample_reader =
     \<lparr>tr_router = fst (ClientRouter_register ClientRouter_new (Ipv4Addr 10 0 1 2) 8),
      tr_shaper = AdaptiveShaper_new 0, tr_metrics = Metrics_new\<rparr>"

lemma sample_reader_invar: "router_invar (tr_router sample_reader)"
  unfolding sample_reader_def by (simp add: router_invar_register router_invar_new)

theorem tun_reader_routes_all_witness:
  "let p = ipv4_packet (Ipv4Addr 8 8 8 8) (Ipv4Addr 10 0 1 2) in
   \<exists>t'. run_global_tun_reader Linux [(0, 0, TunPacket p), (0, 0, TunAgain)] sample_reader = Ok t'
     \<and> routes (tr_router t') (Ipv4Addr 10 0 1 2) = Some 0"
proof -
  have r: "routes (tr_router sample_reader) (Ipv4Addr 10 0 1 2) = Some 0"
    by (simp add: sample_reader_def ClientRouter_register_def ClientRouter_new_def Let_def)
  show ?thesis
    using tun_reader_routes_all [OF _ sample_reader_invar,
        of "[(0, 0, TunPacket (ipv4_packet (Ipv4Addr 8 8 8 8) (Ipv4Addr 10 0 1 2))), (0, 0, TunAgain)]" Linux] r
    by (auto simp: Let_def)
qed

text \<open>
  The reader's buffer holds \<open>TUN_MTU + 4\<close> = 1204 bytes, but the configuration allows an MTU of up
  to 1500: a packet of 1400 bytes is handed to the router cut to its first 1204 bytes.
\<close>

theorem tun_reader_truncates:
  "ServerConfig_validate (ServerConfig_default\<lparr>srv_mtu := 1400\<rparr>) = Ok ()
   \<and> read_packets Linux [(now, ms, TunPacket (p @ replicate (1400 - length p) 0))]
       = [(now, ms, take 1204 (p @ replicate (1400 - length p) 0))]"
proof -
  have "ServerConfig_validate (ServerConfig_default\<lparr>srv_mtu := 1400\<rparr>) = Ok ()"
    using default_parts by (simp add: ServerConfig_validate_def ServerConfig_default_def
        default_tun_prefix_len_def default_max_connections_def)
  moreover have "length (take 1204 (p @ replicate (1400 - length p) 0)) > 0"
    by (cases "length p < 1400") auto
  ultimately show ?thesis
    by (simp add: read_packets_def tun_buf_read_def TUN_MTU_def TUN_HDR_def del: length_greater_0_conv)
qed

text \<open>
  The sender's books balance: over any run that has not lost its connection, whatever the
  connection answered to each send, the statistics and the metrics count exactly the datagrams the
  connection took and their bytes.
\<close>

theorem sender_accounts:
  assumes "queue2dg_run padded es (sender_new m) = Ok s"
  shows "datagrams_sent (snd_stats s) = of_nat (length (snd_wire s))
    \<and> bytes_sent (snd_stats s) = of_nat (length (concat (snd_wire s)))
    \<and> datagrams_out (snd_metrics s) = datagrams_out m + of_nat (length (snd_wire s))
    \<and> bytes_out (snd_metrics s) = bytes_out m + of_nat (length (concat (snd_wire s)))"
proof -
  have "accounted m (sender_new m)" by (simp add: accounted_def sender_new_def Stats_new_def)
  from accounted.run_keeps [OF assms this] show ?thesis by (simp add: accounted_def)
qed

definition open_conn :: dg_conn where
  "open_conn = \<lparr>send_dg = (\<lambda>_. DgOk), buffer_space = 65536, max_dg = Some 1300, send_wait = (\<lambda>_. Some DgOk)\<rparr>"

lemma open_conn_accepts: "accepts_all open_conn"
  by (simp add: accepts_all_def open_conn_def)

theorem sender_accounts_witness:
  "\<exists>s. queue2dg_run False [(open_conn, Popped (replicate 400 0x45)), (open_conn\<lparr>buffer_space := 0\<rparr>, Popped (replicate 900 0x45))]
         (sender_new Metrics_new) = Ok s
     \<and> bytes_sent (snd_stats s) = of_nat (length (concat (snd_wire s)))"
proof -
  have "\<exists>s. queue2dg_run False [(open_conn, Popped (replicate 400 0x45)), (open_conn\<lparr>buffer_space := 0\<rparr>, Popped (replicate 900 0x45))]
         (sender_new Metrics_new) = Ok s"
    by (simp add: queue2dg_step_def send_packet_def BATCH_SIZE_THRESHOLD_def flush_pending_def sender_new_def
        DatagramBatcher_flush_def DatagramBatcher_new_def send_rt_def send_bulk_def open_conn_def and_then_def
        Let_def sent_ok_def split: priority.split)
  with sender_accounts show ?thesis by blast
qed

text \<open>
  MTU announcements: while the control stream can be written, what the monitor writes is a
  sequence of session updates that reads back as the MTUs that moved by more than 50 bytes, and the last
  one announced is within 50 bytes of the path MTU last seen.
\<close>

theorem pmtu_announcements:
  assumes "ms \<noteq> []"
  shows "case run_pmtu_monitor l (map (\<lambda>m. (m, True)) ms) of (written, announced) \<Rightarrow>
    map SessionUpdate_decode (chunks_exact SESSION_UPDATE_LEN written) = map (\<lambda>m. Some \<lparr>su_mtu = m\<rparr>) (mtu_updates l ms)
    \<and> announced = last (l # mtu_updates l ms)
    \<and> \<bar>int (unat (last ms)) - int (unat announced)\<bar> \<le> 50"
  using session_update_codec.stream_roundtrip [of "map (\<lambda>m. \<lparr>su_mtu = m\<rparr>) (mtu_updates l ms)"] mtu_updates_close [OF assms, of l]
  by (simp add: pmtu_monitor_updates comp_def list_all_iff)

theorem pmtu_announcements_witness:
  "snd (run_pmtu_monitor 1200 (map (\<lambda>m. (m, True)) [1220, 1400, 1380])) = 1400"
  using pmtu_announcements [of "[1220, 1400, 1380]" 1200] by (simp split: prod.splits)

text \<open>
  The WebSocket and plain TCP tunnels forward the whole device: every packet read from TUN is
  sent to the client, whatever its destination, so a client behind them receives packets addressed to
  other clients.
\<close>

theorem stream_tunnels_forward_everything:
  "fst (tun2ws Linux (map (\<lambda>p. (TunPacket p, True)) ps)) = map Binary (filter (\<lambda>p. p \<noteq> []) (map tun_buf_read ps))
   \<and> fst (tun2tls Linux (map (\<lambda>p. (TunPacket p, True)) ps))
      = concat (map tcp_frame (filter (\<lambda>p. p \<noteq> []) (map tun_buf_read ps)))
   \<and> fst (tun2ws Linux [(TunPacket (ipv4_packet src (Ipv4Addr 10 0 1 3)), True)])
      = [Binary (ipv4_packet src (Ipv4Addr 10 0 1 3))]"
proof -
  have "tun_buf_read (ipv4_packet src (Ipv4Addr 10 0 1 3)) = ipv4_packet src (Ipv4Addr 10 0 1 3)"
    by (cases src) (simp add: tun_buf_read_def ipv4_packet_def TUN_MTU_def)
  then show ?thesis
    using tun2stream_packets [of Linux "\<lambda>p. [Binary p]" ps "[]"] tun2stream_packets [of Linux tcp_frame ps "[]"]
    by (simp add: tun2ws_def tun2tls_def TUN_HDR_def comp_def) (simp add: ipv4_packet_def TUN_HDR_def)
qed

end
