(* ===== verification/Sessions.thy ===== *)
theory Sessions
  imports Server
begin

text \<open>
  Concurrent sessions of the server. The handlers of \<open>Server\<close> run as tasks whose accesses to the shared
  state (the counter, the locked pool, the router, the gauges) interleave: here a session is the record of
  what its task holds and where it stands, one step performs one access, in the order of the handlers
  \<open>handle_vpn\<close>, \<open>run_tcp_reality_listener\<close> and \<open>handle_ws_connection\<close> of
  \<^verbatim>\<open>src/crates/redpill-quic/src/server.rs\<close>, and any task may run next.
\<close>

datatype kind = KQuic | KTcp | KWs

datatype session_pc =
    PStart | PAuth | PAlloc | PRegister | PAnswer | PCount | PTunnel | PRelease | PReleaseFailed
  | PDropHandle | PDropSession | PDropConn | PDone

record session =
  se_kind :: kind
  se_pc :: session_pc
  se_user :: string
  se_conn :: bool
  se_sess :: bool
  se_ip :: "ipv4 option"
  se_handle :: "ipv4 option"

definition session_new :: "kind \<Rightarrow> session" where
  "session_new k =
     \<lparr>se_kind = k, se_pc = PStart, se_user = [], se_conn = False, se_sess = False, se_ip = None, se_handle = None\<rparr>"

text \<open>One access of a task.\<close>

inductive sess_step :: "server_state \<times> session \<Rightarrow> server_state \<times> session \<Rightarrow> bool" where
  Open: "se_pc s = PStart \<Longrightarrow> se_kind s = KQuic \<Longrightarrow>
    sess_step (st, s) (ConnectionGuard_new st, s\<lparr>se_pc := PAuth, se_conn := True\<rparr>)"
| Begin: "se_pc s = PStart \<Longrightarrow> se_kind s \<noteq> KQuic \<Longrightarrow> sess_step (st, s) (st, s\<lparr>se_pc := PAuth\<rparr>)"
| AuthAbort: "se_pc s = PAuth \<Longrightarrow>
    sess_step (st, s) (st, s\<lparr>se_pc := if se_kind s = KQuic then PDropConn else PDone\<rparr>)"
| AuthFail: "se_pc s = PAuth \<Longrightarrow> se_kind s \<noteq> KTcp \<Longrightarrow>
    sess_step (st, s) (inc_handshakes_failed (inc_handshakes_total st),
      s\<lparr>se_pc := if se_kind s = KQuic then PDropConn else PDone\<rparr>)"
| AuthOkQuic: "se_pc s = PAuth \<Longrightarrow> se_kind s = KQuic \<Longrightarrow>
    sess_step (st, s) (SessionGuard_new u (inc_handshakes_total st), s\<lparr>se_pc := PAlloc, se_user := u, se_sess := True\<rparr>)"
| AuthOk: "se_pc s = PAuth \<Longrightarrow> se_kind s \<noteq> KQuic \<Longrightarrow>
    sess_step (st, s) (if se_kind s = KTcp then st else inc_handshakes_total st, s\<lparr>se_pc := PAlloc, se_user := u\<rparr>)"
| AllocFail: "se_pc s = PAlloc \<Longrightarrow> IpPool_allocate (ss_pool st) = (p, None) \<Longrightarrow>
    sess_step (st, s) (st\<lparr>ss_pool := p\<rparr>, s\<lparr>se_pc := if se_kind s = KQuic then PDropSession else PDone\<rparr>)"
| AllocOk: "se_pc s = PAlloc \<Longrightarrow> IpPool_allocate (ss_pool st) = (p, Some ip) \<Longrightarrow>
    sess_step (st, s)
      (st\<lparr>ss_pool := p\<rparr>, s\<lparr>se_pc := if se_kind s = KQuic then PRegister else PAnswer, se_ip := Some ip\<rparr>)"
| Register: "se_pc s = PRegister \<Longrightarrow> se_ip s = Some ip \<Longrightarrow>
    ClientRouter_register (ss_router st) ip (if se_kind s = KQuic then CLIENT_CHANNEL_SIZE else TCP_CLIENT_CHANNEL_SIZE)
      = (r, h, q) \<Longrightarrow>
    sess_step (st, s)
      (st\<lparr>ss_router := r\<rparr>, s\<lparr>se_pc := if se_kind s = KQuic then PAnswer else PTunnel, se_handle := Some ip\<rparr>)"
| AnswerFail: "se_pc s = PAnswer \<Longrightarrow>
    sess_step (st, s) (st, s\<lparr>se_pc := if se_kind s = KQuic then PRelease else PReleaseFailed\<rparr>)"
| AnswerOk: "se_pc s = PAnswer \<Longrightarrow> sess_step (st, s) (st, s\<lparr>se_pc := if se_kind s = KQuic then PTunnel else PCount\<rparr>)"
| Count: "se_pc s = PCount \<Longrightarrow>
    sess_step (st, s) (SessionGuard_new (se_user s) (ConnectionGuard_new st),
      s\<lparr>se_pc := if se_kind s = KTcp then PRegister else PTunnel, se_conn := True, se_sess := True\<rparr>)"
| Ends: "se_pc s = PTunnel \<Longrightarrow> sess_step (st, s) (st, s\<lparr>se_pc := PRelease\<rparr>)"
| Release: "se_pc s = PRelease \<Longrightarrow> se_ip s = Some ip \<Longrightarrow>
    sess_step (st, s)
      (release_ip ip st, s\<lparr>se_pc := if se_kind s = KWs then PDropSession else PDropHandle, se_ip := None\<rparr>)"
| ReleaseFailed: "se_pc s = PReleaseFailed \<Longrightarrow> se_ip s = Some ip \<Longrightarrow>
    sess_step (st, s) (release_ip ip st, s\<lparr>se_pc := PDone, se_ip := None\<rparr>)"
| DropHandle: "se_pc s = PDropHandle \<Longrightarrow> se_handle s = Some ip \<Longrightarrow>
    sess_step (st, s) (drop_handle \<lparr>handle_ip = ip\<rparr> st, s\<lparr>se_pc := PDropSession, se_handle := None\<rparr>)"
| DropSession: "se_pc s = PDropSession \<Longrightarrow>
    sess_step (st, s) (SessionGuard_drop (se_user s) st, s\<lparr>se_pc := PDropConn, se_sess := False\<rparr>)"
| DropConn: "se_pc s = PDropConn \<Longrightarrow>
    sess_step (st, s) (ConnectionGuard_drop st, s\<lparr>se_pc := PDone, se_conn := False\<rparr>)"

inductive_cases sess_stepE: "sess_step (st, s) (st', s')"

text \<open>
  The server: any task may move; a connection may arrive, a QUIC one only while the counter is below the
  limit; and everything else (packets, reload, shaping) leaves the shared resources alone.
\<close>

definition others_quiet :: "server_state \<Rightarrow> server_state \<Rightarrow> bool" where
  "others_quiet st st' \<longleftrightarrow>
     ss_pool st' = ss_pool st \<and> routes (ss_router st') = routes (ss_router st) 
     \<and> (router_invar (ss_router st) \<longrightarrow> router_invar (ss_router st'))
     \<and> ss_active st' = ss_active st \<and> active_sessions (ss_metrics st') = active_sessions (ss_metrics st)
     \<and> sessions_by_user (ss_metrics st') = sessions_by_user (ss_metrics st)"

inductive sys_step :: "server_state \<times> session list \<Rightarrow> server_state \<times> session list \<Rightarrow> bool" where
  Act: "sess_step (st, s) (st', s') \<Longrightarrow> sys_step (st, xs @ s # ys) (st', xs @ s' # ys)"
| Spawn: "k = KQuic \<longrightarrow> \<not> accept_refused st \<Longrightarrow> sys_step (st, ss) (st, ss @ [session_new k])"
| Other: "others_quiet st st' \<Longrightarrow> sys_step (st, ss) (st', ss)"

inductive_cases sys_stepE: "sys_step (st, ss) (st', ss')"

definition server_fresh :: "server_state \<Rightarrow> bool" where
  "server_fresh st \<longleftrightarrow>
     pool_invar (ss_pool st) \<and> pool_held (ss_pool st) = {} \<and> router_invar (ss_router st)
     \<and> routes (ss_router st) = Map.empty \<and> ss_active st = 0 \<and> active_sessions (ss_metrics st) = 0
     \<and> sessions_by_user (ss_metrics st) = (\<lambda>_. 0)"

inductive reachable :: "server_state \<times> session list \<Rightarrow> bool" where
  Init: "server_fresh st \<Longrightarrow> reachable (st, [])"
| Step: "reachable c \<Longrightarrow> sys_step c c' \<Longrightarrow> reachable c'"

section \<open>Invariant\<close>

text \<open>What a session holds at each of its program points.\<close>

definition holds_conn :: "kind \<Rightarrow> session_pc \<Rightarrow> bool" where
  "holds_conn k p \<longleftrightarrow>
     (if k = KQuic then p \<notin> {PStart, PDone} else p \<in> {PRegister, PTunnel, PRelease, PDropHandle, PDropSession, PDropConn})"

definition holds_sess :: "kind \<Rightarrow> session_pc \<Rightarrow> bool" where
  "holds_sess k p \<longleftrightarrow> p \<noteq> PDropConn \<and> holds_conn k p \<and> p \<noteq> PAuth"

definition holds_ip :: "kind \<Rightarrow> session_pc \<Rightarrow> bool" where
  "holds_ip k p \<longleftrightarrow> p \<in> {PRegister, PAnswer, PCount, PTunnel, PRelease, PReleaseFailed}"

definition holds_handle :: "kind \<Rightarrow> session_pc \<Rightarrow> bool" where
  "holds_handle k p \<longleftrightarrow>
     (case k of
        KQuic \<Rightarrow> p \<in> {PAnswer, PTunnel, PRelease, PDropHandle}
      | KTcp \<Rightarrow> p \<in> {PTunnel, PRelease, PDropHandle}
      | KWs \<Rightarrow> False)"

definition pc_possible :: "kind \<Rightarrow> session_pc \<Rightarrow> bool" where
  "pc_possible k p \<longleftrightarrow>
     (case k of
        KQuic \<Rightarrow> p \<notin> {PCount, PReleaseFailed}
      | KTcp \<Rightarrow> True
      | KWs \<Rightarrow> p \<notin> {PRegister, PDropHandle})"

definition session_wf :: "session \<Rightarrow> bool" where
  "session_wf s \<longleftrightarrow>
     pc_possible (se_kind s) (se_pc s)
     \<and> se_conn s = holds_conn (se_kind s) (se_pc s) \<and> se_sess s = holds_sess (se_kind s) (se_pc s)
     \<and> (se_ip s \<noteq> None) = holds_ip (se_kind s) (se_pc s)
     \<and> (se_handle s \<noteq> None) = holds_handle (se_kind s) (se_pc s)
     \<and> (\<forall>ip a. se_handle s = Some a \<and> se_ip s = Some ip \<longrightarrow> a = ip)"

lemmas holds_defs = holds_conn_def holds_sess_def holds_ip_def holds_handle_def pc_possible_def

lemma session_new_wf: "session_wf (session_new k)"
  by (cases k) (simp_all add: session_wf_def session_new_def holds_defs)

lemma session_new_fields [simp]:
  "se_conn (session_new k) = False" "se_sess (session_new k) = False" "se_ip (session_new k) = None"
  "se_pc (session_new k) = PStart" "se_kind (session_new k) = k"
  by (simp_all add: session_new_def)

lemma sess_step_wf: "sess_step (st, s) (st', s') \<Longrightarrow> session_wf s \<Longrightarrow> session_wf s'"
  by (erule sess_stepE; cases "se_kind s") (auto simp: session_wf_def holds_defs)

text \<open>Counting the sessions with a property.\<close>

definition num :: "(session \<Rightarrow> bool) \<Rightarrow> session list \<Rightarrow> int" where
  "num P ss = int (length (filter P ss))"

lemma num_simps [simp]:
  "num P [] = 0" "num P (s # ss) = (if P s then 1 else 0) + num P ss" "num P (ss @ ts) = num P ss + num P ts"
  by (simp_all add: num_def)

definition addresses :: "session list \<Rightarrow> ipv4 list" where
  "addresses ss = concat (map (\<lambda>s. case se_ip s of None \<Rightarrow> [] | Some ip \<Rightarrow> [ip]) ss)"

lemma addresses_simps [simp]:
  "addresses [] = []" "addresses (s # ss) = (case se_ip s of None \<Rightarrow> [] | Some ip \<Rightarrow> [ip]) @ addresses ss"
  "addresses (ss @ ts) = addresses ss @ addresses ts"
  by (simp_all add: addresses_def)

lemma in_addresses: "ip \<in> set (addresses ss) \<longleftrightarrow> (\<exists>s \<in> set ss. se_ip s = Some ip)"
  by (induction ss) (auto split: option.splits)

definition sessions_invar :: "server_state \<times> session list \<Rightarrow> bool" where
  "sessions_invar c \<longleftrightarrow>
     (case c of (st, ss) \<Rightarrow>
        pool_invar (ss_pool st) \<and> router_invar (ss_router st) \<and> list_all session_wf ss
        \<and> distinct (addresses ss) \<and> pool_held (ss_pool st) = set (addresses ss)
        \<and> ss_active st = of_int (num se_conn ss)
        \<and> active_sessions (ss_metrics st) = num se_sess ss
        \<and> (\<forall>u. sessions_by_user (ss_metrics st) u = num (\<lambda>s. se_sess s \<and> se_user s = u) ss)
        \<and> (\<forall>ip q. routes (ss_router st) ip = Some q \<longrightarrow> (\<exists>s \<in> set ss. se_handle s = Some ip)))"

section \<open>Every step keeps the invariant\<close>

abbreviation one_if :: "bool \<Rightarrow> int" where
  "one_if b \<equiv> (if b then 1 else 0)"

lemma step_counters:
  assumes step: "sess_step (st, s) (st', s')" and wf: "session_wf s"
  shows "ss_active st' = ss_active st + of_int (one_if (se_conn s') - one_if (se_conn s))"
    "active_sessions (ss_metrics st') = active_sessions (ss_metrics st) + one_if (se_sess s') - one_if (se_sess s)"
    "sessions_by_user (ss_metrics st') u = sessions_by_user (ss_metrics st) u
       + one_if (se_sess s' \<and> se_user s' = u) - one_if (se_sess s \<and> se_user s = u)"
proof -
  from wf have c: "se_conn s = holds_conn (se_kind s) (se_pc s)" "se_sess s = holds_sess (se_kind s) (se_pc s)"
    "pc_possible (se_kind s) (se_pc s)"
    by (simp_all add: session_wf_def)
  show "ss_active st' = ss_active st + of_int (one_if (se_conn s') - one_if (se_conn s))"
    using step c by (cases rule: sess_step.cases) (simp_all add: holds_defs guard_defs split: kind.splits)
  show "active_sessions (ss_metrics st') = active_sessions (ss_metrics st) + one_if (se_sess s') - one_if (se_sess s)"
    using step c by (cases rule: sess_step.cases) (simp_all add: holds_defs guard_defs split: kind.splits)
  show "sessions_by_user (ss_metrics st') u = sessions_by_user (ss_metrics st) u
       + one_if (se_sess s' \<and> se_user s' = u) - one_if (se_sess s \<and> se_user s = u)"
    using step c by (cases rule: sess_step.cases) (simp_all add: holds_defs guard_defs split: kind.splits)
qed

lemma step_pool:
  assumes step: "sess_step (st, s) (st', s')" and pi: "pool_invar (ss_pool st)" and wf: "session_wf s"
  shows "pool_invar (ss_pool st') \<and>
    (se_ip s' = se_ip s \<and> pool_held (ss_pool st') = pool_held (ss_pool st)
     \<or> (\<exists>ip. se_ip s = None \<and> se_ip s' = Some ip \<and> ip \<notin> pool_held (ss_pool st)
          \<and> pool_held (ss_pool st') = insert ip (pool_held (ss_pool st)))
     \<or> (\<exists>ip. se_ip s = Some ip \<and> se_ip s' = None \<and> pool_held (ss_pool st') = pool_held (ss_pool st) - {ip}))"
  using step
proof (cases rule: sess_step.cases)
  case (AllocFail p)
  with pool.alloc_None [OF pi] pi show ?thesis by auto
next
  case (AllocOk p ip)
  then have "se_ip s = None" using wf by (auto simp: session_wf_def holds_defs)
  with AllocOk pool.alloc_Some [OF pi] show ?thesis by auto
next
  case (Release ip)
  with pool.release_law [OF pi, of ip] show ?thesis by (auto simp: release_ip_def)
next
  case (ReleaseFailed ip)
  with pool.release_law [OF pi, of ip] show ?thesis by (auto simp: release_ip_def)
qed (use pi in \<open>auto simp: guard_defs\<close>)

lemma step_routes:
  assumes step: "sess_step (st, s) (st', s')" and ri: "router_invar (ss_router st)" and wf: "session_wf s"
  shows "router_invar (ss_router st') \<and>
    (\<forall>ip q. routes (ss_router st') ip = Some q \<longrightarrow>
       se_handle s' = Some ip \<or> (\<exists>q'. routes (ss_router st) ip = Some q') \<and> se_handle s \<noteq> Some ip)"
  using step
proof (cases rule: sess_step.cases)
  case (Register ip r h q)
  then have "se_handle s = None" using wf by (cases "se_kind s") (auto simp: session_wf_def holds_defs)
  with router.register_law [OF ri Register(5)] Register show ?thesis by auto
next
  case (DropHandle ip)
  with router.drop_law [OF ri, of "\<lparr>handle_ip = ip\<rparr>"] show ?thesis by (auto simp: drop_handle_def)
qed (use ri wf in \<open>auto simp: guard_defs\<close>)

lemma act_invar:
  assumes step: "sess_step (st, s) (st', s')" and inv: "sessions_invar (st, xs @ s # ys)"
  shows "sessions_invar (st', xs @ s' # ys)"
proof -
  from inv have wf: "session_wf s" and pi: "pool_invar (ss_pool st)" and ri: "router_invar (ss_router st)"
    and dis: "distinct (addresses (xs @ s # ys))" and held: "pool_held (ss_pool st) = set (addresses (xs @ s # ys))"
    and owned: "\<And>ip q. routes (ss_router st) ip = Some q \<Longrightarrow> \<exists>t \<in> set (xs @ s # ys). se_handle t = Some ip"
    by (auto simp: sessions_invar_def)
  have "distinct (addresses (xs @ s' # ys)) \<and> pool_held (ss_pool st') = set (addresses (xs @ s' # ys))"
    using step_pool [OF step pi wf] dis held by (auto split: option.splits)
  moreover have "\<forall>ip q. routes (ss_router st') ip = Some q \<longrightarrow> (\<exists>t \<in> set (xs @ s' # ys). se_handle t = Some ip)"
    using step_routes [OF step ri wf] owned by fastforce
  ultimately show ?thesis
    using inv step_counters [OF step wf] step_pool [OF step pi wf, THEN conjunct1]
      step_routes [OF step ri wf, THEN conjunct1] sess_step_wf [OF step wf]
    by (simp add: sessions_invar_def)
qed

lemma sys_step_invar: "sys_step c c' \<Longrightarrow> sessions_invar c \<Longrightarrow> sessions_invar c'"
proof (induction rule: sys_step.induct)
  case (Act st s st' s' xs ys)
  then show ?case by (rule act_invar)
next
  case (Spawn k st ss)
  then show ?case by (simp add: sessions_invar_def session_new_wf session_new_fields)
next
  case (Other st st' ss)
  then show ?case by (simp add: sessions_invar_def others_quiet_def)
qed

lemma reachable_invar: "reachable c \<Longrightarrow> sessions_invar c"
  by (induction rule: reachable.induct) (auto simp: sessions_invar_def server_fresh_def dest: sys_step_invar)

section \<open>The handlers are runs of the step relation\<close>

text \<open>A lone task that finishes, leaving the shared state \<open>st'\<close>.\<close>

definition finishes :: "server_state \<times> session \<Rightarrow> server_state \<Rightarrow> bool" where
  "finishes c st' \<longleftrightarrow> (\<exists>s'. se_pc s' = PDone \<and> sys_step\<^sup>*\<^sup>* (fst c, [snd c]) (st', [s']))"

lemma fin_done: "se_pc s = PDone \<Longrightarrow> finishes (st, s) st"
  by (auto simp: finishes_def)

lemma fin_act: "sess_step (st, s) (st1, s1) \<Longrightarrow> finishes (st1, s1) st' \<Longrightarrow> finishes (st, s) st'"
  using Act [of st s st1 s1 "[]" "[]"] by (auto simp: finishes_def intro: converse_rtranclp_into_rtranclp)

lemma fin_other: "others_quiet st st1 \<Longrightarrow> finishes (st1, s) st' \<Longrightarrow> finishes (st, s) st'"
  using Other [of st st1 "[s]"] by (auto simp: finishes_def intro: converse_rtranclp_into_rtranclp)

lemma fin_eq: "finishes c st1 \<Longrightarrow> st1 = st2 \<Longrightarrow> finishes c st2"
  by simp

lemma fin_conn: "se_pc s = PDropConn \<Longrightarrow> finishes (st, s) (ConnectionGuard_drop st)"
  by (rule fin_act [OF sess_step.DropConn fin_done]) simp_all

lemma fin_session:
  "se_pc s = PDropSession \<Longrightarrow> finishes (st, s) (ConnectionGuard_drop (SessionGuard_drop (se_user s) st))"
  by (rule fin_act [OF sess_step.DropSession fin_conn]) simp_all

lemma fin_handle:
  assumes "se_pc s = PDropHandle" "se_handle s = Some ip"
  shows "finishes (st, s) (ConnectionGuard_drop (SessionGuard_drop (se_user s) (drop_handle \<lparr>handle_ip = ip\<rparr> st)))"
  using fin_act [OF sess_step.DropHandle [OF assms, of st] fin_session] by simp

lemma fin_release:
  assumes "se_pc s = PRelease" "se_kind s \<noteq> KWs" "se_ip s = Some ip" "se_handle s = Some ip"
  shows "finishes (st, s)
    (ConnectionGuard_drop (SessionGuard_drop (se_user s) (drop_handle \<lparr>handle_ip = ip\<rparr> (release_ip ip st))))"
  using fin_act [OF sess_step.Release [OF assms(1,3), of st] fin_handle, of ip] assms by simp

lemma fin_release_ws:
  assumes "se_pc s = PRelease" "se_kind s = KWs" "se_ip s = Some ip"
  shows "finishes (st, s) (ConnectionGuard_drop (SessionGuard_drop (se_user s) (release_ip ip st)))"
  using fin_act [OF sess_step.Release [OF assms(1,3), of st] fin_session] assms by simp

text \<open>A tunnel, whatever it does, leaves the shared resources alone while it runs.\<close>

lemma fin_tunnel:
  assumes "se_pc s = PTunnel" "others_quiet st (tun st)" "finishes (tun st, s\<lparr>se_pc := PRelease\<rparr>) st'"
  shows "finishes (st, s) st'"
  by (rule fin_other [OF assms(2) fin_act [OF sess_step.Ends assms(3)]]) (rule assms(1))

lemma quic_from_alloc:
  assumes s: "se_pc s = PAlloc" "se_kind s = KQuic"
    and al: "IpPool_allocate (ss_pool st) = (p, Some ip)"
    and reg: "ClientRouter_register (ss_router st) ip CLIENT_CHANNEL_SIZE = (r, h, q)"
    and quiet: "\<And>st. others_quiet st (tun st)"
  shows "finishes (st, s) (ConnectionGuard_drop (SessionGuard_drop (se_user s)
      (drop_handle h (release_ip ip (st\<lparr>ss_pool := p, ss_router := r\<rparr>)))))"
    and "finishes (st, s) (ConnectionGuard_drop (SessionGuard_drop (se_user s)
      (drop_handle h (release_ip ip (tun (st\<lparr>ss_pool := p, ss_router := r\<rparr>))))))"
proof -
  have h: "h = \<lparr>handle_ip = ip\<rparr>" using reg by (auto simp: ClientRouter_register_def Let_def)
  let ?s = "s\<lparr>se_ip := Some ip, se_pc := PAnswer, se_handle := Some ip\<rparr>"
  have up: "finishes (st, s) st'" if "finishes (st\<lparr>ss_pool := p, ss_router := r\<rparr>, ?s) st'" for st'
    by (rule fin_act [OF sess_step.AllocOk [OF s(1) al] fin_act [OF sess_step.Register [where ip = ip and r = r and h = h and q = q]]])
      (use s reg that in simp_all)
  show "finishes (st, s) (ConnectionGuard_drop (SessionGuard_drop (se_user s)
      (drop_handle h (release_ip ip (st\<lparr>ss_pool := p, ss_router := r\<rparr>)))))"
    by (rule up, rule fin_act [OF sess_step.AnswerFail]) (use s fin_release [of "?s\<lparr>se_pc := PRelease\<rparr>" ip] in \<open>simp_all add: h\<close>)
  show "finishes (st, s) (ConnectionGuard_drop (SessionGuard_drop (se_user s)
      (drop_handle h (release_ip ip (tun (st\<lparr>ss_pool := p, ss_router := r\<rparr>))))))"
    by (rule up, rule fin_act [OF sess_step.AnswerOk], simp, rule fin_tunnel [where tun = tun])
      (use s quiet fin_release [of "?s\<lparr>se_pc := PRelease\<rparr>" ip] in \<open>simp_all add: h\<close>)
qed

lemma vpn_control_finishes:
  assumes s: "se_pc s = PAuth" "se_kind s = KQuic" and quiet: "\<And>ip q st. others_quiet st (tun ip q st)"
  shows "finishes (st, s) (fst (vpn_control hmac io tun st))"
proof -
  define sh where "sh = inc_handshakes_total st"
  have abort: "finishes (st, s) (ConnectionGuard_drop st)"
    by (rule fin_act [OF sess_step.AuthAbort fin_conn]) (simp_all add: s)
  have failed: "finishes (st, s) (ConnectionGuard_drop (inc_handshakes_failed sh))"
    unfolding sh_def by (rule fin_act [OF sess_step.AuthFail fin_conn]) (simp_all add: s)
  show ?thesis
  proof (cases "Option.bind (auth_read io) ClientAuth_decode")
    case None
    with abort show ?thesis by (auto simp: vpn_control_def split: option.splits)
  next
    case (Some a)
    then obtain buf where buf: "auth_read io = Some buf" "ClientAuth_decode buf = Some a"
      by (auto simp: bind_eq_Some_conv)
    show ?thesis
    proof (cases "AuthMode_verify hmac (ss_auth sh) (ca_nonce a) (ca_mac a)")
      case None
      with buf failed show ?thesis by (simp add: vpn_control_def Let_def sh_def)
    next
      case (Some u)
      let ?s = "s\<lparr>se_pc := PAlloc, se_user := u, se_sess := True\<rparr>" and ?st = "SessionGuard_new u sh"
      have up: "finishes (st, s) st'" if "finishes (?st, ?s) st'" for st'
        using fin_act [OF sess_step.AuthOkQuic [OF s, where u = u and st = st] that [unfolded sh_def]] .
      obtain p r where al: "IpPool_allocate (ss_pool ?st) = (p, r)" by fastforce
      show ?thesis
      proof (cases r)
        case None
        have "finishes (?st, ?s) (ConnectionGuard_drop (SessionGuard_drop u (?st\<lparr>ss_pool := p\<rparr>)))"
          by (rule fin_eq, rule fin_act [OF sess_step.AllocFail fin_session]) (use al None s in simp_all)
        from up [OF this] show ?thesis using buf Some al None by (simp add: vpn_control_def Let_def sh_def)
      next
        case (Some ip)
        obtain r1 h q where reg: "ClientRouter_register (ss_router ?st) ip CLIENT_CHANNEL_SIZE = (r1, h, q)"
          by (metis prod_cases3)
        note q = quic_from_alloc [of ?s ?st p ip r1 h q "tun ip q", OF _ _ _ reg quiet]
        from up [OF q(1)] up [OF q(2)] show ?thesis
          using buf \<open>AuthMode_verify hmac (ss_auth sh) (ca_nonce a) (ca_mac a) = Some u\<close> al Some reg s
          by (simp add: vpn_control_def Let_def sh_def)
      qed
    qed
  qed
qed

lemma stream_answer:
  assumes s: "se_pc s = PAlloc" "se_kind s \<noteq> KQuic"
    and al: "IpPool_allocate (ss_pool st) = (p, Some ip)"
  shows "finishes (st, s) (release_ip ip (st\<lparr>ss_pool := p\<rparr>))"
    and "finishes (SessionGuard_new (se_user s) (ConnectionGuard_new (st\<lparr>ss_pool := p\<rparr>)),
           s\<lparr>se_ip := Some ip, se_pc := if se_kind s = KTcp then PRegister else PTunnel, se_conn := True, se_sess := True\<rparr>) st'
         \<Longrightarrow> finishes (st, s) st'"
proof -
  show "finishes (st, s) (release_ip ip (st\<lparr>ss_pool := p\<rparr>))"
    by (rule fin_act [OF sess_step.AllocOk [OF s(1) al]], rule fin_act [OF sess_step.AnswerFail],
        simp add: s, rule fin_act [OF sess_step.ReleaseFailed fin_done]) (simp_all add: s)
  show "finishes (st, s) st'"
    if "finishes (SessionGuard_new (se_user s) (ConnectionGuard_new (st\<lparr>ss_pool := p\<rparr>)),
           s\<lparr>se_ip := Some ip, se_pc := if se_kind s = KTcp then PRegister else PTunnel, se_conn := True, se_sess := True\<rparr>) st'"
    by (rule fin_act [OF sess_step.AllocOk [OF s(1) al]], rule fin_act [OF sess_step.AnswerOk],
        simp add: s, rule fin_act [OF sess_step.Count]) (use s that in simp_all)
qed

lemma ws_finishes:
  assumes quiet: "\<And>ip st. others_quiet st (tun ip st)"
  shows "finishes (st, session_new KWs) (fst (handle_ws_connection hmac io tun st))"
proof -
  let ?a = "(session_new KWs)\<lparr>se_pc := PAuth\<rparr>"
  have start: "finishes (st, session_new KWs) st'" if "finishes (st, ?a) st'" for st'
    by (rule fin_act [OF sess_step.Begin that]) simp_all
  have abort: "finishes (st, ?a) st"
    by (rule fin_act [OF sess_step.AuthAbort fin_done]) simp_all
  have failed: "finishes (st, ?a) (inc_handshakes_failed (inc_handshakes_total st))"
    by (rule fin_act [OF sess_step.AuthFail fin_done]) simp_all
  show ?thesis
  proof (cases "\<exists>m a. ws_accept_ok io \<and> ws_first io = WsBinary m \<and> \<not> length m < CLIENT_AUTH_LEN \<and> ClientAuth_decode m = Some a")
    case False
    then have "handle_ws_connection hmac io tun st = (st, [])"
      by (auto simp: handle_ws_connection_def split: ws_first.split option.split)
    with start [OF abort] show ?thesis by simp
  next
    case True
    then obtain m a where m: "ws_accept_ok io" "ws_first io = WsBinary m" "\<not> length m < CLIENT_AUTH_LEN"
      "ClientAuth_decode m = Some a" by blast
    define sh where "sh = inc_handshakes_total st"
    show ?thesis
    proof (cases "AuthMode_verify hmac (ss_auth sh) (ca_nonce a) (ca_mac a)")
      case None
      with m start [OF failed] show ?thesis by (simp add: handle_ws_connection_def Let_def sh_def)
    next
      case (Some u)
      let ?s = "?a\<lparr>se_pc := PAlloc, se_user := u\<rparr>"
      have up: "finishes (st, session_new KWs) st'" if "finishes (sh, ?s) st'" for st'
        by (rule start, rule fin_act [OF sess_step.AuthOk [where u = u]]) (use that in \<open>simp_all add: sh_def\<close>)
      obtain p r where al: "IpPool_allocate (ss_pool sh) = (p, r)" by fastforce
      show ?thesis
      proof (cases r)
        case None
        have "finishes (sh, ?s) (sh\<lparr>ss_pool := p\<rparr>)"
          by (rule fin_act [OF sess_step.AllocFail fin_done]) (use al None in simp_all)
        from up [OF this] m Some al None show ?thesis by (simp add: handle_ws_connection_def Let_def sh_def)
      next
        case (Some ip)
        note an = stream_answer [of ?s sh p ip]
        let ?t = "SessionGuard_new u (ConnectionGuard_new (sh\<lparr>ss_pool := p\<rparr>))"
        have "finishes (sh, ?s) (ConnectionGuard_drop (SessionGuard_drop u (release_ip ip (tun ip ?t))))"
          by (rule an(2), simp_all add: al Some)
            (rule fin_tunnel [where tun = "tun ip", OF _ quiet fin_eq [OF fin_release_ws]], simp_all)
        with up [OF an(1)] m \<open>AuthMode_verify hmac _ _ _ = _\<close> al Some show ?thesis
          by (auto simp: handle_ws_connection_def Let_def sh_def intro!: up [unfolded sh_def])
      qed
    qed
  qed
qed

lemma tcp_from_register:
  assumes s: "se_pc s = PRegister" "se_kind s = KTcp" "se_ip s = Some ip"
    and reg: "ClientRouter_register (ss_router st) ip TCP_CLIENT_CHANNEL_SIZE = (r, h, q)"
    and quiet: "\<And>st. others_quiet st (tun st)"
  shows "finishes (st, s) (ConnectionGuard_drop (SessionGuard_drop (se_user s)
      (drop_handle h (release_ip ip (tun (st\<lparr>ss_router := r\<rparr>))))))"
proof -
  have h: "h = \<lparr>handle_ip = ip\<rparr>" using reg by (auto simp: ClientRouter_register_def Let_def)
  show ?thesis
    by (rule fin_act [OF sess_step.Register [where ip = ip and r = r and h = h and q = q]], simp_all add: s reg h,
        rule fin_tunnel [where tun = tun, OF _ quiet fin_eq [OF fin_release]])
      (simp_all add: s)
qed

lemma tcp_not_accepted:
  assumes "\<not> (\<exists>b u. tls_accept io = Inr () \<and> first_read io = FullRead b \<and> accepted_as v b = Some u)"
  shows "\<exists>out. handle_tcp_connection v cfg io pool = (pool, out) \<and> (\<forall>ip u. outcome out \<noteq> Vpn ip u)"
  using assms handle_not_accepted [of io _ v cfg pool] proxy_outcome(1) [of io]
  by (cases "tls_accept io"; cases "first_read io") (auto simp: handle_tcp_connection_def)

lemma tcp_finishes:
  assumes quiet: "\<And>ip q st. others_quiet st (tun ip q st)"
  shows "finishes (st, session_new KTcp) (fst (tcp_reality_task hmac io tun st))"
proof -
  let ?v = "AuthMode_verify hmac (ss_auth st)" and ?a = "(session_new KTcp)\<lparr>se_pc := PAuth\<rparr>"
  have start: "finishes (st, session_new KTcp) st'" if "finishes (st, ?a) st'" for st'
    by (rule fin_act [OF sess_step.Begin that]) simp_all
  have abort: "finishes (st, ?a) st"
    by (rule fin_act [OF sess_step.AuthAbort fin_done]) simp_all
  show ?thesis
  proof (cases "\<exists>b u. tls_accept io = Inr () \<and> first_read io = FullRead b \<and> accepted_as ?v b = Some u")
    case False
    then obtain out where "handle_tcp_connection ?v
        \<lparr>rc_server_ip = ss_server_ip st, rc_dns_ip = ss_dns_ip st, rc_mtu = ss_mtu st\<rparr> io (ss_pool st) = (ss_pool st, out)"
      and "\<forall>ip u. outcome out \<noteq> Vpn ip u"
      using tcp_not_accepted [OF False] by blast
    with start [OF abort] show ?thesis
      by (cases "outcome out") (simp_all add: tcp_reality_task_def Let_def)
  next
    case True
    then obtain b u where b: "tls_accept io = Inr ()" "first_read io = FullRead b" "accepted_as ?v b = Some u" by blast
    let ?s = "?a\<lparr>se_pc := PAlloc, se_user := u\<rparr>"
    have up: "finishes (st, session_new KTcp) st'" if "finishes (st, ?s) st'" for st'
      by (rule start, rule fin_act [OF sess_step.AuthOk [where u = u]]) (use that in simp_all)
    obtain p r where al: "IpPool_allocate (ss_pool st) = (p, r)" by fastforce
    show ?thesis
    proof (cases r)
      case None
      have "finishes (st, ?s) (st\<lparr>ss_pool := p\<rparr>)"
        by (rule fin_act [OF sess_step.AllocFail fin_done]) (use al None in simp_all)
      from up [OF this] al None show ?thesis by (simp add: tcp_reality_task_def handle_accepted [OF b] Let_def)
    next
      case (Some ip)
      note an = stream_answer [of ?s st p ip]
      let ?t = "SessionGuard_new u (ConnectionGuard_new (st\<lparr>ss_pool := p\<rparr>))"
      obtain r1 h q where reg: "ClientRouter_register (ss_router ?t) ip TCP_CLIENT_CHANNEL_SIZE = (r1, h, q)"
        by (metis prod_cases3)
      have "finishes (st, ?s) (ConnectionGuard_drop (SessionGuard_drop u
          (drop_handle h (release_ip ip (tun ip q (?t\<lparr>ss_router := r1\<rparr>))))))"
        by (rule an(2), simp_all add: al Some)
          (rule fin_eq [OF tcp_from_register [OF _ _ _ reg, of _ "tun ip q"]], simp_all add: quiet)
      from up [OF this] up [OF an(1)] al Some reg show ?thesis
        by (simp add: tcp_reality_task_def handle_accepted [OF b] Let_def release_ip_def)
    qed
  qed
qed

text \<open>Both QUIC handlers, with a tunnel that keeps what sessions own.\<close>

lemma quic_finishes:
  assumes "\<And>padded ip q st. others_quiet st (tun padded ip q st)"
  shows "finishes (st, session_new KQuic) (fst (handle_vpn hmac io (tun False) st))
    \<and> finishes (st, session_new KQuic) (fst (handle_vpn_h3 hmac io (tun True) st))"
proof -
  let ?a = "(session_new KQuic)\<lparr>se_pc := PAuth, se_conn := True\<rparr>"
  have start: "finishes (st, session_new KQuic) st'" if "finishes (ConnectionGuard_new st, ?a) st'" for st'
    by (rule fin_act [OF sess_step.Open that]) simp_all
  have abort: "finishes (ConnectionGuard_new st, ?a) (ConnectionGuard_drop (ConnectionGuard_new st))"
    by (rule fin_act [OF sess_step.AuthAbort fin_conn]) simp_all
  have control: "finishes (ConnectionGuard_new st, ?a) (fst (vpn_control hmac io (tun pd) (ConnectionGuard_new st)))" for pd
    by (rule vpn_control_finishes) (simp_all add: assms)
  show ?thesis using start [OF abort] start [OF control] by (simp add: handle_vpn_def handle_vpn_h3_def Let_def)
qed

section \<open>Properties\<close>

lemma sample_server_fresh: "server_fresh sample_server"
  by (simp add: server_fresh_def sample_server_def pool_invar_new pool_held_new router_invar_new Metrics_new_def)
    (simp add: ClientRouter_new_def)

text \<open>
  Claim C2. Whatever the interleaving of its tasks, the server keeps its books: addresses held by live
  sessions are pairwise different, the pool holds exactly them and at most 253, the connection counter
  and the session gauges (in all and per user) count exactly the sessions that hold a guard, only
  sessions with a live handle are routed to, and each session's task is in a well-formed state.
\<close>

theorem sessions_exact:
  assumes "reachable (st, ss)"
  shows "list_all session_wf ss \<and> distinct (addresses ss) \<and> pool_held (ss_pool st) = set (addresses ss)
    \<and> length (addresses ss) \<le> 253
    \<and> ss_active st = of_int (num se_conn ss) \<and> active_sessions (ss_metrics st) = num se_sess ss
    \<and> (\<forall>u. sessions_by_user (ss_metrics st) u = num (\<lambda>s. se_sess s \<and> se_user s = u) ss)
    \<and> dom (routes (ss_router st)) \<subseteq> {ip. \<exists>s \<in> set ss. se_handle s = Some ip}"
proof -
  from reachable_invar [OF assms] have inv: "sessions_invar (st, ss)" .
  then have "pool_invar (ss_pool st)" and d: "distinct (addresses ss)" and h: "pool_held (ss_pool st) = set (addresses ss)"
    by (simp_all add: sessions_invar_def)
  with pool.card_held_le [of "ss_pool st"] have "length (addresses ss) \<le> 253"
    by (simp add: distinct_card [symmetric] card_pool_space)
  with inv show ?thesis by (auto simp: sessions_invar_def)
qed

theorem sessions_exact_witness:
  "pool_held (ss_pool sample_server) = set (addresses [session_new KTcp])
   \<and> active_sessions (ss_metrics sample_server) = num se_sess [session_new KTcp]"
  using sessions_exact [OF reachable.Step [OF reachable.Init [OF sample_server_fresh] sys_step.Spawn [of KTcp]]]
  by simp

text \<open>Where a task stands on its way to the end.\<close>

fun pc_rank :: "kind \<Rightarrow> session_pc \<Rightarrow> nat" where
  "pc_rank k PDone = 0"
| "pc_rank k PDropConn = 1"
| "pc_rank k PDropSession = 2"
| "pc_rank k PDropHandle = 3"
| "pc_rank k PReleaseFailed = 3"
| "pc_rank k PRelease = 4"
| "pc_rank k PTunnel = 5"
| "pc_rank k PRegister = (if k = KQuic then 8 else 6)"
| "pc_rank k PCount = 7"
| "pc_rank k PAnswer = (if k = KQuic then 7 else 8)"
| "pc_rank k PAlloc = 9"
| "pc_rank k PAuth = 10"
| "pc_rank k PStart = 11"

lemma step_rank:
  assumes "sess_step (st, s) (st', s')"
  shows "se_kind s' = se_kind s \<and> pc_rank (se_kind s) (se_pc s') < pc_rank (se_kind s) (se_pc s)"
  using assms by (cases rule: sess_step.cases) simp_all

lemma step_enabled:
  assumes wf: "session_wf s" and "se_pc s \<noteq> PDone"
  shows "\<exists>c. sess_step (st, s) c"
proof -
  from wf have ip: "holds_ip (se_kind s) (se_pc s) \<Longrightarrow> \<exists>ip. se_ip s = Some ip"
    and ha: "holds_handle (se_kind s) (se_pc s) \<Longrightarrow> \<exists>ip. se_handle s = Some ip"
    and pos: "pc_possible (se_kind s) (se_pc s)"
    by (auto simp: session_wf_def)
  show ?thesis
  proof (cases "se_pc s")
    case PStart
    then show ?thesis using sess_step.Open sess_step.Begin by (cases "se_kind s = KQuic") blast+
  next
    case PAlloc
    obtain p r where "IpPool_allocate (ss_pool st) = (p, r)" by fastforce
    with PAlloc show ?thesis using sess_step.AllocFail sess_step.AllocOk by (cases r) blast+
  next
    case PRegister
    with ip obtain ip where "se_ip s = Some ip" by (auto simp: holds_ip_def)
    with PRegister show ?thesis using sess_step.Register by (metis prod_cases3)
  next
    case PRelease
    with ip obtain ip where "se_ip s = Some ip" by (auto simp: holds_ip_def)
    with PRelease show ?thesis using sess_step.Release by blast
  next
    case PReleaseFailed
    with ip obtain ip where "se_ip s = Some ip" by (auto simp: holds_ip_def)
    with PReleaseFailed show ?thesis using sess_step.ReleaseFailed by blast
  next
    case PDropHandle
    with pos have "holds_handle (se_kind s) (se_pc s)" by (auto simp: holds_handle_def pc_possible_def split: kind.splits)
    with PDropHandle ha show ?thesis using sess_step.DropHandle by blast
  qed (use assms(2) sess_step.AuthAbort sess_step.AnswerOk sess_step.Count sess_step.Ends sess_step.DropSession
      sess_step.DropConn in \<open>blast+\<close>)
qed

lemma session_ends:
  "session_wf s \<Longrightarrow> \<exists>st' s'. sess_step\<^sup>*\<^sup>* (st, s) (st', s') \<and> se_pc s' = PDone"
proof (induction "pc_rank (se_kind s) (se_pc s)" arbitrary: st s rule: less_induct)
  case less
  show ?case
  proof (cases "se_pc s = PDone")
    case False
    with step_enabled [OF less.prems] obtain st1 s1 where one: "sess_step (st, s) (st1, s1)" by fastforce
    with less.hyps [of s1 st1] step_rank [OF one] sess_step_wf [OF one less.prems]
    obtain st' s' where "sess_step\<^sup>*\<^sup>* (st1, s1) (st', s')" "se_pc s' = PDone" by auto
    with one show ?thesis by (blast intro: converse_rtranclp_into_rtranclp)
  qed blast
qed

text \<open>
  Claim C3. No session can get stuck and none runs for ever: from every reachable state each task has a
  run of its own steps to its end, along every run the distance to the end strictly decreases, and once
  all tasks have ended the server is as it was at the start: no address held, nobody routed to, the
  counter and all gauges at zero.
\<close>

theorem sessions_end_clean:
  assumes "reachable (st, ss)"
  shows "(\<forall>s \<in> set ss. \<exists>st' s'. sess_step\<^sup>*\<^sup>* (st, s) (st', s') \<and> se_pc s' = PDone)
    \<and> (\<forall>s \<in> set ss. \<forall>st' s'. sess_step (st, s) (st', s') \<longrightarrow>
         pc_rank (se_kind s') (se_pc s') < pc_rank (se_kind s) (se_pc s))
    \<and> ((\<forall>s \<in> set ss. se_pc s = PDone) \<longrightarrow>
         pool_held (ss_pool st) = {} \<and> routes (ss_router st) = Map.empty \<and> ss_active st = 0
         \<and> active_sessions (ss_metrics st) = 0 \<and> sessions_by_user (ss_metrics st) = (\<lambda>_. 0))"
proof -
  from reachable_invar [OF assms] have inv: "sessions_invar (st, ss)" .
  then have wf: "\<forall>s \<in> set ss. session_wf s" by (simp add: sessions_invar_def list_all_iff)
  have none: "num P ss = 0 \<and> addresses ss = []"
    if "\<forall>s \<in> set ss. \<not> P s" "\<forall>s \<in> set ss. se_ip s = None" for P
    using that by (induction ss) auto
  have free: "se_ip s = None \<and> \<not> se_conn s \<and> \<not> se_sess s \<and> se_handle s = None" if "s \<in> set ss" "se_pc s = PDone" for s
    using wf that by (cases "se_kind s") (auto simp: session_wf_def holds_defs)
  have "pool_held (ss_pool st) = {} \<and> routes (ss_router st) = Map.empty \<and> ss_active st = 0
         \<and> active_sessions (ss_metrics st) = 0 \<and> sessions_by_user (ss_metrics st) = (\<lambda>_. 0)"
    if "\<forall>s \<in> set ss. se_pc s = PDone"
    using inv free that none [of se_conn] none [of se_sess] none [of "\<lambda>s. se_sess s \<and> se_user s = u" for u]
    by (fastforce simp: sessions_invar_def fun_eq_iff)
  with session_ends wf step_rank show ?thesis by metis
qed

theorem sessions_end_clean_witness:
  "(\<exists>st' s'. sess_step\<^sup>*\<^sup>* (sample_server, session_new KWs) (st', s') \<and> se_pc s' = PDone)
   \<and> routes (ss_router sample_server) = Map.empty"
  using sessions_end_clean [OF reachable.Step [OF reachable.Init [OF sample_server_fresh] sys_step.Spawn [of KWs]]]
    sessions_end_clean [OF reachable.Init [OF sample_server_fresh]]
  by simp

section \<open>Two races\<close>

lemma reach_act: "reachable (st, xs @ s # ys) \<Longrightarrow> sess_step (st, s) (st', s') \<Longrightarrow> reachable (st', xs @ s' # ys)"
  by (rule reachable.Step [OF _ sys_step.Act])

lemma reach_spawn:
  "reachable (st, ss) \<Longrightarrow> ss_active st < ss_max st \<Longrightarrow> reachable (st, ss @ [session_new KQuic])"
  by (rule reachable.Step [OF _ sys_step.Spawn]) (auto simp: accept_refused_def)

lemma reach_tunnel:
  assumes "reachable (st, xs @ [session_new KQuic])"
    and al: "IpPool_allocate (ss_pool st) = (p, Some ip)"
    and reg: "ClientRouter_register (ss_router st) ip CLIENT_CHANNEL_SIZE = (r, h, q)"
  shows "\<exists>st' s. reachable (st', xs @ [s]) \<and> se_kind s = KQuic \<and> se_pc s = PTunnel \<and> se_ip s = Some ip
    \<and> se_handle s = Some ip \<and> ss_pool st' = p \<and> ss_router st' = r \<and> ss_active st' = ss_active st + 1
    \<and> ss_max st' = ss_max st"
proof -
  let ?s1 = "(session_new KQuic)\<lparr>se_pc := PAuth, se_conn := True\<rparr>" and ?t1 = "ConnectionGuard_new st"
  let ?s2 = "?s1\<lparr>se_pc := PAlloc, se_user := ''u'', se_sess := True\<rparr>"
    and ?t2 = "SessionGuard_new ''u'' (inc_handshakes_total ?t1)"
  let ?s3 = "?s2\<lparr>se_pc := PRegister, se_ip := Some ip\<rparr>" and ?t3 = "?t2\<lparr>ss_pool := p\<rparr>"
  let ?s4 = "?s3\<lparr>se_pc := PAnswer, se_handle := Some ip\<rparr>" and ?t4 = "?t3\<lparr>ss_router := r\<rparr>"
  have "reachable (?t1, xs @ [?s1])"
    by (rule reach_act [OF assms(1) sess_step.Open]) simp_all
  then have "reachable (?t2, xs @ [?s2])"
    by (rule reach_act [OF _ sess_step.AuthOkQuic]) simp_all
  moreover have "sess_step (?t2, ?s2) (?t3, ?s3)"
    using sess_step.AllocOk [of ?s2 ?t2 p ip] al by (simp add: guard_defs)
  ultimately have "reachable (?t3, xs @ [?s3])" by (rule reach_act)
  moreover have "sess_step (?t3, ?s3) (?t4, ?s4)"
    using sess_step.Register [of ?s3 ip ?t3 r h q] reg by (simp add: guard_defs)
  ultimately have "reachable (?t4, xs @ [?s4])" by (rule reach_act)
  then have "reachable (?t4, xs @ [?s4\<lparr>se_pc := PTunnel\<rparr>])"
    using reach_act [OF _ sess_step.AnswerOk, of ?t4 xs ?s4 "[]"] by simp
  then show ?thesis 
    by (intro exI [of _ ?t4] exI [of _ "?s4\<lparr>se_pc := PTunnel\<rparr>"]) (simp add: guard_defs)
qed

lemma fresh_pool_alloc:
  assumes "pool_allocated p = {}"
  shows "IpPool_allocate p = (p\<lparr>pool_allocated := {2}\<rparr>, Some (pool_addr p 2))"
    "IpPool_release (p\<lparr>pool_allocated := {2}\<rparr>) (pool_addr p 2) = p"
  using assms
  by (auto simp: IpPool_allocate_def host_range_def upt_conv_Cons IpPool_release_def pool_addr_def split: prod.splits)

text \<open>
  Claim C40. The order of cleanup is a race. A handler gives its address back before its route is dropped,
  so on every fresh server that takes two connections, a second client can be given the address in
  between; when the first task then drops its handle, the second client's session is live and holds the
  address while no route leads to it, so nothing the server reads from the TUN device reaches it.
\<close>

theorem live_session_unrouted:
  assumes "server_fresh st" "1 < ss_max st"
  shows "\<exists>st' ss s ip. reachable (st', ss) \<and> s \<in> set ss \<and> se_kind s = KQuic \<and> se_pc s = PTunnel
    \<and> se_ip s = Some ip \<and> routes (ss_router st') ip = None"
proof -
  define p where "p = ss_pool st"
  define ip where "ip = pool_addr p 2"
  from assms have act: "ss_active st = 0" and "pool_held p = {}" by (simp_all add: server_fresh_def p_def)
  then have p: "pool_allocated p = {}" by (simp add: pool_held_def)
  note al = fresh_pool_alloc [OF p, folded ip_def]
  have spawn: "reachable (st, [] @ [session_new KQuic])"
    by (rule reach_spawn [OF reachable.Init [OF assms(1)]]) (use assms(2) act in \<open>auto intro: less_trans [rotated] simp: word_less_nat_alt\<close>)
  obtain r h q where reg: "ClientRouter_register (ss_router st) ip CLIENT_CHANNEL_SIZE = (r, h, q)" by (metis prod_cases3)
  from reach_tunnel [OF spawn al(1) [unfolded p_def] reg] obtain t1 s1 where
    t1: "reachable (t1, [s1])" "se_kind s1 = KQuic" "se_pc s1 = PTunnel" "se_ip s1 = Some ip" "se_handle s1 = Some ip"
      "ss_pool t1 = p\<lparr>pool_allocated := {2}\<rparr>" "ss_active t1 = 1" "ss_max t1 = ss_max st"
    using act by (auto simp: p_def)
  let ?s1 = "s1\<lparr>se_pc := PRelease\<rparr>"
  let ?d1 = "?s1\<lparr>se_pc := PDropHandle, se_ip := None\<rparr>"
  have "reachable (release_ip ip t1, [?d1])"
    using reach_act [of t1 "[]" ?s1 "[]" "release_ip ip t1" ?d1] reach_act [of t1 "[]" s1 "[]" t1 ?s1]
      sess_step.Ends [of s1 t1] sess_step.Release [of ?s1 ip t1] t1 by simp
  then have sp: "reachable (release_ip ip t1, [?d1] @ [session_new KQuic])"
    by (rule reach_spawn) (use t1 assms(2) in \<open>simp add: release_ip_def\<close>)
  have al2: "IpPool_allocate (ss_pool (release_ip ip t1)) = (p\<lparr>pool_allocated := {2}\<rparr>, Some ip)"
    by (simp add: release_ip_def t1 al)
  obtain r2 h2 q2 where reg2:
    "ClientRouter_register (ss_router (release_ip ip t1)) ip CLIENT_CHANNEL_SIZE = (r2, h2, q2)" by (metis prod_cases3)
  from reach_tunnel [OF sp al2 reg2] obtain t2 s2 where t2: "reachable (t2, [] @ ?d1 # [s2])" "se_kind s2 = KQuic" "se_pc s2 = PTunnel" "se_ip s2 = Some ip" by auto
  have "reachable (drop_handle \<lparr>handle_ip = ip\<rparr> t2, [] @ ?d1\<lparr>se_pc := PDropSession, se_handle := None\<rparr> # [s2])"
    by (rule reach_act [OF t2(1) sess_step.DropHandle]) (simp_all add: t1)
  with t2 show ?thesis
    by (intro exI [of _ "drop_handle \<lparr>handle_ip = ip\<rparr> t2"] exI [of _ "[?d1\<lparr>se_pc := PDropSession, se_handle := None\<rparr>, s2]"]
        exI [of _ s2] exI [of _ ip])
      (simp add: drop_handle_def ClientHandle_drop_def ClientRouter_unregister_def)
qed

theorem live_session_unrouted_witness:
  "\<exists>st' ss s ip. reachable (st', ss) \<and> s \<in> set ss \<and> se_kind s = KQuic \<and> se_pc s = PTunnel
    \<and> se_ip s = Some ip \<and> routes (ss_router st') ip = None"
  by (rule live_session_unrouted [OF sample_server_fresh]) (simp add: sample_server_def)

text \<open>A server that has accepted \<open>n\<close> QUIC connections, \<open>k\<close> of which have counted themselves.\<close>

lemma reach_accepted:
  "server_fresh st \<Longrightarrow> 0 < ss_max st \<Longrightarrow> reachable (st, replicate n (session_new KQuic))"
proof (induction n)
  case (Suc n)
  then have "reachable (st, replicate n (session_new KQuic) @ [session_new KQuic])"
    by (intro reach_spawn) (auto simp: server_fresh_def)
  then show ?case by (simp add: replicate_append_same)
qed (simp add: reachable.Init)

definition counted :: session where
  "counted = (session_new KQuic)\<lparr>se_pc := PAuth, se_conn := True\<rparr>"

lemma reach_counted:
  assumes "reachable (st, replicate n (session_new KQuic))"
  shows "k \<le> n \<Longrightarrow> \<exists>st'. reachable (st', replicate k counted @ replicate (n - k) (session_new KQuic))
    \<and> ss_active st' = ss_active st + of_nat k \<and> ss_max st' = ss_max st"
proof (induction k)
  case (Suc k)
  then obtain st' where st': "reachable (st', replicate k counted @ replicate (n - k) (session_new KQuic))"
    "ss_active st' = ss_active st + of_nat k" "ss_max st' = ss_max st" by auto
  from Suc.prems have "n - k = Suc (n - Suc k)" by simp
  with st'(1) have "reachable (st', replicate k counted @ session_new KQuic # replicate (n - Suc k) (session_new KQuic))"
    by simp
  from reach_act [OF this sess_step.Open]
  have "reachable (ConnectionGuard_new st', replicate k counted @ counted # replicate (n - Suc k) (session_new KQuic))"
    by (simp add: counted_def)
  then have "reachable (ConnectionGuard_new st', replicate (Suc k) counted @ replicate (n - Suc k) (session_new KQuic))"
    by (simp add: replicate_app_Cons_same)
  with st' show ?case by (intro exI [of _ "ConnectionGuard_new st'"]) (simp add: guard_defs)
qed (use assms in auto)

text \<open>
  The connection limit is soft: the counter is compared when a connection is accepted but only
  raised by the connection's own task, so on a fresh server with any non-zero limit, any number of
  connections that arrive before their tasks run is accepted, and the counter then reaches it.
\<close>

theorem connection_limit_is_soft:
  assumes "server_fresh st" "0 < ss_max st" "unat (ss_max st) < n" "n < 2 ^ 32"
  shows "\<exists>st' ss. reachable (st', ss) \<and> unat (ss_active st') = n \<and> ss_max st' = ss_max st \<and> ss_max st' < ss_active st'"
proof -
  from reach_counted [OF reach_accepted [OF assms(1,2)], of n n] obtain st' where
    st': "reachable (st', replicate n counted)" "ss_active st' = of_nat n" "ss_max st' = ss_max st"
    using assms(1) by (auto simp: server_fresh_def)
  from assms(4) have "unat (of_nat n :: u32) = n" by (simp add: unat_of_nat take_bit_nat_eq_self)
  with st' assms(3) show ?thesis by (auto simp: word_less_nat_alt)
qed

theorem connection_limit_is_soft_witness:
  "\<exists>st' ss. reachable (st', ss) \<and> unat (ss_active st') = 1000 \<and> ss_max st' = 100 \<and> ss_max st' < ss_active st'"
  using connection_limit_is_soft [OF sample_server_fresh, of 1000] by (simp add: sample_server_def)

end
