(* ===== verification/VpnTunnel.thy ===== *)
theory VpnTunnel
  imports Tunnel Sessions
begin

text \<open>
  \<open>run_vpn_tunnel\<close> of \<^verbatim>\<open>src/crates/redpill-quic/src/server.rs\<close> as a whole: the task that sends what it
  pops from the client's queue, the loop that writes uploads to the device, the tasks that feed the shaper
  with round-trip times and report statistics, all on the shared state of the server while other tasks
  change it. A run is a list of events, one for each time a task gets on; counters of a turn in which the
  sending task loses its connection are not kept.
\<close>

section \<open>State and events\<close>

record vpn_tunnel =
  vt_server :: server_state
  vt_stats :: stats
  vt_batcher :: datagram_batcher
  vt_wire :: "bytes list"
  vt_tun :: "bytes list"
  vt_popped :: "bytes list"
  vt_sending :: bool
  vt_reports :: "stats_report list"

datatype vpn_event =
    VtPop nat dg_conn
  | VtFlush dg_conn
  | VtDatagram u64 bool "string + bytes"
  | VtRtt nat
  | VtReport
  | VtCancelled
  | VtOther "server_state \<Rightarrow> server_state"

definition vpn_tunnel_new :: "server_state \<Rightarrow> vpn_tunnel" where
  "vpn_tunnel_new st = \<lparr>vt_server = st, vt_stats = Stats_new, vt_batcher = DatagramBatcher_new, vt_wire = [], vt_tun = [],
     vt_popped = [], vt_sending = True, vt_reports = []\<rparr>"

section \<open>The tasks\<close>

definition vt_sender :: "vpn_tunnel \<Rightarrow> sender" where
  "vt_sender t = \<lparr>snd_batcher = vt_batcher t, snd_stats = vt_stats t, snd_metrics = ss_metrics (vt_server t), snd_wire = vt_wire t\<rparr>"

definition vt_receiver :: "vpn_tunnel \<Rightarrow> receiver" where
  "vt_receiver t = \<lparr>rcv_stats = vt_stats t, rcv_metrics = ss_metrics (vt_server t), rcv_shaper = ss_shaper (vt_server t), rcv_tun = vt_tun t\<rparr>"

text \<open>One turn of the sending task; a lost connection ends it.\<close>

definition vt_send :: "bool \<Rightarrow> dg_conn \<times> queue_event \<Rightarrow> vpn_tunnel \<Rightarrow> vpn_tunnel" where
  "vt_send padded e t =
     (case queue2dg_step padded e (vt_sender t) of
        Inl err \<Rightarrow> t\<lparr>vt_sending := False\<rparr>
      | Inr s \<Rightarrow> t\<lparr>vt_batcher := snd_batcher s, vt_stats := snd_stats s, vt_wire := snd_wire s,
                     vt_server := (vt_server t)\<lparr>ss_metrics := snd_metrics s\<rparr>\<rparr>)"

definition vt_pop :: "bool \<Rightarrow> qref \<Rightarrow> nat \<Rightarrow> dg_conn \<Rightarrow> vpn_tunnel \<Rightarrow> vpn_tunnel" where
  "vt_pop padded client_queue now conn t =
     (case queue_pop now (ss_router (vt_server t)) client_queue of
        (r, None) \<Rightarrow> t\<lparr>vt_server := (vt_server t)\<lparr>ss_router := r\<rparr>\<rparr>
      | (r, Some pkt) \<Rightarrow>
          vt_send padded (conn, Popped pkt) (t\<lparr>vt_server := (vt_server t)\<lparr>ss_router := r\<rparr>, vt_popped := vt_popped t @ [pkt]\<rparr>))"

definition vt_receive :: "bool \<Rightarrow> ipv4 \<Rightarrow> u64 \<times> bool \<times> bytes \<Rightarrow> vpn_tunnel \<Rightarrow> vpn_tunnel" where
  "vt_receive padded client_ip e t =
     (let r = dg2tun_step padded client_ip e (vt_receiver t) in
      t\<lparr>vt_stats := rcv_stats r, vt_tun := rcv_tun r,
        vt_server := (vt_server t)\<lparr>ss_metrics := rcv_metrics r, ss_shaper := rcv_shaper r\<rparr>\<rparr>)"

definition vt_report :: "vpn_tunnel \<Rightarrow> vpn_tunnel" where
  "vt_report t = t\<lparr>vt_reports := vt_reports t @ [Stats_report (vt_stats t)]\<rparr>"

fun vpn_step :: "bool \<Rightarrow> ipv4 \<Rightarrow> qref \<Rightarrow> vpn_event \<Rightarrow> vpn_tunnel \<Rightarrow> vpn_tunnel" where
  "vpn_step padded ip q (VtPop now conn) t = (if vt_sending t then vt_pop padded q now conn t else t)"
| "vpn_step padded ip q (VtFlush conn) t = (if vt_sending t then vt_send padded (conn, FlushTimer) t else t)"
| "vpn_step padded ip q (VtDatagram now write_ok (Inr data)) t = vt_receive padded ip (now, write_ok, data) t"
| "vpn_step padded ip q (VtDatagram now write_ok (Inl e)) t = t"
| "vpn_step padded ip q (VtRtt rtt) t =
     t\<lparr>vt_server := (vt_server t)\<lparr>ss_shaper := AdaptiveShaper_update_rtt (ss_shaper (vt_server t)) rtt,
                                   ss_metrics := observe_rtt (rtt div 10 ^ 9, rtt mod 10 ^ 9) (ss_metrics (vt_server t))\<rparr>\<rparr>"
| "vpn_step padded ip q VtReport t = vt_report t"
| "vpn_step padded ip q VtCancelled t = t"
| "vpn_step padded ip q (VtOther f) t = t\<lparr>vt_server := f (vt_server t)\<rparr>"

text \<open>The receive loop returns on cancellation and on an error of the connection; \<open>None\<close> while it runs.\<close>

fun vpn_ends :: "vpn_event \<Rightarrow> vpn_tunnel \<Rightarrow> unit result option" where
  "vpn_ends (VtDatagram now write_ok (Inl e)) t = Some (Err (IoError e))"
| "vpn_ends VtCancelled t = (if ss_cancelled (vt_server t) then Some (Ok ()) else None)"
| "vpn_ends _ t = None"

definition vpn_loop :: "bool \<Rightarrow> ipv4 \<Rightarrow> qref \<Rightarrow> vpn_event list \<Rightarrow> vpn_tunnel \<Rightarrow> vpn_tunnel \<times> unit result option" where
  "vpn_loop padded ip q es t =
     (case task_loop vpn_ends (vpn_step padded ip q) es t of
        (t, None) \<Rightarrow> (t, None)
      | (t, Some r) \<Rightarrow> (vt_report (t\<lparr>vt_sending := False\<rparr>), Some r))"

definition run_vpn_tunnel :: "bool \<Rightarrow> vpn_event list \<Rightarrow> ipv4 \<Rightarrow> qref \<Rightarrow> server_state \<Rightarrow> vpn_tunnel \<times> unit result option" where
  "run_vpn_tunnel padded es client_ip client_queue st = vpn_loop padded client_ip client_queue es (vpn_tunnel_new st)"

text \<open>What the handler sees of it.\<close>

definition vpn_tunnel_effect :: "bool \<Rightarrow> vpn_event list \<Rightarrow> tunnel_effect" where
  "vpn_tunnel_effect padded es client_ip client_queue st = vt_server (fst (run_vpn_tunnel padded es client_ip client_queue st))"

section \<open>The shared state\<close>

text \<open>Other tasks keep what sessions own.\<close>

fun well_behaved :: "vpn_event \<Rightarrow> bool" where
  "well_behaved (VtOther f) \<longleftrightarrow> (\<forall>st. others_quiet st (f st))"
| "well_behaved _ \<longleftrightarrow> True"

lemma others_quiet_refl [simp]: "others_quiet st st"
  by (simp add: others_quiet_def)

lemma others_quiet_trans [trans]: "others_quiet a b \<Longrightarrow> others_quiet b c \<Longrightarrow> others_quiet a c"
  by (auto simp: others_quiet_def)

lemma vt_send_quiet: "others_quiet (vt_server t) (vt_server (vt_send padded e t))"
  using sender_gauges.step_keeps [of padded e "vt_sender t"]
  by (auto simp: vt_send_def vt_sender_def others_quiet_def gauges_def split: sum.splits)

lemma queue_pop_routes: "routes (fst (queue_pop now r q)) = routes r"
  by (simp add: queue_pop_def split: prod.splits)

lemma router_quiet:
  "queue_pop now (ss_router st) q = (r, x) \<Longrightarrow> others_quiet st (st\<lparr>ss_router := r\<rparr>)"
  using queue_pop_routes [of now "ss_router st" q] router_invar_pop [of "ss_router st" now q] by (auto simp: others_quiet_def)

lemma vt_pop_quiet: "others_quiet (vt_server t) (vt_server (vt_pop padded q now conn t))"
proof -
  obtain r x where pop: "queue_pop now (ss_router (vt_server t)) q = (r, x)" by fastforce
  let ?t = "\<lambda>p. t\<lparr>vt_server := (vt_server t)\<lparr>ss_router := r\<rparr>, vt_popped := vt_popped t @ [p]\<rparr>"
  have "others_quiet ((vt_server t)\<lparr>ss_router := r\<rparr>) (vt_server (vt_send padded (conn, Popped p) (?t p)))" for p
    using vt_send_quiet [of "?t p"] by simp
  with router_quiet [OF pop] show ?thesis
    by (auto simp: vt_pop_def pop intro: others_quiet_trans split: option.splits)
qed

lemma vt_receive_quiet: "others_quiet (vt_server t) (vt_server (vt_receive padded ip e t))"
  using dg2tun_step_gauges [of padded ip e "vt_receiver t"]
  by (auto simp: vt_receive_def vt_receiver_def others_quiet_def gauges_def Let_def)

lemma vpn_step_quiet: "well_behaved e \<Longrightarrow> others_quiet (vt_server t) (vt_server (vpn_step padded ip q e t))"
  by (cases "(padded, ip, q, e, t)" rule: vpn_step.cases)
    (auto simp: vt_send_quiet vt_pop_quiet vt_receive_quiet vt_report_def, simp add: others_quiet_def observe_rtt_def)

interpretation vpn_quiet: task_invariant vpn_ends "vpn_step padded ip q" well_behaved "\<lambda>t. others_quiet st (vt_server t)"
  for padded ip q st
  by unfold_locales (blast intro: others_quiet_trans vpn_step_quiet)

text \<open>The end of the loop only stops the sending task and reports.\<close>

lemma vpn_loop_state:
  "\<exists>b rs. fst (vpn_loop padded ip q es t) = (fst (task_loop vpn_ends (vpn_step padded ip q) es t))\<lparr>vt_sending := b, vt_reports := rs\<rparr>"
  by (intro exI [of _ "vt_sending (fst (vpn_loop padded ip q es t))"] exI [of _ "vt_reports (fst (vpn_loop padded ip q es t))"])
    (auto simp: vpn_loop_def vt_report_def split: prod.split option.split)

lemma vpn_loop_quiet:
  assumes "list_all well_behaved es"
  shows "others_quiet (vt_server t) (vt_server (fst (vpn_loop padded ip q es t)))"
  using vpn_loop_state [of padded ip q es t] vpn_quiet.loop_keeps [OF assms, of "vt_server t" t padded ip q] by auto

section \<open>The two directions\<close>

text \<open>What is on the wire or pending is what was popped, and what was written is the client's own.\<close>

definition vt_invar :: "ipv4 \<Rightarrow> vpn_tunnel \<Rightarrow> bool" where
  "vt_invar ip t \<longleftrightarrow> sender_delivers (vt_sender t) (vt_popped t) \<and> list_all (\<lambda>p. validate_source_ip p ip) (vt_tun t)"

fun vt_conn :: "vpn_event \<Rightarrow> dg_conn option" where
  "vt_conn (VtPop now c) = Some c"
| "vt_conn (VtFlush c) = Some c"
| "vt_conn _ = None"

lemma sender_delivers_cong:
  "snd_batcher s' = snd_batcher s \<Longrightarrow> snd_wire s' = snd_wire s \<Longrightarrow> sender_delivers s' ps = sender_delivers s ps"
  by (simp add: sender_delivers_def)

lemma vt_send_sel [simp]: "vt_popped (vt_send padded e t) = vt_popped t" "vt_tun (vt_send padded e t) = vt_tun t"
  by (simp_all add: vt_send_def split: sum.split)

lemma vt_send_delivers:
  assumes c: "accepts_all c" and s: "sender_delivers (vt_sender t) ps"
    and p: "\<forall>p \<in> set (popped e). ip_version p \<noteq> None \<and> length p < 65536"
  shows "sender_delivers (vt_sender (vt_send False (c, e) t)) (ps @ popped e)"
proof -
  have "\<exists>s'. queue2dg_step False (c, e) (vt_sender t) = Ok s' \<and> sender_delivers s' (ps @ popped e)"
    using packet_delivers [OF c s] flush_delivers [OF c s] s p by (cases e) (auto simp: queue2dg_step_def)
  then obtain s' where s': "queue2dg_step False (c, e) (vt_sender t) = Ok s'" "sender_delivers s' (ps @ popped e)" by blast
  then show ?thesis by (auto simp: vt_send_def vt_sender_def elim!: sender_delivers_cong [THEN iffD1, rotated 2])
qed

definition plain_packet :: "bytes \<Rightarrow> bool" where
  "plain_packet p \<longleftrightarrow> ip_version p \<noteq> None \<and> length p < 65536"

lemma vt_pop_invar:
  assumes "vt_invar ip t" "accepts_all c" "\<forall>p \<in> set (vt_popped (vt_pop False q now c t)). plain_packet p"
  shows "vt_invar ip (vt_pop False q now c t)"
proof -
  obtain r x where pop: "queue_pop now (ss_router (vt_server t)) q = (r, x)" by fastforce
  show ?thesis
  proof (cases x)
    case None
    have "vt_sender (t\<lparr>vt_server := (vt_server t)\<lparr>ss_router := r\<rparr>\<rparr>) = vt_sender t" by (simp add: vt_sender_def)
    with assms(1) show ?thesis by (simp add: vt_pop_def pop None vt_invar_def)
  next
    case (Some p)
    let ?t = "t\<lparr>vt_server := (vt_server t)\<lparr>ss_router := r\<rparr>, vt_popped := vt_popped t @ [p]\<rparr>"
    have "vt_sender ?t = vt_sender t" by (simp add: vt_sender_def)
    moreover have "plain_packet p" using assms(3) by (simp add: vt_pop_def pop Some)
    ultimately have "sender_delivers (vt_sender (vt_send False (c, Popped p) ?t)) (vt_popped t @ [p])"
      using vt_send_delivers [OF assms(2), of ?t "vt_popped t" "Popped p"] assms(1) by (simp add: vt_invar_def plain_packet_def)
    with assms(1) show ?thesis by (simp add: vt_pop_def pop Some vt_invar_def)
  qed
qed

lemma vpn_step_invar:
  assumes inv: "vt_invar ip t" and conn: "\<forall>c. vt_conn e = Some c \<longrightarrow> accepts_all c"
    and plain: "\<forall>p \<in> set (vt_popped (vpn_step False ip q e t)). plain_packet p"
  shows "vt_invar ip (vpn_step False ip q e t)"
proof (cases "(False, ip, q, e, t)" rule: vpn_step.cases)
  case (1 pd ip' q' now c t')
  then show ?thesis using vt_pop_invar [OF inv, of c q now] conn plain inv by auto
next
  case (2 pd ip' q' c t')
  then show ?thesis using vt_send_delivers [of c t "vt_popped t" FlushTimer] conn inv by (auto simp: vt_invar_def)
next
  case (3 pd ip' q' now ok data t')
  obtain ps where "rcv_tun (dg2tun_step False ip (now, ok, data) (vt_receiver t)) = vt_tun t @ ps"
    "list_all (\<lambda>p. validate_source_ip p ip) ps"
    using dg2tun_step_tun [of False ip "(now, ok, data)" "vt_receiver t"] by (auto simp: vt_receiver_def)
  with 3 inv show ?thesis by (auto simp: vt_invar_def vt_receive_def vt_sender_def Let_def sender_delivers_def)
qed (use inv in \<open>auto simp: vt_invar_def vt_sender_def vt_report_def sender_delivers_def\<close>)

lemma vpn_step_popped: "set (vt_popped t) \<subseteq> set (vt_popped (vpn_step padded ip q e t))"
  by (cases "(padded, ip, q, e, t)" rule: vpn_step.cases)
    (auto simp: vt_pop_def vt_receive_def vt_report_def Let_def split: prod.splits option.splits)

text \<open>A connection that takes everything, at every event that sends.\<close>

fun vt_conn_ok :: "vpn_event \<Rightarrow> bool" where
  "vt_conn_ok e \<longleftrightarrow> (case vt_conn e of None \<Rightarrow> True | Some c \<Rightarrow> accepts_all c)"

interpretation vpn_delivers: task_invariant vpn_ends "vpn_step False ip q" vt_conn_ok
  "\<lambda>t. (\<forall>p \<in> set (vt_popped t). plain_packet p) \<longrightarrow> vt_invar ip t" for ip q
proof unfold_locales
  fix e t assume "vt_conn_ok e" and inv: "(\<forall>p \<in> set (vt_popped t). plain_packet p) \<longrightarrow> vt_invar ip t"
  then have "\<forall>c. vt_conn e = Some c \<longrightarrow> accepts_all c" by auto
  with vpn_step_invar [of ip t e q] inv vpn_step_popped [of t False ip q e]
  show "(\<forall>p \<in> set (vt_popped (vpn_step False ip q e t)). plain_packet p) \<longrightarrow> vt_invar ip (vpn_step False ip q e t)" by blast
qed

lemma vpn_tunnel_new_invar: "vt_invar ip (vpn_tunnel_new st)"
  using sender_delivers_new [of "ss_metrics st"] by (simp add: vt_invar_def vpn_tunnel_new_def vt_sender_def sender_new_def)

text \<open>
  Both directions of a session at once, in any interleaving with each other, with the shaper's and reporting
  tasks and with the other tasks of the server: over a connection that takes everything the datagrams sent
  and the batch still pending carry exactly the packets popped from the client's queue, in order; everything
  written to the device carries the client's own address; and what sessions own, addresses, routes and
  counts, is as it was.
\<close>

lemma vpn_tunnel_duplex:
  assumes run: "run_vpn_tunnel False es ip q st = (t, r)"
    and conns: "list_all vt_conn_ok es" and others: "list_all well_behaved es"
    and plain: "\<forall>p \<in> set (vt_popped t). plain_packet p"
  shows "concat (map unpacked (vt_wire t)) @ datagram_batcher.pending (vt_batcher t) = vt_popped t
     \<and> list_all (\<lambda>p. validate_source_ip p ip) (vt_tun t) \<and> others_quiet st (vt_server t)"
proof -
  have t: "t = fst (vpn_loop False ip q es (vpn_tunnel_new st))" using run by (simp add: run_vpn_tunnel_def)
  let ?t = "fst (task_loop vpn_ends (vpn_step False ip q) es (vpn_tunnel_new st))"
  obtain b rs where tt: "t = ?t\<lparr>vt_sending := b, vt_reports := rs\<rparr>" using vpn_loop_state [of False ip q es] t by blast
  have "vt_invar ip ?t" using vpn_delivers.loop_keeps [OF conns, of "vpn_tunnel_new st" ip q] vpn_tunnel_new_invar plain tt by simp
  moreover have "others_quiet st (vt_server t)"
    using vpn_loop_quiet [OF others, of "vpn_tunnel_new st" False ip q] by (simp add: t vpn_tunnel_new_def)
  ultimately show ?thesis by (simp add: tt vt_invar_def sender_delivers_def vt_sender_def)
qed

lemma vpn_tunnel_effect_quiet:
  "list_all well_behaved es \<Longrightarrow> others_quiet st (vpn_tunnel_effect padded es ip q st)"
  using vpn_loop_quiet [of es "vpn_tunnel_new st" padded ip q]
  by (simp add: vpn_tunnel_effect_def run_vpn_tunnel_def vpn_tunnel_new_def)

end
