(* ===== verification/Routes.thy ===== *)
theory Routes
  imports Users NetAddr "HOL-Library.Sublist"
begin

text \<open>
  Client routes, gateway discovery and DNS override of \<open>redpill-tun/src/route.rs\<close>, for Linux, macOS and
  Windows. Programs are run by the argument \<open>ex\<close>, which takes the program, its arguments and its standard
  input and changes a state of any type \<open>'w\<close>; the files of the Linux DNS override are a
  \<open>file_system\<close>. What the tools are relied on to do is stated by \<open>adds_route\<close>, \<open>deletes_route\<close> and
  \<open>route_tool\<close>. Logging is left out.
\<close>

section \<open>Text of the standard library\<close>

text \<open>\<open>str::lines\<close>: a line ends with a newline, and a carriage return before it belongs to the ending.\<close>

definition newline :: char where "newline = CHR 0x0A"

definition strip_cr :: "string \<Rightarrow> string" where
  "strip_cr l = (if l \<noteq> [] \<and> last l = CHR 0x0D then butlast l else l)"

function lines :: "string \<Rightarrow> string list" where
  "lines s =
     (if s = [] then []
      else case dropWhile (\<lambda>c. c \<noteq> newline) s of
        [] \<Rightarrow> [s]
      | _ # rest \<Rightarrow> strip_cr (takeWhile (\<lambda>c. c \<noteq> newline) s) # lines rest)"
  by pat_completeness auto
termination
  by (relation "measure length") (auto dest!: arg_cong [where f = length] simp: le_imp_less_Suc [OF length_dropWhile_le],
      metis Suc_le_lessD length_dropWhile_le)

declare lines.simps [simp del]

text \<open>\<open>str::split_whitespace\<close>.\<close>

definition starts_white :: "string \<Rightarrow> bool" where
  "starts_white s \<longleftrightarrow> (\<exists>w \<in> set white_space. map code (take (length w) s) = w)"

fun break_white :: "string \<Rightarrow> string \<times> string" where
  "break_white [] = ([], [])"
| "break_white (c # s) =
     (if starts_white (c # s) then ([], c # s) else case break_white s of (w, r) \<Rightarrow> (c # w, r))"

lemma length_break_white: "length (snd (break_white s)) \<le> length s"
  by (induction s rule: break_white.induct) (auto split: prod.split)

lemma length_strip_front: "length (strip_front ws s) \<le> length s"
proof (induction ws s rule: strip_front.induct)
  case (1 ws s)
  then show ?case by (subst strip_front.simps) (auto split: option.split intro: le_trans)
qed

function split_whitespace :: "string \<Rightarrow> string list" where
  "split_whitespace s =
     (case trim_start s of
        [] \<Rightarrow> []
      | c # t \<Rightarrow> (c # fst (break_white t)) # split_whitespace (snd (break_white t)))"
  by pat_completeness auto
termination
proof (relation "measure length")
  fix s c t assume "trim_start s = c # t"
  then have "Suc (length t) \<le> length s" using length_strip_front [of white_space s] by (simp add: trim_start_def)
  with length_break_white [of t] show "(snd (break_white t), s) \<in> measure length" by simp
qed simp

declare split_whitespace.simps [simp del]

text \<open>\<open>str::strip_prefix\<close>, and the element after the first occurrence of a word.\<close>

definition strip_prefix :: "string \<Rightarrow> string \<Rightarrow> string option" where
  "strip_prefix p s = (if prefix p s then Some (drop (length p) s) else None)"

fun word_after :: "string \<Rightarrow> string list \<Rightarrow> string option" where
  "word_after k [] = None"
| "word_after k (w # ws) = (if w = k then (case ws of [] \<Rightarrow> None | v # _ \<Rightarrow> Some v) else word_after k ws)"

text \<open>\<open>args.join(" ")\<close>.\<close>

fun join_words :: "string list \<Rightarrow> string" where
  "join_words [] = []"
| "join_words [w] = w"
| "join_words (w # v # ws) = w @ '' '' @ join_words (v # ws)"

section \<open>Running programs\<close>

record cmd_output =
  out_success :: bool
  out_stdout :: string
  out_stderr :: string

type_synonym 'w exec = "string \<Rightarrow> string list \<Rightarrow> string \<Rightarrow> 'w \<Rightarrow> 'w \<times> (string + cmd_output)"

datatype route_error = CommandFailed string string | RouteIo anyhow | UnsupportedPlatform | NoDefaultGateway

type_synonym ('w, 'a) host = "'w \<Rightarrow> 'w \<times> (route_error + 'a)"

text \<open>The \<open>?\<close> operator and \<open>let _ = \<dots>\<close> on computations that change the host.\<close>

definition host_then :: "('w, 'a) host \<Rightarrow> ('a \<Rightarrow> ('w, 'b) host) \<Rightarrow> ('w, 'b) host" where
  "host_then m f w = (case m w of (w', Inl e) \<Rightarrow> (w', Inl e) | (w', Inr x) \<Rightarrow> f x w')"

definition host_return :: "'a \<Rightarrow> ('w, 'a) host" where
  "host_return x w = (w, Inr x)"

definition run_cmd_output :: "'w exec \<Rightarrow> string \<Rightarrow> string list \<Rightarrow> ('w, string) host" where
  "run_cmd_output ex program args w =
     (case ex program args [] w of
        (w', Inl e) \<Rightarrow> (w', Inl (RouteIo (IoError e)))
      | (w', Inr out) \<Rightarrow>
          if \<not> out_success out then (w', Inl (CommandFailed (program @ '' '' @ join_words args) (out_stderr out)))
          else (w', Inr (out_stdout out)))"

definition run_cmd :: "'w exec \<Rightarrow> string \<Rightarrow> string list \<Rightarrow> ('w, unit) host" where
  "run_cmd ex program args w =
     (case ex program args [] w of
        (w', Inl e) \<Rightarrow> (w', Inl (RouteIo (IoError e)))
      | (w', Inr out) \<Rightarrow>
          if \<not> out_success out then (w', Inl (CommandFailed (program @ '' '' @ join_words args) (out_stderr out)))
          else (w', Inr ()))"

text \<open>Commands in sequence: each with \<open>?\<close>, or each with its error ignored.\<close>

fun run_cmds :: "'w exec \<Rightarrow> (string \<times> string list) list \<Rightarrow> ('w, unit) host" where
  "run_cmds ex [] = host_return ()"
| "run_cmds ex ((program, args) # cs) = host_then (run_cmd ex program args) (\<lambda>_. run_cmds ex cs)"

fun try_cmds :: "'w exec \<Rightarrow> (string \<times> string list) list \<Rightarrow> 'w \<Rightarrow> 'w" where
  "try_cmds ex [] w = w"
| "try_cmds ex ((program, args) # cs) w = try_cmds ex cs (fst (run_cmd ex program args w))"

section \<open>Interfaces\<close>

definition configure_interface_linux :: "'w exec \<Rightarrow> string \<Rightarrow> ipv4 \<Rightarrow> u8 \<Rightarrow> ('w, unit) host" where
  "configure_interface_linux ex dev_name address prefix_len =
     run_cmds ex
       [(''ip'', [''addr'', ''add'', show_ipv4 address @ ''/'' @ show_nat (unat prefix_len), ''dev'', dev_name]),
        (''ip'', [''link'', ''set'', dev_name, ''up''])]"

definition configure_interface_other :: "string \<Rightarrow> ipv4 \<Rightarrow> u8 \<Rightarrow> ('w, unit) host" where
  "configure_interface_other dev_name address prefix_len w = (w, Inl UnsupportedPlatform)"

definition configure_client_interface_linux :: "'w exec \<Rightarrow> string \<Rightarrow> ipv4 \<Rightarrow> ipv4 \<Rightarrow> u16 \<Rightarrow> ('w, unit) host" where
  "configure_client_interface_linux ex dev_name client_ip server_tunnel_ip mtu =
     run_cmds ex
       [(''ip'', [''addr'', ''add'', show_ipv4 client_ip @ ''/32'', ''peer'', show_ipv4 server_tunnel_ip @ ''/32'',
                  ''dev'', dev_name]),
        (''ip'', [''link'', ''set'', dev_name, ''mtu'', show_nat (unat mtu), ''up''])]"

definition configure_client_interface_macos :: "'w exec \<Rightarrow> string \<Rightarrow> ipv4 \<Rightarrow> ipv4 \<Rightarrow> u16 \<Rightarrow> ('w, unit) host" where
  "configure_client_interface_macos ex dev_name client_ip server_tunnel_ip mtu =
     run_cmds ex
       [(''ifconfig'', [dev_name, ''inet'', show_ipv4 client_ip, show_ipv4 server_tunnel_ip, ''mtu'',
                        show_nat (unat mtu), ''up''])]"

definition configure_client_interface_windows :: "'w exec \<Rightarrow> string \<Rightarrow> ipv4 \<Rightarrow> ipv4 \<Rightarrow> u16 \<Rightarrow> ('w, unit) host" where
  "configure_client_interface_windows ex dev_name client_ip server_tunnel_ip mtu =
     run_cmds ex
       [(''netsh'', [''interface'', ''ip'', ''set'', ''address'', dev_name, ''static'', show_ipv4 client_ip,
                     ''255.255.255.0'', show_ipv4 server_tunnel_ip]),
        (''netsh'', [''interface'', ''ipv4'', ''set'', ''subinterface'', dev_name, ''mtu='' @ show_nat (unat mtu),
                     ''store=active''])]"

definition configure_tun_performance :: "'w exec \<Rightarrow> string \<Rightarrow> u32 \<Rightarrow> 'w \<Rightarrow> 'w" where
  "configure_tun_performance ex dev_name txqueuelen =
     try_cmds ex
       [(''ip'', [''link'', ''set'', dev_name, ''txqueuelen'', show_nat (unat txqueuelen)]),
        (''tc'', [''qdisc'', ''replace'', ''dev'', dev_name, ''root'', ''noqueue''])]"

section \<open>Default gateway\<close>

fun first_gateway :: "(string \<Rightarrow> string option) \<Rightarrow> string list \<Rightarrow> string option" where
  "first_gateway f [] = None"
| "first_gateway f (l # ls) = (case f l of Some g \<Rightarrow> Some g | None \<Rightarrow> first_gateway f ls)"

definition gateway_line_linux :: "string \<Rightarrow> string option" where
  "gateway_line_linux line =
     (let parts = split_whitespace line in
      if parts \<noteq> [] \<and> hd parts = ''default'' then word_after ''via'' parts else None)"

definition get_default_gateway_linux :: "'w exec \<Rightarrow> ('w, string) host" where
  "get_default_gateway_linux ex =
     host_then (run_cmd_output ex ''ip'' [''route'', ''show'', ''default'']) (\<lambda>output w.
       (w, case first_gateway gateway_line_linux (lines output) of Some gw \<Rightarrow> Inr gw | None \<Rightarrow> Inl NoDefaultGateway))"

text \<open>macOS: the last \<open>gateway:\<close> and \<open>interface:\<close> lines of \<open>route get\<close>, then \<open>netstat\<close>.\<close>

definition route_get_line :: "string \<Rightarrow> string option \<times> string option \<Rightarrow> string option \<times> string option" where
  "route_get_line line gi =
     (let trimmed = trim line in
      (case strip_prefix ''gateway:'' trimmed of Some gw \<Rightarrow> Some (trim gw) | None \<Rightarrow> fst gi,
       case strip_prefix ''interface:'' trimmed of Some i \<Rightarrow> Some (trim i) | None \<Rightarrow> snd gi))"

definition netstat_line :: "string \<Rightarrow> string option" where
  "netstat_line line =
     (let parts = split_whitespace line in
      if length parts \<ge> 4 \<and> parts ! 0 = ''default'' \<and> \<not> prefix ''utun'' (parts ! 3) then Some (parts ! 1) else None)"

definition netstat_gateway :: "'w exec \<Rightarrow> string option \<Rightarrow> ('w, string) host" where
  "netstat_gateway ex gateway =
     host_then (run_cmd_output ex ''netstat'' [''-rn'', ''-f'', ''inet'']) (\<lambda>output w.
       (w, case first_gateway netstat_line (lines output) of
             Some gw \<Rightarrow> Inr gw
           | None \<Rightarrow> (case gateway of Some gw \<Rightarrow> Inr gw | None \<Rightarrow> Inl NoDefaultGateway)))"

definition get_default_gateway_macos :: "'w exec \<Rightarrow> ('w, string) host" where
  "get_default_gateway_macos ex =
     host_then (run_cmd_output ex ''route'' [''-n'', ''get'', ''default'']) (\<lambda>output.
       let (gateway, interface) = fold route_get_line (lines output) (None, None) in
       case (gateway, interface) of
         (Some gw, Some iface) \<Rightarrow> if \<not> prefix ''utun'' iface then host_return gw else netstat_gateway ex gateway
       | _ \<Rightarrow> netstat_gateway ex gateway)"

section \<open>Routes\<close>

record saved_routes =
  sr_server_real_ip :: string
  sr_gateway :: string
  sr_server_tunnel_ip :: string

definition setup_client_routes_linux :: "'w exec \<Rightarrow> string \<Rightarrow> ipv4 \<Rightarrow> string \<Rightarrow> ('w, saved_routes) host" where
  "setup_client_routes_linux ex server_real_ip server_tunnel_ip gateway =
     (let tunnel_ip = show_ipv4 server_tunnel_ip in
      host_then
        (run_cmds ex
          [(''ip'', [''route'', ''add'', server_real_ip, ''via'', gateway]),
           (''ip'', [''route'', ''add'', ''0.0.0.0/1'', ''via'', tunnel_ip]),
           (''ip'', [''route'', ''add'', ''128.0.0.0/1'', ''via'', tunnel_ip])])
        (\<lambda>_. host_return
          \<lparr>sr_server_real_ip = server_real_ip, sr_gateway = gateway, sr_server_tunnel_ip = tunnel_ip\<rparr>))"

definition setup_client_routes_macos :: "'w exec \<Rightarrow> string \<Rightarrow> ipv4 \<Rightarrow> string \<Rightarrow> ('w, saved_routes) host" where
  "setup_client_routes_macos ex server_real_ip server_tunnel_ip gateway =
     (let tunnel_ip = show_ipv4 server_tunnel_ip in
      host_then
        (run_cmds ex
          [(''route'', [''add'', ''-host'', server_real_ip, gateway]),
           (''route'', [''add'', ''-net'', ''0.0.0.0/1'', tunnel_ip]),
           (''route'', [''add'', ''-net'', ''128.0.0.0/1'', tunnel_ip])])
        (\<lambda>_. host_return
          \<lparr>sr_server_real_ip = server_real_ip, sr_gateway = gateway, sr_server_tunnel_ip = tunnel_ip\<rparr>))"

definition setup_client_routes_windows :: "'w exec \<Rightarrow> string \<Rightarrow> ipv4 \<Rightarrow> string \<Rightarrow> ('w, saved_routes) host" where
  "setup_client_routes_windows ex server_real_ip server_tunnel_ip gateway =
     (let tunnel_ip = show_ipv4 server_tunnel_ip in
      host_then
        (run_cmds ex
          [(''route'', [''add'', server_real_ip, ''mask'', ''255.255.255.255'', gateway, ''metric'', ''1'']),
           (''route'', [''add'', ''0.0.0.0'', ''mask'', ''128.0.0.0'', tunnel_ip, ''metric'', ''1'']),
           (''route'', [''add'', ''128.0.0.0'', ''mask'', ''128.0.0.0'', tunnel_ip, ''metric'', ''1''])])
        (\<lambda>_. host_return
          \<lparr>sr_server_real_ip = server_real_ip, sr_gateway = gateway, sr_server_tunnel_ip = tunnel_ip\<rparr>))"

definition cleanup_client_routes_linux :: "'w exec \<Rightarrow> saved_routes \<Rightarrow> 'w \<Rightarrow> 'w" where
  "cleanup_client_routes_linux ex saved =
     try_cmds ex
       [(''ip'', [''route'', ''del'', sr_server_real_ip saved, ''via'', sr_gateway saved]),
        (''ip'', [''route'', ''del'', ''0.0.0.0/1'']),
        (''ip'', [''route'', ''del'', ''128.0.0.0/1''])]"

definition cleanup_client_routes_macos :: "'w exec \<Rightarrow> saved_routes \<Rightarrow> 'w \<Rightarrow> 'w" where
  "cleanup_client_routes_macos ex saved =
     try_cmds ex
       [(''route'', [''delete'', ''-host'', sr_server_real_ip saved, sr_gateway saved]),
        (''route'', [''delete'', ''-net'', ''0.0.0.0/1'', sr_server_tunnel_ip saved]),
        (''route'', [''delete'', ''-net'', ''128.0.0.0/1'', sr_server_tunnel_ip saved])]"

definition cleanup_client_routes_windows :: "'w exec \<Rightarrow> saved_routes \<Rightarrow> 'w \<Rightarrow> 'w" where
  "cleanup_client_routes_windows ex saved =
     try_cmds ex
       [(''route'', [''delete'', sr_server_real_ip saved]),
        (''route'', [''delete'', ''0.0.0.0'', ''mask'', ''128.0.0.0'']),
        (''route'', [''delete'', ''128.0.0.0'', ''mask'', ''128.0.0.0''])]"

definition gateway_line_windows :: "string \<Rightarrow> string option" where
  "gateway_line_windows line =
     (let parts = split_whitespace line in
      if length parts \<ge> 3 \<and> parts ! 0 = ''0.0.0.0'' \<and> parts ! 1 = ''0.0.0.0'' then Some (parts ! 2) else None)"

definition get_default_gateway_windows :: "'w exec \<Rightarrow> ('w, string) host" where
  "get_default_gateway_windows ex =
     host_then (run_cmd_output ex ''route'' [''print'', ''0.0.0.0'']) (\<lambda>output w.
       (w, case first_gateway gateway_line_windows (lines output) of Some gw \<Rightarrow> Inr gw | None \<Rightarrow> Inl NoDefaultGateway))"

section \<open>DNS\<close>

definition DNS_PRIMARY :: string where "DNS_PRIMARY = ''1.1.1.1''"
definition DNS_SECONDARY :: string where "DNS_SECONDARY = ''1.0.0.1''"
definition RESOLV_CONF :: string where "RESOLV_CONF = ''/etc/resolv.conf''"
definition RESOLV_BAK :: string where "RESOLV_BAK = ''/etc/resolv.conf.redpill-bak''"

definition vpn_resolv :: string where
  "vpn_resolv = ''nameserver '' @ DNS_PRIMARY @ [newline] @ ''nameserver '' @ DNS_SECONDARY @ [newline]"

text \<open>\<open>let _ = fs::write(\<dots>)\<close> and \<open>let _ = fs::remove_file(\<dots>)\<close>.\<close>

definition try_fs :: "(file_system \<Rightarrow> file_system result) \<Rightarrow> file_system \<Rightarrow> file_system" where
  "try_fs f fs = (case f fs of Inl _ \<Rightarrow> fs | Inr fs' \<Rightarrow> fs')"

definition setup_client_dns_linux :: "(file_system, unit) host" where
  "setup_client_dns_linux fs =
     (let orig = (case read_to_string (map_of (files fs)) RESOLV_CONF of Inr s \<Rightarrow> s | Inl _ \<Rightarrow> []);
          fs = try_fs (\<lambda>fs. fs_write fs RESOLV_BAK orig) fs in
      case fs_write fs RESOLV_CONF vpn_resolv of
        Inl e \<Rightarrow> (fs, Inl (RouteIo e))
      | Inr fs \<Rightarrow> (fs, Inr ()))"

definition cleanup_client_dns_linux :: "file_system \<Rightarrow> file_system" where
  "cleanup_client_dns_linux fs =
     (case read_to_string (map_of (files fs)) RESOLV_BAK of
        Inl _ \<Rightarrow> fs
      | Inr orig \<Rightarrow>
          try_fs (\<lambda>fs. fs_remove fs RESOLV_BAK) (try_fs (\<lambda>fs. fs_write fs RESOLV_CONF orig) fs))"

definition DNS_KEY :: string where "DNS_KEY = ''State:/Network/Service/RedpillVPN/DNS''"

definition setup_client_dns_macos :: "'w exec \<Rightarrow> ('w, unit) host" where
  "setup_client_dns_macos ex w =
     (let script = ''d.init'' @ [newline]
            @ ''d.add ServerAddresses * '' @ DNS_PRIMARY @ '' '' @ DNS_SECONDARY @ [newline]
            @ ''d.add SupplementalMatchDomains * '' @ [CHR 0x22, CHR 0x22] @ [newline]
            @ ''d.add SupplementalMatchOrder # 1'' @ [newline]
            @ ''set '' @ DNS_KEY @ [newline] @ ''quit'' @ [newline] in
      case ex ''scutil'' [] script w of
        (w', Inl e) \<Rightarrow> (w', Inl (RouteIo (IoError e)))
      | (w', Inr out) \<Rightarrow>
          if \<not> out_success out then (w', Inl (CommandFailed ''scutil (setup DNS)'' (out_stderr out)))
          else (w', Inr ()))"

definition cleanup_client_dns_macos :: "'w exec \<Rightarrow> 'w \<Rightarrow> 'w" where
  "cleanup_client_dns_macos ex w =
     fst (ex ''scutil'' [] (''remove '' @ DNS_KEY @ [newline] @ ''quit'' @ [newline]) w)"

definition ADAPTER :: string where "ADAPTER = ''Redpill VPN''"

definition setup_client_dns_windows :: "'w exec \<Rightarrow> ('w, unit) host" where
  "setup_client_dns_windows ex =
     host_then
       (run_cmd ex ''netsh'' [''interface'', ''ip'', ''set'', ''dns'', ADAPTER, ''static'', DNS_PRIMARY, ''primary''])
       (\<lambda>_ w. (fst (run_cmd ex ''netsh''
                  [''interface'', ''ip'', ''add'', ''dns'', ADAPTER, DNS_SECONDARY, ''index=2''] w), Inr ()))"

definition cleanup_client_dns_windows :: "'w exec \<Rightarrow> 'w \<Rightarrow> 'w" where
  "cleanup_client_dns_windows ex =
     try_cmds ex [(''netsh'', [''interface'', ''ip'', ''set'', ''dns'', ADAPTER, ''dhcp''])]"

section \<open>State left by a killed client\<close>

text \<open>The interface a line of \<open>ifconfig -a\<close> belongs to, and the stale tunnels to bring down.\<close>

fun stale_utuns :: "string option \<Rightarrow> string list \<Rightarrow> string list" where
  "stale_utuns current_iface [] = []"
| "stale_utuns current_iface (line # ls) =
     (if \<not> prefix [CHR 0x09] line \<and> \<not> prefix '' '' line
      then stale_utuns (Some (takeWhile (\<lambda>c. c \<noteq> CHR '':'') line)) ls
      else if sublist ''10.0.1.'' line then
        (case current_iface of
           Some iface \<Rightarrow> if prefix ''utun'' iface then iface # stale_utuns current_iface ls
                        else stale_utuns current_iface ls
         | None \<Rightarrow> stale_utuns current_iface ls)
      else stale_utuns current_iface ls)"

definition bring_down :: "string \<Rightarrow> (string \<times> string list) list" where
  "bring_down iface =
     [(''ifconfig'', [iface, ''down'']), (''ifconfig'', [iface, ''delete'', ''10.0.1.1'']),
      (''route'', [''delete'', ''-host'', ''10.0.1.1''])]"

definition cleanup_stale_client_macos :: "'w exec \<Rightarrow> 'w \<Rightarrow> 'w" where
  "cleanup_stale_client_macos ex w =
     (let w = try_cmds ex
            [(''route'', [''delete'', ''-net'', ''0.0.0.0/1'']), (''route'', [''delete'', ''-net'', ''128.0.0.0/1'']),
             (''route'', [''delete'', ''-host'', ''10.0.1.1'']), (''route'', [''delete'', ''-net'', ''10.0.1.0/24''])] w;
          w = (case ex ''ifconfig'' [''-a''] [] w of
                 (w, Inl _) \<Rightarrow> w
               | (w, Inr output) \<Rightarrow>
                   try_cmds ex (concat (map bring_down (stale_utuns None (lines (out_stdout output))))) w) in
      cleanup_client_dns_macos ex w)"

definition cleanup_stale_client_linux :: "'w exec \<Rightarrow> 'w \<times> file_system \<Rightarrow> 'w \<times> file_system" where
  "cleanup_stale_client_linux ex s =
     (try_cmds ex [(''ip'', [''route'', ''del'', ''0.0.0.0/1'']), (''ip'', [''route'', ''del'', ''128.0.0.0/1''])] (fst s),
      cleanup_client_dns_linux (snd s))"

definition cleanup_stale_client_windows :: "'w exec \<Rightarrow> 'w \<Rightarrow> 'w" where
  "cleanup_stale_client_windows ex w =
     cleanup_client_dns_windows ex
       (try_cmds ex
         [(''route'', [''delete'', ''0.0.0.0'', ''mask'', ''128.0.0.0'']),
          (''route'', [''delete'', ''128.0.0.0'', ''mask'', ''128.0.0.0''])] w)"

section \<open>What the route tools are relied on to do\<close>

datatype platform = OnLinux | OnMacos | OnWindows

definition setup_client_routes :: "platform \<Rightarrow> 'w exec \<Rightarrow> string \<Rightarrow> ipv4 \<Rightarrow> string \<Rightarrow> ('w, saved_routes) host" where
  "setup_client_routes os =
     (case os of OnLinux \<Rightarrow> setup_client_routes_linux | OnMacos \<Rightarrow> setup_client_routes_macos
      | OnWindows \<Rightarrow> setup_client_routes_windows)"

definition cleanup_client_routes :: "platform \<Rightarrow> 'w exec \<Rightarrow> saved_routes \<Rightarrow> 'w \<Rightarrow> 'w" where
  "cleanup_client_routes os =
     (case os of OnLinux \<Rightarrow> cleanup_client_routes_linux | OnMacos \<Rightarrow> cleanup_client_routes_macos
      | OnWindows \<Rightarrow> cleanup_client_routes_windows)"

text \<open>
  A routing table maps a network, its address and prefix length, to a gateway. The table of a host state
  is \<open>tbl\<close>. Adding a route succeeds only if there is none for the network; deleting succeeds exactly if there
  is one with an acceptable gateway; a command that does not succeed leaves the table as it is.
\<close>

type_synonym route_table = "(ipv4 \<times> nat) \<rightharpoonup> string"

definition half0 :: "ipv4 \<times> nat" where "half0 = (Ipv4Addr 0 0 0 0, 1)"
definition half1 :: "ipv4 \<times> nat" where "half1 = (Ipv4Addr 128 0 0 0, 1)"

definition cmd_ok :: "'w exec \<Rightarrow> string \<Rightarrow> string list \<Rightarrow> 'w \<Rightarrow> bool" where
  "cmd_ok ex program args w = (case snd (ex program args [] w) of Inl _ \<Rightarrow> False | Inr out \<Rightarrow> out_success out)"

definition adds_route ::
  "'w exec \<Rightarrow> ('w \<Rightarrow> route_table) \<Rightarrow> string \<Rightarrow> string list \<Rightarrow> ipv4 \<times> nat \<Rightarrow> string \<Rightarrow> bool" where
  "adds_route ex tbl program args d gw \<longleftrightarrow>
     (\<forall>w. (cmd_ok ex program args w \<longrightarrow> tbl w d = None)
        \<and> tbl (fst (ex program args [] w)) = (if cmd_ok ex program args w then (tbl w)(d \<mapsto> gw) else tbl w))"

definition deletes_route ::
  "'w exec \<Rightarrow> ('w \<Rightarrow> route_table) \<Rightarrow> string \<Rightarrow> string list \<Rightarrow> ipv4 \<times> nat \<Rightarrow> (string \<Rightarrow> bool) \<Rightarrow> bool" where
  "deletes_route ex tbl program args d acceptable \<longleftrightarrow>
     (\<forall>w. (cmd_ok ex program args w \<longleftrightarrow> (case tbl w d of None \<Rightarrow> False | Some g \<Rightarrow> acceptable g))
        \<and> tbl (fst (ex program args [] w)) = (if cmd_ok ex program args w then (tbl w)(d := None) else tbl w))"

fun route_tool :: "platform \<Rightarrow> 'w exec \<Rightarrow> ('w \<Rightarrow> route_table) \<Rightarrow> bool" where
  "route_tool OnLinux ex tbl \<longleftrightarrow>
     (\<forall>s a gw. parse_ipv4 s = Some a \<longrightarrow>
        adds_route ex tbl ''ip'' [''route'', ''add'', s, ''via'', gw] (a, 32) gw
        \<and> deletes_route ex tbl ''ip'' [''route'', ''del'', s, ''via'', gw] (a, 32) (\<lambda>g. g = gw))
     \<and> (\<forall>gw. adds_route ex tbl ''ip'' [''route'', ''add'', ''0.0.0.0/1'', ''via'', gw] half0 gw
           \<and> adds_route ex tbl ''ip'' [''route'', ''add'', ''128.0.0.0/1'', ''via'', gw] half1 gw)
     \<and> deletes_route ex tbl ''ip'' [''route'', ''del'', ''0.0.0.0/1''] half0 (\<lambda>_. True)
     \<and> deletes_route ex tbl ''ip'' [''route'', ''del'', ''128.0.0.0/1''] half1 (\<lambda>_. True)"
| "route_tool OnMacos ex tbl \<longleftrightarrow>
     (\<forall>s a gw. parse_ipv4 s = Some a \<longrightarrow>
        adds_route ex tbl ''route'' [''add'', ''-host'', s, gw] (a, 32) gw
        \<and> deletes_route ex tbl ''route'' [''delete'', ''-host'', s, gw] (a, 32) (\<lambda>g. g = gw))
     \<and> (\<forall>gw. adds_route ex tbl ''route'' [''add'', ''-net'', ''0.0.0.0/1'', gw] half0 gw
           \<and> adds_route ex tbl ''route'' [''add'', ''-net'', ''128.0.0.0/1'', gw] half1 gw
           \<and> deletes_route ex tbl ''route'' [''delete'', ''-net'', ''0.0.0.0/1'', gw] half0 (\<lambda>g. g = gw)
           \<and> deletes_route ex tbl ''route'' [''delete'', ''-net'', ''128.0.0.0/1'', gw] half1 (\<lambda>g. g = gw))"
| "route_tool OnWindows ex tbl \<longleftrightarrow>
     (\<forall>s a gw. parse_ipv4 s = Some a \<longrightarrow>
        adds_route ex tbl ''route'' [''add'', s, ''mask'', ''255.255.255.255'', gw, ''metric'', ''1''] (a, 32) gw
        \<and> deletes_route ex tbl ''route'' [''delete'', s] (a, 32) (\<lambda>_. True))
     \<and> (\<forall>gw. adds_route ex tbl ''route'' [''add'', ''0.0.0.0'', ''mask'', ''128.0.0.0'', gw, ''metric'', ''1''] half0 gw
           \<and> adds_route ex tbl ''route'' [''add'', ''128.0.0.0'', ''mask'', ''128.0.0.0'', gw, ''metric'', ''1''] half1 gw)
     \<and> deletes_route ex tbl ''route'' [''delete'', ''0.0.0.0'', ''mask'', ''128.0.0.0''] half0 (\<lambda>_. True)
     \<and> deletes_route ex tbl ''route'' [''delete'', ''128.0.0.0'', ''mask'', ''128.0.0.0''] half1 (\<lambda>_. True)"

section \<open>Lemmas\<close>

subsection \<open>Commands\<close>

lemma run_cmd_state: "fst (run_cmd ex p args w) = fst (ex p args [] w)"
  by (auto simp: run_cmd_def split: prod.splits sum.splits)

lemma run_cmd_ok: "(\<exists>u. snd (run_cmd ex p args w) = Inr u) \<longleftrightarrow> cmd_ok ex p args w"
  by (auto simp: run_cmd_def cmd_ok_def split: prod.splits sum.splits)

lemma run_cmds_Cons:
  "run_cmds ex ((p, args) # cs) w =
     (if cmd_ok ex p args w then run_cmds ex cs (fst (ex p args [] w)) else run_cmd ex p args w)"
  by (auto simp: host_then_def run_cmd_def cmd_ok_def split: prod.splits sum.splits)

lemma run_cmd_fails: "\<not> cmd_ok ex p args w \<Longrightarrow> \<exists>e. run_cmd ex p args w = (fst (ex p args [] w), Inl e)"
  by (auto simp: run_cmd_def cmd_ok_def split: prod.splits sum.splits)

lemma adds_routeD:
  assumes "adds_route ex tbl p args d gw"
  shows "cmd_ok ex p args w \<Longrightarrow> tbl w d = None"
    and "cmd_ok ex p args w \<Longrightarrow> tbl (fst (ex p args [] w)) = (tbl w)(d \<mapsto> gw)"
    and "\<not> cmd_ok ex p args w \<Longrightarrow> tbl (fst (ex p args [] w)) = tbl w"
  using assms by (simp_all add: adds_route_def)

lemma deletes_routeD:
  assumes "deletes_route ex tbl p args d acc" "case tbl w d of None \<Rightarrow> True | Some g \<Rightarrow> acc g"
  shows "tbl (fst (run_cmd ex p args w)) = (tbl w)(d := None)"
  using assms by (auto simp: deletes_route_def run_cmd_state fun_upd_idem split: option.splits)

text \<open>The networks of the routes a client adds, in order, with their gateways.\<close>

definition vpn_routes :: "ipv4 \<Rightarrow> string \<Rightarrow> ipv4 \<Rightarrow> ((ipv4 \<times> nat) \<times> string) list" where
  "vpn_routes a gw tip = [((a, 32), gw), (half0, show_ipv4 tip), (half1, show_ipv4 tip)]"

definition with_routes :: "((ipv4 \<times> nat) \<times> string) list \<Rightarrow> route_table \<Rightarrow> route_table" where
  "with_routes rs t = fold (\<lambda>(d, gw) t. t(d \<mapsto> gw)) rs t"

lemma with_routes_simps [simp]:
  "with_routes [] t = t" "with_routes ((d, gw) # rs) t = with_routes rs (t(d \<mapsto> gw))"
  by (simp_all add: with_routes_def)

lemma networks_differ [simp]: "(a, 32) \<noteq> half0" "(a, 32) \<noteq> half1" "half0 \<noteq> half1" "half0 \<noteq> (a, 32)" "half1 \<noteq> (a, 32)"
    "half1 \<noteq> half0"
  by (auto simp: half0_def half1_def)

lemma run_cmds_add:
  assumes "list_all2 (\<lambda>(p, args) (d, gw). adds_route ex tbl p args d gw) cs rs"
    and "run_cmds ex cs w = (w', r)"
  shows "case r of
      Inr _ \<Rightarrow> tbl w' = with_routes rs (tbl w)
    | Inl _ \<Rightarrow> \<exists>n < length rs. tbl w' = with_routes (take n rs) (tbl w)"
  using assms
proof (induction cs rs arbitrary: w rule: list_all2_induct)
  case Nil
  then show ?case by (auto simp: host_return_def split: sum.splits)
next
  case (Cons c cs r' rs)
  obtain p args d gw where c: "c = (p, args)" and r': "r' = (d, gw)" by fastforce
  from Cons c r' have adds: "adds_route ex tbl p args d gw" by simp
  show ?case
  proof (cases "cmd_ok ex p args w")
    case True
    with Cons c have "run_cmds ex cs (fst (ex p args [] w)) = (w', r)" by (simp only: run_cmds_Cons if_True)
    note ih = Cons.IH [OF this, unfolded adds_routeD(2) [OF adds True]]
    show ?thesis
    proof (cases r)
      case (Inl e)
      with ih obtain n where "n < length rs" "tbl w' = with_routes (take (Suc n) (r' # rs)) (tbl w)" by (auto simp: r')
      with Inl show ?thesis by (simp only: sum.case) (intro exI [of _ "Suc n"], simp)
    next
      case (Inr u)
      with ih show ?thesis by (simp add: r')
    qed
  next
    case False
    with Cons c have "run_cmd ex p args w = (w', r)" by (simp only: run_cmds_Cons if_False)
    with run_cmd_fails [OF False] adds_routeD(3) [OF adds False] show ?thesis
      by (auto intro!: exI [of _ 0])
  qed
qed

lemma run_cmds_add_fresh:
  assumes "list_all2 (\<lambda>(p, args) (d, gw). adds_route ex tbl p args d gw) cs rs"
    and "run_cmds ex cs w = (w', Inr u)"
  shows "\<forall>d \<in> fst ` set rs. tbl w d = None"
  using assms
proof (induction cs rs arbitrary: w rule: list_all2_induct)
  case (Cons c cs r' rs)
  obtain p args d gw where c: "c = (p, args)" and r': "r' = (d, gw)" by fastforce
  from Cons c r' have adds: "adds_route ex tbl p args d gw" by simp
  have ok: "cmd_ok ex p args w"
    using Cons.prems run_cmd_fails [of ex p args w] by (auto simp only: c run_cmds_Cons split: if_splits)
  with Cons c have "run_cmds ex cs (fst (ex p args [] w)) = (w', Inr u)" by (simp only: run_cmds_Cons if_True)
  from Cons.IH [OF this] show ?case
    unfolding adds_routeD(2) [OF adds ok] using adds_routeD(1) [OF adds ok] by (auto simp: r' split: if_splits)
qed simp

lemma run_cmds_fail_first:
  assumes "\<not> cmd_ok ex p args w"
  shows "\<exists>e. snd (run_cmds ex ((p, args) # cs) w) = Inl e"
  using run_cmd_fails [OF assms] assms by (auto simp only: run_cmds_Cons if_False snd_conv)

subsection \<open>Routes\<close>

text \<open>What setting up does to the table, on success and on failure.\<close>

lemma setup_client_routes_table:
  assumes "route_tool os ex tbl" "parse_ipv4 s = Some a" "setup_client_routes os ex s tip gw w = (w', r)"
  shows "case r of
      Inr saved \<Rightarrow> tbl w' = with_routes (vpn_routes a gw tip) (tbl w)
        \<and> saved = \<lparr>sr_server_real_ip = s, sr_gateway = gw, sr_server_tunnel_ip = show_ipv4 tip\<rparr>
        \<and> tbl w (a, 32) = None \<and> tbl w half0 = None \<and> tbl w half1 = None
    | Inl _ \<Rightarrow> \<exists>n < 3. tbl w' = with_routes (take n (vpn_routes a gw tip)) (tbl w)"
proof -
  have len: "length (vpn_routes a gw tip) = 3" by (simp add: vpn_routes_def)
  obtain cs where cs: "list_all2 (\<lambda>(p, args) (d, gw). adds_route ex tbl p args d gw) cs (vpn_routes a gw tip)"
    and eq: "host_then (run_cmds ex cs)
       (\<lambda>_. host_return \<lparr>sr_server_real_ip = s, sr_gateway = gw, sr_server_tunnel_ip = show_ipv4 tip\<rparr>) w = (w', r)"
  proof (cases os)
    case OnLinux
    with assms show ?thesis
      by (intro that) (auto simp: vpn_routes_def setup_client_routes_def setup_client_routes_linux_def Let_def
          simp del: run_cmds.simps)
  next
    case OnMacos
    with assms show ?thesis
      by (intro that) (auto simp: vpn_routes_def setup_client_routes_def setup_client_routes_macos_def Let_def
          simp del: run_cmds.simps)
  next
    case OnWindows
    with assms show ?thesis
      by (intro that) (auto simp: vpn_routes_def setup_client_routes_def setup_client_routes_windows_def Let_def
          simp del: run_cmds.simps)
  qed
  obtain w1 r1 where r1: "run_cmds ex cs w = (w1, r1)" by fastforce
  have "tbl w (a, 32) = None \<and> tbl w half0 = None \<and> tbl w half1 = None" if "r1 = Inr u" for u
    using run_cmds_add_fresh [OF cs] r1 that by (auto simp: vpn_routes_def)
  with run_cmds_add [OF cs r1] eq r1 len show ?thesis
    by (auto simp: host_then_def host_return_def split: sum.splits)
qed

lemma deletes_routes:
  assumes "route_tool os ex tbl" "parse_ipv4 s = Some a" "tbl w = with_routes (vpn_routes a gw tip) t"
  shows "tbl (cleanup_client_routes os ex \<lparr>sr_server_real_ip = s, sr_gateway = gw, sr_server_tunnel_ip = show_ipv4 tip\<rparr> w)
     = t((a, 32) := None, half0 := None, half1 := None)"
proof (cases os)
  case OnLinux
  with assms have d: "deletes_route ex tbl ''ip'' [''route'', ''del'', s, ''via'', gw] (a, 32) (\<lambda>g. g = gw)"
    "deletes_route ex tbl ''ip'' [''route'', ''del'', ''0.0.0.0/1''] half0 (\<lambda>_. True)"
    "deletes_route ex tbl ''ip'' [''route'', ''del'', ''128.0.0.0/1''] half1 (\<lambda>_. True)" by auto
  from OnLinux assms(3) show ?thesis
    by (simp add: cleanup_client_routes_def cleanup_client_routes_linux_def vpn_routes_def
        deletes_routeD [OF d(1)] deletes_routeD [OF d(2)] deletes_routeD [OF d(3)] fun_upd_twist split: option.split)
next
  case OnMacos
  with assms have d: "deletes_route ex tbl ''route'' [''delete'', ''-host'', s, gw] (a, 32) (\<lambda>g. g = gw)"
    "deletes_route ex tbl ''route'' [''delete'', ''-net'', ''0.0.0.0/1'', show_ipv4 tip] half0 (\<lambda>g. g = show_ipv4 tip)"
    "deletes_route ex tbl ''route'' [''delete'', ''-net'', ''128.0.0.0/1'', show_ipv4 tip] half1 (\<lambda>g. g = show_ipv4 tip)" by auto
  from OnMacos assms(3) show ?thesis
    by (simp add: cleanup_client_routes_def cleanup_client_routes_macos_def vpn_routes_def
        deletes_routeD [OF d(1)] deletes_routeD [OF d(2)] deletes_routeD [OF d(3)] fun_upd_twist split: option.split)
next
  case OnWindows
  with assms have d: "deletes_route ex tbl ''route'' [''delete'', s] (a, 32) (\<lambda>_. True)"
    "deletes_route ex tbl ''route'' [''delete'', ''0.0.0.0'', ''mask'', ''128.0.0.0''] half0 (\<lambda>_. True)"
    "deletes_route ex tbl ''route'' [''delete'', ''128.0.0.0'', ''mask'', ''128.0.0.0''] half1 (\<lambda>_. True)" by auto
  from OnWindows assms(3) show ?thesis
    by (simp add: cleanup_client_routes_def cleanup_client_routes_windows_def vpn_routes_def
        deletes_routeD [OF d(1)] deletes_routeD [OF d(2)] deletes_routeD [OF d(3)] fun_upd_twist split: option.split)
qed

text \<open>A Linux \<open>ip route\<close> on a bare routing table.\<close>

definition sample_network :: "string \<Rightarrow> (ipv4 \<times> nat) option" where
  "sample_network d =
     (if d = ''0.0.0.0/1'' then Some half0 else if d = ''128.0.0.0/1'' then Some half1
      else map_option (\<lambda>a. (a, 32)) (parse_ipv4 d))"

definition sample_ip :: "route_table exec" where
  "sample_ip program args inp t =
     (let done = (\<lambda>t. (t, Inr \<lparr>out_success = True, out_stdout = [], out_stderr = []\<rparr>));
          failed = (t, Inr \<lparr>out_success = False, out_stdout = [], out_stderr = ''RTNETLINK answers''\<rparr>) in
      case sample_network (args ! 2) of
        None \<Rightarrow> failed
      | Some n \<Rightarrow>
          if args ! 1 = ''add'' then (if t n = None then done (t(n \<mapsto> args ! 4)) else failed)
          else if (case t n of None \<Rightarrow> False | Some g \<Rightarrow> length args = 3 \<or> g = args ! 4) then done (t(n := None))
          else failed)"

lemma sample_network_simps [simp]:
  "sample_network ''0.0.0.0/1'' = Some half0" "sample_network ''128.0.0.0/1'' = Some half1"
  by (simp_all add: sample_network_def)

lemma sample_network_host: "parse_ipv4 s = Some a \<Longrightarrow> sample_network s = Some (a, 32)"
proof -
  have "parse_ipv4 ''0.0.0.0/1'' = None" "parse_ipv4 ''128.0.0.0/1'' = None" by code_simp+
  then show "parse_ipv4 s = Some a \<Longrightarrow> sample_network s = Some (a, 32)" by (auto simp: sample_network_def)
qed

lemma sample_ip_tool: "route_tool OnLinux sample_ip id"
  by (auto simp: adds_route_def deletes_route_def cmd_ok_def sample_ip_def Let_def sample_network_host split: option.splits)

lemma sample_ip_ok:
  "sample_ip p [x, ''add'', d, y, gw] [] t = (t(n \<mapsto> gw), Inr \<lparr>out_success = True, out_stdout = [], out_stderr = []\<rparr>)"
  if "sample_network d = Some n" "t n = None"
  using that by (simp add: sample_ip_def)

abbreviation sample_server_ip :: string where "sample_server_ip \<equiv> ''203.0.113.7''"

lemma sample_server_parses: "parse_ipv4 sample_server_ip = Some (Ipv4Addr 203 0 113 7)"
  by code_simp

lemma sample_setup:
  "setup_client_routes OnLinux sample_ip sample_server_ip (Ipv4Addr 10 0 1 1) ''192.168.1.1'' Map.empty
     = (with_routes (vpn_routes (Ipv4Addr 203 0 113 7) ''192.168.1.1'' (Ipv4Addr 10 0 1 1)) Map.empty,
        Inr \<lparr>sr_server_real_ip = sample_server_ip, sr_gateway = ''192.168.1.1'',
             sr_server_tunnel_ip = show_ipv4 (Ipv4Addr 10 0 1 1)\<rparr>)"
  by (simp add: setup_client_routes_def setup_client_routes_linux_def Let_def host_then_def host_return_def
      run_cmd_def vpn_routes_def sample_ip_ok sample_network_host [OF sample_server_parses])

text \<open>
  Claim C17. A client that sets its routes up and cleans up after itself leaves the routing table as it found it, on
  each platform: set-up adds exactly the bypass route to the server and the two halves of the address
  space through the tunnel, and clean-up in any later state with the same table takes exactly these away.
  The route tools are relied on as \<open>route_tool\<close> says.
\<close>

theorem client_routes_restored:
  assumes "route_tool os ex tbl" "parse_ipv4 s = Some a"
    and "setup_client_routes os ex s tip gw w = (w1, Inr saved)" "tbl w2 = tbl w1"
  shows "tbl w1 = (tbl w)((a, 32) \<mapsto> gw, half0 \<mapsto> show_ipv4 tip, half1 \<mapsto> show_ipv4 tip)
     \<and> tbl (cleanup_client_routes os ex saved w2) = tbl w"
proof -
  from setup_client_routes_table [OF assms(1-3)]
  have w1: "tbl w1 = with_routes (vpn_routes a gw tip) (tbl w)"
    and saved: "saved = \<lparr>sr_server_real_ip = s, sr_gateway = gw, sr_server_tunnel_ip = show_ipv4 tip\<rparr>"
    and fresh: "tbl w (a, 32) = None" "tbl w half0 = None" "tbl w half1 = None" by simp_all
  from deletes_routes [OF assms(1,2), of w2 gw tip "tbl w"] assms(4) w1 fresh
  have "tbl (cleanup_client_routes os ex saved w2) = tbl w" by (auto simp: saved)
  with w1 show ?thesis by (simp add: vpn_routes_def)
qed

theorem client_routes_restored_witness:
  "cleanup_client_routes OnLinux sample_ip
     \<lparr>sr_server_real_ip = sample_server_ip, sr_gateway = ''192.168.1.1'', sr_server_tunnel_ip = show_ipv4 (Ipv4Addr 10 0 1 1)\<rparr>
     (with_routes (vpn_routes (Ipv4Addr 203 0 113 7) ''192.168.1.1'' (Ipv4Addr 10 0 1 1)) Map.empty) = Map.empty"
  using client_routes_restored [OF sample_ip_tool sample_server_parses sample_setup, of
      "with_routes (vpn_routes (Ipv4Addr 203 0 113 7) ''192.168.1.1'' (Ipv4Addr 10 0 1 1)) Map.empty"]
  unfolding id_apply by blast

text \<open>
  Claim C18. Clean-up of stale state on Linux does not undo a killed client: if the bypass route to the server is
  still there, whether or not the halves went with the device, it takes the two halves away but not the
  bypass route, which it does not know, so the next client's set-up fails on that route with an error,
  whatever gateway it found.
\<close>

theorem killed_client_blocks_restart:
  assumes tool: "route_tool OnLinux ex tbl" and server: "parse_ipv4 s = Some a"
    and up: "setup_client_routes OnLinux ex s tip gw w = (w1, Inr saved)" and killed: "tbl w2 (a, 32) = tbl w1 (a, 32)"
    and stale: "cleanup_stale_client_linux ex (w2, fs) = (w3, fs')"
  shows "tbl w3 = (tbl w2)((a, 32) \<mapsto> gw, half0 := None, half1 := None) \<and> (tbl w2 = tbl w1 \<longrightarrow> tbl w3 = (tbl w)((a, 32) \<mapsto> gw))
     \<and> (\<exists>w4 e. setup_client_routes OnLinux ex s tip' gw' w3 = (w4, Inl e) \<and> tbl w4 = tbl w3)"
proof -
  from setup_client_routes_table [OF tool server up]
  have w1: "tbl w1 = with_routes (vpn_routes a gw tip) (tbl w)" and fresh: "tbl w half0 = None" "tbl w half1 = None"
    by simp_all
  from tool have d: "deletes_route ex tbl ''ip'' [''route'', ''del'', ''0.0.0.0/1''] half0 (\<lambda>_. True)"
    "deletes_route ex tbl ''ip'' [''route'', ''del'', ''128.0.0.0/1''] half1 (\<lambda>_. True)" by simp_all
  have cleaned: "tbl w3 = (tbl w2)(half0 := None, half1 := None)"
    using stale by (auto simp: cleanup_stale_client_linux_def deletes_routeD [OF d(1)] deletes_routeD [OF d(2)] split: option.split)
  have bypass: "tbl w2 (a, 32) = Some gw" using killed w1 by (simp add: vpn_routes_def half0_def half1_def)
  then have w3: "tbl w3 = (tbl w2)((a, 32) \<mapsto> gw, half0 := None, half1 := None)" using cleaned by (auto simp: half0_def half1_def)
  then have here: "tbl w3 (a, 32) = Some gw" by (simp add: half0_def half1_def)
  have same: "tbl w2 = tbl w1 \<Longrightarrow> tbl w3 = (tbl w)((a, 32) \<mapsto> gw)" using cleaned w1 fresh by (auto simp: vpn_routes_def)
  from tool server have add: "adds_route ex tbl ''ip'' [''route'', ''add'', s, ''via'', gw'] (a, 32) gw'" by auto
  have no: "\<not> cmd_ok ex ''ip'' [''route'', ''add'', s, ''via'', gw'] w3" using adds_routeD(1) [OF add, of w3] here by auto
  from run_cmd_fails [OF no] adds_routeD(3) [OF add no] no
  have "\<exists>w4 e. setup_client_routes OnLinux ex s tip' gw' w3 = (w4, Inl e) \<and> tbl w4 = tbl w3"
    by (auto simp: setup_client_routes_def setup_client_routes_linux_def Let_def host_then_def)
  with w3 same show ?thesis by blast
qed

theorem killed_client_blocks_restart_witness:
  "\<exists>w4 e. setup_client_routes OnLinux sample_ip sample_server_ip (Ipv4Addr 10 0 1 1) ''192.168.1.1''
     (fst (cleanup_stale_client_linux sample_ip
        (with_routes (vpn_routes (Ipv4Addr 203 0 113 7) ''192.168.1.1'' (Ipv4Addr 10 0 1 1)) Map.empty,
         \<lparr>files = [], dirs = [], writable = \<lambda>_. True\<rparr>))) = (w4, Inl e)"
  using killed_client_blocks_restart [OF sample_ip_tool sample_server_parses sample_setup refl surjective_pairing]
  by blast

text \<open>Longest-prefix match: the gateway of the most specific network that contains the address.\<close>

primrec ip_nat :: "ipv4 \<Rightarrow> nat" where
  "ip_nat (Ipv4Addr a b c d) = ((unat a * 256 + unat b) * 256 + unat c) * 256 + unat d"

definition in_network :: "ipv4 \<times> nat \<Rightarrow> ipv4 \<Rightarrow> bool" where
  "in_network p ip \<longleftrightarrow> ip_nat ip div 2 ^ (32 - snd p) = ip_nat (fst p) div 2 ^ (32 - snd p)"

definition routed_via :: "route_table \<Rightarrow> ipv4 \<Rightarrow> string \<Rightarrow> bool" where
  "routed_via t ip gw \<longleftrightarrow>
     (\<exists>p. t p = Some gw \<and> in_network p ip
        \<and> (\<forall>q. t q \<noteq> None \<longrightarrow> in_network q ip \<longrightarrow> snd q \<le> snd p))"

lemma ip_nat_less: "ip_nat ip < 2 ^ 32"
proof (cases ip)
  case (Ipv4Addr a b c d)
  then show ?thesis using unat_u8_less [of a] unat_u8_less [of b] unat_u8_less [of c] unat_u8_less [of d] by simp
qed

lemma base256_inj: "p * 256 + q = p' * 256 + q' \<longleftrightarrow> p = p' \<and> q = q'" if "q < 256" "q' < 256" for p q p' q' :: nat
proof -
  have "(p * 256 + q) div 256 = p" "(p' * 256 + q') div 256 = p'" using that by simp_all
  then show ?thesis by (metis add_left_cancel)
qed

lemma ip_nat_inj: "ip_nat x = ip_nat y \<longleftrightarrow> x = y"
proof (cases x; cases y)
  fix a b c d a' b' c' d' assume "x = Ipv4Addr a b c d" "y = Ipv4Addr a' b' c' d'"
  then show ?thesis by (simp only: ip_nat.simps base256_inj unat_u8_less ipv4.inject) (simp add: word_unat_eq_iff)
qed

lemma in_network_host [simp]: "in_network (a, 32) ip \<longleftrightarrow> ip = a"
  by (simp add: in_network_def ip_nat_inj)

lemma in_network_halves: "in_network half0 ip \<longleftrightarrow> ip_nat ip < 2 ^ 31" "in_network half1 ip \<longleftrightarrow> \<not> ip_nat ip < 2 ^ 31"
  using ip_nat_less [of ip] by (auto simp: in_network_def half0_def half1_def div_eq_0_iff div_nat_eqI)

text \<open>
  Claim C16. With the routes set up, an address that only the default route of the host covers is reached through
  the tunnel, except the server itself, which is reached through the host's gateway: no such traffic
  leaves outside the tunnel and the tunnel does not run through itself.
\<close>

theorem all_traffic_tunnelled:
  assumes tool: "route_tool os ex tbl" and server: "parse_ipv4 s = Some a"
    and up: "setup_client_routes os ex s tip gw w = (w1, Inr saved)"
    and only: "\<forall>q. tbl w q \<noteq> None \<longrightarrow> in_network q ip \<longrightarrow> snd q = 0"
  shows "routed_via (tbl w1) ip g \<longleftrightarrow> g = (if ip = a then gw else show_ipv4 tip)"
proof -
  from setup_client_routes_table [OF tool server up]
  have w1: "tbl w1 = (tbl w)((a, 32) \<mapsto> gw, half0 \<mapsto> show_ipv4 tip, half1 \<mapsto> show_ipv4 tip)"
    by (simp add: vpn_routes_def)
  have old: "snd q = 0" if "tbl w1 q \<noteq> None" "in_network q ip" "q \<noteq> (a, 32)" "q \<noteq> half0" "q \<noteq> half1" for q
  proof -
    from that have "tbl w q \<noteq> None" by (simp add: w1)
    with only that(2) show ?thesis by blast
  qed
  have one: "snd half0 = 1" "snd half1 = 1" by (simp_all add: half0_def half1_def)
  define best where "best = (if ip = a then (a, 32) else if ip_nat ip < 2 ^ 31 then half0 else half1)"
  have best: "in_network best ip" "tbl w1 best = Some (if ip = a then gw else show_ipv4 tip)"
    by (simp_all add: best_def in_network_halves w1)
  have less: "snd q < snd best" if "tbl w1 q \<noteq> None" "in_network q ip" "q \<noteq> best" for q
  proof -
    have "q \<notin> {(a, 32), half0, half1} \<Longrightarrow> snd q = 0" using old [OF that(1,2)] by simp
    moreover have "0 < snd best" "ip = a \<Longrightarrow> snd best = 32" using one by (simp_all add: best_def)
    moreover have "q \<in> {(a, 32), half0, half1} \<Longrightarrow> ip = a \<and> snd q = 1"
      using that(2,3) one by (auto simp: best_def in_network_halves split: if_splits)
    ultimately show ?thesis by (cases "q \<in> {(a, 32), half0, half1}") simp_all
  qed
  show ?thesis
  proof
    assume "routed_via (tbl w1) ip g"
    then obtain p where p: "tbl w1 p = Some g" "in_network p ip" "snd best \<le> snd p"
      using best unfolding routed_via_def by blast
    then have "p = best" using less [of p] by fastforce
    with p(1) best(2) show "g = (if ip = a then gw else show_ipv4 tip)" by simp
  next
    assume "g = (if ip = a then gw else show_ipv4 tip)"
    moreover have "snd q \<le> snd best" if "tbl w1 q \<noteq> None" "in_network q ip" for q
      using less [OF that] by (cases "q = best") simp_all
    ultimately show "routed_via (tbl w1) ip g" unfolding routed_via_def using best by blast
  qed
qed

theorem all_traffic_tunnelled_witness:
  "routed_via (with_routes (vpn_routes (Ipv4Addr 203 0 113 7) ''192.168.1.1'' (Ipv4Addr 10 0 1 1)) Map.empty)
     (Ipv4Addr 8 8 8 8) (show_ipv4 (Ipv4Addr 10 0 1 1))"
  using all_traffic_tunnelled [OF sample_ip_tool sample_server_parses sample_setup, of "Ipv4Addr 8 8 8 8"]
  by (simp add: id_def)

subsection \<open>DNS\<close>

lemma dns_files_differ [simp]: "RESOLV_CONF \<noteq> RESOLV_BAK" "RESOLV_BAK \<noteq> RESOLV_CONF" "parent RESOLV_BAK = parent RESOLV_CONF"
  by (simp_all add: RESOLV_CONF_def RESOLV_BAK_def parent_def)

lemma map_of_alist [simp]:
  "map_of (AList.update k v al) = (map_of al)(k \<mapsto> v)" "map_of (AList.delete k al) = (map_of al)(k := None)"
  by (simp_all add: update_conv' delete_conv')

definition may_write :: "file_system \<Rightarrow> string \<Rightarrow> bool" where
  "may_write fs p \<longleftrightarrow> writable fs p \<and> (parent p = [] \<or> parent p \<in> set (dirs fs)) \<and> p \<notin> set (dirs fs)"

lemma fs_write_eq: "fs_write fs p s = (if may_write fs p then Ok (fs\<lparr>files := AList.update p s (files fs)\<rparr>) else Err (IoError p))"
  by (simp add: fs_write_def may_write_def)

lemma may_write_files [simp]: "may_write (fs\<lparr>files := fl\<rparr>) p = may_write fs p"
  by (simp add: may_write_def)

lemma utf8_Nil [simp]: "utf8_ok []"
  by (simp add: utf8_ok.simps)

text \<open>
  Claim C34. The DNS override of a Linux client and its undoing: after a successful override the resolver file is the
  tunnel's, and the clean-up brings the original contents back exactly if they are valid UTF-8 and the
  backup could be written. Otherwise the original is lost, since neither failure stops the override.
\<close>

theorem dns_restored_iff:
  assumes "map_of (files fs) RESOLV_CONF = Some orig" "map_of (files fs) RESOLV_BAK = None" "orig \<noteq> vpn_resolv"
    and "setup_client_dns_linux fs = (fs1, Inr ())"
  shows "map_of (files fs1) RESOLV_CONF = Some vpn_resolv
     \<and> (map_of (files (cleanup_client_dns_linux fs1)) RESOLV_CONF = Some orig
          \<longleftrightarrow> utf8_ok (map code orig) \<and> may_write fs RESOLV_BAK)"
proof -
  have conf: "may_write fs RESOLV_CONF"
    using assms(4) by (auto simp: setup_client_dns_linux_def try_fs_def fs_write_eq Let_def split: if_splits)
  let ?saved = "if utf8_ok (map code orig) then orig else []"
  have nonempty: "\<not> utf8_ok (map code orig) \<Longrightarrow> orig \<noteq> []" by auto
  have fs1: "fs1 = fs\<lparr>files := AList.update RESOLV_CONF vpn_resolv
      (if may_write fs RESOLV_BAK then AList.update RESOLV_BAK ?saved (files fs) else files fs)\<rparr>"
    using assms(1,4) conf
    by (auto simp: setup_client_dns_linux_def try_fs_def fs_write_eq read_to_string_def Let_def split: if_splits)
  show ?thesis
    using assms(2,3) conf nonempty
    by (auto simp: fs1 cleanup_client_dns_linux_def read_to_string_def try_fs_def fs_write_eq fs_remove_def)
qed

theorem dns_restored_iff_witness:
  "\<exists>fs1. setup_client_dns_linux
       \<lparr>files = [(RESOLV_CONF, ''nameserver 9.9.9.9'')], dirs = [''/etc''], writable = \<lambda>p. p \<noteq> RESOLV_BAK\<rparr> = (fs1, Inr ())
     \<and> map_of (files (cleanup_client_dns_linux fs1)) RESOLV_CONF \<noteq> Some ''nameserver 9.9.9.9''"
proof -
  let ?fs = "\<lparr>files = [(RESOLV_CONF, ''nameserver 9.9.9.9'')], dirs = [''/etc''], writable = \<lambda>p. p \<noteq> RESOLV_BAK\<rparr>"
  have par: "parent RESOLV_CONF = ''/etc''" "RESOLV_CONF \<noteq> ''/etc''" by (simp_all add: RESOLV_CONF_def parent_def)
  have m: "may_write ?fs RESOLV_CONF" "\<not> may_write ?fs RESOLV_BAK" by (simp_all add: may_write_def par)
  then obtain fs1 where fs1: "setup_client_dns_linux ?fs = (fs1, Inr ())"
    by (auto simp: setup_client_dns_linux_def try_fs_def fs_write_eq Let_def)
  have "''nameserver 9.9.9.9'' \<noteq> vpn_resolv" by (simp add: vpn_resolv_def DNS_PRIMARY_def)
  from dns_restored_iff [OF _ _ this fs1] m fs1 show ?thesis by auto
qed

subsection \<open>Reading command output\<close>

lemma starts_white_ascii: "code c < 128 \<Longrightarrow> starts_white (c # s) \<longleftrightarrow> ascii_white c"
proof -
  assume c: "code c < 128"
  have "starts_white (c # s) \<longleftrightarrow> [code c] \<in> set white_space"
  proof
    assume "starts_white (c # s)"
    then obtain w where w: "w \<in> set white_space" "map code (take (length w) (c # s)) = w" by (auto simp: starts_white_def)
    with ascii_single_white_space(1) obtain a as where a: "w = a # as" "a < 128 \<longrightarrow> as = []"
      by (cases w) (auto simp: ascii_single_def)
    with w c show "[code c] \<in> set white_space" by auto
  qed (auto simp: starts_white_def intro!: bexI [of _ "[code c]"])
  with ascii_white_space(1) [OF c] show ?thesis by simp
qed

lemma break_white_word:
  assumes "\<forall>c \<in> set w. visible c" "r = [] \<or> starts_white r"
  shows "break_white (w @ r) = (w, r)"
  using assms(1)
proof (induction w)
  case Nil
  with assms(2) show ?case by (cases r) auto
qed (auto simp: visible_def starts_white_ascii)

lemma trim_start_visible: "visible c \<Longrightarrow> trim_start (c # s) = c # s"
  by (simp add: visible_def trim_start_def strip_front_ascii ascii_single_white_space ascii_white_space)

definition is_word :: "string \<Rightarrow> bool" where
  "is_word w \<longleftrightarrow> w \<noteq> [] \<and> (\<forall>c \<in> set w. visible c)"

lemma split_whitespace_word:
  assumes "is_word w" "r = [] \<or> starts_white r"
  shows "split_whitespace (w @ r) = w # split_whitespace r"
proof -
  from assms(1) obtain c w' where w: "w = c # w'" "visible c" "\<forall>c \<in> set w'. visible c"
    by (cases w) (auto simp: is_word_def)
  with break_white_word [OF w(3) assms(2)] trim_start_visible [OF w(2)] show ?thesis
    by (subst split_whitespace.simps) simp
qed

lemma split_whitespace_blank: "split_whitespace (CHR '' '' # s) = split_whitespace s"
proof -
  have "trim_start (CHR '' '' # s) = trim_start s"
    using strip_front_whites(1) [of "'' ''" s] by (simp add: trim_start_def ascii_white_def code_def)
  then show ?thesis by (subst (1 2) split_whitespace.simps) simp
qed

lemma split_whitespace_join: "\<forall>w \<in> set ws. is_word w \<Longrightarrow> split_whitespace (join_words ws) = ws"
proof (induction ws rule: join_words.induct)
  case 1
  then show ?case by (subst split_whitespace.simps) (simp add: trim_start_def)
next
  case (2 w)
  then show ?case using split_whitespace_word [of w "[]"] by (simp add: split_whitespace.simps [of "[]"] trim_start_def)
next
  case (3 w v ws)
  have "starts_white (CHR '' '' # join_words (v # ws))" by (simp add: starts_white_ascii code_def ascii_white_def)
  with 3 split_whitespace_word [of w "CHR '' '' # join_words (v # ws)"] show ?case
    by (simp add: split_whitespace_blank)
qed

text \<open>Printed lines are read back.\<close>

definition line_text :: "string \<Rightarrow> bool" where
  "line_text l \<longleftrightarrow> newline \<notin> set l \<and> CHR 0x0D \<notin> set l"

lemma lines_print: "\<forall>l \<in> set ls. line_text l \<Longrightarrow> lines (concat (map (\<lambda>l. l @ [newline]) ls)) = ls"
proof (induction ls)
  case Nil
  then show ?case by (simp add: lines.simps)
next
  case (Cons l ls)
  then have l: "newline \<notin> set l" "strip_cr l = l"
    by (auto simp: line_text_def strip_cr_def) (metis last_in_set)
  let ?rest = "concat (map (\<lambda>l. l @ [newline]) ls)"
  have tw: "takeWhile (\<lambda>c. c \<noteq> newline) (l @ newline # ?rest) = l"
    and dw: "dropWhile (\<lambda>c. c \<noteq> newline) (l @ newline # ?rest) = newline # ?rest"
    using l(1) by (induction l) auto
  have "lines (l @ newline # ?rest) = l # lines ?rest"
    by (subst lines.simps) (simp add: dw tw l(2))
  with Cons show ?case by simp
qed

lemma line_text_words: "\<forall>w \<in> set ws. is_word w \<Longrightarrow> line_text (join_words ws)"
proof (induction ws rule: join_words.induct)
  case (3 w v ws)
  then show ?case by (auto simp: line_text_def is_word_def visible_def ascii_white_def code_def newline_def)
qed (auto simp: line_text_def is_word_def visible_def ascii_white_def code_def newline_def)

lemma lines_of_rows:
  assumes "\<forall>ws \<in> set rows. \<forall>word \<in> set ws. is_word word"
  shows "lines (concat (map (\<lambda>ws. join_words ws @ [newline]) rows)) = map join_words rows"
proof -
  have "\<forall>l \<in> set (map join_words rows). line_text l" using assms line_text_words by simp
  from lines_print [OF this] show ?thesis by (simp add: comp_def)
qed

lemma first_gateway_append:
  "first_gateway f (xs @ ys) = (case first_gateway f xs of Some g \<Rightarrow> Some g | None \<Rightarrow> first_gateway f ys)"
  by (induction xs) (auto split: option.splits)

lemma first_gateway_None: "\<forall>l \<in> set ls. f l = None \<Longrightarrow> first_gateway f ls = None"
  by (induction ls) simp_all

lemma gateway_line_row:
  "\<forall>w \<in> set ws. is_word w \<Longrightarrow>
     gateway_line_linux (join_words ws) = (if ws \<noteq> [] \<and> hd ws = ''default'' then word_after ''via'' ws else None)"
  by (simp add: gateway_line_linux_def split_whitespace_join)

text \<open>
  On Linux the gateway found is the one of the first default route \<open>ip route show default\<close> prints, whatever
  rows of other kinds come before it and whatever follows.
\<close>

theorem default_gateway_found:
  assumes "ex ''ip'' [''route'', ''show'', ''default''] [] w
      = (w', Inr \<lparr>out_success = True,
           out_stdout = concat (map (\<lambda>ws. join_words ws @ [newline]) (pre @ (''default'' # ''via'' # gw # others) # post)),
           out_stderr = err\<rparr>)"
    and "\<forall>ws \<in> set (pre @ (''default'' # ''via'' # gw # others) # post). \<forall>word \<in> set ws. is_word word"
    and "\<forall>ws \<in> set pre. ws = [] \<or> hd ws \<noteq> ''default''"
  shows "get_default_gateway_linux ex w = (w', Inr gw)"
proof -
  let ?row = "''default'' # ''via'' # gw # others"
  have rows: "lines (concat (map (\<lambda>ws. join_words ws @ [newline]) (pre @ ?row # post))) = map join_words (pre @ ?row # post)"
    by (rule lines_of_rows [OF assms(2)])
  have row: "gateway_line_linux (join_words ?row) = Some gw"
    using assms(2) gateway_line_row [of ?row] by simp
  have pre: "first_gateway gateway_line_linux (map join_words pre) = None"
  proof (rule first_gateway_None, rule ballI)
    fix l assume "l \<in> set (map join_words pre)"
    then obtain ws where ws: "ws \<in> set pre" "l = join_words ws" by auto
    then have "ws \<in> set (pre @ ?row # post)" by (simp only: set_append Un_iff simp_thms)
    from bspec [OF assms(2) this] bspec [OF assms(3) ws(1)] show "gateway_line_linux l = None" by (simp only: ws(2) gateway_line_row) auto
  qed
  have "first_gateway gateway_line_linux (map join_words (pre @ ?row # post)) = Some gw"
    by (simp only: map_append list.map first_gateway_append pre option.case first_gateway.simps row)
  then show ?thesis
    by (simp only: get_default_gateway_linux_def host_then_def run_cmd_output_def assms(1) prod.case sum.case
        cmd_output.simps simp_thms if_False rows option.case)
qed

theorem default_gateway_found_witness:
  "get_default_gateway_linux
     (\<lambda>_ _ _ w. (w, Inr \<lparr>out_success = True, out_stdout = ''default via 192.168.1.1 dev eth0'' @ [newline], out_stderr = []\<rparr>)) ()
   = ((), Inr ''192.168.1.1'')"
proof -
  have "is_word ''default''" "is_word ''via''" "is_word ''192.168.1.1''" "is_word ''dev''" "is_word ''eth0''"
    by (simp_all add: is_word_def visible_def ascii_white_def code_def)
  then show ?thesis
    by (intro default_gateway_found [where pre = "[]" and post = "[]" and others = "[''dev'', ''eth0'']" and err = "[]"]) simp_all
qed

end
