(* ===== verification/Device.thy ===== *)
theory Device
  imports Datagram Routes
begin

text \<open>
  The TUN device of \<open>redpill-tun/src/device.rs\<close> on Linux, macOS and Windows. The results of the system
  calls and of the wintun library are arguments; the descriptors the process has open are explicit, so
  that leaks show. Error texts name the failing call.
\<close>

section \<open>Numbers in text\<close>

text \<open>\<open>str::parse\<close> of an unsigned integer below a limit: an optional plus sign and decimal digits.\<close>

definition parse_uint :: "nat \<Rightarrow> string \<Rightarrow> nat option" where
  "parse_uint limit s =
     (case read_number 10 None True limit (if s \<noteq> [] \<and> hd s = CHR ''+'' then tl s else s) of
        Some (n, []) \<Rightarrow> Some n
      | _ \<Rightarrow> None)"

section \<open>Creating a device\<close>

type_synonym fds = "nat set"

datatype tun_error = TunIo anyhow | TunUnsupported

record tun_device =
  td_fd :: nat
  td_name :: string

text \<open>
  System calls: a descriptor or an error; the interface name the kernel answers to a requested one; and
  reading and setting the descriptor flags.
\<close>

record tun_sys =
  sys_open :: "string + nat"
  sys_name :: "string \<Rightarrow> string + string"
  sys_connect :: "u32 \<Rightarrow> string + unit"
  sys_ifname :: "string + string"
  sys_info :: "string + u32"
  sys_getfl :: "string + nat"
  sys_setfl :: "string + unit"

definition fd_open :: "nat \<Rightarrow> fds \<Rightarrow> fds" where "fd_open fd fds = insert fd fds"
definition fd_close :: "nat \<Rightarrow> fds \<Rightarrow> fds" where "fd_close fd fds = fds - {fd}"

definition IFNAMSIZ :: nat where "IFNAMSIZ = 16"

text \<open>\<open>CString::new\<close> rejects text with a zero byte.\<close>

definition cstring_new :: "string \<Rightarrow> string option" where
  "cstring_new s = (if CHR 0x00 \<in> set s then None else Some s)"

text \<open>Setting \<open>O_NONBLOCK\<close>, with the clean-up of both failures.\<close>

definition set_nonblock :: "tun_sys \<Rightarrow> nat \<Rightarrow> string \<Rightarrow> fds \<Rightarrow> fds \<times> (tun_error + tun_device)" where
  "set_nonblock io fd actual_name fds =
     (case sys_getfl io of
        Inl e \<Rightarrow> (fd_close fd fds, Inl (TunIo (IoError e)))
      | Inr flags \<Rightarrow>
          (case sys_setfl io of
             Inl e \<Rightarrow> (fd_close fd fds, Inl (TunIo (IoError e)))
           | Inr _ \<Rightarrow> (fds, Inr \<lparr>td_fd = fd, td_name = actual_name\<rparr>)))"

definition TunDevice_create_linux :: "tun_sys \<Rightarrow> string \<Rightarrow> fds \<Rightarrow> fds \<times> (tun_error + tun_device)" where
  "TunDevice_create_linux io name fds =
     (case sys_open io of
        Inl e \<Rightarrow> (fds, Inl (TunIo (IoError e)))
      | Inr fd \<Rightarrow>
          let fds = fd_open fd fds in
          (case cstring_new name of
             None \<Rightarrow> (fds, Inl (TunIo (IoError ''invalid device name'')))
           | Some name_bytes \<Rightarrow>
               let ifr_name = take (min (length name_bytes) (IFNAMSIZ - 1)) name_bytes in
               (case sys_name io ifr_name of
                  Inl e \<Rightarrow> (fd_close fd fds, Inl (TunIo (IoError e)))
                | Inr actual_name \<Rightarrow> set_nonblock io fd actual_name fds)))"

text \<open>The unit number of a utun name; the successor of the number wraps around at 32 bits.\<close>

definition utun_unit :: "string \<Rightarrow> tun_error + u32" where
  "utun_unit name =
     (if name = ''utun'' then Inr 0
      else case strip_prefix ''utun'' name of
        Some num_str \<Rightarrow>
          (case parse_uint (2 ^ 32) num_str of
             None \<Rightarrow> Inl (TunIo (IoError ''invalid utun number''))
           | Some n \<Rightarrow> Inr (of_nat n + 1))
      | None \<Rightarrow> Inl (TunIo (IoError ''macOS TUN name must start with utun'')))"

definition TunDevice_create_macos :: "tun_sys \<Rightarrow> string \<Rightarrow> fds \<Rightarrow> fds \<times> (tun_error + tun_device)" where
  "TunDevice_create_macos io name fds =
     (case utun_unit name of
        Inl e \<Rightarrow> (fds, Inl e)
      | Inr unit \<Rightarrow>
          (case sys_open io of
             Inl e \<Rightarrow> (fds, Inl (TunIo (IoError e)))
           | Inr fd \<Rightarrow>
               let fds = fd_open fd fds in
               (case sys_info io of
                  Inl e \<Rightarrow> (fd_close fd fds, Inl (TunIo (IoError e)))
                | Inr ctl_id \<Rightarrow>
                    (case sys_connect io unit of
                       Inl e \<Rightarrow> (fd_close fd fds, Inl (TunIo (IoError e)))
                     | Inr _ \<Rightarrow>
                         (case sys_ifname io of
                            Inl e \<Rightarrow> (fd_close fd fds, Inl (TunIo (IoError e)))
                          | Inr actual_name \<Rightarrow> set_nonblock io fd actual_name fds)))))"

definition TunDevice_create :: "target_os \<Rightarrow> tun_sys \<Rightarrow> string \<Rightarrow> fds \<Rightarrow> fds \<times> (tun_error + tun_device)" where
  "TunDevice_create os = (case os of Linux \<Rightarrow> TunDevice_create_linux | MacOs \<Rightarrow> TunDevice_create_macos)"

text \<open>Windows: the library, the adapter and a session on it.\<close>

record wintun_io =
  wt_load :: "string + unit"
  wt_adapter :: "string \<Rightarrow> string + unit"
  wt_session :: "nat \<Rightarrow> string + nat"
  wt_name :: "string + string"

record win_device =
  wd_session :: nat
  wd_name :: string

definition TunDevice_create_windows :: "wintun_io \<Rightarrow> string \<Rightarrow> tun_error + win_device" where
  "TunDevice_create_windows io name =
     (case wt_load io of
        Inl e \<Rightarrow> Inl (TunIo (IoError e))
      | Inr _ \<Rightarrow>
          (case wt_adapter io name of
             Inl e \<Rightarrow> Inl (TunIo (IoError e))
           | Inr _ \<Rightarrow>
               (case wt_session io 0x400000 of
                  Inl e \<Rightarrow> Inl (TunIo (IoError e))
                | Inr s \<Rightarrow>
                    Inr \<lparr>wd_session = s, wd_name = (case wt_name io of Inr n \<Rightarrow> n | Inl _ \<Rightarrow> name)\<rparr>)))"

definition TunDevice_drop :: "tun_device \<Rightarrow> fds \<Rightarrow> fds" where
  "TunDevice_drop self fds = fd_close (td_fd self) fds"

section \<open>MTU\<close>

text \<open>Linux: a socket for the request, closed whatever it answers; the MTU is cast to a C integer.\<close>

definition set_mtu_linux ::
  "(string + nat) \<Rightarrow> (string \<Rightarrow> int \<Rightarrow> string + unit) \<Rightarrow> tun_device \<Rightarrow> u32 \<Rightarrow> fds \<Rightarrow> fds \<times> (tun_error + unit)" where
  "set_mtu_linux socket ioctl self mtu fds =
     (case socket of
        Inl e \<Rightarrow> (fds, Inl (TunIo (IoError e)))
      | Inr sock \<Rightarrow>
          let fds = fd_open sock fds;
              ifr_name = take (min (length (td_name self)) (IFNAMSIZ - 1)) (td_name self);
              ret = ioctl ifr_name (sint mtu);
              fds = fd_close sock fds in
          (fds, case ret of Inl e \<Rightarrow> Inl (TunIo (IoError e)) | Inr _ \<Rightarrow> Inr ()))"

definition cmd_result :: "string \<Rightarrow> 'w \<times> (string + cmd_output) \<Rightarrow> 'w \<times> (tun_error + unit)" where
  "cmd_result msg r =
     (case r of
        (w, Inl e) \<Rightarrow> (w, Inl (TunIo (IoError e)))
      | (w, Inr out) \<Rightarrow> if \<not> out_success out then (w, Inl (TunIo (IoError (msg @ out_stderr out)))) else (w, Inr ()))"

definition set_mtu_macos :: "'w exec \<Rightarrow> tun_device \<Rightarrow> u32 \<Rightarrow> 'w \<Rightarrow> 'w \<times> (tun_error + unit)" where
  "set_mtu_macos ex self mtu w =
     cmd_result ''ifconfig mtu failed: '' (ex ''ifconfig'' [td_name self, ''mtu'', show_nat (unat mtu)] [] w)"

definition set_mtu_windows :: "'w exec \<Rightarrow> win_device \<Rightarrow> u32 \<Rightarrow> 'w \<Rightarrow> 'w \<times> (tun_error + unit)" where
  "set_mtu_windows ex self mtu w =
     cmd_result ''netsh mtu failed: ''
       (ex ''netsh'' [''interface'', ''ipv4'', ''set'', ''subinterface'', wd_name self, ''mtu='' @ show_nat (unat mtu),
                      ''store=active''] [] w)"

section \<open>Packets\<close>

text \<open>
  A read of the descriptor: the frame waiting there, cut off at the buffer, or an error; a packet of no
  bytes stands for \<open>Ok(0)\<close>. A write hands the frame to the kernel, which says how much of it it took.
\<close>

datatype sys_read = SysFrame bytes | SysWouldBlock | SysReadError string

datatype sys_write = SysWrote nat | SysWriteBlock | SysWriteError string

definition read_packet_linux :: "nat \<Rightarrow> sys_read \<Rightarrow> tun_error + bytes" where
  "read_packet_linux buf_len rd =
     (case rd of
        SysFrame frame \<Rightarrow> Inr (take buf_len frame)
      | SysWouldBlock \<Rightarrow> Inr []
      | SysReadError e \<Rightarrow> Inl (TunIo (IoError e)))"

definition read_packet_macos :: "nat \<Rightarrow> sys_read \<Rightarrow> tun_error + bytes" where
  "read_packet_macos buf_len rd =
     (case rd of
        SysFrame frame \<Rightarrow>
          let total = min (length frame) (4 + buf_len) in
          if total \<le> 4 then Inr [] else Inr (slice frame 4 total)
      | SysWouldBlock \<Rightarrow> Inr []
      | SysReadError e \<Rightarrow> Inl (TunIo (IoError e)))"

definition read_packet_windows :: "nat \<Rightarrow> string + bytes \<Rightarrow> tun_error + bytes" where
  "read_packet_windows buf_len rd =
     (case rd of
        Inr data \<Rightarrow> Inr (take (min (length data) buf_len) data)
      | Inl e \<Rightarrow> Inl (TunIo (IoError e)))"

definition write_result :: "nat \<Rightarrow> sys_write \<Rightarrow> tun_error + nat" where
  "write_result hdr r =
     (case r of
        SysWrote n \<Rightarrow> Inr (n - hdr)
      | SysWriteBlock \<Rightarrow> Inr 0
      | SysWriteError e \<Rightarrow> Inl (TunIo (IoError e)))"

text \<open>The frame handed to the kernel and the result; \<open>AF_INET\<close> and \<open>AF_INET6\<close> are the platform's numbers.\<close>

definition write_packet_linux :: "(bytes \<Rightarrow> sys_write) \<Rightarrow> bytes \<Rightarrow> bytes \<times> (tun_error + nat)" where
  "write_packet_linux write buf = (buf, write_result 0 (write buf))"

definition write_packet_macos ::
  "u32 \<Rightarrow> u32 \<Rightarrow> (bytes \<Rightarrow> sys_write) \<Rightarrow> bytes \<Rightarrow> bytes \<times> (tun_error + nat)" where
  "write_packet_macos AF_INET AF_INET6 write buf =
     (let af = (if buf \<noteq> [] \<and> version_nibble (buf ! 0) = 6 then AF_INET6 else AF_INET);
          frame = u32_to_be af @ buf in
      (frame, write_result 4 (write frame)))"

text \<open>
  Windows: the ring buffer hands out a packet of the requested length, cast to 16 bits, and
  \<open>copy_from_slice\<close> panics if the lengths differ.
\<close>

definition write_packet_windows :: "(u16 \<Rightarrow> string + nat) \<Rightarrow> bytes \<Rightarrow> (tun_error + bytes) rust" where
  "write_packet_windows allocate buf =
     (case allocate (len_u16 buf) of
        Inl e \<Rightarrow> Some (Inl (TunIo (IoError e)))
      | Inr n \<Rightarrow> if n = length buf then Some (Inr buf) else None)"

section \<open>Lemmas and properties\<close>

lemma fd_close_open [simp]: "fd \<notin> fds \<Longrightarrow> fd_close fd (fd_open fd fds) = fds"
  by (auto simp: fd_close_def fd_open_def)

lemmas create_defs = TunDevice_create_linux_def TunDevice_create_macos_def set_nonblock_def cstring_new_def Let_def

text \<open>
  Claim C36. Creating a device opens exactly one descriptor, which the device holds and its drop closes; a creation
  that fails leaves no descriptor open, with one exception: on Linux a name with a zero byte is noticed
  after the device file was opened, and that descriptor stays open.
\<close>

theorem tun_create_fds:
  assumes fresh: "\<forall>fd. sys_open io = Inr fd \<longrightarrow> fd \<notin> fds" and run: "TunDevice_create os io name fds = (fds', r)"
  shows "case r of
      Inr d \<Rightarrow> sys_open io = Inr (td_fd d) \<and> fds' = insert (td_fd d) fds \<and> TunDevice_drop d fds' = fds
    | Inl _ \<Rightarrow> fds' = (case sys_open io of
          Inr fd \<Rightarrow> if os = Linux \<and> CHR 0x00 \<in> set name then insert fd fds else fds
        | Inl _ \<Rightarrow> fds)"
proof (cases "sys_open io")
  case (Inl e)
  with run show ?thesis
    by (auto simp: TunDevice_create_def create_defs split: sum.splits target_os.splits)
next
  case (Inr fd)
  with fresh have fd: "fd \<notin> fds" by simp
  have "insert fd fds - {fd} = fds" using fd by auto
  with run Inr fd show ?thesis
    by (cases os) (auto simp: TunDevice_create_def create_defs TunDevice_drop_def fd_open_def fd_close_def
        split: sum.splits if_splits)
qed

definition sample_sys :: tun_sys where
  "sample_sys = \<lparr>sys_open = Inr 5, sys_name = Inr, sys_connect = \<lambda>_. Inr (), sys_ifname = Inr ''utun3'',
     sys_info = Inr 0, sys_getfl = Inr 0, sys_setfl = Inr ()\<rparr>"

theorem tun_create_fds_witness:
  "\<exists>e. TunDevice_create Linux sample_sys [CHR 0x00] {0, 1, 2} = ({0, 1, 2, 5}, Inl e)"
proof -
  obtain fds' e where run: "TunDevice_create Linux sample_sys [CHR 0x00] {0, 1, 2} = (fds', Inl e)"
    by (simp add: TunDevice_create_def create_defs sample_sys_def)
  from tun_create_fds [OF _ run] have "fds' = insert 5 {0, 1, 2}" by (simp add: sample_sys_def)
  then have "fds' = {0, 1, 2, 5}" by auto
  with run show ?thesis by blast
qed

lemma read_number_printed: "n < limit \<Longrightarrow> read_number 10 None True limit (show_nat n) = Some (n, [])"
  using read_number_show [of n limit "[]" None True] by simp

lemma parse_uint_show: "n < limit \<Longrightarrow> parse_uint limit (show_nat n) = Some n"
proof -
  assume n: "n < limit"
  have "show_nat n \<noteq> []" "hd (show_nat n) \<noteq> CHR ''+''"
  proof -
    have "dec_digits n \<noteq> []" by (subst dec_digits.simps) simp
    then show "show_nat n \<noteq> []" by (simp add: show_nat_digits)
    from \<open>dec_digits n \<noteq> []\<close> have "hd (show_nat n) = char_of (48 + hd (dec_digits n))" "hd (dec_digits n) < 10"
      using dec_digits_range [of n] by (simp_all add: show_nat_digits hd_map)
    then have "to_digit 10 (hd (show_nat n)) \<noteq> None" using to_digit_dec by simp
    then show "hd (show_nat n) \<noteq> CHR ''+''" by (auto simp: to_digit_def to_digit16_def code_def)
  qed
  with read_number_printed [OF n] show ?thesis by (simp add: parse_uint_def)
qed

lemma show_nat_ne_Nil [simp]: "show_nat n \<noteq> []"
  by (subst show_nat.simps) simp

text \<open>
  The unit requested for \<open>utunN\<close> is \<open>N + 1\<close>, as the comment on 1-based units says; the largest 32-bit number
  wraps around to 0, which asks the kernel to pick a unit.
\<close>

theorem utun_unit_exact:
  assumes "n < 2 ^ 32"
  shows "utun_unit (''utun'' @ show_nat n) = Inr (of_nat (n + 1)) \<and> utun_unit ''utun'' = Inr 0
     \<and> (utun_unit (''utun'' @ show_nat n) = Inr 0 \<longleftrightarrow> n = 2 ^ 32 - 1)"
proof -
  have unit: "utun_unit (''utun'' @ show_nat n) = Inr (of_nat (n + 1))"
    using parse_uint_show [OF assms] by (simp add: utun_unit_def strip_prefix_def)
  have "(of_nat (n + 1) = (0 :: u32)) \<longleftrightarrow> (n + 1) mod 2 ^ 32 = 0"
    by (simp only: of_nat_eq_0_iff dvd_eq_mod_eq_0 len_bit0 len_num1 word_of_nat_eq_0_iff) simp
  also have "\<dots> \<longleftrightarrow> n = 2 ^ 32 - 1"
  proof (cases "n = 2 ^ 32 - 1")
    case False
    with assms have "n + 1 < 2 ^ 32" by simp
    with False show ?thesis by simp
  qed simp
  finally show ?thesis using unit by (simp add: utun_unit_def)
qed

theorem utun_unit_exact_witness: "utun_unit ''utun5'' = Inr 6"
proof -
  have "show_nat 5 = ''5''" by (simp add: show_simps)
  with utun_unit_exact [of 5] show ?thesis by simp
qed

text \<open>
  A packet written through the device comes back unchanged from a read into a buffer that holds it, on
  each platform: the header macOS puts before it is the one \<open>write_to_tun\<close> of the server writes and the
  read takes off. A longer packet is cut off at the buffer.
\<close>

theorem device_packet_roundtrip:
  assumes "p \<noteq> []"
  shows "read_packet_linux n (SysFrame (fst (write_packet_linux wr p))) = Inr (take n p)
     \<and> (0 < n \<longrightarrow> read_packet_macos n (SysFrame (fst (write_packet_macos af af6 wr p))) = Inr (take n p))
     \<and> fst (write_packet_macos af af6 wr p) = tun_frame af af6 MacOs p
     \<and> fst (write_packet_linux wr p) = tun_frame af af6 Linux p
     \<and> read_packet_windows n (Inr p) = Inr (take n p)"
proof -
  have "length (u32_to_be w) = 4" for w by (simp add: u32_to_be_def)
  with assms show ?thesis
    by (auto simp: read_packet_linux_def write_packet_linux_def read_packet_macos_def write_packet_macos_def
        read_packet_windows_def tun_frame_def Let_def slice_def min_def)
qed

theorem device_packet_roundtrip_witness:
  "read_packet_macos 1500 (SysFrame (fst (write_packet_macos 2 30 (\<lambda>f. SysWrote (length f)) [0x60, 1, 2]))) = Inr [0x60, 1, 2]"
  using device_packet_roundtrip [of "[0x60, 1, 2]" 1500 "\<lambda>f. SysWrote (length f)" 2 30, THEN conjunct2, THEN conjunct1] by simp

text \<open>
  On Windows a write panics exactly for packets of 65536 bytes and more, whose length does not survive the
  cast to 16 bits; the ring buffer is relied on to hand out packets of the length asked for.
\<close>

theorem windows_write_panics_iff:
  assumes "\<forall>l. allocate l = Inr (unat l)"
  shows "write_packet_windows allocate buf = None \<longleftrightarrow> 65536 \<le> length buf"
proof (cases "length buf < 65536")
  case True
  then show ?thesis using assms unat_len_u16 [of buf] by (simp add: write_packet_windows_def)
next
  case False
  then have "unat (len_u16 buf) \<noteq> length buf" using unat_u16_less [of "len_u16 buf"] by simp
  with assms False show ?thesis by (simp add: write_packet_windows_def)
qed

theorem windows_write_panics_iff_witness:
  "write_packet_windows (\<lambda>l. Inr (unat l)) (replicate 65536 0) = None"
  using windows_write_panics_iff [of "\<lambda>l. Inr (unat l)" "replicate 65536 0"] by simp

end
