(* ===== verification/StreamTunnel.thy ===== *)
theory StreamTunnel
  imports VpnTunnel Device "HOL-Library.Sublist"
begin

text \<open>
  The server's stream tunnels as wholes: \<open>run_tcp_reality_tunnel\<close> of \<^verbatim>\<open>src/crates/redpill-quic/src/server.rs\<close>,
  its sending task and its reading loop on the shared state of the server, and \<open>run_ws_vpn_tunnel\<close> of
  \<^verbatim>\<open>transport/websocket_cdn.rs\<close>, whose sending task reads the TUN device beside the global reader. A run is a
  list of events, one for each time a task gets on; the bytes of the stream arrive in pieces of any size.
\<close>

section \<open>State and events\<close>

text \<open>
  \<open>tt_in\<close> are the bytes that have arrived and not been read, \<open>tt_len\<close> the length of a frame whose body the
  reading loop waits for, \<open>tt_draining\<close> says that the sending task empties the queue before it waits again.
  \<open>tt_popped\<close> and \<open>tt_arrived\<close> are histories.
\<close>

record tcp_tunnel =
  tt_server :: server_state
  tt_writer :: tls_writer
  tt_in :: bytes
  tt_len :: "nat option"
  tt_tun :: "bytes list"
  tt_sending :: bool
  tt_draining :: bool
  tt_popped :: "bytes list"
  tt_arrived :: bytes

datatype tcp_event =
    TtPop nat "string option"
  | TtIdle "string option"
  | TtBytes bytes
  | TtRead u64 bool
  | TtClosed string
  | TtCancelled
  | TtOther "server_state \<Rightarrow> server_state"

definition tcp_tunnel_new :: "server_state \<Rightarrow> tcp_tunnel" where
  "tcp_tunnel_new st = \<lparr>tt_server = st, tt_writer = tls_writer_new, tt_in = [], tt_len = None, tt_tun = [],
     tt_sending = True, tt_draining = False, tt_popped = [], tt_arrived = []\<rparr>"

section \<open>The tasks\<close>

text \<open>A write or flush of the sending task; \<open>io\<close> is its error, if any, which ends the task.\<close>

definition tt_send :: "tls_event \<Rightarrow> string option \<Rightarrow> tcp_tunnel \<Rightarrow> tcp_tunnel" where
  "tt_send e io t =
     (case queue2tls_step (case io of None \<Rightarrow> e | Some err \<Rightarrow> TlsWriteFails err) (tt_writer t) of
        Inl err \<Rightarrow> t\<lparr>tt_sending := False\<rparr>
      | Inr w \<Rightarrow> t\<lparr>tt_writer := w\<rparr>)"

text \<open>
  \<open>pop\<close> and \<open>try_pop\<close>: with a packet the task writes it and goes on emptying the queue, without one it waits
  for the next packet or, when something may be buffered, the flush timer.
\<close>

definition tt_pop :: "qref \<Rightarrow> nat \<Rightarrow> string option \<Rightarrow> tcp_tunnel \<Rightarrow> tcp_tunnel" where
  "tt_pop client_queue now io t =
     (case queue_pop now (ss_router (tt_server t)) client_queue of
        (r, None) \<Rightarrow> t\<lparr>tt_server := (tt_server t)\<lparr>ss_router := r\<rparr>, tt_draining := False\<rparr>
      | (r, Some packet) \<Rightarrow>
          tt_send (TlsPackets [packet]) io
            (t\<lparr>tt_server := (tt_server t)\<lparr>ss_router := r\<rparr>, tt_draining := True, tt_popped := tt_popped t @ [packet]\<rparr>))"

text \<open>One \<open>read_exact\<close> of the reading loop, when enough bytes are there, and what follows it.\<close>

definition tt_frame_len :: "tcp_tunnel \<Rightarrow> nat option" where
  "tt_frame_len t =
     (case read_exact 2 (tt_in t) of
        (rest, Inl e) \<Rightarrow> None
      | (rest, Inr len_buf) \<Rightarrow> Some (unat (u16_from_be (len_buf ! 0) (len_buf ! 1))))"

definition tt_read :: "ipv4 \<Rightarrow> u64 \<Rightarrow> bool \<Rightarrow> tcp_tunnel \<Rightarrow> tcp_tunnel" where
  "tt_read client_ip now write_ok t =
     (case tt_len t of
        None \<Rightarrow>
          (case tt_frame_len t of
             None \<Rightarrow> t
           | Some n \<Rightarrow> t\<lparr>tt_in := drop 2 (tt_in t), tt_len := Some n\<rparr>)
      | Some n \<Rightarrow>
          (case read_exact n (tt_in t) of
             (rest, Inl e) \<Rightarrow> t
           | (rest, Inr pkt) \<Rightarrow>
               let t = t\<lparr>tt_in := rest, tt_len := None\<rparr> in
               if \<not> validate_source_ip pkt client_ip then t
               else
                 (case AdaptiveShaper_check now (ss_shaper (tt_server t)) n of
                    (sh, admitted) \<Rightarrow>
                      let t = t\<lparr>tt_server := (tt_server t)\<lparr>ss_shaper := sh\<rparr>\<rparr> in
                      if admitted \<and> write_ok then t\<lparr>tt_tun := tt_tun t @ [pkt]\<rparr> else t)))"

fun tcp_step :: "ipv4 \<Rightarrow> qref \<Rightarrow> tcp_event \<Rightarrow> tcp_tunnel \<Rightarrow> tcp_tunnel" where
  "tcp_step ip q (TtPop now io) t = (if tt_sending t then tt_pop q now io t else t)"
| "tcp_step ip q (TtIdle io) t =
     (if tt_sending t \<and> \<not> tt_draining t \<and> tw_needs_flush (tt_writer t) then tt_send TlsIdle io t else t)"
| "tcp_step ip q (TtBytes bs) t = t\<lparr>tt_in := tt_in t @ bs, tt_arrived := tt_arrived t @ bs\<rparr>"
| "tcp_step ip q (TtRead now write_ok) t = tt_read ip now write_ok t"
| "tcp_step ip q (TtClosed e) t = t"
| "tcp_step ip q TtCancelled t = t"
| "tcp_step ip q (TtOther f) t = t\<lparr>tt_server := f (tt_server t)\<rparr>"

text \<open>
  The reading loop returns at a frame of length zero, when the stream ends or fails before what it waits for
  is there, and on cancellation, which it only looks at while it waits for a length.
\<close>

definition tt_wanted :: "tcp_tunnel \<Rightarrow> nat" where
  "tt_wanted t = (case tt_len t of None \<Rightarrow> 2 | Some n \<Rightarrow> n)"

fun tcp_ends :: "tcp_event \<Rightarrow> tcp_tunnel \<Rightarrow> unit result option" where
  "tcp_ends (TtRead now write_ok) t =
     (if tt_len t = None \<and> tt_frame_len t = Some 0 then Some (Err (Bail ''invalid frame length'')) else None)"
| "tcp_ends (TtClosed e) t = (if length (tt_in t) < tt_wanted t then Some (Err (IoError e)) else None)"
| "tcp_ends TtCancelled t = (if tt_len t = None \<and> ss_cancelled (tt_server t) then Some (Ok ()) else None)"
| "tcp_ends _ t = None"

text \<open>\<open>nodelay\<close> is the error of \<open>set_nodelay\<close>, if any. When the loop ends the sending task is aborted.\<close>

definition run_tcp_reality_tunnel ::
  "string option \<Rightarrow> tcp_event list \<Rightarrow> ipv4 \<Rightarrow> qref \<Rightarrow> server_state \<Rightarrow> tcp_tunnel \<times> unit result option" where
  "run_tcp_reality_tunnel nodelay es client_ip client_queue st =
     (case nodelay of
        Some e \<Rightarrow> ((tcp_tunnel_new st)\<lparr>tt_sending := False\<rparr>, Some (Err (IoError e)))
      | None \<Rightarrow>
          (case task_loop tcp_ends (tcp_step client_ip client_queue) es (tcp_tunnel_new st) of
             (t, None) \<Rightarrow> (t, None)
           | (t, Some r) \<Rightarrow> (t\<lparr>tt_sending := False\<rparr>, Some r)))"

definition tcp_tunnel_effect :: "string option \<Rightarrow> tcp_event list \<Rightarrow> tunnel_effect" where
  "tcp_tunnel_effect nodelay es client_ip client_queue st =
     tt_server (fst (run_tcp_reality_tunnel nodelay es client_ip client_queue st))"

section \<open>The shared state\<close>

fun tcp_behaved :: "tcp_event \<Rightarrow> bool" where
  "tcp_behaved (TtOther f) \<longleftrightarrow> (\<forall>st. others_quiet st (f st))"
| "tcp_behaved _ \<longleftrightarrow> True"

lemma tt_send_sel [simp]:
  "tt_server (tt_send e io t) = tt_server t" "tt_in (tt_send e io t) = tt_in t" "tt_len (tt_send e io t) = tt_len t"
  "tt_tun (tt_send e io t) = tt_tun t" "tt_popped (tt_send e io t) = tt_popped t" "tt_arrived (tt_send e io t) = tt_arrived t"
  by (simp_all add: tt_send_def split: sum.split)

lemma tt_read_quiet: "others_quiet (tt_server t) (tt_server (tt_read ip now ok t))"
  by (auto simp: tt_read_def Let_def others_quiet_def split: option.split prod.split sum.split)

lemma tcp_step_quiet: "tcp_behaved e \<Longrightarrow> others_quiet (tt_server t) (tt_server (tcp_step ip q e t))"
  by (cases "(ip, q, e, t)" rule: tcp_step.cases)
    (auto simp: tt_read_quiet tt_pop_def router_quiet split: prod.split option.split)

interpretation tcp_quiet: task_invariant tcp_ends "tcp_step ip q" tcp_behaved "\<lambda>t. others_quiet st (tt_server t)" for ip q st
  by unfold_locales (blast intro: others_quiet_trans tcp_step_quiet)

lemma run_tcp_state:
  assumes "run_tcp_reality_tunnel None es ip q st = (t, r)"
  shows "\<exists>b. t = (fst (task_loop tcp_ends (tcp_step ip q) es (tcp_tunnel_new st)))\<lparr>tt_sending := b\<rparr>"
  using assms by (intro exI [of _ "tt_sending t"]) (auto simp: run_tcp_reality_tunnel_def split: prod.splits option.splits)

lemma tcp_tunnel_effect_quiet:
  assumes "list_all tcp_behaved es"
  shows "others_quiet st (tcp_tunnel_effect nodelay es ip q st)"
proof (cases nodelay)
  case None
  obtain t r where run: "run_tcp_reality_tunnel None es ip q st = (t, r)" by fastforce
  from run_tcp_state [OF this] tcp_quiet.loop_keeps [OF assms, of st "tcp_tunnel_new st" ip q] show ?thesis
    by (auto simp: None tcp_tunnel_effect_def run tcp_tunnel_new_def)
qed (simp add: tcp_tunnel_effect_def run_tcp_reality_tunnel_def tcp_tunnel_new_def)

section \<open>Downloads\<close>

text \<open>
  What is on the stream or buffered are the frames of what was popped; a packet whose write failed is the
  last one popped.
\<close>

definition tt_out_invar :: "bool \<Rightarrow> tcp_tunnel \<Rightarrow> bool" where
  "tt_out_invar faulty t \<longleftrightarrow> writer_invar (tt_writer t) \<and>
     (\<exists>sent lost. tt_popped t = sent @ lost \<and> tw_wire (tt_writer t) @ tw_buf (tt_writer t) = concat (map tcp_frame sent)
        \<and> (lost = [] \<or> faulty \<and> \<not> tt_sending t \<and> length lost = 1))"

fun tcp_writes_ok :: "tcp_event \<Rightarrow> bool" where
  "tcp_writes_ok (TtPop now io) \<longleftrightarrow> io = None"
| "tcp_writes_ok (TtIdle io) \<longleftrightarrow> io = None"
| "tcp_writes_ok _ \<longleftrightarrow> True"

lemma queue2tls_step_bytes:
  assumes "queue2tls_step e w = Ok w'" "writer_invar w"
  shows "writer_invar w' \<and> tw_wire w' @ tw_buf w' = tw_wire w @ tw_buf w @ concat (map tcp_frame (tls_packets e))"
  using queue2tls_run_bytes [of "[e]" w w'] assms by (simp add: and_then_def)

lemma tt_out_intro:
  "writer_invar (tt_writer t) \<Longrightarrow> tw_wire (tt_writer t) @ tw_buf (tt_writer t) = concat (map tcp_frame (tt_popped t)) \<Longrightarrow>
     tt_out_invar faulty t"
  by (force simp: tt_out_invar_def)

lemma tt_send_out:
  assumes "writer_invar (tt_writer t)" "tt_popped t = sent @ tls_packets e" "length (tls_packets e) \<le> 1"
    "tw_wire (tt_writer t) @ tw_buf (tt_writer t) = concat (map tcp_frame sent)" "io = None \<or> faulty"
    "\<forall>err. e \<noteq> TlsWriteFails err"
  shows "tt_out_invar faulty (tt_send e io t)"
proof (cases io)
  case None
  obtain w where w: "queue2tls_step e (tt_writer t) = Ok w" using assms(6) by (cases e) auto
  from queue2tls_step_bytes [OF w assms(1)] assms(2,4) show ?thesis
    by (intro tt_out_intro) (simp_all add: tt_send_def None w flip: append_assoc)
next
  case (Some err)
  with assms have send: "tt_send e io t = t\<lparr>tt_sending := False\<rparr>" and faulty by (simp_all add: tt_send_def)
  have "tls_packets e = [] \<or> length (tls_packets e) = 1" using assms(3) by (cases "tls_packets e") auto
  with assms \<open>faulty\<close> show ?thesis unfolding tt_out_invar_def send
    by (intro conjI exI [of _ sent] exI [of _ "tls_packets e"]) simp_all
qed

lemma tt_out_sending:
  "tt_out_invar faulty t \<Longrightarrow> tt_sending t \<Longrightarrow>
     writer_invar (tt_writer t) \<and> tw_wire (tt_writer t) @ tw_buf (tt_writer t) = concat (map tcp_frame (tt_popped t))"
  by (auto simp: tt_out_invar_def)

lemma tcp_step_out:
  assumes inv: "tt_out_invar faulty t" and ok: "tcp_writes_ok e \<or> faulty"
  shows "tt_out_invar faulty (tcp_step ip q e t)"
proof (cases "(ip, q, e, t)" rule: tcp_step.cases)
  case (1 ip' q' now io t')
  obtain r x where pop: "queue_pop now (ss_router (tt_server t)) q = (r, x)" by fastforce
  show ?thesis
  proof (cases "tt_sending t")
    case True
    note out = tt_out_sending [OF inv True]
    let ?t = "\<lambda>p. t\<lparr>tt_server := (tt_server t)\<lparr>ss_router := r\<rparr>, tt_draining := True, tt_popped := tt_popped t @ [p]\<rparr>"
    have "tt_out_invar faulty (tt_send (TlsPackets [p]) io (?t p))" for p
      by (rule tt_send_out [where sent = "tt_popped t"]) (use out ok 1 in auto)
    moreover have "tt_out_invar faulty (t\<lparr>tt_server := s, tt_draining := False\<rparr>)" for s
      using inv by (simp add: tt_out_invar_def)
    ultimately have "tt_out_invar faulty (tt_pop q now io t)" by (simp add: tt_pop_def pop split: option.split)
    with 1 True show ?thesis by simp
  qed (use 1 inv in simp)
next
  case (2 ip' q' io t')
  have "tt_out_invar faulty (tt_send TlsIdle io t)" if "tt_sending t"
    by (rule tt_send_out [where sent = "tt_popped t"]) (use tt_out_sending [OF inv that] ok 2 in auto)
  with 2 inv show ?thesis by auto
next
  case (4 ip' q' now wok t')
  with inv show ?thesis
    by (auto simp: tt_read_def Let_def tt_out_invar_def split: option.split prod.split sum.split)
qed (use inv in \<open>auto simp: tt_out_invar_def\<close>)

interpretation tcp_out: task_invariant tcp_ends "tcp_step ip q" "\<lambda>e. tcp_writes_ok e \<or> faulty" "tt_out_invar faulty" for ip q faulty
  by unfold_locales (rule tcp_step_out)

section \<open>Uploads\<close>

text \<open>
  The bytes that arrived are whole frames, the prefix of the frame that is being read and what is not read
  yet; what was written are the client's own packets among those frames, all of them when \<open>all\<close> holds:
  the device takes every write and there is no bandwidth limit.
\<close>

definition unlimited :: "server_state \<Rightarrow> bool" where
  "unlimited st \<longleftrightarrow> tb_rate (bucket (limiter (ss_shaper st))) = 0"

definition tt_pending :: "tcp_tunnel \<Rightarrow> bytes" where
  "tt_pending t = (case tt_len t of None \<Rightarrow> [] | Some n \<Rightarrow> u16_to_be (of_nat n)) @ tt_in t"

definition tt_in_invar :: "bool \<Rightarrow> ipv4 \<Rightarrow> tcp_tunnel \<Rightarrow> bool" where
  "tt_in_invar all ip t \<longleftrightarrow> (\<forall>n. tt_len t = Some n \<longrightarrow> 0 < n \<and> n < 65536) \<and>
     (\<exists>frames. list_all tcp_carries frames \<and> tt_arrived t = concat (map tcp_frame frames) @ tt_pending t
        \<and> subseq (tt_tun t) (filter (\<lambda>p. validate_source_ip p ip) frames)
        \<and> (all \<longrightarrow> unlimited (tt_server t) \<and> tt_tun t = filter (\<lambda>p. validate_source_ip p ip) frames))"

fun tcp_takes :: "tcp_event \<Rightarrow> bool" where
  "tcp_takes (TtRead now write_ok) \<longleftrightarrow> write_ok"
| "tcp_takes (TtOther f) \<longleftrightarrow> (\<forall>st. unlimited st \<longrightarrow> unlimited (f st))"
| "tcp_takes _ \<longleftrightarrow> True"

lemma u16_to_be_from: "u16_to_be (u16_from_be a b) = [a, b]"
  by (simp add: u16_to_be_def)

lemma two_bytes: "2 \<le> length bs \<Longrightarrow> bs = [bs ! 0, bs ! 1] @ drop 2 bs"
  by (cases bs; cases "tl bs") auto

lemma tt_read_length:
  assumes "tt_len t = None" "tt_frame_len t = Some n"
  shows "u16_to_be (of_nat n) @ drop 2 (tt_in t) = tt_in t" "n < 65536"
proof -
  have len: "2 \<le> length (tt_in t)" and n: "n = unat (u16_from_be (tt_in t ! 0) (tt_in t ! 1))"
    using assms(2) by (auto simp: tt_frame_len_def read_exact_def split: if_splits)
  from n have "u16_to_be (of_nat n) = [tt_in t ! 0, tt_in t ! 1]" by (simp add: u16_to_be_from)
  with two_bytes [OF len] show "u16_to_be (of_nat n) @ drop 2 (tt_in t) = tt_in t" by simp
  show "n < 65536" using unsigned_less [of "u16_from_be (tt_in t ! 0) (tt_in t ! 1)"] by (simp add: n)
qed

lemma tt_read_body:
  assumes "tt_len t = Some n" "n \<le> length (tt_in t)" "0 < n" "n < 65536"
  shows "tcp_carries (take n (tt_in t)) \<and> tt_pending t = tcp_frame (take n (tt_in t)) @ drop n (tt_in t)"
  using assms by (auto simp: tcp_carries_def MAX_FRAME_SIZE_def tt_pending_def tcp_frame_def len_u16_def min_def)

lemma tt_read_in:
  assumes inv: "tt_in_invar all ip t" and ok: "write_ok \<or> \<not> all" and go: "tcp_ends (TtRead now write_ok) t = None"
  shows "tt_in_invar all ip (tt_read ip now write_ok t)"
proof (cases "tt_len t")
  case None
  then show ?thesis
  proof (cases "tt_frame_len t")
    case (Some n)
    with tt_read_length [OF None Some] go None inv show ?thesis
      by (auto simp: tt_read_def tt_in_invar_def tt_pending_def split: if_splits)
  qed (use None inv in \<open>simp add: tt_read_def\<close>)
next
  case (Some n)
  show ?thesis
  proof (cases "n \<le> length (tt_in t)")
    case True
    let ?p = "take n (tt_in t)"
    obtain frames where F: "list_all tcp_carries frames" "tt_arrived t = concat (map tcp_frame frames) @ tt_pending t"
      "subseq (tt_tun t) (filter (\<lambda>p. validate_source_ip p ip) frames)" "0 < n" "n < 65536"
      "all \<longrightarrow> unlimited (tt_server t) \<and> tt_tun t = filter (\<lambda>p. validate_source_ip p ip) frames"
      using inv Some by (auto simp: tt_in_invar_def)
    note body = tt_read_body [OF Some True F(4,5)]
    obtain sh a where chk: "AdaptiveShaper_check now (ss_shaper (tt_server t)) n = (sh, a)" by fastforce
    have unl: "sh = ss_shaper (tt_server t) \<and> a" if all
      using F(6) that chk unlimited_check [of "ss_shaper (tt_server t)" now n] by (simp add: unlimited_def)
    show ?thesis
      using F body ok unl Some True
      by (auto simp: tt_in_invar_def tt_read_def read_exact_def chk Let_def tt_pending_def unlimited_def
          intro!: exI [of _ "frames @ [?p]"] intro: list_emb_append_mono)
  qed (use Some inv in \<open>simp add: tt_read_def read_exact_def\<close>)
qed

lemma tcp_step_in:
  assumes inv: "tt_in_invar all ip t" and ok: "tcp_takes e \<or> \<not> all" and go: "tcp_ends e t = None"
  shows "tt_in_invar all ip (tcp_step ip q e t)"
proof (cases "(ip, q, e, t)" rule: tcp_step.cases)
  case (1 ip' q' now io t')
  with inv show ?thesis
    by (auto simp: tt_pop_def tt_in_invar_def tt_pending_def unlimited_def split: prod.split option.split)
next
  case (4 ip' q' now write_ok t')
  with tt_read_in [OF inv, of write_ok now] ok go show ?thesis by simp
qed (use inv ok in \<open>auto simp: tt_in_invar_def tt_pending_def\<close>)

interpretation tcp_in: task_invariant tcp_ends "tcp_step ip q" "\<lambda>e. tcp_takes e \<or> \<not> all" "tt_in_invar all ip" for ip q all
  by unfold_locales (rule tcp_step_in)

text \<open>
  Both directions of a session at once. Whatever fails, the stream carries whole frames of packets popped from
  the queue, in order, and at most the last one popped is missing; with writes that succeed none is. What is
  written to the device are packets of the client's own among the frames that arrived, and all of them when the
  device takes the writes and there is no limit.
\<close>

lemma tcp_tunnel_duplex:
  assumes run: "run_tcp_reality_tunnel None es ip q st = (t, r)"
    and out: "list_all (\<lambda>e. tcp_writes_ok e \<or> faulty) es"
    and up: "list_all (\<lambda>e. tcp_takes e \<or> \<not> all) es" "all \<longrightarrow> unlimited st"
  shows "tt_in_invar all ip t" and "\<not> faulty \<Longrightarrow> writer_invar (tt_writer t)
     \<and> tw_wire (tt_writer t) @ tw_buf (tt_writer t) = concat (map tcp_frame (tt_popped t))"
    and "\<exists>sent lost. tt_popped t = sent @ lost \<and> length lost \<le> 1
     \<and> tw_wire (tt_writer t) @ tw_buf (tt_writer t) = concat (map tcp_frame sent)"
proof -
  let ?t = "fst (task_loop tcp_ends (tcp_step ip q) es (tcp_tunnel_new st))"
  obtain b where t: "t = ?t\<lparr>tt_sending := b\<rparr>" using run_tcp_state [OF run] by blast
  have "tt_in_invar all ip (tcp_tunnel_new st)"
    using up(2) by (auto simp: tt_in_invar_def tcp_tunnel_new_def tt_pending_def intro!: exI [of _ "[]"])
  from tcp_in.loop_keeps [OF up(1) this, of q] show "tt_in_invar all ip t" by (simp add: t tt_in_invar_def tt_pending_def)
  have "tt_out_invar faulty (tcp_tunnel_new st)"
    by (rule tt_out_intro) (simp_all add: tcp_tunnel_new_def tls_writer_new_def writer_invar_def)
  from tcp_out.loop_keeps [OF out this, of ip q]
  have inv: "tt_out_invar faulty ?t" .
  then show "\<not> faulty \<Longrightarrow> writer_invar (tt_writer t)
     \<and> tw_wire (tt_writer t) @ tw_buf (tt_writer t) = concat (map tcp_frame (tt_popped t))" by (auto simp: t tt_out_invar_def)
  from inv show "\<exists>sent lost. tt_popped t = sent @ lost \<and> length lost \<le> 1
     \<and> tw_wire (tt_writer t) @ tw_buf (tt_writer t) = concat (map tcp_frame sent)"
    by (auto simp: t tt_out_invar_def) (metis append_Nil2 length_0_conv zero_le, metis le_refl One_nat_def)
qed

section \<open>The WebSocket tunnel\<close>

text \<open>
  The device is shared with the global reader: \<open>wt_device\<close> are the packets the system has queued for reading.
  \<open>wt_arrived\<close>, \<open>wt_taken\<close> and \<open>wt_routed\<close> are histories: the packets queued, those the tunnel's task read and
  those the global reader read.
\<close>

record ws_tunnel =
  wt_server :: server_state
  wt_device :: "bytes list"
  wt_sent :: "ws_message list"
  wt_tun :: "bytes list"
  wt_sending :: bool
  wt_fds :: fds
  wt_arrived :: "bytes list"
  wt_taken :: "bytes list"
  wt_routed :: "bytes list"

datatype ws_event =
    WtArrives bytes
  | WtRead "string option"
  | WtReadFails string
  | WtReader u64 nat
  | WtMessage ws_message bool
  | WtClosed
  | WtOther "server_state \<Rightarrow> server_state"

definition ws_tunnel_new :: "fds \<Rightarrow> server_state \<Rightarrow> ws_tunnel" where
  "ws_tunnel_new fds st = \<lparr>wt_server = st, wt_device = [], wt_sent = [], wt_tun = [], wt_sending = False, wt_fds = fds,
     wt_arrived = [], wt_taken = [], wt_routed = []\<rparr>"

text \<open>The global reader with one packet it has read, on the state of the server.\<close>

definition reader_step :: "u64 \<Rightarrow> nat \<Rightarrow> bytes \<Rightarrow> server_state \<Rightarrow> server_state" where
  "reader_step now now_ms ip_pkt st =
     (let t = tun_reader_packet now now_ms ip_pkt \<lparr>tr_router = ss_router st, tr_shaper = ss_shaper st, tr_metrics = ss_metrics st\<rparr> in
      st\<lparr>ss_router := tr_router t, ss_shaper := tr_shaper t, ss_metrics := tr_metrics t\<rparr>)"

text \<open>The task that owns the duplicate of the device's descriptor ends: by an error or because it is aborted.\<close>

definition wt_stop :: "nat \<Rightarrow> ws_tunnel \<Rightarrow> ws_tunnel" where
  "wt_stop dup t = (if wt_sending t then t\<lparr>wt_sending := False, wt_fds := fd_close dup (wt_fds t)\<rparr> else t)"

definition wt_read :: "target_os \<Rightarrow> nat \<Rightarrow> string option \<Rightarrow> ws_tunnel \<Rightarrow> ws_tunnel" where
  "wt_read os dup io t =
     (case wt_device t of
        [] \<Rightarrow> t
      | raw # rest \<Rightarrow>
          let t = t\<lparr>wt_device := rest, wt_taken := wt_taken t @ [raw]\<rparr>; buf = tun_buf_read raw in
          if length buf > TUN_HDR os then
            (case io of
               Some e \<Rightarrow> wt_stop dup t
             | None \<Rightarrow> t\<lparr>wt_sent := wt_sent t @ [Binary (drop (TUN_HDR os) buf)]\<rparr>)
          else t)"

definition wt_reader :: "target_os \<Rightarrow> u64 \<Rightarrow> nat \<Rightarrow> ws_tunnel \<Rightarrow> ws_tunnel" where
  "wt_reader os now now_ms t =
     (case wt_device t of
        [] \<Rightarrow> t
      | raw # rest \<Rightarrow>
          let t = t\<lparr>wt_device := rest, wt_routed := wt_routed t @ [raw]\<rparr>; buf = tun_buf_read raw in
          if length buf > TUN_HDR os then t\<lparr>wt_server := reader_step now now_ms (drop (TUN_HDR os) buf) (wt_server t)\<rparr> else t)"

definition wt_message :: "ipv4 \<Rightarrow> ws_message \<Rightarrow> bool \<Rightarrow> ws_tunnel \<Rightarrow> ws_tunnel" where
  "wt_message client_ip m write_ok t =
     (case m of
        Binary data \<Rightarrow>
          if \<not> validate_source_ip data client_ip then t
          else if data \<noteq> [] \<and> write_ok then t\<lparr>wt_tun := wt_tun t @ [data]\<rparr> else t
      | _ \<Rightarrow> t)"

fun ws_step :: "target_os \<Rightarrow> ipv4 \<Rightarrow> nat \<Rightarrow> ws_event \<Rightarrow> ws_tunnel \<Rightarrow> ws_tunnel" where
  "ws_step os ip dup (WtArrives raw) t = t\<lparr>wt_device := wt_device t @ [raw], wt_arrived := wt_arrived t @ [raw]\<rparr>"
| "ws_step os ip dup (WtRead io) t = (if wt_sending t then wt_read os dup io t else t)"
| "ws_step os ip dup (WtReadFails e) t = wt_stop dup t"
| "ws_step os ip dup (WtReader now now_ms) t = wt_reader os now now_ms t"
| "ws_step os ip dup (WtMessage m write_ok) t = wt_message ip m write_ok t"
| "ws_step os ip dup WtClosed t = t"
| "ws_step os ip dup (WtOther f) t = t\<lparr>wt_server := f (wt_server t)\<rparr>"

fun ws_ends :: "ws_event \<Rightarrow> ws_tunnel \<Rightarrow> unit result option" where
  "ws_ends (WtMessage Close write_ok) t = Some (Err (Bail ''WebSocket closed''))"
| "ws_ends (WtMessage (WsError e) write_ok) t = Some (Err (Bail (''WebSocket error: '' @ e)))"
| "ws_ends WtClosed t = Some (Err (Bail ''WebSocket closed''))"
| "ws_ends _ t = None"

text \<open>\<open>clone\<close> is the duplicate of the descriptor or an error, \<open>async\<close> its registration with the runtime.\<close>

definition run_ws_vpn_tunnel ::
  "target_os \<Rightarrow> string + nat \<Rightarrow> string + unit \<Rightarrow> ws_event list \<Rightarrow> ipv4 \<Rightarrow> ws_tunnel \<Rightarrow> ws_tunnel \<times> unit result option" where
  "run_ws_vpn_tunnel os clone async es client_ip t =
     (case clone of
        Inl e \<Rightarrow> (t, Some (Err (IoError e)))
      | Inr dup \<Rightarrow>
          let t = t\<lparr>wt_fds := fd_open dup (wt_fds t)\<rparr> in
          case async of
            Inl e \<Rightarrow> (t\<lparr>wt_fds := fd_close dup (wt_fds t)\<rparr>, Some (Err (IoError e)))
          | Inr _ \<Rightarrow>
              (case task_loop ws_ends (ws_step os client_ip dup) es (t\<lparr>wt_sending := True\<rparr>) of
                 (t, None) \<Rightarrow> (t, None)
               | (t, Some r) \<Rightarrow> (wt_stop dup t, Some r)))"

definition ws_tunnel_effect ::
  "target_os \<Rightarrow> string + nat \<Rightarrow> string + unit \<Rightarrow> ws_event list \<Rightarrow> fds \<Rightarrow> ipv4 \<Rightarrow> server_state \<Rightarrow> server_state" where
  "ws_tunnel_effect os clone async es fds client_ip st =
     wt_server (fst (run_ws_vpn_tunnel os clone async es client_ip (ws_tunnel_new fds st)))"

subsection \<open>Its effect on the shared state\<close>

lemma tun_reader_packet_gauges: "gauges (tr_metrics (tun_reader_packet now ms p t)) = gauges (tr_metrics t)"
  by (auto simp: tun_reader_packet_def gauges_def Let_def split: prod.split bool.split option.split)

lemma tun_reader_packet_routes: "routes (tr_router (tun_reader_packet now ms p t)) = routes (tr_router t)"
  by (auto simp: tun_reader_packet_def ClientRouter_route_def Let_def split: prod.splits bool.split option.splits)

lemma reader_step_quiet: "others_quiet st (reader_step now ms p st)"
  using tun_reader_packet_gauges [of now ms p "\<lparr>tr_router = ss_router st, tr_shaper = ss_shaper st, tr_metrics = ss_metrics st\<rparr>"]
    tun_reader_packet_isolated [of "\<lparr>tr_router = ss_router st, tr_shaper = ss_shaper st, tr_metrics = ss_metrics st\<rparr>" now ms p]
  by (auto simp: reader_step_def others_quiet_def gauges_def Let_def tun_reader_packet_routes)

fun ws_behaved :: "ws_event \<Rightarrow> bool" where
  "ws_behaved (WtOther f) \<longleftrightarrow> (\<forall>st. others_quiet st (f st))"
| "ws_behaved _ \<longleftrightarrow> True"

lemma wt_stop_server [simp]: "wt_server (wt_stop dup t) = wt_server t"
  by (simp add: wt_stop_def)

lemma ws_step_quiet: "ws_behaved e \<Longrightarrow> others_quiet (wt_server t) (wt_server (ws_step os ip dup e t))"
  by (cases "(os, ip, dup, e, t)" rule: ws_step.cases)
    (auto simp: wt_read_def wt_reader_def wt_message_def reader_step_quiet Let_def split: list.split option.split ws_message.split)

interpretation ws_quiet: task_invariant ws_ends "ws_step os ip dup" ws_behaved "\<lambda>t. others_quiet st (wt_server t)" for os ip dup st
  by unfold_locales (blast intro: others_quiet_trans ws_step_quiet)

lemma ws_tunnel_effect_quiet:
  assumes "list_all ws_behaved es"
  shows "others_quiet st (ws_tunnel_effect os clone async es fds ip st)"
proof -
  have "others_quiet st (wt_server t')" if "task_loop ws_ends (ws_step os ip dup) es t = (t', x)" "wt_server t = st" for dup t t' x
    using ws_quiet.loop_keeps [OF assms, of st t os ip dup] that by simp
  then show ?thesis
    by (auto simp: ws_tunnel_effect_def run_ws_vpn_tunnel_def ws_tunnel_new_def Let_def split: sum.split prod.split option.split)
qed

subsection \<open>The device shared by two readers\<close>

lemma shuffles_snoc: "zs \<in> shuffles xs ys \<Longrightarrow> zs @ [z] \<in> shuffles (xs @ [z]) ys"
proof (induction xs ys arbitrary: zs rule: shuffles.induct)
  case (1 ys)
  then show ?case by (induction ys arbitrary: zs) auto
qed auto

lemma shuffles_snoc2: "zs \<in> shuffles xs ys \<Longrightarrow> zs @ [z] \<in> shuffles xs (ys @ [z])"
  using shuffles_snoc [of zs ys xs z] by (simp add: shuffles_commutes)

definition ws_invar :: "ipv4 \<Rightarrow> nat \<Rightarrow> fds \<Rightarrow> ws_tunnel \<Rightarrow> bool" where
  "ws_invar ip dup fds t \<longleftrightarrow>
     wt_fds t = (if wt_sending t then insert dup fds else fds) \<and> list_all (\<lambda>p. validate_source_ip p ip) (wt_tun t)
     \<and> (\<exists>gone. wt_arrived t = gone @ wt_device t \<and> gone \<in> shuffles (wt_taken t) (wt_routed t))"

lemma wt_stop_invar: "dup \<notin> fds \<Longrightarrow> ws_invar ip dup fds t \<Longrightarrow> ws_invar ip dup fds (wt_stop dup t)"
  by (auto simp: ws_invar_def wt_stop_def fd_close_def)

lemma ws_taken_invar:
  assumes "ws_invar ip dup fds t" "wt_device t = raw # rest"
  shows "ws_invar ip dup fds (t\<lparr>wt_device := rest, wt_taken := wt_taken t @ [raw]\<rparr>)"
    and "ws_invar ip dup fds (t\<lparr>wt_device := rest, wt_routed := wt_routed t @ [raw]\<rparr>)"
proof -
  obtain gone where g: "wt_arrived t = gone @ raw # rest" "gone \<in> shuffles (wt_taken t) (wt_routed t)"
    using assms by (auto simp: ws_invar_def)
  show "ws_invar ip dup fds (t\<lparr>wt_device := rest, wt_taken := wt_taken t @ [raw]\<rparr>)"
    "ws_invar ip dup fds (t\<lparr>wt_device := rest, wt_routed := wt_routed t @ [raw]\<rparr>)"
    using assms(1) g shuffles_snoc [OF g(2)] shuffles_snoc2 [OF g(2)]
    by (auto simp: ws_invar_def intro!: exI [of _ "gone @ [raw]"])
qed

lemma ws_invar_upd [simp]:
  "ws_invar ip dup fds (t\<lparr>wt_sent := ms\<rparr>) = ws_invar ip dup fds t" "ws_invar ip dup fds (t\<lparr>wt_server := st\<rparr>) = ws_invar ip dup fds t"
  by (simp_all add: ws_invar_def)

lemma ws_step_invar:
  assumes "dup \<notin> fds" "ws_invar ip dup fds t"
  shows "ws_invar ip dup fds (ws_step os ip dup e t)"
proof (cases "(os, ip, dup, e, t)" rule: ws_step.cases)
  case (2 os' ip' dup' io t')
  then show ?thesis
    using assms ws_taken_invar(1) [OF assms(2)] wt_stop_invar [OF assms(1)]
    by (auto simp: wt_read_def Let_def split: list.split option.split)
next
  case (4 os' ip' dup' now ms t')
  then show ?thesis
    using assms ws_taken_invar(2) [OF assms(2)] by (auto simp: wt_reader_def Let_def split: list.split)
qed (use assms wt_stop_invar in \<open>auto simp: ws_invar_def wt_message_def split: ws_message.split\<close>)

interpretation ws_run: task_invariant ws_ends "ws_step os ip dup" "\<lambda>_. True" "\<lambda>t. dup \<notin> fds \<and> ws_invar ip dup fds t" for os ip dup fds
  by unfold_locales (simp add: ws_step_invar)

lemma run_ws_invar:
  assumes "dup \<notin> fds" "run_ws_vpn_tunnel os (Inr dup) (Inr ()) es ip (ws_tunnel_new fds st) = (t, r)"
  shows "ws_invar ip dup fds t \<and> (r \<noteq> None \<longrightarrow> \<not> wt_sending t)"
proof -
  let ?t0 = "(ws_tunnel_new fds st)\<lparr>wt_fds := fd_open dup fds, wt_sending := True\<rparr>"
  obtain t1 r1 where loop: "task_loop ws_ends (ws_step os ip dup) es ?t0 = (t1, r1)" by fastforce
  have "ws_invar ip dup fds ?t0" by (simp add: ws_invar_def ws_tunnel_new_def fd_open_def)
  with ws_run.loop_keeps [of es dup fds ip ?t0 os] loop assms(1) have t1: "ws_invar ip dup fds t1" by (simp add: list_all_iff)
  have "(t, r) = (case r1 of None \<Rightarrow> (t1, None) | Some x \<Rightarrow> (wt_stop dup t1, Some x))"
    using assms(2) loop by (simp add: run_ws_vpn_tunnel_def ws_tunnel_new_def split: option.splits)
  with t1 wt_stop_invar [OF assms(1) t1] show ?thesis by (auto simp: wt_stop_def split: option.splits)
qed

section \<open>Properties\<close>

text \<open>
  The WebSocket tunnel and the global reader take turns on one device: every packet the system queued is read
  by exactly one of the two, whoever comes first, so a packet the tunnel's task takes is not routed to the
  client it is for. What the tunnel writes carries its client's address, and when it ends the duplicate of the
  descriptor is closed.
\<close>

theorem ws_tunnel_splits_device:
  assumes "dup \<notin> fds" "run_ws_vpn_tunnel os (Inr dup) (Inr ()) es ip (ws_tunnel_new fds st) = (t, r)"
  shows "(\<exists>gone. wt_arrived t = gone @ wt_device t \<and> gone \<in> shuffles (wt_taken t) (wt_routed t))
     \<and> list_all (\<lambda>p. validate_source_ip p ip) (wt_tun t) \<and> (r \<noteq> None \<longrightarrow> wt_fds t = fds)"
  using run_ws_invar [OF assms] by (auto simp: ws_invar_def)

theorem ws_tunnel_splits_device_witness:
  "let p = ipv4_packet (Ipv4Addr 8 8 8 8) (Ipv4Addr 10 0 1 3);
       t = fst (run_ws_vpn_tunnel Linux (Inr 7) (Inr ()) [WtArrives p, WtRead None, WtReader 0 0, WtClosed] (Ipv4Addr 10 0 1 2)
             (ws_tunnel_new {0, 1, 2, 5} sample_server)) in
   wt_sent t = [Binary p] \<and> wt_routed t = [] \<and> wt_fds t = {0, 1, 2, 5}"
proof -
  let ?p = "ipv4_packet (Ipv4Addr 8 8 8 8) (Ipv4Addr 10 0 1 3)"
  let ?es = "[WtArrives ?p, WtRead None, WtReader 0 0, WtClosed]"
  obtain t r where run: "run_ws_vpn_tunnel Linux (Inr 7) (Inr ()) ?es (Ipv4Addr 10 0 1 2) (ws_tunnel_new {0, 1, 2, 5} sample_server) = (t, r)"
    by fastforce
  have p: "tun_buf_read ?p = ?p" "?p \<noteq> []" by (simp_all add: tun_buf_read_def ipv4_packet_def TUN_MTU_def)
  from run p have t: "wt_sent t = [Binary ?p]" "wt_taken t = [?p]" "wt_arrived t = [?p]" "r \<noteq> None"
    by (auto simp: run_ws_vpn_tunnel_def ws_tunnel_new_def wt_read_def wt_reader_def wt_stop_def TUN_HDR_def Let_def)
  from ws_tunnel_splits_device [OF _ run] t(4) have "\<exists>gone. wt_arrived t = gone @ wt_device t \<and> gone \<in> shuffles (wt_taken t) (wt_routed t)"
    and fds: "wt_fds t = {0, 1, 2, 5}" by auto
  then obtain gone where "[?p] = gone @ wt_device t" "gone \<in> shuffles [?p] (wt_routed t)" using t by auto
  then have "wt_routed t = []"
    using length_shuffles [of gone "[?p]" "wt_routed t"] arg_cong [of "[?p]" "gone @ wt_device t" length] by simp
  with t(1) fds run show ?thesis by (simp add: Let_def)
qed

text \<open>
  Claim C5. Sessions with their tunnels in full, over all three transports: each handler, whatever the peer sends and
  however the tasks of its tunnel, the reader of the device and the rest of the server interleave with it, ends
  in a state that the session's task of the step relation reaches when it is done.
\<close>

theorem sessions_refine_steps:
  assumes "list_all well_behaved es" "list_all tcp_behaved ts" "list_all ws_behaved ws"
  shows "finishes (st, session_new KQuic) (fst (handle_vpn hmac io (vpn_tunnel_effect False es) st))
    \<and> finishes (st, session_new KQuic) (fst (handle_vpn_h3 hmac io (vpn_tunnel_effect True es) st))
    \<and> finishes (st, session_new KTcp) (fst (tcp_reality_task hmac tio (tcp_tunnel_effect nodelay ts) st))
    \<and> finishes (st, session_new KWs) (fst (handle_ws_connection hmac wio (ws_tunnel_effect os clone async ws fds) st))"
  using quic_finishes [of "\<lambda>pd. vpn_tunnel_effect pd es"] tcp_finishes [of "tcp_tunnel_effect nodelay ts"]
    ws_finishes [of "ws_tunnel_effect os clone async ws fds"] vpn_tunnel_effect_quiet [OF assms(1)]
    tcp_tunnel_effect_quiet [OF assms(2)] ws_tunnel_effect_quiet [OF assms(3)] by simp

definition sample_tcp_io :: tcp_io where
  "sample_tcp_io = \<lparr>tls_accept = Inr (), first_read = FullRead (ClientAuth_encode sample_auth), write_config_ok = True,
     target_connect_ok = True, target_write_ok = True, relay_io = []\<rparr>"

theorem sessions_refine_steps_witness:
  "finishes (sample_server, session_new KTcp) (fst (tcp_reality_task sample_hmac sample_tcp_io
     (tcp_tunnel_effect None [TtPop 0 None, TtIdle None, TtBytes [0, 0], TtRead 0 True]) sample_server))"
  using sessions_refine_steps [of "[]" "[TtPop 0 None, TtIdle None, TtBytes [0, 0], TtRead 0 True]" "[]" sample_server]
  by simp

end
