(* ===== verification/Delivery.thy ===== *)
theory Delivery
  imports StreamTunnel
begin

text \<open>
  Whose packets a client gets: the queue made for a session holds only packets for the session's address,
  whatever the reader of the device, the other sessions and their tunnels do to the shared router, so the
  tunnels of \<open>VpnTunnel\<close> and \<open>StreamTunnel\<close> send a client nothing that is addressed to another.
\<close>

section \<open>The queue of a session\<close>

text \<open>
  The queue \<open>q\<close> belongs to \<open>ip\<close>: it is routed to from no other address, and what it holds is for \<open>ip\<close>. It may
  have been taken out of the table while the session's tunnel still holds it.
\<close>

definition own_queue :: "ipv4 \<Rightarrow> qref \<Rightarrow> client_router \<Rightarrow> bool" where
  "own_queue ip q r \<longleftrightarrow> router_invar r \<and> q < next_ref r \<and> (\<forall>a. routes r a = Some q \<longrightarrow> a = ip)
     \<and> (\<forall>p \<in> set (queued r q). extract_dst_ipv4 p = Some ip)"

lemma own_queue_new:
  assumes "router_invar r" "ClientRouter_register r ip n = (r', h, q)"
  shows "own_queue ip q r'"
proof -
  from router.register_law [OF assms] have "router_invar r'" "routes r' = (routes r)(ip \<mapsto> q)" "queued r' q = []"
    "q \<notin> ran (routes r)" by auto
  moreover have "q < next_ref r'" using assms(2) by (auto simp: ClientRouter_register_def Let_def)
  ultimately show ?thesis by (auto simp: own_queue_def ran_def split: if_splits)
qed

lemma own_queue_register:
  assumes own: "own_queue ip q r" and reg: "ClientRouter_register r a n = (r', h, q')"
  shows "own_queue ip q r'"
proof -
  from own have inv: "router_invar r" by (simp add: own_queue_def)
  have "q' = next_ref r" "next_ref r' = next_ref r + 1" using reg by (auto simp: ClientRouter_register_def Let_def)
  with router.register_law [OF inv reg] own show ?thesis by (auto simp: own_queue_def split: if_splits)
qed

lemma own_queue_drop: "own_queue ip q r \<Longrightarrow> own_queue ip q (ClientHandle_drop r h)"
  using router.drop_law [of r h]
  by (auto simp: own_queue_def ClientHandle_drop_def ClientRouter_unregister_def split: if_splits)

text \<open>What a pop takes was queued, and nothing is added.\<close>

lemma pop_realtime_set:
  "set (fst (pop_realtime now xs)) \<subseteq> set xs \<and> (\<forall>p. snd (pop_realtime now xs) = Some p \<longrightarrow> p \<in> snd ` set xs)"
  by (induction now xs rule: pop_realtime.induct) auto

lemma queue_pop_set:
  assumes "queue_pop now r q = (r', x)"
  shows "set (queued r' q) \<union> set_option x \<subseteq> set (queued r q)" "q' \<noteq> q \<Longrightarrow> queued r' q' = queued r q'"
    "routes r' = routes r" "next_ref r' = next_ref r"
  using assms pop_realtime_set [of now "realtime (queues r q)"]
  by (auto simp: queue_pop_def PriorityQueue_try_pop_def queued_def split: prod.splits option.splits list.splits)

lemma own_queue_pop:
  assumes own: "own_queue ip q r" and pop: "queue_pop now r q' = (r', x)"
  shows "own_queue ip q r'" "q' = q \<Longrightarrow> x = Some p \<Longrightarrow> extract_dst_ipv4 p = Some ip"
proof -
  have inv: "router_invar r'" using own router_invar_pop [of r now q'] pop by (simp add: own_queue_def)
  note S = queue_pop_set [OF pop]
  show "own_queue ip q r'" using own inv S by (cases "q' = q") (auto simp: own_queue_def)
  show "q' = q \<Longrightarrow> x = Some p \<Longrightarrow> extract_dst_ipv4 p = Some ip" using own S(1) by (auto simp: own_queue_def)
qed

text \<open>The reader adds a packet to the queue of its destination only.\<close>

lemma own_queue_route:
  assumes own: "own_queue ip q r" and route: "ClientRouter_route now r dst p = (r', ok)" and dst: "extract_dst_ipv4 p = Some dst"
  shows "own_queue ip q r'"
proof -
  from own have inv: "router_invar r" by (simp add: own_queue_def)
  note law = router.route_law [OF inv route]
  have "next_ref r' = next_ref r" using route by (auto simp: ClientRouter_route_def split: option.splits prod.splits)
  moreover have "set (queued r' q) \<subseteq> set (queued r q) \<union> (if dst = ip then {p} else {})"
    using law own by (cases ok) (auto simp: own_queue_def split: if_splits, (metis insertE)+)
  ultimately show ?thesis using law own dst by (auto simp: own_queue_def split: if_splits)
qed

section \<open>The other tasks\<close>

text \<open>
  What the rest of the server does to the shared state while a tunnel runs: a step of any session, a packet
  of the reader, a tunnel that takes from a queue, and everything that leaves the router alone.
\<close>

inductive server_moves :: "server_state \<Rightarrow> server_state \<Rightarrow> bool" where
  MvSession: "sess_step (st, s) (st', s') \<Longrightarrow> server_moves st st'"
| MvReader: "server_moves st (reader_step now now_ms p st)"
| MvPop: "queue_pop now (ss_router st) q = (r, x) \<Longrightarrow> server_moves st (st\<lparr>ss_router := r\<rparr>)"
| MvRest: "ss_router st' = ss_router st \<Longrightarrow> server_moves st st'"

lemma sess_step_own:
  assumes "sess_step (st, s) (st', s')" "own_queue ip q (ss_router st)"
  shows "own_queue ip q (ss_router st')"
  using assms(1)
proof (cases rule: sess_step.cases)
  case (Register a r h q')
  with own_queue_register [OF assms(2) Register(5)] show ?thesis by simp
next
  case (DropHandle a)
  with own_queue_drop [OF assms(2)] show ?thesis by (simp add: drop_handle_def)
qed (use assms(2) in \<open>simp_all add: guard_defs\<close>)

lemma reader_step_own: "own_queue ip q (ss_router st) \<Longrightarrow> own_queue ip q (ss_router (reader_step now ms p st))"
  by (auto simp: reader_step_def tun_reader_packet_def Let_def intro: own_queue_route split: prod.splits bool.splits option.splits)

lemma server_moves_own:
  assumes "server_moves st st'" "own_queue ip q (ss_router st)"
  shows "own_queue ip q (ss_router st')"
  using assms by cases (simp_all add: sess_step_own reader_step_own own_queue_pop(1))

section \<open>The tunnels\<close>

fun vpn_among :: "vpn_event \<Rightarrow> bool" where
  "vpn_among (VtOther f) \<longleftrightarrow> (\<forall>st. server_moves st (f st))"
| "vpn_among _ \<longleftrightarrow> True"

fun tcp_among :: "tcp_event \<Rightarrow> bool" where
  "tcp_among (TtOther f) \<longleftrightarrow> (\<forall>st. server_moves st (f st))"
| "tcp_among _ \<longleftrightarrow> True"

definition for_client :: "ipv4 \<Rightarrow> bytes \<Rightarrow> bool" where
  "for_client ip p \<longleftrightarrow> extract_dst_ipv4 p = Some ip"

lemma vt_send_router [simp]: "ss_router (vt_server (vt_send padded e t)) = ss_router (vt_server t)"
  by (simp add: vt_send_def split: sum.split)

lemma vpn_step_isolated:
  assumes "vpn_among e" "own_queue ip q (ss_router (vt_server t)) \<and> list_all (for_client ip) (vt_popped t)"
  shows "own_queue ip q (ss_router (vt_server (vpn_step padded ip q e t))) \<and> list_all (for_client ip) (vt_popped (vpn_step padded ip q e t))"
proof (cases "(padded, ip, q, e, t)" rule: vpn_step.cases)
  case (1 pd ip' q' now c t')
  obtain r x where pop: "queue_pop now (ss_router (vt_server t)) q = (r, x)" by fastforce
  from own_queue_pop [OF _ pop] assms(2)
  have "own_queue ip q (ss_router (vt_server (vt_pop padded q now c t))) \<and> list_all (for_client ip) (vt_popped (vt_pop padded q now c t))"
    by (cases x) (auto simp: vt_pop_def pop for_client_def)
  with 1 assms(2) show ?thesis by simp
qed (use assms in \<open>auto simp: vt_receive_def vt_report_def Let_def intro: server_moves_own\<close>)

lemma tcp_step_isolated:
  assumes "tcp_among e" "own_queue ip q (ss_router (tt_server t)) \<and> list_all (for_client ip) (tt_popped t)"
  shows "own_queue ip q (ss_router (tt_server (tcp_step ip q e t))) \<and> list_all (for_client ip) (tt_popped (tcp_step ip q e t))"
proof (cases "(ip, q, e, t)" rule: tcp_step.cases)
  case (1 ip' q' now io t')
  obtain r x where pop: "queue_pop now (ss_router (tt_server t)) q = (r, x)" by fastforce
  from own_queue_pop [OF _ pop] assms(2)
  have "own_queue ip q (ss_router (tt_server (tt_pop q now io t))) \<and> list_all (for_client ip) (tt_popped (tt_pop q now io t))"
    by (cases x) (auto simp: tt_pop_def pop for_client_def)
  with 1 assms(2) show ?thesis by simp
next
  case (4 ip' q' now ok t')
  then show ?thesis using assms(2) by (auto simp: tt_read_def Let_def split: option.split prod.split sum.split)
qed (use assms in \<open>auto intro: server_moves_own\<close>)

interpretation vpn_isolated: task_invariant vpn_ends "vpn_step padded ip q" vpn_among
  "\<lambda>t. own_queue ip q (ss_router (vt_server t)) \<and> list_all (for_client ip) (vt_popped t)" for padded ip q
  by unfold_locales (rule vpn_step_isolated)

interpretation tcp_isolated: task_invariant tcp_ends "tcp_step ip q" tcp_among
  "\<lambda>t. own_queue ip q (ss_router (tt_server t)) \<and> list_all (for_client ip) (tt_popped t)" for ip q
  by unfold_locales (rule tcp_step_isolated)

section \<open>Properties\<close>

text \<open>
  Claim C12. Clients are isolated from each other: a session's queue, from the moment it is registered, delivers only
  packets addressed to the session's own address, over QUIC, padded or not, and over TCP Reality, while any
  other sessions start, run and end, whichever packets the reader routes and whatever other tunnels take from
  their queues; over TCP the bytes on the stream and in the buffer are whole frames of such packets.
\<close>

theorem downloads_isolated:
  assumes inv: "router_invar (ss_router st)" and reg: "ClientRouter_register (ss_router st) ip n = (r, h, q)"
    and vpn: "run_vpn_tunnel padded es ip q (st\<lparr>ss_router := r\<rparr>) = (t, x)" "list_all vpn_among es"
    and tcp: "run_tcp_reality_tunnel None ts ip q (st\<lparr>ss_router := r\<rparr>) = (t', x')" "list_all tcp_among ts"
  shows "list_all (for_client ip) (vt_popped t)
     \<and> (\<exists>sent. list_all (for_client ip) sent \<and> tw_wire (tt_writer t') @ tw_buf (tt_writer t') = concat (map tcp_frame sent))"
proof -
  let ?st = "st\<lparr>ss_router := r\<rparr>"
  have own: "own_queue ip q (ss_router ?st)" using own_queue_new [OF inv reg] by simp
  have "list_all (for_client ip) (vt_popped t)"
    using vpn_isolated.loop_keeps [OF vpn(2), of ip q "vpn_tunnel_new ?st" padded] vpn_loop_state [of padded ip q es "vpn_tunnel_new ?st"] vpn(1) own
    by (auto simp: run_vpn_tunnel_def vpn_tunnel_new_def)
  moreover have "list_all (for_client ip) (tt_popped t')"
    using tcp_isolated.loop_keeps [OF tcp(2), of ip q "tcp_tunnel_new ?st"] run_tcp_state [OF tcp(1)] own
    by (auto simp: tcp_tunnel_new_def)
  moreover obtain sent lost where "tt_popped t' = sent @ lost"
    "tw_wire (tt_writer t') @ tw_buf (tt_writer t') = concat (map tcp_frame sent)"
    using tcp_tunnel_duplex(3) [OF tcp(1), of True False] by (auto simp: list_all_iff)
  ultimately show ?thesis by auto
qed

theorem downloads_isolated_witness:
  "let p = ipv4_packet (Ipv4Addr 8 8 8 8) (Ipv4Addr 10 0 1 2); p' = ipv4_packet (Ipv4Addr 8 8 8 8) (Ipv4Addr 10 0 1 3);
       r = fst (ClientRouter_register ClientRouter_new (Ipv4Addr 10 0 1 2) 8);
       es = [VtOther (reader_step 0 0 p'), VtOther (reader_step 0 0 p), VtPop 0 open_conn, VtPop 0 open_conn];
       t = fst (run_vpn_tunnel False es (Ipv4Addr 10 0 1 2) 0 (sample_server\<lparr>ss_router := r\<rparr>)) in
   list_all (for_client (Ipv4Addr 10 0 1 2)) (vt_popped t) \<and> vt_popped t = [p]"
proof -
  let ?ip = "Ipv4Addr 10 0 1 2" and ?p = "ipv4_packet (Ipv4Addr 8 8 8 8) (Ipv4Addr 10 0 1 2)"
    and ?p' = "ipv4_packet (Ipv4Addr 8 8 8 8) (Ipv4Addr 10 0 1 3)"
  let ?es = "[VtOther (reader_step 0 0 ?p'), VtOther (reader_step 0 0 ?p), VtPop 0 open_conn, VtPop 0 open_conn]"
  have router: "ss_router sample_server = ClientRouter_new" by (simp add: sample_server_def)
  obtain r h q where reg: "ClientRouter_register (ss_router sample_server) ?ip 8 = (r, h, q)" by (metis prod_cases3)
  then have r: "q = 0" "r = fst (ClientRouter_register ClientRouter_new ?ip 8)"
    by (auto simp: router ClientRouter_register_def ClientRouter_new_def)
  obtain t x where run: "run_vpn_tunnel False ?es ?ip q (sample_server\<lparr>ss_router := r\<rparr>) = (t, x)" by fastforce
  obtain t' x' where tcp: "run_tcp_reality_tunnel None [] ?ip q (sample_server\<lparr>ss_router := r\<rparr>) = (t', x')" by fastforce
  have among: "list_all vpn_among ?es" by (simp add: MvReader)
  from downloads_isolated [OF _ reg run among tcp]
  have "list_all (for_client ?ip) (vt_popped t)" by (simp add: router router_invar_new)
  moreover have "vt_popped t = [?p]"
  proof -
    have z: "tb_rate (bucket (limiter (ss_shaper sample_server))) = 0"
      by (simp add: sample_server_def AdaptiveShaper_new_def RateLimiter_new_def TokenBucket_new_def Let_def)
    have dst: "extract_dst_ipv4 ?p = Some ?ip" "extract_dst_ipv4 ?p' = Some (Ipv4Addr 10 0 1 3)"
      by (simp_all add: ipv4_packet_def extract_dst_ipv4_def version_nibble_def)
    have "vt_popped t = vt_popped (fst (run_vpn_tunnel False ?es ?ip 0 (sample_server\<lparr>ss_router := r\<rparr>)))" using run r(1) by simp
    also have "\<dots> = [?p]"
      using z dst
      by (simp add: run_vpn_tunnel_def vpn_loop_def vpn_tunnel_new_def r(2) reader_step_def tun_reader_packet_def unlimited_check
          ClientRouter_route_def ClientRouter_register_def ClientRouter_new_def PriorityQueue_push_def PriorityQueue_new_def
          vt_pop_def queue_pop_def PriorityQueue_try_pop_def Let_def split: priority.split)
    finally show ?thesis .
  qed
  ultimately show ?thesis using run r by (simp add: Let_def)
qed

text \<open>
  Stale packets are not counted: a realtime packet that waited longer than its time is dropped when the queue is
  next asked for one, and no step of a tunnel raises the counter of stale drops, which stays at zero for ever.
\<close>

interpretation sender_stale: sender_property "\<lambda>s. drops_stale (snd_metrics s) = k" for k
  by unfold_locales (auto simp: sent_ok_def sent_too_large_def sent_blocked_def wait_started_def wait_timed_out_def rt_congested_def)

lemma vt_send_stale: "drops_stale (ss_metrics (vt_server (vt_send padded e t))) = drops_stale (ss_metrics (vt_server t))"
  using sender_stale.step_keeps [of padded e "vt_sender t"] by (auto simp: vt_send_def vt_sender_def split: sum.split)

theorem stale_drops_uncounted:
  assumes "\<forall>f. e \<noteq> VtOther f"
  shows "drops_stale (ss_metrics (vt_server (vpn_step padded ip q e t))) = drops_stale (ss_metrics (vt_server t))
     \<and> (realtime (queues r q) = [(ts, p)] \<and> bulk (queues r q) = [] \<and> now - ts > REALTIME_MAX_AGE
         \<longrightarrow> snd (queue_pop now r q) = None \<and> queued (fst (queue_pop now r q)) q = [])"
proof
  show "drops_stale (ss_metrics (vt_server (vpn_step padded ip q e t))) = drops_stale (ss_metrics (vt_server t))"
    using assms
    by (cases "(padded, ip, q, e, t)" rule: vpn_step.cases)
      (auto simp: vt_send_stale vt_pop_def vt_receive_def vt_receiver_def vt_report_def dg2tun_step_def accept_upload_def observe_rtt_def
        Let_def split: prod.split option.split bool.split)
qed (simp add: queue_pop_def PriorityQueue_try_pop_def queued_def)

theorem stale_drops_uncounted_witness:
  "drops_stale (ss_metrics (vt_server (vpn_step False (Ipv4Addr 10 0 1 2) 0 (VtPop 5000 open_conn) (vpn_tunnel_new sample_server)))) = 0"
proof -
  have "drops_stale (ss_metrics (vt_server (vpn_tunnel_new sample_server))) = 0"
    by (simp add: vpn_tunnel_new_def sample_server_def Metrics_new_def)
  with stale_drops_uncounted [of "VtPop 5000 open_conn" False "Ipv4Addr 10 0 1 2" 0 "vpn_tunnel_new sample_server"] show ?thesis by simp
qed

end
