(* ===== verification/Camouflage.thy ===== *)
theory Camouflage
  imports Transport Users "HOL-Library.State_Monad" "HOL-Library.Stream"
begin

text \<open>
  What a camouflaged client shows to an observer: browser profiles
  (\<^verbatim>\<open>src/crates/redpill-quic/src/browser_profile.rs\<close>), the TLS configuration built from them
  (\<^verbatim>\<open>fingerprint.rs\<close>), the rotation of server names and the pinned certificate (\<^verbatim>\<open>camouflage.rs\<close>),
  the certificate files (\<^verbatim>\<open>cert.rs\<close>), the congestion controller (\<^verbatim>\<open>noop_cc.rs\<close>) and the QUIC settings
  of \<^verbatim>\<open>transport/quic_raw.rs\<close> and \<^verbatim>\<open>transport/quic_camouflaged.rs\<close>. SHA-256, PEM parsing and
  certificate generation are arguments. Random values come from a stream, of which every draw takes the
  next element: two draws are independent.
\<close>

section \<open>Browser profiles\<close>

datatype browser_profile = Chrome | Firefox | Safari | Random

definition to_lower :: "char \<Rightarrow> char" where
  "to_lower c = (if 65 \<le> code c \<and> code c \<le> 90 then char_of (code c + 32) else c)"

definition parse_profile :: "string \<Rightarrow> browser_profile" where
  "parse_profile s =
     (let l = map to_lower s in
      if l = ''chrome'' then Chrome
      else if l = ''firefox'' then Firefox
      else if l = ''safari'' then Safari
      else if l = ''random'' then Random
      else Chrome)"

definition draw :: "(nat stream, nat) state" where
  "draw = State (\<lambda>ds. (shd ds, stl ds))"

definition resolve :: "browser_profile \<Rightarrow> (nat stream, browser_profile) state" where
  "resolve self =
     (if self = Random then do { rnd \<leftarrow> draw; State_Monad.return ([Chrome, Firefox, Safari] ! (rnd mod 3)) }
      else State_Monad.return self)"

datatype cipher_suite = TLS13_AES_128_GCM_SHA256 | TLS13_AES_256_GCM_SHA384 | TLS13_CHACHA20_POLY1305_SHA256
datatype kx_group = X25519 | SECP256R1 | SECP384R1

text \<open>The lists of a concrete profile; asked of \<open>Random\<close>, each call draws a profile for itself.\<close>

fun cipher_suites_of :: "browser_profile \<Rightarrow> cipher_suite list" where
  "cipher_suites_of Firefox = [TLS13_AES_128_GCM_SHA256, TLS13_CHACHA20_POLY1305_SHA256, TLS13_AES_256_GCM_SHA384]"
| "cipher_suites_of _ = [TLS13_AES_128_GCM_SHA256, TLS13_AES_256_GCM_SHA384, TLS13_CHACHA20_POLY1305_SHA256]"

definition cipher_suites :: "browser_profile \<Rightarrow> (nat stream, cipher_suite list) state" where
  "cipher_suites self =
     (if self = Random then do { p \<leftarrow> resolve self; State_Monad.return (cipher_suites_of p) } else State_Monad.return (cipher_suites_of self))"

fun kx_groups_of :: "browser_profile \<Rightarrow> kx_group list" where
  "kx_groups_of Safari = [SECP256R1, X25519, SECP384R1]"
| "kx_groups_of _ = [X25519, SECP256R1, SECP384R1]"

definition kx_groups :: "browser_profile \<Rightarrow> (nat stream, kx_group list) state" where
  "kx_groups self =
     (if self = Random then do { p \<leftarrow> resolve self; State_Monad.return (kx_groups_of p) } else State_Monad.return (kx_groups_of self))"

record quic_transport_params =
  initial_max_data :: nat
  initial_max_stream_data_bidi_local :: nat
  initial_max_stream_data_bidi_remote :: nat
  initial_max_stream_data_uni :: nat
  initial_max_streams_bidi :: nat
  initial_max_streams_uni :: nat
  params_idle_timeout :: nat
  max_udp_payload_size :: nat

definition params_with :: "nat \<Rightarrow> nat \<Rightarrow> nat \<Rightarrow> nat \<Rightarrow> quic_transport_params" where
  "params_with dat strm nstreams payload =
     \<lparr>initial_max_data = dat * 1024 * 1024, initial_max_stream_data_bidi_local = strm * 1024 * 1024,
      initial_max_stream_data_bidi_remote = strm * 1024 * 1024, initial_max_stream_data_uni = strm * 1024 * 1024,
      initial_max_streams_bidi = nstreams, initial_max_streams_uni = nstreams, params_idle_timeout = 30,
      max_udp_payload_size = payload\<rparr>"

fun quic_transport_params_of :: "browser_profile \<Rightarrow> quic_transport_params" where
  "quic_transport_params_of Firefox = params_with 16 8 128 1472"
| "quic_transport_params_of Safari = params_with 8 4 100 1250"
| "quic_transport_params_of _ = params_with 10 6 100 1350"

definition quic_transport_params :: "browser_profile \<Rightarrow> (nat stream, quic_transport_params) state" where
  "quic_transport_params self =
     (if self = Random then do { p \<leftarrow> resolve self; State_Monad.return (quic_transport_params_of p) } else State_Monad.return (quic_transport_params_of self))"

definition grease_value :: "u8 \<Rightarrow> u16" where
  "grease_value rnd =
     (let nibble = ucast (rnd mod 16) :: u16 in
      push_bit 12 nibble OR push_bit 8 0x0A OR push_bit 4 nibble OR 0x0A)"

definition GREASE_VALUES :: "u16 list" where
  "GREASE_VALUES = [0x0A0A, 0x1A1A, 0x2A2A, 0x3A3A, 0x4A4A, 0x5A5A, 0x6A6A, 0x7A7A]"

definition grease_cipher_suite :: "nat \<Rightarrow> u16" where
  "grease_cipher_suite rnd = GREASE_VALUES ! (rnd mod length GREASE_VALUES)"

section \<open>TLS configuration\<close>

text \<open>\<open>None\<close> stands for the lists of the default provider.\<close>

record rustls_config =
  rc_suites :: "cipher_suite list option"
  rc_groups :: "kx_group list option"
  rc_tls13_only :: bool
  rc_alpn :: "string list"
  rc_resumption :: nat

definition build_crypto_provider :: "browser_profile \<Rightarrow> (nat stream, kx_group list \<times> cipher_suite list) state" where
  "build_crypto_provider profile =
     do { resolved \<leftarrow> resolve profile; groups \<leftarrow> kx_groups resolved; suites \<leftarrow> cipher_suites resolved;
          State_Monad.return (groups, suites) }"

definition chrome_crypto_provider :: "(nat stream, kx_group list \<times> cipher_suite list) state" where
  "chrome_crypto_provider = build_crypto_provider Chrome"

definition build_camouflaged_rustls_config_with_profile :: "browser_profile \<Rightarrow> bool \<Rightarrow> (nat stream, rustls_config) state" where
  "build_camouflaged_rustls_config_with_profile profile enabled =
     do { provider \<leftarrow>
            (if enabled then do { p \<leftarrow> build_crypto_provider profile; State_Monad.return (Some p) } else State_Monad.return None);
          State_Monad.return
            \<lparr>rc_suites = map_option snd provider, rc_groups = map_option fst provider, rc_tls13_only = True,
             rc_alpn = [''h3''], rc_resumption = 256\<rparr> }"

definition build_camouflaged_rustls_config :: "bool \<Rightarrow> (nat stream, rustls_config) state" where
  "build_camouflaged_rustls_config chrome_fingerprint =
     build_camouflaged_rustls_config_with_profile Chrome chrome_fingerprint"

section \<open>QUIC settings\<close>

record noop_cc = cc_window :: nat

datatype cc_event = CongestionEvent nat | MtuUpdate nat

text \<open>The controller keeps its window whatever happens.\<close>

fun NoopCc_on :: "cc_event \<Rightarrow> noop_cc \<Rightarrow> noop_cc" where
  "NoopCc_on (CongestionEvent lost) cc = cc"
| "NoopCc_on (MtuUpdate m) cc = cc"

record transport_config =
  tc_cc :: noop_cc
  tc_send_window :: nat
  tc_datagram_recv_buffer :: nat
  tc_datagram_send_buffer :: nat
  tc_receive_window :: "nat option"
  tc_stream_receive_window :: "nat option"
  tc_bidi_streams :: "nat option"
  tc_uni_streams :: "nat option"
  tc_initial_mtu :: nat
  tc_min_mtu :: nat
  tc_keep_alive :: nat
  tc_idle_timeout :: nat

definition MB :: nat where "MB = 1024 * 1024"

text \<open>\<open>VarInt::from_u64\<close> fails from \<open>2 ^ 62\<close>; the settings then use the maximum.\<close>

definition VARINT_MAX :: nat where "VARINT_MAX = 2 ^ 62 - 1"

definition varint_or_max :: "nat \<Rightarrow> nat" where
  "varint_or_max n = (if n < 2 ^ 62 then n else VARINT_MAX)"

definition build_transport_config :: transport_config where
  "build_transport_config =
     \<lparr>tc_cc = \<lparr>cc_window = 16 * MB\<rparr>, tc_send_window = 16 * MB, tc_datagram_recv_buffer = 16 * MB,
      tc_datagram_send_buffer = 2 * MB, tc_receive_window = None, tc_stream_receive_window = None,
      tc_bidi_streams = None, tc_uni_streams = None, tc_initial_mtu = 1400, tc_min_mtu = 1280,
      tc_keep_alive = 10, tc_idle_timeout = 30\<rparr>"

definition build_camouflaged_transport_config :: "browser_profile \<Rightarrow> (nat stream, transport_config) state" where
  "build_camouflaged_transport_config profile =
     do { params \<leftarrow> quic_transport_params profile;
          State_Monad.return
            \<lparr>tc_cc = \<lparr>cc_window = 16 * MB\<rparr>, tc_send_window = 16 * MB, tc_datagram_recv_buffer = 16 * MB,
             tc_datagram_send_buffer = 2 * MB,
             tc_receive_window = Some (varint_or_max (initial_max_data params)),
             tc_stream_receive_window = Some (varint_or_max (initial_max_stream_data_bidi_local params)),
             tc_bidi_streams = Some (varint_or_max (initial_max_streams_bidi params)),
             tc_uni_streams = Some (varint_or_max (initial_max_streams_uni params)),
             tc_initial_mtu = max_udp_payload_size params, tc_min_mtu = 1280,
             tc_keep_alive = 10, tc_idle_timeout = params_idle_timeout params\<rparr> }"

section \<open>Server names and pinning\<close>

record sni_camouflage =
  sni_domains :: "string list"
  sni_index :: u64

text \<open>\<open>new\<close> asserts that the pool is not empty, which \<open>next_sni\<close> relies on.\<close>

definition SniCamouflage_new :: "string list \<Rightarrow> sni_camouflage rust" where
  "SniCamouflage_new domains = (if domains = [] then None else Some \<lparr>sni_domains = domains, sni_index = 0\<rparr>)"

definition next_sni :: "sni_camouflage \<Rightarrow> sni_camouflage \<times> string" where
  "next_sni self =
     (self\<lparr>sni_index := sni_index self + 1\<rparr>,
      sni_domains self ! (unat (sni_index self) mod length (sni_domains self)))"

definition CamouflageCertVerifier_new :: "(bytes \<Rightarrow> bytes) \<Rightarrow> bytes \<Rightarrow> bytes" where
  "CamouflageCertVerifier_new sha256 pinned_cert = sha256 pinned_cert"

definition verify_server_cert :: "(bytes \<Rightarrow> bytes) \<Rightarrow> bytes \<Rightarrow> bytes \<Rightarrow> string \<Rightarrow> unit result" where
  "verify_server_cert sha256 pinned_fingerprint end_entity server_name =
     (if sha256 end_entity \<noteq> pinned_fingerprint then Err (Bail ''ApplicationVerificationFailure'') else Ok ())"

section \<open>Certificate files\<close>

record cert_pair =
  cert_der :: bytes
  key_der :: bytes
  cert_pem :: string
  key_pem :: string

text \<open>
  \<open>pem_certs\<close> and \<open>pem_key\<close> are the PEM reader: all certificates of a text, and its first private key.
\<close>

record pem_reader =
  pem_certs :: "string \<Rightarrow> bytes list result"
  pem_key :: "string \<Rightarrow> bytes option result"

definition pem_to_cert_der :: "pem_reader \<Rightarrow> string \<Rightarrow> bytes result" where
  "pem_to_cert_der P pem =
     and_then (pem_certs P pem) (\<lambda>certs.
       case certs of c # _ \<Rightarrow> Ok c | [] \<Rightarrow> Err (Bail ''No certificate found in PEM''))"

definition pem_to_key_der :: "pem_reader \<Rightarrow> string \<Rightarrow> bytes result" where
  "pem_to_key_der P pem =
     and_then (pem_key P pem) (\<lambda>key.
       case key of Some k \<Rightarrow> Ok k | None \<Rightarrow> Err (Bail ''No private key found in PEM''))"

definition load_from_files :: "pem_reader \<Rightarrow> file_system \<Rightarrow> string \<Rightarrow> string \<Rightarrow> cert_pair result" where
  "load_from_files P fs cpath kpath =
     and_then (read_to_string (map_of (files fs)) cpath) (\<lambda>cpem.
     and_then (read_to_string (map_of (files fs)) kpath) (\<lambda>kpem.
     and_then (pem_to_cert_der P cpem) (\<lambda>c.
     and_then (pem_to_key_der P kpem) (\<lambda>k.
       Ok \<lparr>cert_der = c, key_der = k, cert_pem = cpem, key_pem = kpem\<rparr>))))"

text \<open>\<open>gen\<close> is the generated pair. Each step may fail and leaves what was written before.\<close>

definition load_or_generate ::
  "pem_reader \<Rightarrow> cert_pair \<Rightarrow> file_system \<Rightarrow> string \<Rightarrow> string \<Rightarrow> file_system \<times> cert_pair result" where
  "load_or_generate P gen fs cpath kpath =
     (if fs_exists fs cpath \<and> fs_exists fs kpath then (fs, load_from_files P fs cpath kpath)
      else
        (case create_dir_all fs (parent cpath) of
           Inl e \<Rightarrow> (fs, Err e)
         | Inr fs \<Rightarrow>
             (case fs_write fs cpath (cert_pem gen) of
                Inl e \<Rightarrow> (fs, Err e)
              | Inr fs \<Rightarrow>
                  (case fs_write fs kpath (key_pem gen) of
                     Inl e \<Rightarrow> (fs, Err e)
                   | Inr fs \<Rightarrow> (fs, Ok gen)))))"

section \<open>The camouflaged connector\<close>

record camouflaged_connector =
  cam_sni :: sni_camouflage
  cam_cert_path :: string
  cam_config :: client_camouflage_section

definition QuicCamouflagedConnector_new :: "string \<Rightarrow> client_camouflage_section \<Rightarrow> camouflaged_connector rust" where
  "QuicCamouflagedConnector_new path config =
     map_option (\<lambda>sni. \<lparr>cam_sni = sni, cam_cert_path = path, cam_config = config\<rparr>)
       (SniCamouflage_new (cam_sni_pool config))"

text \<open>
  What the caller connects with: the pinned fingerprint, the TLS and QUIC settings and the name to send.
  \<open>root_ok\<close> is whether the certificate is accepted as a trust anchor.
\<close>

record camouflaged_client =
  ccl_pin :: bytes
  ccl_tls :: rustls_config
  ccl_quic :: transport_config
  ccl_sni :: string

definition build_client_config ::
  "pem_reader \<Rightarrow> (bytes \<Rightarrow> bytes) \<Rightarrow> (bytes \<Rightarrow> bool) \<Rightarrow> nat stream \<Rightarrow> (string \<rightharpoonup> string) \<Rightarrow> camouflaged_connector
   \<Rightarrow> camouflaged_connector \<times> camouflaged_client result" where
  "build_client_config P sha256 root_ok draws fs self =
     (case and_then (read_to_string fs (cam_cert_path self)) (pem_to_cert_der P) of
        Inl e \<Rightarrow> (self, Err e)
      | Inr cert \<Rightarrow>
          if \<not> root_ok cert then (self, Err (Bail ''invalid certificate''))
          else
            case fst (run_state
              (do { profile \<leftarrow> resolve (parse_profile (cam_browser_profile (cam_config self)));
                    tls \<leftarrow> build_camouflaged_rustls_config_with_profile profile (cam_chrome_fingerprint (cam_config self));
                    quic \<leftarrow> build_camouflaged_transport_config profile;
                    State_Monad.return (tls, quic) }) draws) of
              (tls, quic) \<Rightarrow>
                (case next_sni (cam_sni self) of
                   (sni, fake_sni) \<Rightarrow>
                     (self\<lparr>cam_sni := sni\<rparr>,
                      Ok \<lparr>ccl_pin = CamouflageCertVerifier_new sha256 cert, ccl_tls = tls, ccl_quic = quic,
                          ccl_sni = fake_sni\<rparr>)))"

section \<open>Lemmas\<close>

lemma run_state_bind [simp]:
  "run_state (State_Monad.bind m f) s = run_state (f (fst (run_state m s))) (snd (run_state m s))"
  by (simp add: State_Monad.bind_def split_beta)

lemma run_state_return [simp]: "run_state (State_Monad.return x) s = (x, s)"
  by (simp add: State_Monad.return_def)

lemma run_state_draw [simp]: "run_state draw ds = (shd ds, stl ds)"
  by (simp add: draw_def)

text \<open>The profile a draw gives, and the settings of a profile that is not to be drawn any more.\<close>

definition profile_for :: "browser_profile \<Rightarrow> nat stream \<Rightarrow> browser_profile" where
  "profile_for p ds = (if p = Random then [Chrome, Firefox, Safari] ! (shd ds mod 3) else p)"

lemma profile_concrete: "profile_for p ds \<in> {Chrome, Firefox, Safari}"
proof -
  have "shd ds mod 3 < 3" by simp
  then have "shd ds mod 3 = 0 \<or> shd ds mod 3 = 1 \<or> shd ds mod 3 = 2" by linarith
  then show ?thesis by (cases p) (auto simp: profile_for_def)
qed

lemma resolve_run: "fst (run_state (resolve p) ds) = profile_for p ds"
  by (simp add: resolve_def profile_for_def)

lemma concrete_settings:
  assumes "p \<noteq> Random"
  shows "resolve p = State_Monad.return p" "cipher_suites p = State_Monad.return (cipher_suites_of p)"
    "kx_groups p = State_Monad.return (kx_groups_of p)"
    "quic_transport_params p = State_Monad.return (quic_transport_params_of p)"
  using assms by (simp_all add: resolve_def cipher_suites_def kx_groups_def quic_transport_params_def)

lemma concrete_tls:
  "p \<noteq> Random \<Longrightarrow> run_state (build_camouflaged_rustls_config_with_profile p on) ds =
     (\<lparr>rc_suites = (if on then Some (cipher_suites_of p) else None), rc_groups = (if on then Some (kx_groups_of p) else None),
       rc_tls13_only = True, rc_alpn = [''h3''], rc_resumption = 256\<rparr>, ds)"
  by (simp add: build_camouflaged_rustls_config_with_profile_def build_crypto_provider_def concrete_settings)

fun sni_run :: "nat \<Rightarrow> sni_camouflage \<Rightarrow> string list" where
  "sni_run 0 s = []"
| "sni_run (Suc n) s = (case next_sni s of (s, d) \<Rightarrow> d # sni_run n s)"

lemma sni_run_nth:
  "unat (sni_index s) + n < 2 ^ 64 \<Longrightarrow>
   sni_run n s = map (\<lambda>i. sni_domains s ! ((unat (sni_index s) + i) mod length (sni_domains s))) [0..<n]"
proof (induction n arbitrary: s)
  case (Suc n)
  let ?s = "fst (next_sni s)"
  have i: "unat (sni_index ?s) = unat (sni_index s) + 1"
    using Suc.prems by (simp add: next_sni_def unat_word_ariths)
  have d: "sni_domains ?s = sni_domains s" by (simp add: next_sni_def)
  have "sni_run n ?s = map (\<lambda>i. sni_domains s ! ((unat (sni_index s) + Suc i) mod length (sni_domains s))) [0..<n]"
    using Suc.IH [of ?s] Suc.prems i d by simp
  then have "sni_run (Suc n) s = sni_domains s ! (unat (sni_index s) mod length (sni_domains s))
      # map (\<lambda>i. sni_domains s ! ((unat (sni_index s) + Suc i) mod length (sni_domains s))) [0..<n]"
    by (simp add: next_sni_def)
  then show ?case by (simp add: upt_conv_Cons map_Suc_upt [symmetric] del: upt_Suc)
qed simp

lemma params_fit:
  "initial_max_data (quic_transport_params_of p) < 2 ^ 62"
  "initial_max_stream_data_bidi_local (quic_transport_params_of p) < 2 ^ 62"
  "initial_max_streams_bidi (quic_transport_params_of p) < 2 ^ 62"
  "initial_max_streams_uni (quic_transport_params_of p) < 2 ^ 62"
  by (cases p; simp add: params_with_def)+

text \<open>The QUIC settings that show the parameters of a browser.\<close>

definition shows_params :: "transport_config \<Rightarrow> quic_transport_params \<Rightarrow> bool" where
  "shows_params tc params \<longleftrightarrow>
     tc_receive_window tc = Some (initial_max_data params)
     \<and> tc_stream_receive_window tc = Some (initial_max_stream_data_bidi_local params)
     \<and> tc_bidi_streams tc = Some (initial_max_streams_bidi params) \<and> tc_uni_streams tc = Some (initial_max_streams_uni params)
     \<and> tc_initial_mtu tc = max_udp_payload_size params \<and> tc_idle_timeout tc = params_idle_timeout params"

lemma concrete_quic:
  assumes "p \<noteq> Random"
  shows "shows_params (fst (run_state (build_camouflaged_transport_config p) ds)) (quic_transport_params_of p)"
  using params_fit [of p]
  by (simp add: build_camouflaged_transport_config_def concrete_settings [OF assms] shows_params_def varint_or_max_def)

lemma next_sni_mem: "sni_domains s \<noteq> [] \<Longrightarrow> snd (next_sni s) \<in> set (sni_domains s)"
  by (simp add: next_sni_def)

lemma fs_write_read:
  assumes "fs_write fs p s = Ok fs'"
  shows "map_of (files fs') = (map_of (files fs))(p \<mapsto> s)" "dirs fs' = dirs fs" "fs_exists fs' q \<longleftrightarrow> q = p \<or> fs_exists fs q"
proof -
  from assms have fs': "fs' = fs\<lparr>files := AList.update p s (files fs)\<rparr>" by (auto simp: fs_write_def split: if_splits)
  then show "map_of (files fs') = (map_of (files fs))(p \<mapsto> s)" "dirs fs' = dirs fs" by (simp_all add: update_conv')
  show "fs_exists fs' q \<longleftrightarrow> q = p \<or> fs_exists fs q"
    by (auto simp: fs' fs_exists_def update_conv' simp flip: dom_map_of_conv_image_fst)
qed

section \<open>Properties\<close>

text \<open>What one connection shows, and whom it accepts.\<close>

lemma build_client_config_Ok:
  assumes cert: "and_then (read_to_string fs (cam_cert_path self)) (pem_to_cert_der P) = Ok cert" and root: "root_ok cert"
    and p: "p = profile_for (parse_profile (cam_browser_profile (cam_config self))) ds"
  shows "\<exists>c. build_client_config P sha root_ok ds fs self = (self\<lparr>cam_sni := fst (next_sni (cam_sni self))\<rparr>, Ok c)
     \<and> ccl_pin c = sha cert \<and> ccl_sni c = snd (next_sni (cam_sni self)) \<and> shows_params (ccl_quic c) (quic_transport_params_of p)
     \<and> ccl_tls c = \<lparr>rc_suites = (if cam_chrome_fingerprint (cam_config self) then Some (cipher_suites_of p) else None),
         rc_groups = (if cam_chrome_fingerprint (cam_config self) then Some (kx_groups_of p) else None),
         rc_tls13_only = True, rc_alpn = [''h3''], rc_resumption = 256\<rparr>"
proof -
  have "p \<noteq> Random" using profile_concrete [of "parse_profile (cam_browser_profile (cam_config self))" ds] by (auto simp: p)
  with cert root show ?thesis
    by (simp add: build_client_config_def resolve_run p [symmetric] concrete_tls concrete_quic CamouflageCertVerifier_new_def split_beta)
qed

text \<open>The configurations of successive connections of one connector, each with random values of its own.\<close>

fun camouflaged_connections ::
  "pem_reader \<Rightarrow> (bytes \<Rightarrow> bytes) \<Rightarrow> (bytes \<Rightarrow> bool) \<Rightarrow> (string \<rightharpoonup> string) \<Rightarrow> nat stream list \<Rightarrow> camouflaged_connector
   \<Rightarrow> camouflaged_client result list" where
  "camouflaged_connections P sha root_ok fs [] self = []"
| "camouflaged_connections P sha root_ok fs (ds # dss) self =
     (case build_client_config P sha root_ok ds fs self of
        (self, r) \<Rightarrow> r # camouflaged_connections P sha root_ok fs dss self)"

lemma length_camouflaged_connections [simp]: "length (camouflaged_connections P sha root_ok fs dss self) = length dss"
  by (induction dss arbitrary: self) (simp_all split: prod.split)

text \<open>The connector before the \<open>i\<close>-th connection: only the index of the server names moves.\<close>

lemma camouflaged_connections_nth:
  assumes "and_then (read_to_string fs (cam_cert_path self)) (pem_to_cert_der P) = Ok cert" "root_ok cert" "i < length dss"
  shows "camouflaged_connections P sha root_ok fs dss self ! i
     = snd (build_client_config P sha root_ok (dss ! i) fs
         (self\<lparr>cam_sni := (cam_sni self)\<lparr>sni_index := sni_index (cam_sni self) + of_nat i\<rparr>\<rparr>))"
  using assms
proof (induction dss arbitrary: self i)
  case (Cons ds dss)
  let ?next = "self\<lparr>cam_sni := fst (next_sni (cam_sni self))\<rparr>"
  obtain c where c: "build_client_config P sha root_ok ds fs self = (?next, Ok c)"
    using build_client_config_Ok [where root_ok = root_ok, OF Cons.prems(1,2) refl] by blast
  show ?case
  proof (cases i)
    case (Suc j)
    have "camouflaged_connections P sha root_ok fs dss ?next ! j
        = snd (build_client_config P sha root_ok (dss ! j) fs
           (?next\<lparr>cam_sni := (cam_sni ?next)\<lparr>sni_index := sni_index (cam_sni ?next) + of_nat j\<rparr>\<rparr>))"
      by (rule Cons.IH) (use Cons.prems Suc in auto)
    then show ?thesis by (simp add: c Suc next_sni_def ac_simps)
  qed (simp add: split_beta)
qed simp

text \<open>
  Claim C32. The camouflage is coherent. A connector made from a configuration with a readable certificate
  succeeds in every connection. The \<open>i\<close>-th shows the server name \<open>i\<close> modulo the size of the pool, TLS 1.3 with
  ALPN h3, and the QUIC parameters of one browser: the configured one, or for \<open>random\<close> the one of the first
  random value drawn for this connection. With the TLS fingerprint switched on, cipher suites and key
  exchange groups are those of the same browser, although each of the three lists would draw anew when asked of
  \<open>random\<close>; switched off, they are the library's. The connection accepts exactly certificates with the digest
  of the configured one, whatever name it shows.
\<close>

theorem camouflage_coherent:
  assumes new: "QuicCamouflagedConnector_new path config = Some conn"
    and cert: "and_then (read_to_string fs path) (pem_to_cert_der P) = Ok cert" "root_ok cert"
    and i: "i < length dss" "length dss < 2 ^ 64"
    and p: "p = (let q = parse_profile (cam_browser_profile config) in
                 if q = Random then [Chrome, Firefox, Safari] ! (shd (dss ! i) mod 3) else q)"
  shows "\<exists>c. camouflaged_connections P sha root_ok fs dss conn ! i = Ok c
     \<and> ccl_sni c = cam_sni_pool config ! (i mod length (cam_sni_pool config)) \<and> ccl_sni c \<in> set (cam_sni_pool config)
     \<and> rc_tls13_only (ccl_tls c) \<and> rc_alpn (ccl_tls c) = [''h3'']
     \<and> p \<in> {Chrome, Firefox, Safari} \<and> shows_params (ccl_quic c) (quic_transport_params_of p)
     \<and> rc_suites (ccl_tls c) = (if cam_chrome_fingerprint config then Some (cipher_suites_of p) else None)
     \<and> rc_groups (ccl_tls c) = (if cam_chrome_fingerprint config then Some (kx_groups_of p) else None)
     \<and> (\<forall>der name. verify_server_cert sha (ccl_pin c) der name = Ok () \<longleftrightarrow> sha der = sha cert)"
proof -
  from new have pool: "cam_sni_pool config \<noteq> []"
    and conn: "conn = \<lparr>cam_sni = \<lparr>sni_domains = cam_sni_pool config, sni_index = 0\<rparr>, cam_cert_path = path, cam_config = config\<rparr>"
    by (auto simp: QuicCamouflagedConnector_new_def SniCamouflage_new_def split: if_splits)
  let ?self = "conn\<lparr>cam_sni := (cam_sni conn)\<lparr>sni_index := of_nat i\<rparr>\<rparr>"
  have self: "cam_cert_path ?self = path" "cam_config ?self = config" by (simp_all add: conn)
  have p': "p = profile_for (parse_profile (cam_browser_profile (cam_config ?self))) (dss ! i)"
    unfolding self by (simp add: p profile_for_def Let_def)
  obtain c where c: "build_client_config P sha root_ok (dss ! i) fs ?self
        = (?self\<lparr>cam_sni := fst (next_sni (cam_sni ?self))\<rparr>, Ok c)"
    and pin: "ccl_pin c = sha cert" and sni: "ccl_sni c = snd (next_sni (cam_sni ?self))"
    and quic: "shows_params (ccl_quic c) (quic_transport_params_of p)"
    and tls: "ccl_tls c = \<lparr>rc_suites = (if cam_chrome_fingerprint config then Some (cipher_suites_of p) else None),
         rc_groups = (if cam_chrome_fingerprint config then Some (kx_groups_of p) else None),
         rc_tls13_only = True, rc_alpn = [''h3''], rc_resumption = 256\<rparr>"
    using build_client_config_Ok [where self = ?self and fs = fs and P = P and root_ok = root_ok and sha = sha, unfolded self, OF cert p' [unfolded self]]
    by (auto simp: self)
  have ix: "unat (of_nat i :: u64) = i" using i by (simp add: unat_of_nat)
  have name: "ccl_sni c = cam_sni_pool config ! (i mod length (cam_sni_pool config))"
    by (simp add: sni next_sni_def conn ix)
  have "camouflaged_connections P sha root_ok fs dss conn ! i = Ok c"
    using camouflaged_connections_nth [of fs conn P cert root_ok i dss sha] cert i(1) c by (simp add: conn)
  moreover have "verify_server_cert sha (ccl_pin c) der n = Ok () \<longleftrightarrow> sha der = sha cert" for der n
    by (simp add: verify_server_cert_def pin)
  moreover have "p \<in> {Chrome, Firefox, Safari}" unfolding p' by (rule profile_concrete)
  ultimately show ?thesis using name pool quic tls by (intro exI [of _ c]) simp
qed

definition sample_pem :: pem_reader where
  "sample_pem = \<lparr>pem_certs = (\<lambda>s. Ok [[1]]), pem_key = (\<lambda>s. Ok (Some [2]))\<rparr>"

lemma sample_pem_reads: "fs p = Some ''x'' \<Longrightarrow> and_then (read_to_string fs p) (pem_to_cert_der sample_pem) = Ok [1]"
proof -
  assume "fs p = Some ''x''"
  moreover have "utf8_ok (map code ''x'')" by (rule utf8_ok_ascii) (simp add: code_def)
  ultimately show ?thesis by (simp add: read_to_string_def pem_to_cert_der_def sample_pem_def and_then_def)
qed

theorem camouflage_coherent_witness:
  "\<exists>conn c. QuicCamouflagedConnector_new ''c''
       (ClientCamouflageSection_default\<lparr>cam_browser_profile := ''Random'', cam_sni_pool := [''a.com'', ''b.com'']\<rparr>) = Some conn
     \<and> camouflaged_connections sample_pem id (\<lambda>_. True) [''c'' \<mapsto> ''x''] [sconst 0, 5 ## sconst 0] conn ! 1 = Ok c
     \<and> ccl_sni c = ''b.com'' \<and> rc_groups (ccl_tls c) = Some (kx_groups_of Safari)
     \<and> tc_initial_mtu (ccl_quic c) = 1250"
proof -
  let ?cfg = "ClientCamouflageSection_default\<lparr>cam_browser_profile := ''Random'', cam_sni_pool := [''a.com'', ''b.com'']\<rparr>"
  let ?fs = "[''c'' \<mapsto> ''x'']" and ?dss = "[sconst 0, 5 ## sconst 0]"
  obtain conn where new: "QuicCamouflagedConnector_new ''c'' ?cfg = Some conn"
    by (simp add: QuicCamouflagedConnector_new_def SniCamouflage_new_def)
  have "parse_profile ''Random'' = Random" by code_simp
  then have p: "Safari = (let q = parse_profile (cam_browser_profile ?cfg) in
      if q = Random then [Chrome, Firefox, Safari] ! (shd (?dss ! 1) mod 3) else q)" by simp
  have fp: "cam_chrome_fingerprint ?cfg" by (simp add: ClientCamouflageSection_default_def)
  have "and_then (read_to_string ?fs ''c'') (pem_to_cert_der sample_pem) = Ok [1]" by (rule sample_pem_reads) simp
  from camouflage_coherent [where root_ok = "\<lambda>_. True" and sha = id, OF new this _ _ _ p] fp new show ?thesis
    by (auto simp: shows_params_def params_with_def)
qed

text \<open>
  Server names rotate: a pool that is not empty is used round-robin, the \<open>i\<close>-th connection
  showing name \<open>i\<close> modulo its size; an empty pool, which the configuration file may give, panics when the
  connector is created.
\<close>

theorem sni_rotation:
  assumes "n < 2 ^ 64"
  shows "(domains = [] \<longrightarrow> QuicCamouflagedConnector_new path (cfg\<lparr>cam_sni_pool := domains\<rparr>) = None)
    \<and> (domains \<noteq> [] \<longrightarrow>
       (\<exists>conn. QuicCamouflagedConnector_new path (cfg\<lparr>cam_sni_pool := domains\<rparr>) = Some conn
          \<and> sni_run n (cam_sni conn) = map (\<lambda>i. domains ! (i mod length domains)) [0..<n]))"
  using assms sni_run_nth [of "\<lparr>sni_domains = domains, sni_index = 0\<rparr>" n]
  by (simp add: QuicCamouflagedConnector_new_def SniCamouflage_new_def)

theorem sni_rotation_witness:
  "map_option (\<lambda>c. sni_run 3 (cam_sni c)) (QuicCamouflagedConnector_new ''c''
       (ClientCamouflageSection_default\<lparr>cam_sni_pool := [''a'', ''b'']\<rparr>)) = Some [''a'', ''b'', ''a'']
   \<and> QuicCamouflagedConnector_new ''c'' (ClientCamouflageSection_default\<lparr>cam_sni_pool := []\<rparr>) = None"
proof -
  have "[0..<3] = [0, 1, 2 :: nat]" by code_simp
  moreover have "2 mod Suc (Suc 0) = 0" by code_simp
  ultimately show ?thesis
    using sni_rotation [of 3 "[''a'', ''b'']" "''c''" ClientCamouflageSection_default]
      sni_rotation [of 3 "[]" "''c''" ClientCamouflageSection_default] by auto
qed

text \<open>The two files of a pair that was generated and stored.\<close>

lemma generated_files:
  assumes gen: "load_or_generate P gen fs cpath kpath = (fs', Ok pair)"
    and fresh: "\<not> (fs_exists fs cpath \<and> fs_exists fs kpath)" and diff: "cpath \<noteq> kpath"
  shows "pair = gen" "map_of (files fs') cpath = Some (cert_pem gen)" "map_of (files fs') kpath = Some (key_pem gen)"
    "fs_exists fs' cpath" "fs_exists fs' kpath"
proof -
  from gen fresh obtain fs1 where c1: "create_dir_all fs (parent cpath) = Ok fs1"
    by (cases "create_dir_all fs (parent cpath)") (simp_all add: load_or_generate_def)
  with gen fresh obtain fs2 where w1: "fs_write fs1 cpath (cert_pem gen) = Ok fs2"
    by (cases "fs_write fs1 cpath (cert_pem gen)") (simp_all add: load_or_generate_def)
  with gen fresh c1 have w2: "fs_write fs2 kpath (key_pem gen) = Ok fs'" and pair: "pair = gen"
    by (cases "fs_write fs2 kpath (key_pem gen)"; simp add: load_or_generate_def)+
  note A = fs_write_read [OF w1] and B = fs_write_read [OF w2]
  show "pair = gen" "map_of (files fs') cpath = Some (cert_pem gen)" "map_of (files fs') kpath = Some (key_pem gen)"
    "fs_exists fs' cpath" "fs_exists fs' kpath"
    using pair A(1) B(1) A(3) B(3) diff by auto
qed

text \<open>
  The server keeps its certificate: when the first start generated and stored a pair, every later
  start loads that same pair and writes nothing, provided the PEM texts it wrote are read back as what they
  encode.
\<close>

lemma certificate_persists:
  assumes gen: "load_or_generate P gen fs cpath kpath = (fs', Ok pair)"
    and fresh: "\<not> (fs_exists fs cpath \<and> fs_exists fs kpath)" and diff: "cpath \<noteq> kpath"
    and pem: "pem_to_cert_der P (cert_pem gen) = Ok (cert_der gen)" "pem_to_key_der P (key_pem gen) = Ok (key_der gen)"
    and utf8: "utf8_ok (map code (cert_pem gen))" "utf8_ok (map code (key_pem gen))"
  shows "load_or_generate P gen' fs' cpath kpath = (fs', Ok gen)"
  using generated_files [OF gen fresh diff] pem utf8
  by (simp add: load_or_generate_def load_from_files_def and_then_def read_to_string_def)

text \<open>The results of successive starts of the server, with the pairs that would be generated.\<close>

fun server_starts :: "pem_reader \<Rightarrow> string \<Rightarrow> string \<Rightarrow> cert_pair list \<Rightarrow> file_system \<Rightarrow> cert_pair result list" where
  "server_starts P cpath kpath [] fs = []"
| "server_starts P cpath kpath (gen # gens) fs =
     (case load_or_generate P gen fs cpath kpath of (fs, r) \<Rightarrow> r # server_starts P cpath kpath gens fs)"

lemma server_starts_same:
  "(\<And>gen. load_or_generate P gen fs cpath kpath = (fs, r)) \<Longrightarrow> set (server_starts P cpath kpath gens fs) \<subseteq> {r}"
  by (induction gens) auto

text \<open>
  Claim C31. Pinning follows the server through restarts: a camouflaged client whose certificate file is a copy
  of the one the server wrote at its first start accepts the certificate of every later start, whatever name it
  shows and whatever pair a start would generate, and refuses every certificate with another digest, such as
  that of a server whose files were lost and generated anew. It needs a PEM reader that reads back what was
  written.
\<close>

theorem pinning_follows_server:
  assumes gen: "load_or_generate P gen fs cpath kpath = (fs', Ok pair)"
    and fresh: "\<not> (fs_exists fs cpath \<and> fs_exists fs kpath)" and diff: "cpath \<noteq> kpath"
    and pem: "pem_to_cert_der P (cert_pem gen) = Ok (cert_der gen)" "pem_to_key_der P (key_pem gen) = Ok (key_der gen)"
    and utf8: "utf8_ok (map code (cert_pem gen))" "utf8_ok (map code (key_pem gen))"
    and copy: "cfs (cam_cert_path self) = map_of (files fs') cpath" and root: "root_ok (cert_der gen)"
    and start: "r \<in> set (server_starts P cpath kpath gens fs')"
  shows "\<exists>c later. snd (build_client_config P sha root_ok ds cfs self) = Ok c \<and> r = Ok later
     \<and> verify_server_cert sha (ccl_pin c) (cert_der later) name = Ok ()
     \<and> (\<forall>der. sha der \<noteq> sha (cert_der later) \<longrightarrow> verify_server_cert sha (ccl_pin c) der name \<noteq> Ok ())"
proof -
  note keeps = certificate_persists [OF gen fresh diff pem utf8]
  from server_starts_same [of P fs' cpath kpath "Ok gen" gens] keeps start have r: "r = Ok gen" by blast
  have "map_of (files fs') cpath = Some (cert_pem gen)" by (rule generated_files [OF gen fresh diff])
  then have "and_then (read_to_string cfs (cam_cert_path self)) (pem_to_cert_der P) = Ok (cert_der gen)"
    using copy pem(1) utf8(1) by (simp add: read_to_string_def and_then_def)
  from build_client_config_Ok [where sha = sha and root_ok = root_ok, OF this root refl, of ds] obtain c
    where c: "snd (build_client_config P sha root_ok ds cfs self) = Ok c" "ccl_pin c = sha (cert_der gen)" by auto
  then show ?thesis using r by (intro exI [of _ c] exI [of _ gen]) (simp add: verify_server_cert_def)
qed

definition sample_pair :: cert_pair where
  "sample_pair = \<lparr>cert_der = [1], key_der = [2], cert_pem = ''c'', key_pem = ''k''\<rparr>"

definition sample_stored :: file_system where
  "sample_stored = \<lparr>files = [(''/c.pem'', ''c''), (''/k.pem'', ''k'')], dirs = [], writable = (\<lambda>_. True)\<rparr>"

lemma sample_generates:
  "load_or_generate sample_pem sample_pair \<lparr>files = [], dirs = [], writable = (\<lambda>_. True)\<rparr> ''/c.pem'' ''/k.pem'' = (sample_stored, Ok sample_pair)"
proof -
  have par: "parent ''/c.pem'' = []" "parent ''/k.pem'' = []" by (simp_all add: parent_def)
  let ?fs = "\<lparr>files = [], dirs = [], writable = (\<lambda>_. True)\<rparr>" and ?fs1 = "\<lparr>files = [(''/c.pem'', ''c'')], dirs = [], writable = (\<lambda>_. True)\<rparr>"
  have "fs_write ?fs ''/c.pem'' (cert_pem sample_pair) = Ok ?fs1" "fs_write ?fs1 ''/k.pem'' (key_pem sample_pair) = Ok sample_stored"
    using par by (simp_all add: fs_write_def sample_pair_def sample_stored_def)
  moreover have "create_dir_all ?fs (parent ''/c.pem'') = Ok ?fs" unfolding par by (simp add: create_dir_all_def)
  moreover have "\<not> fs_exists ?fs ''/c.pem''" by (simp add: fs_exists_def)
  ultimately show ?thesis by (simp only: load_or_generate_def simp_thms if_False sum.case)
qed

theorem pinning_follows_server_witness:
  "\<exists>c. snd (build_client_config sample_pem id (\<lambda>_. True) (sconst 0) [''/pin.pem'' \<mapsto> ''c'']
        \<lparr>cam_sni = \<lparr>sni_domains = [''dl.google.com''], sni_index = 0\<rparr>, cam_cert_path = ''/pin.pem'', cam_config = ClientCamouflageSection_default\<rparr>) = Ok c
     \<and> (\<forall>r \<in> set (server_starts sample_pem ''/c.pem'' ''/k.pem'' [sample_pair, sample_pair\<lparr>cert_der := [9]\<rparr>] sample_stored).
          \<exists>later. r = Ok later \<and> verify_server_cert id (ccl_pin c) (cert_der later) ''dl.google.com'' = Ok ()
            \<and> verify_server_cert id (ccl_pin c) (9 # cert_der later) ''dl.google.com'' \<noteq> Ok ())"
proof -
  let ?self = "\<lparr>cam_sni = \<lparr>sni_domains = [''dl.google.com''], sni_index = 0\<rparr>, cam_cert_path = ''/pin.pem'', cam_config = ClientCamouflageSection_default\<rparr>"
  let ?build = "snd (build_client_config sample_pem id (\<lambda>_. True) (sconst 0) [''/pin.pem'' \<mapsto> ''c''] ?self)"
  let ?starts = "server_starts sample_pem ''/c.pem'' ''/k.pem'' [sample_pair, sample_pair\<lparr>cert_der := [9]\<rparr>] sample_stored"
  have pem: "pem_to_cert_der sample_pem (cert_pem sample_pair) = Ok (cert_der sample_pair)"
    "pem_to_key_der sample_pem (key_pem sample_pair) = Ok (key_der sample_pair)"
    by (simp_all add: pem_to_cert_der_def pem_to_key_der_def sample_pem_def sample_pair_def and_then_def)
  have utf8: "utf8_ok (map code (cert_pem sample_pair))" "utf8_ok (map code (key_pem sample_pair))"
    by (rule utf8_ok_ascii, simp add: sample_pair_def code_def)+
  have fresh: "\<not> (fs_exists \<lparr>files = [], dirs = [], writable = (\<lambda>_. True)\<rparr> ''/c.pem''
      \<and> fs_exists \<lparr>files = [], dirs = [], writable = (\<lambda>_. True)\<rparr> ''/k.pem'')" by (simp add: fs_exists_def)
  have copy: "[''/pin.pem'' \<mapsto> ''c''] (cam_cert_path ?self) = map_of (files sample_stored) ''/c.pem''" by (simp add: sample_stored_def)
  have one: "\<exists>c later. ?build = Ok c \<and> r = Ok later
      \<and> verify_server_cert id (ccl_pin c) (cert_der later) ''dl.google.com'' = Ok ()
      \<and> (\<forall>der. id der \<noteq> id (cert_der later) \<longrightarrow> verify_server_cert id (ccl_pin c) der ''dl.google.com'' \<noteq> Ok ())"
    if "r \<in> set ?starts" for r
    by (rule pinning_follows_server [where root_ok = "\<lambda>_. True" and cfs = "[''/pin.pem'' \<mapsto> ''c'']" and self = ?self,
        OF sample_generates fresh _ pem utf8 copy _ that]) simp_all
  have "?starts \<noteq> []" by (simp split: prod.split)
  then have "hd ?starts \<in> set ?starts" by (rule hd_in_set)
  from one [OF this] obtain c where c: "?build = Ok c" by blast
  show ?thesis
  proof (intro exI [of _ c] conjI ballI)
    fix r assume "r \<in> set ?starts"
    from one [OF this] c obtain later where later: "r = Ok later" "verify_server_cert id (ccl_pin c) (cert_der later) ''dl.google.com'' = Ok ()"
      "\<forall>der. id der \<noteq> id (cert_der later) \<longrightarrow> verify_server_cert id (ccl_pin c) der ''dl.google.com'' \<noteq> Ok ()" by (auto simp del: id_apply)
    have "id (9 # cert_der later) \<noteq> id (cert_der later)" by simp
    with later show "\<exists>later. r = Ok later \<and> verify_server_cert id (ccl_pin c) (cert_der later) ''dl.google.com'' = Ok ()
        \<and> verify_server_cert id (ccl_pin c) (9 # cert_der later) ''dl.google.com'' \<noteq> Ok ()" by blast
  qed (rule c)
qed

end
