(* ===== verification/Manager.thy ===== *)
theory Manager
  imports Camouflage Stats
begin

text \<open>
  Choosing and opening a transport: the four connectors and the manager of
  \<^verbatim>\<open>src/crates/redpill-quic/src/transport/manager.rs\<close> (with the connect functions of \<^verbatim>\<open>tcp_reality.rs\<close>
  and \<^verbatim>\<open>websocket_cdn.rs\<close>), and the health monitor of \<^verbatim>\<open>transport/health.rs\<close>. What the network and
  the TLS and WebSocket libraries answer is the argument \<open>io\<close> of a connect.
\<close>

section \<open>The handshake of a client\<close>

text \<open>
  \<open>lk_setup\<close> is the result of everything before the auth message (sockets, TLS, opening the stream),
  \<open>lk_write\<close> that of writing it, \<open>lk_reply\<close> what the server sends until it stops.
\<close>

record link_io =
  lk_setup :: "unit result"
  lk_write :: "unit result"
  lk_reply :: bytes

definition client_auth_message :: "hmac \<Rightarrow> psk_authenticator \<Rightarrow> bytes \<Rightarrow> bytes rust" where
  "client_auth_message hmac auth nonce =
     map_option (\<lambda>mac. ClientAuth_encode \<lparr>ca_nonce = nonce, ca_mac = mac, ca_version = PROTOCOL_VERSION\<rparr>)
       (PskAuthenticator_compute_mac hmac auth nonce)"

text \<open>Write the auth message, read and decode the 17 bytes of the session configuration.\<close>

definition exchange_auth :: "hmac \<Rightarrow> psk_authenticator \<Rightarrow> bytes \<Rightarrow> link_io \<Rightarrow> session_config result rust" where
  "exchange_auth hmac auth nonce io =
     (case client_auth_message hmac auth nonce of
        None \<Rightarrow> None
      | Some msg \<Rightarrow>
          Some (and_then (lk_write io) (\<lambda>_.
            (case read_exact SESSION_CONFIG_LEN (lk_reply io) of
               (_, Inl e) \<Rightarrow> Err (IoError e)
             | (_, Inr config_buf) \<Rightarrow>
                 (case SessionConfig_decode config_buf of
                    None \<Rightarrow> Err (Bail ''Invalid session config from server'')
                  | Some c \<Rightarrow> Ok c)))))"

record connect_result =
  cres_session :: session_config
  cres_mode :: transport_mode
  cres_quic :: bool
  cres_padding :: bool
  cres_control :: bool

text \<open>A rust-level bind over results: a panic, an error or a value.\<close>

definition then_rust :: "'a result \<Rightarrow> ('a \<Rightarrow> 'b result rust) \<Rightarrow> 'b result rust" where
  "then_rust r f = (case r of Inl e \<Rightarrow> Some (Err e) | Inr x \<Rightarrow> f x)"

section \<open>Connectors\<close>

text \<open>What the TLS stack needs from the outside, shared by the connectors.\<close>

record tls_env =
  te_pem :: pem_reader
  te_sha256 :: "bytes \<Rightarrow> bytes"
  te_root_ok :: "bytes \<Rightarrow> bool"
  te_files :: "string \<rightharpoonup> string"
  te_valid_sni :: "string \<Rightarrow> bool"
  te_hmac :: hmac

record quic_direct_connector =
  qd_cert_path :: string
  qd_auth :: psk_authenticator
  qd_domain :: "string option"

text \<open>The trust anchor and the server name: the public roots for a domain, else the certificate file.\<close>

definition QuicDirect_trust :: "tls_env \<Rightarrow> quic_direct_connector \<Rightarrow> (bytes option \<times> string) result" where
  "QuicDirect_trust E self =
     (case qd_domain self of
        Some domain \<Rightarrow> Ok (None, domain)
      | None \<Rightarrow>
          and_then (read_to_string (te_files E) (qd_cert_path self)) (\<lambda>pem.
          and_then (pem_to_cert_der (te_pem E) pem) (\<lambda>cert.
            if te_root_ok E cert then Ok (Some cert, ''redpill-quic'') else Err (Bail ''invalid certificate''))))"

definition QuicDirect_connect ::
  "tls_env \<Rightarrow> quic_direct_connector \<Rightarrow> bytes \<Rightarrow> link_io \<Rightarrow> connect_result result rust" where
  "QuicDirect_connect E self nonce io =
     then_rust (QuicDirect_trust E self) (\<lambda>_.
     then_rust (lk_setup io) (\<lambda>_.
       map_option (\<lambda>r. and_then r (\<lambda>c.
           Ok \<lparr>cres_session = c, cres_mode = QuicRaw, cres_quic = True, cres_padding = False, cres_control = True\<rparr>))
         (exchange_auth (te_hmac E) (qd_auth self) nonce io)))"

record quic_camo_adapter =
  qa_inner :: camouflaged_connector
  qa_auth :: psk_authenticator

definition QuicCamouflaged_connect ::
  "tls_env \<Rightarrow> nat stream \<Rightarrow> quic_camo_adapter \<Rightarrow> bytes \<Rightarrow> link_io \<Rightarrow> quic_camo_adapter \<times> connect_result result rust" where
  "QuicCamouflaged_connect E draws self nonce io =
     (case build_client_config (te_pem E) (te_sha256 E) (te_root_ok E) draws (te_files E) (qa_inner self) of
        (inner, r) \<Rightarrow>
          (self\<lparr>qa_inner := inner\<rparr>,
           then_rust r (\<lambda>_.
           then_rust (lk_setup io) (\<lambda>_.
             map_option (\<lambda>r. and_then r (\<lambda>c.
                 Ok \<lparr>cres_session = c, cres_mode = QuicCamouflaged, cres_quic = True,
                     cres_padding = cam_padding (cam_config inner), cres_control = True\<rparr>))
               (exchange_auth (te_hmac E) (qa_auth self) nonce io)))))"

record tcp_connector =
  tcn_cert_path :: string
  tcn_reality :: client_reality_section
  tcn_camouflage :: client_camouflage_section
  tcn_address :: string
  tcn_auth :: psk_authenticator

text \<open>The TLS settings: the browser's lists with the ALPN of HTTP over TCP, always Chrome's.\<close>

definition TcpReality_tls :: "nat stream \<Rightarrow> tcp_connector \<Rightarrow> rustls_config" where
  "TcpReality_tls draws self =
     (fst (run_state (build_camouflaged_rustls_config (cam_chrome_fingerprint (tcn_camouflage self))) draws))\<lparr>rc_alpn := [''h2'', ''http/1.1'']\<rparr>"

definition TcpReality_sni :: "tcp_connector \<Rightarrow> string" where
  "TcpReality_sni self = takeWhile (\<lambda>c. c \<noteq> CHR '':'') (cr_target (tcn_reality self))"

text \<open>Certificate, server name and address, before anything is sent; then the connection, and the adapter's result.\<close>

definition TcpReality_prepare :: "tls_env \<Rightarrow> tcp_connector \<Rightarrow> unit result" where
  "TcpReality_prepare E self =
     and_then (read_to_string (te_files E) (tcn_cert_path self)) (\<lambda>pem.
     and_then (pem_to_cert_der (te_pem E) pem) (\<lambda>cert.
       if \<not> te_root_ok E cert then Err (Bail ''invalid certificate'')
       else if \<not> te_valid_sni E (TcpReality_sni self) then Err (Bail ''invalid SNI'')
       else (case parse_socket_addr (tcn_address self) of None \<Rightarrow> Err (Bail ''invalid address'') | Some addr \<Rightarrow> Ok ())))"

definition TcpReality_session :: "tls_env \<Rightarrow> tcp_connector \<Rightarrow> bytes \<Rightarrow> link_io \<Rightarrow> session_config result rust" where
  "TcpReality_session E self nonce io =
     then_rust (TcpReality_prepare E self) (\<lambda>_.
     then_rust (lk_setup io) (\<lambda>_. exchange_auth (te_hmac E) (tcn_auth self) nonce io))"

definition TcpReality_connect ::
  "tls_env \<Rightarrow> tcp_connector \<Rightarrow> bytes \<Rightarrow> link_io \<Rightarrow> connect_result result rust" where
  "TcpReality_connect E self nonce io =
     map_option (\<lambda>r. and_then r (\<lambda>c.
         Ok \<lparr>cres_session = c, cres_mode = TcpReality, cres_quic = False, cres_padding = False, cres_control = False\<rparr>))
       (TcpReality_session E self nonce io)"

record ws_connector =
  wsc_config :: client_websocket_section
  wsc_auth :: psk_authenticator

text \<open>Over WebSocket the answer is the next message, if any.\<close>

record ws_link_io =
  wl_connect :: "unit result"
  wl_send :: "unit result"
  wl_next :: "ws_message option"

definition WebSocket_url :: "ws_connector \<Rightarrow> string result" where
  "WebSocket_url self =
     (case cw_url (wsc_config self) of None \<Rightarrow> Err (Bail ''WebSocket URL not configured'') | Some url \<Rightarrow> Ok url)"

definition WebSocket_session :: "tls_env \<Rightarrow> ws_connector \<Rightarrow> bytes \<Rightarrow> ws_link_io \<Rightarrow> session_config result rust" where
  "WebSocket_session E self nonce io =
     then_rust (WebSocket_url self) (\<lambda>url.
     then_rust (wl_connect io) (\<lambda>_.
       (case client_auth_message (te_hmac E) (wsc_auth self) nonce of
          None \<Rightarrow> None
        | Some msg \<Rightarrow>
            then_rust (wl_send io) (\<lambda>_.
              Some (case wl_next io of
                 None \<Rightarrow> Err (Bail ''WebSocket closed before session config'')
               | Some (WsError e) \<Rightarrow> Err (Bail (''WebSocket read session config failed: '' @ e))
               | Some (Binary config_data) \<Rightarrow>
                   if length config_data < SESSION_CONFIG_LEN then Err (Bail ''Session config too short'')
                   else (case SessionConfig_decode (take SESSION_CONFIG_LEN config_data) of
                           None \<Rightarrow> Err (Bail ''Invalid session config from server'')
                         | Some c \<Rightarrow> Ok c)
               | Some _ \<Rightarrow> Err (Bail ''Expected binary message''))))))"

definition WebSocket_connect ::
  "tls_env \<Rightarrow> ws_connector \<Rightarrow> bytes \<Rightarrow> ws_link_io \<Rightarrow> connect_result result rust" where
  "WebSocket_connect E self nonce io =
     map_option (\<lambda>r. and_then r (\<lambda>c.
         Ok \<lparr>cres_session = c, cres_mode = WebSocketCdn, cres_quic = False, cres_padding = False, cres_control = False\<rparr>))
       (WebSocket_session E self nonce io)"

section \<open>The manager\<close>

text \<open>What became of a connector within its ten seconds.\<close>

datatype 'r probe = Connected 'r | ProbeFailed anyhow | ProbeTimedOut

fun probe_loop :: "(transport_mode \<times> 'r probe) list \<Rightarrow> anyhow option \<Rightarrow> 'r result" where
  "probe_loop [] last_error =
     Err (case last_error of Some e \<Rightarrow> e | None \<Rightarrow> Bail ''No transport connectors configured'')"
| "probe_loop ((mode, p) # connectors) last_error =
     (case p of
        Connected r \<Rightarrow> Ok r
      | ProbeFailed e \<Rightarrow> probe_loop connectors (Some e)
      | ProbeTimedOut \<Rightarrow>
          probe_loop connectors (Some (Bail (TransportMode_display mode @ '' connection timed out''))))"

definition probe_and_connect :: "(transport_mode \<times> 'r probe) list \<Rightarrow> 'r result" where
  "probe_and_connect connectors = probe_loop connectors None"

datatype connector =
    CQuic quic_direct_connector
  | CCamo quic_camo_adapter
  | CTcp tcp_connector
  | CWs ws_connector

primrec connector_mode :: "connector \<Rightarrow> transport_mode" where
  "connector_mode (CQuic _) = QuicRaw"
| "connector_mode (CCamo _) = QuicCamouflaged"
| "connector_mode (CTcp _) = TcpReality"
| "connector_mode (CWs _) = WebSocketCdn"

text \<open>
  The network as the connectors find it: what each gets to see, \<open>None\<close> for no answer within the ten seconds of
  a probe, and the random values they draw. A connector that waits in vain fails with the error of its own
  preparation if there is one.
\<close>

record probe_net =
  pn_quic :: "link_io option"
  pn_camo :: "link_io option"
  pn_tcp :: "link_io option"
  pn_ws :: "ws_link_io option"
  pn_nonce :: "transport_mode \<Rightarrow> bytes"
  pn_draws :: "nat stream"

definition probed :: "'a result \<Rightarrow> ('io \<Rightarrow> 'r result rust) \<Rightarrow> 'io option \<Rightarrow> 'r probe rust" where
  "probed prepared connect io =
     (case io of
        None \<Rightarrow> Some (case prepared of Inl e \<Rightarrow> ProbeFailed e | Inr _ \<Rightarrow> ProbeTimedOut)
      | Some io \<Rightarrow> map_option (case_sum ProbeFailed Connected) (connect io))"

fun connector_connect :: "tls_env \<Rightarrow> probe_net \<Rightarrow> connector \<Rightarrow> connector \<times> connect_result probe rust" where
  "connector_connect E net (CQuic c) =
     (CQuic c, probed (QuicDirect_trust E c) (QuicDirect_connect E c (pn_nonce net QuicRaw)) (pn_quic net))"
| "connector_connect E net (CCamo a) =
     (case build_client_config (te_pem E) (te_sha256 E) (te_root_ok E) (pn_draws net) (te_files E) (qa_inner a) of
        (inner, r) \<Rightarrow>
          (CCamo (a\<lparr>qa_inner := inner\<rparr>),
           probed r (\<lambda>io. snd (QuicCamouflaged_connect E (pn_draws net) a (pn_nonce net QuicCamouflaged) io)) (pn_camo net)))"
| "connector_connect E net (CTcp c) =
     (CTcp c, probed (TcpReality_prepare E c) (TcpReality_connect E c (pn_nonce net TcpReality)) (pn_tcp net))"
| "connector_connect E net (CWs c) =
     (CWs c, probed (WebSocket_url c) (WebSocket_connect E c (pn_nonce net WebSocketCdn)) (pn_ws net))"

text \<open>\<open>probe_and_connect\<close> on the connectors themselves, which keep what a probe changed in them.\<close>

fun manager_connect :: "tls_env \<Rightarrow> probe_net \<Rightarrow> connector list \<Rightarrow> anyhow option \<Rightarrow> connector list \<times> connect_result result rust" where
  "manager_connect E net [] last_error =
     ([], Some (Err (case last_error of Some e \<Rightarrow> e | None \<Rightarrow> Bail ''No transport connectors configured'')))"
| "manager_connect E net (c # cs) last_error =
     (case connector_connect E net c of
        (c', None) \<Rightarrow> (c' # cs, None)
      | (c', Some (Connected r)) \<Rightarrow> (c' # cs, Some (Ok r))
      | (c', Some (ProbeFailed e)) \<Rightarrow> (case manager_connect E net cs (Some e) of (cs', r) \<Rightarrow> (c' # cs', r))
      | (c', Some ProbeTimedOut) \<Rightarrow>
          (case manager_connect E net cs (Some (Bail (TransportMode_display (connector_mode c) @ '' connection timed out''))) of
             (cs', r) \<Rightarrow> (c' # cs', r)))"

definition available_modes :: "connector list \<Rightarrow> transport_mode list" where
  "available_modes cs = map connector_mode cs"

record build_cfg =
  bc_mode :: string
  bc_server_addr :: string
  bc_cert_path :: string
  bc_auth :: psk_authenticator
  bc_camouflage :: client_camouflage_section
  bc_reality :: client_reality_section
  bc_ws :: client_websocket_section
  bc_domain :: "string option"

definition add_quic :: "build_cfg \<Rightarrow> connector list rust" where
  "add_quic cfg = Some [CQuic \<lparr>qd_cert_path = bc_cert_path cfg, qd_auth = bc_auth cfg, qd_domain = bc_domain cfg\<rparr>]"

definition add_quic_camouflaged :: "build_cfg \<Rightarrow> connector list rust" where
  "add_quic_camouflaged cfg =
     map_option (\<lambda>c. [CCamo \<lparr>qa_inner = c, qa_auth = bc_auth cfg\<rparr>])
       (QuicCamouflagedConnector_new (bc_cert_path cfg) (bc_camouflage cfg))"

definition add_tcp_reality :: "build_cfg \<Rightarrow> connector list rust" where
  "add_tcp_reality cfg =
     Some [CTcp \<lparr>tcn_cert_path = bc_cert_path cfg, tcn_reality = bc_reality cfg, tcn_camouflage = bc_camouflage cfg,
                tcn_address = (case cr_address (bc_reality cfg) of Some a \<Rightarrow> a | None \<Rightarrow> bc_server_addr cfg),
                tcn_auth = bc_auth cfg\<rparr>]"

definition add_websocket :: "build_cfg \<Rightarrow> connector list rust" where
  "add_websocket cfg =
     Some (if cw_url (bc_ws cfg) \<noteq> None then [CWs \<lparr>wsc_config = bc_ws cfg, wsc_auth = bc_auth cfg\<rparr>] else [])"

definition build_transport_manager :: "build_cfg \<Rightarrow> connector list rust" where
  "build_transport_manager cfg =
     (if bc_mode cfg = ''quic'' then add_quic cfg
      else if bc_mode cfg = ''quic-camouflaged'' then add_quic_camouflaged cfg
      else if bc_mode cfg = ''tcp-reality'' then add_tcp_reality cfg
      else if bc_mode cfg = ''websocket'' then add_websocket cfg
      else do {
        a \<leftarrow> add_quic cfg;
        b \<leftarrow> add_quic_camouflaged cfg;
        c \<leftarrow> add_tcp_reality cfg;
        d \<leftarrow> add_websocket cfg;
        Some (a @ b @ c @ d)
      })"

section \<open>Health monitor\<close>

datatype reconnect_reason = Degraded | Upgrade

primrec ReconnectReason_display :: "reconnect_reason \<Rightarrow> string" where
  "ReconnectReason_display Degraded = ''quality degraded''"
| "ReconnectReason_display Upgrade = ''upgrade available''"

definition DEGRADED_THRESHOLD :: nat where "DEGRADED_THRESHOLD = 2"

text \<open>
  One sample every 30 seconds; \<open>exceeds cur base\<close> is the comparison of the current round-trip time with
  the baseline. \<open>None\<close>: still watching after the samples. The comparison is made on floating-point
  milliseconds, with three times those of the baseline.
\<close>

fun watch_quic_loop :: "('t \<Rightarrow> 't \<Rightarrow> bool) \<Rightarrow> 't \<Rightarrow> nat \<Rightarrow> 't list \<Rightarrow> reconnect_reason option" where
  "watch_quic_loop exceeds baseline consecutive_degraded [] = None"
| "watch_quic_loop exceeds baseline consecutive_degraded (current # samples) =
     (if exceeds current baseline then
        (if consecutive_degraded + 1 \<ge> DEGRADED_THRESHOLD then Some Degraded
         else watch_quic_loop exceeds baseline (consecutive_degraded + 1) samples)
      else watch_quic_loop exceeds baseline 0 samples)"

definition RTT_DEGRADATION_FACTOR :: f64 where "RTT_DEGRADATION_FACTOR = f64_of_nat 3"

definition rtt_exceeds :: "nat \<times> nat \<Rightarrow> nat \<times> nat \<Rightarrow> bool" where
  "rtt_exceeds current_rtt baseline_rtt =
     f64_gt (rtt_millis current_rtt) (f64_mul (rtt_millis baseline_rtt) RTT_DEGRADATION_FACTOR)"

definition watch_quic :: "nat \<times> nat \<Rightarrow> (nat \<times> nat) list \<Rightarrow> reconnect_reason option" where
  "watch_quic baseline_rtt samples = watch_quic_loop rtt_exceeds baseline_rtt 0 samples"

text \<open>The UDP probe: errors of the socket calls, and what came back within a second.\<close>

datatype probe_reply = ReplyData | ReplyIcmpError | ReplyNothing

record udp_probe =
  up_bind :: bool
  up_connect :: bool
  up_send :: bool
  up_reply :: probe_reply
  up_in_time :: bool

definition probe_udp_reachable :: "udp_probe \<Rightarrow> bool" where
  "probe_udp_reachable p =
     (if \<not> up_in_time p then False
      else if \<not> up_bind p \<or> \<not> up_connect p \<or> \<not> up_send p then False
      else (case up_reply p of ReplyData \<Rightarrow> True | ReplyIcmpError \<Rightarrow> False | ReplyNothing \<Rightarrow> True))"

text \<open>One probe every five minutes; without the server's address the monitor waits forever.\<close>

fun fallback_loop :: "udp_probe list \<Rightarrow> reconnect_reason option" where
  "fallback_loop [] = None"
| "fallback_loop (p # ps) = (if probe_udp_reachable p then Some Upgrade else fallback_loop ps)"

record health_monitor =
  quic_conn :: bool
  hm_mode :: transport_mode
  hm_server_addr :: "string option"

definition HealthMonitor_new :: "bool \<Rightarrow> transport_mode \<Rightarrow> string option \<Rightarrow> health_monitor" where
  "HealthMonitor_new conn mode addr = \<lparr>quic_conn = conn, hm_mode = mode, hm_server_addr = addr\<rparr>"

definition watch_fallback :: "health_monitor \<Rightarrow> udp_probe list \<Rightarrow> reconnect_reason option" where
  "watch_fallback self probes = (case hm_server_addr self of None \<Rightarrow> None | Some addr \<Rightarrow> fallback_loop probes)"

text \<open>\<open>watch\<close>: the pair of connection and mode decides which monitor runs; any other pair waits forever.\<close>

definition watch ::
  "health_monitor \<Rightarrow> nat \<times> nat \<Rightarrow> (nat \<times> nat) list \<Rightarrow> udp_probe list \<Rightarrow> reconnect_reason option" where
  "watch self baseline_rtt samples probes =
     (if quic_conn self \<and> (hm_mode self = QuicRaw \<or> hm_mode self = QuicCamouflaged) then watch_quic baseline_rtt samples
      else if \<not> quic_conn self \<and> (hm_mode self = TcpReality \<or> hm_mode self = WebSocketCdn) then watch_fallback self probes
      else None)"

section \<open>Lemmas\<close>

definition first_success :: "(transport_mode \<times> 'r probe) list \<Rightarrow> 'r \<Rightarrow> bool" where
  "first_success cs r \<longleftrightarrow>
     (\<exists>pre mode post. cs = pre @ (mode, Connected r) # post \<and> (\<forall>(m, p) \<in> set pre. \<forall>r. p \<noteq> Connected r))"

lemma first_success_skip:
  assumes "first_success cs r" "\<forall>r. p \<noteq> Connected r"
  shows "first_success ((mode, p) # cs) r"
proof -
  from assms(1) obtain pre m post where "cs = pre @ (m, Connected r) # post" "\<forall>(m, p) \<in> set pre. \<forall>r. p \<noteq> Connected r"
    unfolding first_success_def by blast
  with assms(2) show ?thesis unfolding first_success_def
    by (intro exI [of _ "(mode, p) # pre"] exI [of _ m] exI [of _ post]) simp
qed

lemma first_success_tail:
  assumes "first_success ((mode, p) # cs) r" "p \<noteq> Connected r"
  shows "first_success cs r"
proof -
  from assms(1) obtain pre m post where eq: "(mode, p) # cs = pre @ (m, Connected r) # post"
    and pre: "\<forall>(m, p) \<in> set pre. \<forall>r. p \<noteq> Connected r" unfolding first_success_def by blast
  from eq assms(2) obtain pre' where "pre = (mode, p) # pre'" "cs = pre' @ (m, Connected r) # post" by (cases pre) auto
  with pre show ?thesis unfolding first_success_def by auto
qed

lemma first_success_Cons:
  "first_success ((mode, p) # cs) r \<longleftrightarrow> (case p of Connected r' \<Rightarrow> r' = r | _ \<Rightarrow> first_success cs r)"
proof (cases p)
  case (Connected r')
  have "first_success ((mode, p) # cs) r \<Longrightarrow> r' = r"
    by (auto simp: first_success_def Cons_eq_append_conv Connected)
  moreover have "first_success ((mode, Connected r) # cs) r"
    unfolding first_success_def by (intro exI [of _ "[]"]) simp
  ultimately show ?thesis using Connected by auto
next
  case (ProbeFailed e)
  then show ?thesis using first_success_skip [of cs r p mode] first_success_tail [of mode p cs r] by auto
next
  case ProbeTimedOut
  then show ?thesis using first_success_skip [of cs r p mode] first_success_tail [of mode p cs r] by auto
qed

lemma probe_loop_Ok: "probe_loop cs le = Ok r \<longleftrightarrow> first_success cs r"
proof (induction cs arbitrary: le)
  case (Cons c cs)
  then show ?case by (cases c) (simp add: first_success_Cons split: probe.split)
qed (simp add: first_success_def)

fun probe_error :: "transport_mode \<times> 'r probe \<Rightarrow> anyhow" where
  "probe_error (mode, ProbeFailed e) = e"
| "probe_error (mode, _) = Bail (TransportMode_display mode @ '' connection timed out'')"

lemma probe_loop_fail:
  "\<forall>(m, p) \<in> set cs. \<forall>r. p \<noteq> Connected r \<Longrightarrow> cs \<noteq> [] \<Longrightarrow> probe_loop cs le = Err (probe_error (last cs))"
proof (induction cs arbitrary: le)
  case (Cons c cs)
  obtain mode p where c: "c = (mode, p)" by fastforce
  with Cons show ?case by (cases p; cases "cs = []") auto
qed simp

lemma watch_quic_loop_iff:
  "watch_quic_loop ex b k ss \<noteq> None \<longleftrightarrow>
     (k \<ge> 1 \<and> ss \<noteq> [] \<and> ex (hd ss) b)
     \<or> (\<exists>i. Suc i < length ss \<and> ex (ss ! i) b \<and> ex (ss ! Suc i) b)"
proof (induction ss arbitrary: k)
  case (Cons s ss)
  have step: "(\<exists>i. Suc i < length (s # ss) \<and> ex ((s # ss) ! i) b \<and> ex ((s # ss) ! Suc i) b)
      \<longleftrightarrow> (ss \<noteq> [] \<and> ex s b \<and> ex (hd ss) b) \<or> (\<exists>i. Suc i < length ss \<and> ex (ss ! i) b \<and> ex (ss ! Suc i) b)"
    (is "?L \<longleftrightarrow> ?R")
  proof
    assume ?L
    then obtain i where i: "Suc i < length (s # ss)" "ex ((s # ss) ! i) b" "ex ((s # ss) ! Suc i) b" by blast
    then show ?R by (cases i) (auto simp: hd_conv_nth)
  next
    assume ?R
    then show ?L
    proof
      assume "ss \<noteq> [] \<and> ex s b \<and> ex (hd ss) b"
      then show ?thesis by (intro exI [of _ 0]) (auto simp: hd_conv_nth)
    next
      assume "\<exists>i. Suc i < length ss \<and> ex (ss ! i) b \<and> ex (ss ! Suc i) b"
      then obtain i where "Suc i < length ss \<and> ex (ss ! i) b \<and> ex (ss ! Suc i) b" by blast
      then show ?thesis by (intro exI [of _ "Suc i"]) auto
    qed
  qed
  show ?case unfolding step using Cons.IH [of "Suc k"] Cons.IH [of 0]
    by (auto simp: DEGRADED_THRESHOLD_def)
qed simp

lemma exchange_auth_reply:
  assumes "client_auth_message hmac auth nonce = Some msg" "lk_write io = Ok ()"
    and "lk_reply io = SessionConfig_encode c @ rest"
  shows "exchange_auth hmac auth nonce io = Some (Ok c)"
proof -
  have len: "length (SessionConfig_encode c) = SESSION_CONFIG_LEN" by (rule session_config_codec.length_encode) simp
  have dec: "SessionConfig_decode (SessionConfig_encode c) = Some c" by (rule session_config_codec.decode_exact) simp
  show ?thesis using assms len dec by (simp add: exchange_auth_def read_exact_def and_then_def)
qed

lemma probe_loop_error:
  assumes "probe_loop cs le = Err e" "cs \<noteq> []" shows "e = probe_error (last cs)"
proof -
  have "\<forall>(m, p) \<in> set cs. \<forall>r. p \<noteq> Connected r"
    using assms(1)
  proof (induction cs arbitrary: le)
    case (Cons c cs)
    then show ?case by (cases c) (auto split: probe.splits)
  qed simp
  from probe_loop_fail [OF this assms(2), of le] assms(1) show ?thesis by simp
qed

lemma first_success_outcomes:
  "first_success (map f cs) r \<longleftrightarrow>
     (\<exists>pre c post. cs = pre @ c # post \<and> snd (f c) = Connected r \<and> (\<forall>c' \<in> set pre. \<forall>r. snd (f c') \<noteq> Connected r))"
proof
  assume "first_success (map f cs) r"
  then obtain pre mode post where "map f cs = pre @ (mode, Connected r) # post" "\<forall>(m, p) \<in> set pre. \<forall>r. p \<noteq> Connected r"
    unfolding first_success_def by blast
  then show "\<exists>pre c post. cs = pre @ c # post \<and> snd (f c) = Connected r \<and> (\<forall>c' \<in> set pre. \<forall>r. snd (f c') \<noteq> Connected r)"
    by (auto simp: map_eq_append_conv map_eq_Cons_conv case_prod_beta) (metis snd_conv)
next
  assume "\<exists>pre c post. cs = pre @ c # post \<and> snd (f c) = Connected r \<and> (\<forall>c' \<in> set pre. \<forall>r. snd (f c') \<noteq> Connected r)"
  then obtain pre c post where "cs = pre @ c # post" "snd (f c) = Connected r" "\<forall>c' \<in> set pre. \<forall>r. snd (f c') \<noteq> Connected r" by blast
  then show "first_success (map f cs) r" unfolding first_success_def
    by (intro exI [of _ "map f pre"] exI [of _ "fst (f c)"] exI [of _ "map f post"]) (auto simp: case_prod_beta prod_eq_iff)
qed

lemma probed_Connected: "probed p connect io = Some (Connected r) \<longleftrightarrow> (\<exists>i. io = Some i \<and> connect i = Some (Ok r))"
proof (cases io)
  case (Some i)
  have "case_sum ProbeFailed Connected x = Connected r \<longleftrightarrow> x = Ok r" for x by (cases x) auto
  with Some show ?thesis by (auto simp: probed_def)
qed (simp add: probed_def split: sum.split)

lemma then_rust_Ok: "then_rust m f = Some (Ok x) \<longleftrightarrow> (\<exists>y. m = Ok y \<and> f y = Some (Ok x))"
  by (cases m) (simp_all add: then_rust_def)

lemma connected_mode:
  assumes "snd (connector_connect E net c) = Some (Connected r)" shows "cres_mode r = connector_mode c"
  using assms
  by (cases c) (auto simp: QuicDirect_connect_def TcpReality_connect_def WebSocket_connect_def QuicCamouflaged_connect_def
      probed_Connected then_rust_Ok and_then_eq_Inr split: prod.splits)

text \<open>With digests of the right length no connector panics, so probing is the loop over their outcomes.\<close>

definition connector_outcome :: "tls_env \<Rightarrow> probe_net \<Rightarrow> connector \<Rightarrow> transport_mode \<times> connect_result probe" where
  "connector_outcome E net c = (connector_mode c, the (snd (connector_connect E net c)))"

lemma then_rust_total: "(\<And>x. f x \<noteq> None) \<Longrightarrow> then_rust r f \<noteq> None"
  by (simp add: then_rust_def split: sum.split)

lemma exchange_auth_total: "(\<And>k m. length (hmac k m) = 32) \<Longrightarrow> exchange_auth hmac auth nonce io \<noteq> None"
  by (simp add: exchange_auth_def client_auth_message_def PskAuthenticator_compute_mac_def Let_def)

lemma connect_total:
  assumes "\<And>k m. length (te_hmac E k m) = 32"
  shows "QuicDirect_connect E q nonce io \<noteq> None" "snd (QuicCamouflaged_connect E rnd a nonce io) \<noteq> None"
    "TcpReality_connect E c nonce io \<noteq> None" "WebSocket_connect E w nonce wio \<noteq> None"
proof -
  note x = exchange_auth_total [of "te_hmac E", OF assms]
  have "client_auth_message (te_hmac E) (wsc_auth w) nonce \<noteq> None"
    using assms by (simp add: client_auth_message_def PskAuthenticator_compute_mac_def Let_def)
  then show "WebSocket_connect E w nonce wio \<noteq> None"
    by (auto simp: WebSocket_connect_def WebSocket_session_def then_rust_def split: sum.split option.split)
  show "QuicDirect_connect E q nonce io \<noteq> None" "TcpReality_connect E c nonce io \<noteq> None"
    "snd (QuicCamouflaged_connect E rnd a nonce io) \<noteq> None"
    using x by (auto simp: QuicDirect_connect_def TcpReality_connect_def TcpReality_session_def QuicCamouflaged_connect_def then_rust_def
        split: sum.splits prod.splits)
qed

lemma probed_total: "(\<And>io. connect io \<noteq> None) \<Longrightarrow> probed p connect io \<noteq> None"
  by (simp add: probed_def split: option.split)

lemma connector_connect_total:
  assumes "\<And>k m. length (te_hmac E k m) = 32"
  shows "\<exists>p. snd (connector_connect E net c) = Some p"
  using connect_total [of E, OF assms] by (cases c) (auto simp: probed_total split: prod.split simp flip: not_None_eq)

lemma connector_outcome_Connected:
  assumes "\<And>k m. length (te_hmac E k m) = 32"
  shows "snd (connector_outcome E net c) = Connected r \<longleftrightarrow> snd (connector_connect E net c) = Some (Connected r)"
  using connector_connect_total [of E net c, OF assms] by (auto simp: connector_outcome_def)

lemma connector_mode_connect [simp]: "connector_mode (fst (connector_connect E net c)) = connector_mode c"
  by (cases c) (simp_all split: prod.split)

lemma manager_connect_loop:
  assumes "\<And>k m. length (te_hmac E k m) = 32"
  shows "snd (manager_connect E net cs le) = Some (probe_loop (map (connector_outcome E net) cs) le)
     \<and> available_modes (fst (manager_connect E net cs le)) = available_modes cs"
proof (induction cs arbitrary: le)
  case (Cons c cs)
  obtain c' p where c: "connector_connect E net c = (c', Some p)"
    using connector_connect_total [OF assms, where net = net and c = c] by (metis prod.collapse)
  have m: "connector_mode c' = connector_mode c" using connector_mode_connect [of E net c] by (simp add: c)
  show ?case
    using Cons m by (cases p) (simp_all add: c connector_outcome_def [of E net c] available_modes_def split_beta)
qed (simp add: available_modes_def)

section \<open>Properties\<close>

text \<open>
  Probing: the connection used is that of the first connector that succeeds, every one before it
  having failed or timed out; when none succeeds the error is the last connector's; and with no connector
  at all there is an error too.
\<close>

theorem probe_first_success:
  "(probe_and_connect cs = Ok r \<longleftrightarrow>
     (\<exists>pre mode post. cs = pre @ (mode, Connected r) # post \<and> (\<forall>(m, p) \<in> set pre. \<forall>r. p \<noteq> Connected r)))
   \<and> ((\<forall>(m, p) \<in> set cs. \<forall>r. p \<noteq> Connected r) \<and> cs \<noteq> [] \<longrightarrow> probe_and_connect cs = Err (probe_error (last cs)))
   \<and> (cs = [] \<longrightarrow> probe_and_connect cs = Err (Bail ''No transport connectors configured''))"
  using probe_loop_Ok [of cs None r] probe_loop_fail [of cs None] by (simp add: probe_and_connect_def first_success_def)

theorem probe_first_success_witness:
  "probe_and_connect [(QuicRaw, ProbeTimedOut), (TcpReality, Connected (7 :: nat)), (WebSocketCdn, Connected 8)] = Ok 7
   \<and> probe_and_connect [(QuicRaw, ProbeFailed (Bail ''x'')), (TcpReality, ProbeTimedOut :: nat probe)]
       = Err (Bail ''TCP+Reality connection timed out'')"
proof -
  have "\<exists>pre mode post. [(QuicRaw, ProbeTimedOut), (TcpReality, Connected (7 :: nat)), (WebSocketCdn, Connected 8)]
      = pre @ (mode, Connected 7) # post \<and> (\<forall>(m, p) \<in> set pre. \<forall>r. p \<noteq> Connected r)"
    by (intro exI [of _ "[(QuicRaw, ProbeTimedOut)]"] exI [of _ TcpReality] exI [of _ "[(WebSocketCdn, Connected 8)]"]) simp
  then show ?thesis
    using probe_first_success [of "[(QuicRaw, ProbeTimedOut), (TcpReality, Connected (7 :: nat)), (WebSocketCdn, Connected 8)]" 7]
      probe_first_success [of "[(QuicRaw, ProbeFailed (Bail ''x'')), (TcpReality, ProbeTimedOut :: nat probe)]"]
    by simp
qed

text \<open>
  Claim C30. Probing on the connectors themselves, with digests of 32 bytes: it never panics and keeps the connectors'
  modes; the connection used is that of the first connector whose probe succeeds, and it is of that
  connector's mode; when none succeeds the error is the last connector's.
\<close>

theorem manager_connects_first:
  assumes digest: "\<And>k m. length (te_hmac E k m) = 32"
  shows "available_modes (fst (manager_connect E net cs None)) = available_modes cs
    \<and> (snd (manager_connect E net cs None) = Some (Ok r) \<longleftrightarrow>
        (\<exists>pre c post. cs = pre @ c # post \<and> snd (connector_connect E net c) = Some (Connected r) \<and> cres_mode r = connector_mode c
           \<and> (\<forall>c' \<in> set pre. \<forall>r. snd (connector_connect E net c') \<noteq> Some (Connected r))))
    \<and> (\<forall>e. snd (manager_connect E net cs None) = Some (Err e) \<and> cs \<noteq> [] \<longrightarrow> e = probe_error (connector_outcome E net (last cs)))
    \<and> snd (manager_connect E net cs None) \<noteq> None"
proof -
  note loop = manager_connect_loop [OF digest, of net cs None]
  have ok: "snd (manager_connect E net cs None) = Some (Ok r) \<longleftrightarrow> first_success (map (connector_outcome E net) cs) r"
    using loop by (simp add: probe_loop_Ok)
  also have "\<dots> \<longleftrightarrow> (\<exists>pre c post. cs = pre @ c # post \<and> snd (connector_connect E net c) = Some (Connected r)
      \<and> (\<forall>c' \<in> set pre. \<forall>r. snd (connector_connect E net c') \<noteq> Some (Connected r)))"
    by (simp add: first_success_outcomes connector_outcome_Connected [OF digest])
  finally have first: "snd (manager_connect E net cs None) = Some (Ok r) \<longleftrightarrow> (\<exists>pre c post. cs = pre @ c # post
      \<and> snd (connector_connect E net c) = Some (Connected r)
      \<and> (\<forall>c' \<in> set pre. \<forall>r. snd (connector_connect E net c') \<noteq> Some (Connected r)))" .
  have err: "e = probe_error (connector_outcome E net (last cs))"
    if "snd (manager_connect E net cs None) = Some (Err e)" "cs \<noteq> []" for e
    using that loop probe_loop_error [of "map (connector_outcome E net) cs" None e] by (simp add: last_map)
  show ?thesis using loop first err connected_mode by blast
qed

definition sample_tls :: tls_env where
  "sample_tls =
     \<lparr>te_pem = \<lparr>pem_certs = (\<lambda>_. Ok [[1]]), pem_key = (\<lambda>_. Ok None)\<rparr>, te_sha256 = id, te_root_ok = (\<lambda>_. True),
      te_files = [''c'' \<mapsto> ''x''], te_valid_sni = (\<lambda>_. True), te_hmac = (\<lambda>k m. take 32 (k @ m @ replicate 32 0))\<rparr>"

definition sample_granted :: session_config where
  "sample_granted = \<lparr>sc_client_ip = Ipv4Addr 10 0 1 2, sc_server_ip = Ipv4Addr 10 0 1 1, sc_dns_ip = Ipv4Addr 1 1 1 1, sc_mtu = 1200,
     sc_keepalive_secs = 10, sc_flags = 0\<rparr>"

text \<open>A network in which the server answers one connector or another.\<close>

definition sample_answer :: link_io where
  "sample_answer = \<lparr>lk_setup = Ok (), lk_write = Ok (), lk_reply = SessionConfig_encode sample_granted\<rparr>"

definition sample_net :: probe_net where
  "sample_net = \<lparr>pn_quic = None, pn_camo = None, pn_tcp = Some sample_answer, pn_ws = None, pn_nonce = (\<lambda>_. replicate 32 7), pn_draws = sconst 0\<rparr>"

lemma sample_digest: "length (te_hmac sample_tls k m) = 32"
  by (simp add: sample_tls_def)

lemma sample_exchange: "exchange_auth (te_hmac sample_tls) auth nonce sample_answer = Some (Ok sample_granted)"
proof -
  obtain msg where "client_auth_message (te_hmac sample_tls) auth nonce = Some msg"
    using sample_digest by (simp add: client_auth_message_def PskAuthenticator_compute_mac_def Let_def)
  from exchange_auth_reply [OF this, of sample_answer sample_granted "[]"] show ?thesis by (simp add: sample_answer_def)
qed

theorem manager_connects_first_witness:
  "snd (manager_connect sample_tls (sample_net\<lparr>pn_quic := Some sample_answer\<rparr>)
      [CQuic \<lparr>qd_cert_path = [], qd_auth = \<lparr>auth_psk = [2]\<rparr>, qd_domain = Some ''vpn.example''\<rparr>] None)
    = Some (Ok \<lparr>cres_session = sample_granted, cres_mode = QuicRaw, cres_quic = True, cres_padding = False, cres_control = True\<rparr>)"
proof -
  let ?q = "CQuic \<lparr>qd_cert_path = [], qd_auth = \<lparr>auth_psk = [2]\<rparr>, qd_domain = Some ''vpn.example''\<rparr>"
  let ?r = "\<lparr>cres_session = sample_granted, cres_mode = QuicRaw, cres_quic = True, cres_padding = False, cres_control = True\<rparr>"
  have "snd (connector_connect sample_tls (sample_net\<lparr>pn_quic := Some sample_answer\<rparr>) ?q) = Some (Connected ?r)"
    using sample_exchange by (simp add: probed_Connected QuicDirect_connect_def QuicDirect_trust_def then_rust_def sample_answer_def)
  then have "\<exists>pre c post. [?q] = pre @ c # post \<and> snd (connector_connect sample_tls (sample_net\<lparr>pn_quic := Some sample_answer\<rparr>) c) = Some (Connected ?r)
      \<and> cres_mode ?r = connector_mode c
      \<and> (\<forall>c' \<in> set pre. \<forall>r. snd (connector_connect sample_tls (sample_net\<lparr>pn_quic := Some sample_answer\<rparr>) c') \<noteq> Some (Connected r))"
    by (intro exI [of _ "[]"] exI [of _ ?q]) (simp del: connector_connect.simps)
  then show ?thesis
    using manager_connects_first [of sample_tls "sample_net\<lparr>pn_quic := Some sample_answer\<rparr>" "[?q]" ?r, OF sample_digest] by blast
qed

text \<open>
  When UDP is blocked an automatic client reaches the server over TCP: with no answer to either QUIC
  connector and an answer to the one for TCP Reality, the connection is that one, whatever else is configured.
\<close>

theorem blocked_udp_falls_back:
  assumes digest: "\<And>k m. length (te_hmac E k m) = 32"
    and auto: "bc_mode cfg = ''auto''" "build_transport_manager cfg = Some cs"
    and silent: "pn_quic net = None" "pn_camo net = None"
    and tcp: "add_tcp_reality cfg = Some [CTcp c]" "pn_tcp net = Some io" "TcpReality_connect E c (pn_nonce net TcpReality) io = Some (Ok r)"
  shows "snd (manager_connect E net cs None) = Some (Ok r)"
proof -
  from auto tcp(1) obtain q a ws where cs: "cs = [CQuic q, CCamo a, CTcp c] @ ws"
    by (auto simp: build_transport_manager_def add_quic_def add_quic_camouflaged_def bind_eq_Some_conv)
  have no: "snd (connector_connect E net (CQuic q)) \<noteq> Some (Connected r')" "snd (connector_connect E net (CCamo a)) \<noteq> Some (Connected r')" for r'
    using silent by (auto simp: probed_Connected split: prod.split)
  have yes: "snd (connector_connect E net (CTcp c)) = Some (Connected r)" using tcp by (simp add: probed_Connected)
  have "first_success (map (connector_outcome E net) cs) r"
    unfolding first_success_outcomes connector_outcome_Connected [OF digest]
    by (intro exI [of _ "[CQuic q, CCamo a]"] exI [of _ "CTcp c"] exI [of _ ws]) (use cs no yes in auto)
  then show ?thesis using manager_connect_loop [OF digest, of net cs None] by (simp add: probe_loop_Ok)
qed

theorem blocked_udp_falls_back_witness:
  "\<exists>cs r. build_transport_manager
       \<lparr>bc_mode = ''auto'', bc_server_addr = ''1.2.3.4:443'', bc_cert_path = ''c'', bc_auth = \<lparr>auth_psk = []\<rparr>,
        bc_camouflage = ClientCamouflageSection_default, bc_reality = ClientRealitySection_default,
        bc_ws = \<lparr>cw_url = None, cw_host = None\<rparr>, bc_domain = None\<rparr> = Some cs
     \<and> snd (manager_connect sample_tls sample_net cs None) = Some (Ok r) \<and> cres_mode r = TcpReality \<and> cres_session r = sample_granted"
proof -
  let ?cfg = "\<lparr>bc_mode = ''auto'', bc_server_addr = ''1.2.3.4:443'', bc_cert_path = ''c'', bc_auth = \<lparr>auth_psk = []\<rparr>,
        bc_camouflage = ClientCamouflageSection_default, bc_reality = ClientRealitySection_default,
        bc_ws = \<lparr>cw_url = None, cw_host = None\<rparr>, bc_domain = None\<rparr>"
  let ?c = "\<lparr>tcn_cert_path = ''c'', tcn_reality = ClientRealitySection_default, tcn_camouflage = ClientCamouflageSection_default,
     tcn_address = ''1.2.3.4:443'', tcn_auth = \<lparr>auth_psk = []\<rparr>\<rparr>"
  let ?r = "\<lparr>cres_session = sample_granted, cres_mode = TcpReality, cres_quic = False, cres_padding = False, cres_control = False\<rparr>"
  obtain cs where cs: "build_transport_manager ?cfg = Some cs"
    by (simp add: build_transport_manager_def add_quic_def add_quic_camouflaged_def add_tcp_reality_def add_websocket_def
        QuicCamouflagedConnector_new_def SniCamouflage_new_def ClientCamouflageSection_default_def default_sni_pool_def)
  have "''1.2.3.4:443'' = show_ipv4 (Ipv4Addr 1 2 3 4) @ '':'' @ show_nat 443" by (simp add: show_simps)
  then have addr: "parse_socket_addr ''1.2.3.4:443'' \<noteq> None" using parse_socket_v4 [of 443 "Ipv4Addr 1 2 3 4"] by simp
  have "utf8_ok (map code ''x'')" by code_simp
  then have "TcpReality_prepare sample_tls ?c = Ok ()"
    using addr by (auto simp: TcpReality_prepare_def read_to_string_def sample_tls_def pem_to_cert_der_def and_then_def)
  then have tcp: "TcpReality_connect sample_tls ?c (pn_nonce sample_net TcpReality) sample_answer = Some (Ok ?r)"
    using sample_exchange by (simp add: TcpReality_connect_def TcpReality_session_def then_rust_def sample_answer_def)
  have "add_tcp_reality ?cfg = Some [CTcp ?c]" by (simp add: add_tcp_reality_def ClientRealitySection_default_def)
  from blocked_udp_falls_back [OF sample_digest _ cs _ _ this _ tcp]
  have "snd (manager_connect sample_tls sample_net cs None) = Some (Ok ?r)" by (simp add: sample_net_def)
  with cs show ?thesis by auto
qed

text \<open>
  The connectors come in order of preference: whatever the configuration, the list built has
  strictly decreasing preference (so no mode twice); mode \<open>auto\<close>, and every unknown mode, offers QUIC,
  camouflaged QUIC, TCP and, when it has an address, WebSocket; and building panics exactly when camouflaged QUIC is
  wanted with an empty pool of names.
\<close>

theorem manager_preference_order:
  "case build_transport_manager cfg of
     None \<Rightarrow> cam_sni_pool (bc_camouflage cfg) = []
       \<and> bc_mode cfg \<notin> {''quic'', ''tcp-reality'', ''websocket''}
   | Some cs \<Rightarrow>
       sorted_wrt (<) (available_modes cs)
       \<and> (bc_mode cfg \<notin> {''quic'', ''quic-camouflaged'', ''tcp-reality'', ''websocket''} \<longrightarrow>
           available_modes cs = [QuicRaw, QuicCamouflaged, TcpReality]
             @ (if cw_url (bc_ws cfg) = None then [] else [WebSocketCdn]))
       \<and> (bc_mode cfg \<in> {''quic'', ''tcp-reality''} \<longrightarrow> length cs = 1)"
  by (cases "cam_sni_pool (bc_camouflage cfg)")
    (auto simp: build_transport_manager_def add_quic_def add_quic_camouflaged_def add_tcp_reality_def add_websocket_def
      QuicCamouflagedConnector_new_def SniCamouflage_new_def available_modes_def less_transport_mode_def)

theorem manager_preference_order_witness:
  "map_option available_modes (build_transport_manager
     \<lparr>bc_mode = ''auto'', bc_server_addr = ''1.2.3.4:443'', bc_cert_path = ''c'', bc_auth = \<lparr>auth_psk = []\<rparr>,
      bc_camouflage = ClientCamouflageSection_default, bc_reality = ClientRealitySection_default,
      bc_ws = \<lparr>cw_url = None, cw_host = None\<rparr>, bc_domain = None\<rparr>)
   = Some [QuicRaw, QuicCamouflaged, TcpReality]"
  using manager_preference_order [of "\<lparr>bc_mode = ''auto'', bc_server_addr = ''1.2.3.4:443'', bc_cert_path = ''c'',
      bc_auth = \<lparr>auth_psk = []\<rparr>, bc_camouflage = ClientCamouflageSection_default,
      bc_reality = ClientRealitySection_default, bc_ws = \<lparr>cw_url = None, cw_host = None\<rparr>, bc_domain = None\<rparr>"]
  by (simp add: ClientCamouflageSection_default_def default_sni_pool_def split: option.splits)

text \<open>The comparison is exact up to the rounding of seven operations.\<close>

lemma rtt_millis_close:
  assumes "duration d"
  shows "\<exists>m. rtt_millis d = Finite m \<and> approx 3 (secs d * 1000) m"
proof -
  obtain e where e: "as_secs_f64 d = Finite e" "approx 2 (secs d) e" using as_secs_approx [OF assms] by blast
  have "1 / 2 ^ 30 * 1000 \<le> secs d * 1000" "secs d * 1000 \<le> 2 ^ 54 * 1000" using secs_bounds [OF assms] by simp_all
  then have b: "1 / 2 ^ 190 \<le> secs d * 1000" "secs d * 1000 \<le> 2 ^ 190" by (auto elim: order_trans [rotated] order_trans)
  from approx_step [OF approx_mult [OF e(2), of 1000] _ b] e(1) show ?thesis
    by (auto simp: rtt_millis_def f64_mul_def numeral_3_eq_3 numeral_2_eq_2)
qed

lemma rtt_exceeds_sharp:
  assumes "duration cur" "duration base"
  shows "secs cur \<ge> 3 * secs base * (1 + 1 / 2 ^ 48) \<Longrightarrow> rtt_exceeds cur base"
    and "secs cur \<le> 3 * secs base * (1 - 1 / 2 ^ 48) \<Longrightarrow> \<not> rtt_exceeds cur base"
proof -
  obtain c where c: "rtt_millis cur = Finite c" "approx 3 (secs cur * 1000) c" using rtt_millis_close [OF assms(1)] by blast
  obtain b where b: "rtt_millis base = Finite b" "approx 3 (secs base * 1000) b" using rtt_millis_close [OF assms(2)] by blast
  let ?x = "secs base * 1000 * 3"
  have bb: "1 / 2 ^ 30 * 3000 \<le> ?x" "?x \<le> 2 ^ 54 * 3000" using secs_bounds [OF assms(2)] by simp_all
  then have range: "1 / 2 ^ 190 \<le> ?x" "?x \<le> 2 ^ 190" by (auto elim: order_trans [rotated] order_trans)
  have pos: "0 < ?x" using bb(1) by (rule less_le_trans [rotated]) simp
  obtain h where h: "f64_of (b * 3) = Finite h" "approx 4 ?x h"
    using approx_step [OF approx_mult [OF b(2), of 3] _ range] by (auto simp: eval_nat_numeral)
  have ex: "rtt_exceeds cur base \<longleftrightarrow> h < c"
    using c(1) b(1) h(1) by (simp add: rtt_exceeds_def f64_mul_def f64_gt_def RTT_DEGRADATION_FACTOR_def)
  show "rtt_exceeds cur base" if "secs cur \<ge> 3 * secs base * (1 + 1 / 2 ^ 48)"
  proof -
    have "h \<le> ?x * (1 + 1 / 2 ^ 53) ^ 4" using h(2) by (simp only: approx_def)
    also have "\<dots> < ?x * ((1 + 1 / 2 ^ 48) * (1 - 1 / 2 ^ 53) ^ 3)"
      by (rule mult_strict_left_mono) (use pos in \<open>simp_all add: power_divide\<close>)
    also have "\<dots> = (3 * secs base * (1 + 1 / 2 ^ 48)) * 1000 * (1 - 1 / 2 ^ 53) ^ 3" by simp
    also have "\<dots> \<le> secs cur * 1000 * (1 - 1 / 2 ^ 53) ^ 3" by (intro mult_right_mono that) simp_all
    also have "\<dots> \<le> c" using c(2) by (simp only: approx_def)
    finally show ?thesis by (simp add: ex)
  qed
  show "\<not> rtt_exceeds cur base" if "secs cur \<le> 3 * secs base * (1 - 1 / 2 ^ 48)"
  proof -
    have "c \<le> secs cur * 1000 * (1 + 1 / 2 ^ 53) ^ 3" using c(2) by (simp only: approx_def)
    also have "\<dots> \<le> (3 * secs base * (1 - 1 / 2 ^ 48)) * 1000 * (1 + 1 / 2 ^ 53) ^ 3" by (intro mult_right_mono that) simp_all
    also have "\<dots> = ?x * ((1 - 1 / 2 ^ 48) * (1 + 1 / 2 ^ 53) ^ 3)" by simp
    also have "\<dots> \<le> ?x * (1 - 1 / 2 ^ 53) ^ 4"
      by (rule mult_left_mono) (use pos in \<open>simp_all add: power_divide\<close>)
    also have "\<dots> \<le> h" using h(2) by (simp only: approx_def)
    finally show ?thesis by (simp add: ex)
  qed
qed

text \<open>
  When the health monitor asks for a reconnection: on QUIC exactly after two consecutive samples for which the
  floating-point comparison holds, which it does from three times the baseline on and not below, but for a
  \<open>2 ^ -48\<close> of it; on TCP and WebSocket, when it knows the server's address, at the first probe without a local error
  and without an ICMP error, so also when the packet is silently dropped.
\<close>

theorem watch_reconnects_iff:
  "(watch (HealthMonitor_new True QuicRaw a) base samples probes = Some Degraded \<longleftrightarrow>
      (\<exists>i. Suc i < length samples \<and> rtt_exceeds (samples ! i) base \<and> rtt_exceeds (samples ! Suc i) base))
   \<and> (watch (HealthMonitor_new True QuicRaw a) base samples probes \<noteq> Some Upgrade)
   \<and> (watch (HealthMonitor_new False TcpReality (Some addr)) base samples probes = Some Upgrade \<longleftrightarrow>
      (\<exists>p \<in> set probes. up_in_time p \<and> up_bind p \<and> up_connect p \<and> up_send p \<and> up_reply p \<noteq> ReplyIcmpError))
   \<and> (duration cur \<longrightarrow> duration base \<longrightarrow>
      (secs cur \<ge> 3 * secs base * (1 + 1 / 2 ^ 48) \<longrightarrow> rtt_exceeds cur base)
      \<and> (secs cur \<le> 3 * secs base * (1 - 1 / 2 ^ 48) \<longrightarrow> \<not> rtt_exceeds cur base))"
proof -
  have deg: "watch_quic_loop rtt_exceeds base k ss \<in> {None, Some Degraded}" for k ss
    by (induction "rtt_exceeds" base k ss rule: watch_quic_loop.induct) auto
  have "watch_quic base samples = Some Degraded \<longleftrightarrow> watch_quic base samples \<noteq> None"
    "watch_quic base samples \<noteq> Some Upgrade"
    using deg [of 0 samples] by (auto simp: watch_quic_def)
  moreover have "fallback_loop probes = Some Upgrade \<longleftrightarrow> (\<exists>p \<in> set probes. probe_udp_reachable p)"
    by (induction probes) auto
  moreover have "probe_udp_reachable p \<longleftrightarrow>
      up_in_time p \<and> up_bind p \<and> up_connect p \<and> up_send p \<and> up_reply p \<noteq> ReplyIcmpError" for p
    by (auto simp: probe_udp_reachable_def split: probe_reply.split)
  ultimately show ?thesis
    using watch_quic_loop_iff [of rtt_exceeds base 0 samples] rtt_exceeds_sharp [of cur base]
    by (auto simp: watch_def watch_quic_def HealthMonitor_new_def watch_fallback_def)
qed

theorem watch_reconnects_iff_witness:
  "rtt_exceeds (0, 130000000) (0, 40000000) \<and> \<not> rtt_exceeds (0, 110000000) (0, 40000000)"
  using watch_reconnects_iff [where cur = "(0, 130000000)" and base = "(0, 40000000)"]
    watch_reconnects_iff [where cur = "(0, 110000000)" and base = "(0, 40000000)"]
  by (simp add: duration_def secs_def)

end
