(* ===== verification/Client.thy ===== *)
theory Client
  imports Manager Tunnel
begin

text \<open>
  The client program, \<^verbatim>\<open>src/crates/redpill-quic/src/client.rs\<close>: resolving the settings, the connect,
  tunnel and reconnect loop of \<open>run_client\<close> as a state machine over signals and outcomes, the back-off
  delay, the two directions of \<open>run_tunnel\<close>, and the reader of session updates.
\<close>

section \<open>Settings\<close>

record cli =
  cli_server :: "string option"
  cli_cert :: "string option"
  cli_psk :: "string option"
  cli_config :: "string option"
  cli_test_mode :: bool
  cli_quiet :: bool

record settings =
  set_server :: socket_addr
  set_cert_path :: string
  set_psk :: bytes
  set_domain :: "string option"
  set_mode :: string

definition or_else :: "'a option \<Rightarrow> 'a option \<Rightarrow> 'a option" where
  "or_else a b = (case a of Some x \<Rightarrow> Some x | None \<Rightarrow> b)"

definition ok_or :: "anyhow \<Rightarrow> 'a option \<Rightarrow> 'a result" where
  "ok_or e a = (case a of Some x \<Rightarrow> Ok x | None \<Rightarrow> Err e)"

definition server_text :: "string \<Rightarrow> string" where
  "server_text server_str =
     (if CHR '':'' \<in> set server_str then server_str else server_str @ '':'' @ show_nat QUIC_PORT)"

definition client_settings ::
  "(string \<Rightarrow> client_toml_config result) \<Rightarrow> (string \<rightharpoonup> string) \<Rightarrow> cli \<Rightarrow> settings result" where
  "client_settings from_str fs c =
     and_then (case cli_config c of
                 Some path \<Rightarrow> ClientTomlConfig_load from_str fs path
               | None \<Rightarrow> Ok ClientTomlConfig_default) (\<lambda>toml.
     and_then (ok_or (Bail ''--server or config [server].address is required'')
                 (or_else (cli_server c) (toml_address toml))) (\<lambda>server_str.
     and_then (case toml_domain toml of
                 Some d \<Rightarrow> Ok (case or_else (cli_cert c) (toml_cert toml) of Some p \<Rightarrow> p | None \<Rightarrow> [])
               | None \<Rightarrow> ok_or (Bail ''--cert or config [server].cert is required (or set domain for WebPKI)'')
                           (or_else (cli_cert c) (toml_cert toml))) (\<lambda>cpath.
     and_then (ok_or (Bail ''--psk or config [server].psk is required'')
                 (or_else (cli_psk c) (toml_psk toml))) (\<lambda>psk_hex.
     and_then (parse_psk_hex psk_hex) (\<lambda>k.
     and_then (ok_or (ParseError ''AddrParseError'') (parse_socket_addr (server_text server_str))) (\<lambda>addr.
       Ok \<lparr>set_server = addr, set_cert_path = cpath, set_psk = k, set_domain = toml_domain toml,
           set_mode = toml_mode toml\<rparr>))))))"

section \<open>Back-off\<close>

definition RECONNECT_MIN_DELAY :: nat where "RECONNECT_MIN_DELAY = 1000"
definition RECONNECT_MAX_DELAY :: nat where "RECONNECT_MAX_DELAY = 30000"

text \<open>\<open>u32::saturating_pow\<close> and \<open>saturating_sub\<close>.\<close>

definition saturating_pow2 :: "nat \<Rightarrow> nat" where
  "saturating_pow2 n = min (2 ^ n) (2 ^ 32 - 1)"

text \<open>\<open>(millis as f64 * 0.2) as u64\<close>: the delays that occur are 1, 2, 4, 8, 16 and 30 seconds.\<close>

definition fifth_trunc :: "nat \<Rightarrow> nat" where
  "fifth_trunc millis = f64_to_u64 (f64_mul (f64_of_nat millis) (f64_of (1 / 5)))"

definition reconnect_delay :: "u64 \<Rightarrow> u32 \<Rightarrow> nat" where
  "reconnect_delay rnd attempt =
     (let base = RECONNECT_MIN_DELAY * saturating_pow2 (unat attempt - 1);
          millis = min base RECONNECT_MAX_DELAY;
          jitter = fifth_trunc millis in
      millis + unat rnd mod (jitter * 2 + 1) - jitter)"

section \<open>The tunnel\<close>

text \<open>
  What the tasks of \<open>run_tunnel\<close> see, in the order it happens: a packet read from TUN and handed to the
  transport, with its result; a datagram from the transport, with the results of the device writes; the
  health monitor.
\<close>

datatype tunnel_error = TunnelTransport transport_error | TunnelIo string

datatype tunnel_exit = ExitError tunnel_error | ExitHealth reconnect_reason

datatype tunnel_event =
    Uploaded bytes "send_result tresult"
  | Received "bytes tresult" "bytes \<Rightarrow> bool"
  | HealthFired reconnect_reason

record client_tunnel =
  ct_stats :: stats
  ct_tun :: "bytes list"
  ct_upload_alive :: bool

definition upload_step :: "bytes \<Rightarrow> send_result tresult \<Rightarrow> client_tunnel \<Rightarrow> client_tunnel" where
  "upload_step pkt r t =
     (if \<not> ct_upload_alive t then t
      else
        let t = t\<lparr>ct_stats := record_tun_read (ct_stats t)\<rparr> in
        (case r of
           Inr Sent \<Rightarrow> t\<lparr>ct_stats := record_send (ct_stats t) (length pkt)\<rparr>
         | Inr TooLarge \<Rightarrow> t\<lparr>ct_stats := record_too_large (ct_stats t)\<rparr>
         | Inr Blocked \<Rightarrow> t\<lparr>ct_stats := record_blocked (ct_stats t)\<rparr>
         | Inl e \<Rightarrow> t\<lparr>ct_upload_alive := False\<rparr>))"

text \<open>\<open>write_to_tun\<close> takes the empty packet without a write.\<close>

definition write_packet :: "(bytes \<Rightarrow> bool) \<Rightarrow> bytes \<Rightarrow> client_tunnel \<Rightarrow> client_tunnel" where
  "write_packet write_ok pkt t =
     (if pkt = [] then t\<lparr>ct_stats := record_tun_write (ct_stats t)\<rparr>
      else if write_ok pkt then t\<lparr>ct_tun := ct_tun t @ [pkt], ct_stats := record_tun_write (ct_stats t)\<rparr>
      else t)"

definition receive_step :: "bool \<Rightarrow> bytes \<Rightarrow> (bytes \<Rightarrow> bool) \<Rightarrow> client_tunnel \<Rightarrow> client_tunnel" where
  "receive_step batching data write_ok t =
     (if data = [] then t
      else
        let t = t\<lparr>ct_stats := record_recv (ct_stats t) (length data)\<rparr> in
        if batching \<and> is_batched_datagram data then fold (write_packet write_ok) (batch_decode data) t
        else write_packet write_ok data t)"

fun run_tunnel :: "bool \<Rightarrow> tunnel_event list \<Rightarrow> client_tunnel \<Rightarrow> client_tunnel \<times> tunnel_exit option" where
  "run_tunnel batching [] t = (t, None)"
| "run_tunnel batching (Uploaded pkt r # es) t = run_tunnel batching es (upload_step pkt r t)"
| "run_tunnel batching (Received (Inr data) write_ok # es) t =
     run_tunnel batching es (receive_step batching data write_ok t)"
| "run_tunnel batching (Received (Inl e) write_ok # es) t = (t, Some (ExitError (TunnelTransport e)))"
| "run_tunnel batching (HealthFired reason # es) t = (t, Some (ExitHealth reason))"

definition client_tunnel_new :: client_tunnel where
  "client_tunnel_new = \<lparr>ct_stats = Stats_new, ct_tun = [], ct_upload_alive = True\<rparr>"

text \<open>Session updates: the MTUs applied, until the control stream ends.\<close>

function read_session_updates :: "bytes \<Rightarrow> u16 list" where
  "read_session_updates stream =
     (case read_exact SESSION_UPDATE_LEN stream of
        (_, Inl e) \<Rightarrow> []
      | (rest, Inr buf) \<Rightarrow>
          (case SessionUpdate_decode buf of
             Some update \<Rightarrow> su_mtu update # read_session_updates rest
           | None \<Rightarrow> read_session_updates rest))"
  by pat_completeness auto
termination
  by (relation "measure length") (auto simp: read_exact_def SESSION_UPDATE_LEN_def split: if_splits)

declare read_session_updates.simps [simp del]

section \<open>The connection loop\<close>

datatype signal = SIGINT | SIGTERM | SIGHUP

text \<open>
  The calls \<open>run_client\<close> makes to change the system and to undo it, with their results; what they do to the
  system is the subject of \<open>Routes\<close>, \<open>Firewall\<close> and \<open>ClientHost\<close>. The clean-up calls return nothing.
\<close>

datatype client_call =
    ConfigureInterface | GetDefaultGateway | SetupRoutes | SetupDns | KillswitchEnable
  | KillswitchDisable | CleanupDns | CleanupRoutes

datatype phase = Connecting | InTunnel | ConnectBackoff | TunnelBackoff | Exited "anyhow option"

record client_state =
  cl_phase :: phase
  cl_attempt :: u32
  cl_routes_configured :: bool
  cl_saved_routes :: bool
  cl_killswitch_enabled :: bool
  cl_connected :: bool
  cl_listening :: bool
  cl_delays :: "nat list"
  cl_calls :: "(client_call \<times> unit result) list"

definition client_start :: client_state where
  "client_start =
     \<lparr>cl_phase = Connecting, cl_attempt = 0, cl_routes_configured = False, cl_saved_routes = False,
      cl_killswitch_enabled = False, cl_connected = False, cl_listening = True, cl_delays = [],
      cl_calls = []\<rparr>"

text \<open>Results of the system calls made after a successful connect.\<close>

record setup_io =
  si_interface :: "unit result"
  si_gateway :: "unit result"
  si_routes :: "unit result"
  si_dns :: "unit result"
  si_killswitch :: "unit result"

record client_env =
  ce_test_mode :: bool
  ce_loopback :: bool

text \<open>
  The set-up after a connect: an error of a call leaves \<open>run_client\<close> at once by the question mark operator. The flags are
  assigned after the call for DNS and after the one for the kill switch.
\<close>

definition log_call :: "client_call \<Rightarrow> unit result \<Rightarrow> client_state \<Rightarrow> client_state" where
  "log_call c r s = s\<lparr>cl_calls := cl_calls s @ [(c, r)]\<rparr>"

definition set_saved_routes :: "client_state \<Rightarrow> client_state" where
  "set_saved_routes s = s\<lparr>cl_saved_routes := True, cl_routes_configured := True\<rparr>"

definition set_killswitch_enabled :: "client_state \<Rightarrow> client_state" where
  "set_killswitch_enabled s = s\<lparr>cl_killswitch_enabled := True\<rparr>"

definition try_call ::
  "client_call \<Rightarrow> unit result \<Rightarrow> (client_state \<Rightarrow> client_state) \<Rightarrow> (client_state \<Rightarrow> client_state) \<Rightarrow> client_state \<Rightarrow> client_state" where
  "try_call c r assign k s =
     (let s = log_call c r s in case r of Inl e \<Rightarrow> s\<lparr>cl_phase := Exited (Some e)\<rparr> | Inr _ \<Rightarrow> k (assign s))"

definition on_connected :: "client_env \<Rightarrow> setup_io \<Rightarrow> client_state \<Rightarrow> client_state" where
  "on_connected env io s =
     (let s = s\<lparr>cl_attempt := 0, cl_connected := True\<rparr>; enter = (\<lambda>s. s\<lparr>cl_phase := InTunnel\<rparr>) in
      try_call ConfigureInterface (si_interface io) id (\<lambda>s.
        if \<not> ce_test_mode env \<and> \<not> cl_routes_configured s \<and> \<not> ce_loopback env then
          try_call GetDefaultGateway (si_gateway io) id (
          try_call SetupRoutes (si_routes io) id (
          try_call SetupDns (si_dns io) set_saved_routes (
          try_call KillswitchEnable (si_killswitch io) set_killswitch_enabled enter))) s
        else enter s) s)"

text \<open>Leaving the loop by \<open>break\<close>: the clean-up at the end of \<open>run_client\<close>.\<close>

definition finish :: "client_state \<Rightarrow> client_state" where
  "finish s =
     (let s = (if cl_killswitch_enabled s then log_call KillswitchDisable (Ok ()) s else s);
          s = (if cl_saved_routes s then log_call CleanupRoutes (Ok ()) (log_call CleanupDns (Ok ()) s) else s) in
      s\<lparr>cl_phase := Exited None\<rparr>)"

text \<open>A failure of the connect or of the tunnel: count it and wait.\<close>

definition back_off :: "u64 \<Rightarrow> phase \<Rightarrow> client_state \<Rightarrow> client_state" where
  "back_off rnd ph s =
     (let attempt = cl_attempt s + 1 in
      s\<lparr>cl_connected := False, cl_attempt := attempt, cl_delays := cl_delays s @ [reconnect_delay rnd attempt],
        cl_phase := ph\<rparr>)"

datatype client_event =
    Signal signal
  | ConnectOk setup_io
  | ConnectErr u64
  | TunnelEnds tunnel_exit u64
  | SleepDone

text \<open>
  One event. The first signal ends the listening task, which wakes whoever waits for the notification at
  that moment: nobody does while the client backs off after a failed connect, where only Ctrl-C (SIGINT) is awaited.
  An event that the current phase does not wait for changes nothing.
\<close>

definition on_signal :: "signal \<Rightarrow> client_state \<Rightarrow> client_state" where
  "on_signal sg s =
     (let s' = s\<lparr>cl_listening := False\<rparr> in
      case cl_phase s of
        Connecting \<Rightarrow> if cl_listening s then finish s' else s
      | InTunnel \<Rightarrow> if cl_listening s then finish s' else s
      | TunnelBackoff \<Rightarrow> if cl_listening s then finish s' else s
      | ConnectBackoff \<Rightarrow> if sg = SIGINT then finish s' else s'
      | Exited r \<Rightarrow> s)"

fun client_step :: "client_env \<Rightarrow> client_event \<Rightarrow> client_state \<Rightarrow> client_state" where
  "client_step env (Signal sg) s = on_signal sg s"
| "client_step env (ConnectOk io) s = (if cl_phase s = Connecting then on_connected env io s else s)"
| "client_step env (ConnectErr rnd) s = (if cl_phase s = Connecting then back_off rnd ConnectBackoff s else s)"
| "client_step env (TunnelEnds (ExitHealth r) rnd) s =
     (if cl_phase s = InTunnel then s\<lparr>cl_connected := False, cl_attempt := 0, cl_phase := Connecting\<rparr> else s)"
| "client_step env (TunnelEnds (ExitError e) rnd) s =
     (if cl_phase s = InTunnel then back_off rnd TunnelBackoff s else s)"
| "client_step env SleepDone s =
     (if cl_phase s = ConnectBackoff \<or> cl_phase s = TunnelBackoff then s\<lparr>cl_phase := Connecting\<rparr> else s)"

definition client_run :: "client_env \<Rightarrow> client_event list \<Rightarrow> client_state \<Rightarrow> client_state" where
  "client_run env es s = fold (client_step env) es s"

section \<open>Lemmas\<close>

subsection \<open>Invariant of the connection loop\<close>

text \<open>The calls that protect the traffic, all but the configuration of the interface, and the calls that undo them.\<close>

definition protection_calls :: "client_state \<Rightarrow> (client_call \<times> unit result) list" where
  "protection_calls s = filter (\<lambda>(c, r). c \<noteq> ConfigureInterface) (cl_calls s)"

definition setup_calls :: "(client_call \<times> unit result) list" where
  "setup_calls = [(GetDefaultGateway, Ok ()), (SetupRoutes, Ok ()), (SetupDns, Ok ()), (KillswitchEnable, Ok ())]"

definition cleanup_calls :: "(client_call \<times> unit result) list" where
  "cleanup_calls = [(KillswitchDisable, Ok ()), (CleanupDns, Ok ()), (CleanupRoutes, Ok ())]"

text \<open>
  Unless an error ended the program, the protections have all been set up and are recorded, or none has; they have
  in a tunnel that needs them, and a clean exit has undone them. An error is the result of the last call, and
  nothing is undone after it.
\<close>

definition client_invar :: "client_env \<Rightarrow> client_state \<Rightarrow> bool" where
  "client_invar env s \<longleftrightarrow>
     (case cl_phase s of
        Exited None \<Rightarrow> protection_calls s = (if cl_routes_configured s then setup_calls @ cleanup_calls else [])
      | Exited (Some e) \<Rightarrow> (\<exists>c. last (cl_calls s) = (c, Err e)) \<and> prefix (map fst (protection_calls s)) (map fst setup_calls)
      | _ \<Rightarrow>
          cl_saved_routes s = cl_routes_configured s \<and> cl_killswitch_enabled s = cl_routes_configured s
          \<and> protection_calls s = (if cl_routes_configured s then setup_calls else [])
          \<and> (cl_phase s = InTunnel \<and> \<not> ce_test_mode env \<and> \<not> ce_loopback env \<longrightarrow> cl_routes_configured s))
     \<and> (ce_test_mode env \<or> ce_loopback env \<longrightarrow> \<not> cl_routes_configured s \<and> protection_calls s = [])"

lemmas call_defs = log_call_def set_saved_routes_def set_killswitch_enabled_def try_call_def

lemma protection_calls_log [simp]:
  "protection_calls (log_call c r s) = protection_calls s @ (if c = ConfigureInterface then [] else [(c, r)])"
  by (simp add: protection_calls_def log_call_def)

lemma protection_calls_assign [simp]:
  "protection_calls (set_saved_routes s) = protection_calls s" "protection_calls (set_killswitch_enabled s) = protection_calls s"
  "protection_calls (s\<lparr>cl_phase := ph\<rparr>) = protection_calls s" "protection_calls (s\<lparr>cl_listening := l\<rparr>) = protection_calls s"
  "protection_calls (s\<lparr>cl_attempt := a, cl_connected := b\<rparr>) = protection_calls s"
  by (simp_all add: protection_calls_def set_saved_routes_def set_killswitch_enabled_def)

lemma log_call_fields [simp]:
  "cl_phase (log_call c r s) = cl_phase s" "cl_routes_configured (log_call c r s) = cl_routes_configured s"
  "cl_saved_routes (log_call c r s) = cl_saved_routes s" "cl_killswitch_enabled (log_call c r s) = cl_killswitch_enabled s"
  "cl_listening (log_call c r s) = cl_listening s" "last (cl_calls (log_call c r s)) = (c, r)"
  by (simp_all add: log_call_def)

lemma set_fields [simp]:
  "cl_routes_configured (set_saved_routes s)" "cl_saved_routes (set_saved_routes s)"
  "cl_killswitch_enabled (set_saved_routes s) = cl_killswitch_enabled s" "cl_listening (set_saved_routes s) = cl_listening s"
  "cl_routes_configured (set_killswitch_enabled s) = cl_routes_configured s"
  "cl_saved_routes (set_killswitch_enabled s) = cl_saved_routes s" "cl_killswitch_enabled (set_killswitch_enabled s)"
  "cl_listening (set_killswitch_enabled s) = cl_listening s" "cl_calls (set_saved_routes s) = cl_calls s"
  by (simp_all add: set_saved_routes_def set_killswitch_enabled_def)

lemma try_call_simps [simp]:
  "try_call c (Inl e) assign k s = (log_call c (Inl e) s)\<lparr>cl_phase := Exited (Some e)\<rparr>"
  "try_call c (Inr u) assign k s = k (assign (log_call c (Inr u) s))"
  by (simp_all add: try_call_def Let_def)

lemma finish_invar: "client_invar env s \<Longrightarrow> \<forall>r. cl_phase s \<noteq> Exited r \<Longrightarrow> client_invar env (finish s)"
  by (cases "cl_routes_configured s"; cases "cl_phase s") (auto simp: client_invar_def finish_def Let_def cleanup_calls_def)

lemma on_connected_invar:
  assumes "client_invar env s" "cl_phase s = Connecting"
  shows "client_invar env (on_connected env io s)"
proof -
  obtain i g r d k where io: "io = \<lparr>si_interface = i, si_gateway = g, si_routes = r, si_dns = d, si_killswitch = k\<rparr>" by (cases io)
  show ?thesis using assms
    by (cases "cl_routes_configured s"; cases i; cases g; cases r; cases d; cases k)
      (auto simp: client_invar_def on_connected_def io Let_def setup_calls_def)
qed

lemma client_step_invar:
  assumes inv: "client_invar env s"
  shows "client_invar env (client_step env e s)"
proof (cases e)
  case (Signal sg)
  have "client_invar env (s\<lparr>cl_listening := False\<rparr>)" using inv by (cases "cl_phase s") (auto simp: client_invar_def split: option.splits)
  from inv this finish_invar [OF this] show ?thesis
    by (cases "cl_phase s") (simp_all add: Signal on_signal_def Let_def)
next
  case (ConnectOk io)
  then show ?thesis using on_connected_invar [OF inv] inv by simp
next
  case (ConnectErr rnd)
  then show ?thesis using inv by (auto simp: client_invar_def back_off_def Let_def protection_calls_def)
next
  case (TunnelEnds x rnd)
  then show ?thesis using inv by (cases x) (auto simp: client_invar_def back_off_def Let_def protection_calls_def)
next
  case SleepDone
  then show ?thesis using inv by (auto simp: client_invar_def)
qed

lemma client_run_invar: "client_invar env s \<Longrightarrow> client_invar env (client_run env es s)"
  unfolding client_run_def by (induction es arbitrary: s) (simp_all add: client_step_invar)

lemma client_start_invar: "client_invar env client_start"
  by (simp add: client_invar_def client_start_def protection_calls_def)

text \<open>What is configured stays configured while the program runs.\<close>

lemma client_step_keeps:
  assumes on: "cl_routes_configured s"
  shows "cl_routes_configured (client_step env e s)"
proof (cases e)
  case (TunnelEnds x rnd)
  then show ?thesis using on by (cases x) (auto simp: back_off_def Let_def)
qed (use on in \<open>auto simp: on_signal_def finish_def back_off_def on_connected_def try_call_def Let_def split: phase.split sum.split\<close>)

lemma client_run_keeps:
  "cl_routes_configured s \<Longrightarrow> cl_routes_configured (client_run env es s)"
  unfolding client_run_def by (induction es arbitrary: s) (simp_all add: client_step_keeps)

subsection \<open>A deaf client\<close>

text \<open>Once the listening task is gone and set-up succeeds, only SIGINT in a connect back-off stops the client.\<close>

definition setup_fine :: setup_io where
  "setup_fine = \<lparr>si_interface = Ok (), si_gateway = Ok (), si_routes = Ok (), si_dns = Ok (), si_killswitch = Ok ()\<rparr>"

definition harmless :: "client_event \<Rightarrow> bool" where
  "harmless e \<longleftrightarrow> e \<noteq> Signal SIGINT \<and> (\<forall>io. e = ConnectOk io \<longrightarrow> io = setup_fine)"

lemma deaf_step:
  assumes "\<not> cl_listening s" "\<forall>r. cl_phase s \<noteq> Exited r" "harmless e"
  shows "\<not> cl_listening (client_step env e s) \<and> (\<forall>r. cl_phase (client_step env e s) \<noteq> Exited r)"
proof (cases e)
  case (Signal sg)
  with assms show ?thesis by (auto simp: on_signal_def Let_def harmless_def split: phase.split)
next
  case (ConnectOk io)
  with assms show ?thesis
    by (auto simp: harmless_def setup_fine_def on_connected_def Let_def)
next
  case (TunnelEnds x rnd)
  with assms show ?thesis by (cases x) (auto simp: back_off_def Let_def)
qed (use assms in \<open>auto simp: back_off_def Let_def\<close>)

lemma deaf_run:
  "\<not> cl_listening s \<Longrightarrow> \<forall>r. cl_phase s \<noteq> Exited r \<Longrightarrow> list_all harmless es \<Longrightarrow>
   \<forall>r. cl_phase (client_run env es s) \<noteq> Exited r"
  unfolding client_run_def by (induction es arbitrary: s) (simp_all add: deaf_step)

subsection \<open>Back-off and tunnel\<close>

lemma saturating_pow2_cases: "min (1000 * saturating_pow2 n) 30000 \<in> {1000, 2000, 4000, 8000, 16000, 30000}"
proof (cases "n < 5")
  case True
  then have "n \<in> {0, 1, 2, 3, 4}" by auto
  then show ?thesis by (auto simp: saturating_pow2_def)
next
  case False
  then have "(2 :: nat) ^ 5 \<le> 2 ^ n" by (intro power_increasing) auto
  then have "32 \<le> saturating_pow2 n" by (simp add: saturating_pow2_def)
  then show ?thesis by (simp add: min_def)
qed

lemma fifth_trunc_values:
  "fifth_trunc 1000 = 200" "fifth_trunc 2000 = 400" "fifth_trunc 4000 = 800" "fifth_trunc 8000 = 1600"
  "fifth_trunc 16000 = 3200" "fifth_trunc 30000 = 6000"
  using fifth_of by (simp_all add: fifth_trunc_def f64_fifth f64_of_nat_exact f64_mul_def f64_to_u64_def small_finite)

lemma reconnect_delay_near:
  defines "m \<equiv> \<lambda>a. min (1000 * saturating_pow2 (unat a - 1)) 30000"
  shows "5 * reconnect_delay rnd a \<ge> 4 * m a \<and> 5 * reconnect_delay rnd a \<le> 6 * m a"
proof -
  let ?m = "m a"
  have m: "?m \<in> {1000, 2000, 4000, 8000, 16000, 30000}" unfolding m_def by (rule saturating_pow2_cases)
  define j where "j = fifth_trunc ?m"
  have j: "5 * j = ?m" using m fifth_trunc_values by (auto simp: j_def)
  have d: "reconnect_delay rnd a = ?m + unat rnd mod (j * 2 + 1) - j"
    by (simp add: reconnect_delay_def Let_def m_def j_def RECONNECT_MIN_DELAY_def RECONNECT_MAX_DELAY_def)
  have "unat rnd mod (j * 2 + 1) < j * 2 + 1" by (rule mod_less_divisor) simp
  then have "unat rnd mod (j * 2 + 1) \<le> 2 * j" by linarith
  then show ?thesis unfolding d using j by linarith
qed

lemma write_packets_tun:
  "\<forall>p. write_ok p \<Longrightarrow> ct_tun (fold (write_packet write_ok) ps t) = ct_tun t @ filter (\<lambda>p. p \<noteq> []) ps"
  by (induction ps arbitrary: t) (simp_all add: write_packet_def)

lemma receive_step_tun:
  "\<forall>p. write_ok p \<Longrightarrow> data \<noteq> [] \<Longrightarrow>
   ct_tun (receive_step True data write_ok t) = ct_tun t @ filter (\<lambda>p. p \<noteq> []) (unpacked data)"
  by (simp add: receive_step_def Let_def write_packets_tun unpacked_def) (simp add: write_packet_def)

lemma run_tunnel_downloads:
  "\<forall>p. write_ok p \<Longrightarrow> [] \<notin> set ds \<Longrightarrow>
   run_tunnel True (map (\<lambda>d. Received (Inr d) write_ok) ds) t = (fst (run_tunnel True (map (\<lambda>d. Received (Inr d) write_ok) ds) t), None)
   \<and> ct_tun (fst (run_tunnel True (map (\<lambda>d. Received (Inr d) write_ok) ds) t))
      = ct_tun t @ filter (\<lambda>p. p \<noteq> []) (concat (map unpacked ds))"
  by (induction ds arbitrary: t) (auto simp: receive_step_tun)

lemma read_session_updates_stream:
  "read_session_updates (concat (map (\<lambda>m. SessionUpdate_encode \<lparr>su_mtu = m\<rparr>) ms)) = ms"
proof (induction ms)
  case Nil
  then show ?case by (subst read_session_updates.simps) (simp add: read_exact_def SESSION_UPDATE_LEN_def)
next
  case (Cons m ms)
  have len: "length (SessionUpdate_encode \<lparr>su_mtu = m\<rparr>) = SESSION_UPDATE_LEN"
    by (rule session_update_codec.length_encode) simp
  have dec: "SessionUpdate_decode (SessionUpdate_encode \<lparr>su_mtu = m\<rparr>) = Some \<lparr>su_mtu = m\<rparr>"
    by (rule session_update_codec.decode_exact) simp
  show ?case
    by (subst read_session_updates.simps) (simp add: read_exact_def len dec Cons)
qed

section \<open>Properties\<close>

text \<open>
  Claim C14. The calls that protect the traffic are made in order, once, and undone. In every tunnel outside test mode
  and not to a loopback server, gateway, routes, DNS and kill switch have each been set up by one call that
  returned success, and through every reconnection until the program exits no further call is made. When the
  loop is left by a signal, either nothing had been set up, or the kill switch, the DNS settings and the routes
  were cleaned up, in that order and once. When the program ends by an error, it is the result of the last
  call, and nothing that was set up before is undone. In test mode and for a loopback server none of these
  calls is made. What a call does to the host is another matter: on Linux that of the kill switch does nothing.
\<close>

theorem client_protects_and_restores:
  assumes run: "s = client_run env es client_start"
  shows "(cl_phase s = InTunnel \<and> \<not> ce_test_mode env \<and> \<not> ce_loopback env \<longrightarrow>
      (\<forall>es'. (\<forall>r. cl_phase (client_run env es' s) \<noteq> Exited r) \<longrightarrow> protection_calls (client_run env es' s) = setup_calls))
    \<and> (cl_phase s = Exited None \<longrightarrow> protection_calls s = [] \<or> protection_calls s = setup_calls @ cleanup_calls)
    \<and> (\<forall>e. cl_phase s = Exited (Some e) \<longrightarrow>
         (\<exists>c. last (cl_calls s) = (c, Err e)) \<and> prefix (map fst (protection_calls s)) (map fst setup_calls))
    \<and> (ce_test_mode env \<or> ce_loopback env \<longrightarrow> protection_calls s = [])"
proof -
  have inv: "client_invar env s" unfolding run by (rule client_run_invar [OF client_start_invar])
  have "protection_calls (client_run env es' s) = setup_calls"
    if "cl_phase s = InTunnel" "\<not> ce_test_mode env" "\<not> ce_loopback env" "\<forall>r. cl_phase (client_run env es' s) \<noteq> Exited r" for es'
  proof -
    from inv that have "cl_routes_configured s" by (auto simp: client_invar_def)
    then have "cl_routes_configured (client_run env es' s)" by (rule client_run_keeps)
    with client_run_invar [OF inv, of es'] that(4) show ?thesis
      by (cases "cl_phase (client_run env es' s)") (simp_all add: client_invar_def)
  qed
  moreover have "cl_phase s = Exited None \<longrightarrow> protection_calls s = [] \<or> protection_calls s = setup_calls @ cleanup_calls"
    using inv by (auto simp: client_invar_def)
  moreover have "\<forall>e. cl_phase s = Exited (Some e) \<longrightarrow>
      (\<exists>c. last (cl_calls s) = (c, Err e)) \<and> prefix (map fst (protection_calls s)) (map fst setup_calls)"
    using inv by (auto simp: client_invar_def)
  moreover have "ce_test_mode env \<or> ce_loopback env \<longrightarrow> protection_calls s = []" using inv by (simp add: client_invar_def)
  ultimately show ?thesis by blast
qed

theorem client_protects_and_restores_witness:
  "let env = \<lparr>ce_test_mode = False, ce_loopback = False\<rparr>; s = client_run env [ConnectErr 0, SleepDone, ConnectOk setup_fine] client_start in
   cl_phase s = InTunnel \<and> protection_calls (client_run env [TunnelEnds (ExitHealth Degraded) 0] s) = setup_calls
   \<and> cl_phase (client_run env [Signal SIGTERM] s) = Exited None"
proof -
  define env where "env = \<lparr>ce_test_mode = False, ce_loopback = False\<rparr>"
  define s where "s = client_run env [ConnectErr 0, SleepDone, ConnectOk setup_fine] client_start"
  have ph: "cl_phase s = InTunnel" "cl_listening s"
    by (simp_all add: s_def env_def client_run_def client_start_def back_off_def on_connected_def setup_fine_def Let_def)
  have "\<forall>r. cl_phase (client_run env [TunnelEnds (ExitHealth Degraded) 0] s) \<noteq> Exited r"
    using ph by (simp add: client_run_def)
  then have "protection_calls (client_run env [TunnelEnds (ExitHealth Degraded) 0] s) = setup_calls"
    using client_protects_and_restores [OF s_def] ph unfolding env_def by (metis client_env.select_convs)
  moreover have "cl_phase (client_run env [Signal SIGTERM] s) = Exited None"
    using ph by (simp add: client_run_def on_signal_def finish_def Let_def)
  ultimately show ?thesis using ph unfolding env_def s_def Let_def by blast
qed

text \<open>
  An error exit does not clean up: when setting DNS fails after the routes were installed, the
  program returns the error, and the calls it made end there.
\<close>

theorem setup_error_leaves_routes:
  "let s = client_run \<lparr>ce_test_mode = False, ce_loopback = False\<rparr>
             [ConnectOk (setup_fine\<lparr>si_dns := Err (Bail ''dns'')\<rparr>)] client_start in
   cl_phase s = Exited (Some (Bail ''dns''))
   \<and> protection_calls s = [(GetDefaultGateway, Ok ()), (SetupRoutes, Ok ()), (SetupDns, Err (Bail ''dns''))]"
  by (simp add: client_run_def client_start_def on_connected_def setup_fine_def Let_def) (simp add: protection_calls_def)

text \<open>
  A SIGTERM or SIGHUP that arrives while the client backs off after a failed connect is lost, and
  the client is deaf from then on: no later SIGTERM or SIGHUP ends it, whatever connects, fails or sleeps in between.
\<close>

theorem signal_lost_in_backoff:
  assumes "cl_phase s = ConnectBackoff" "sg \<noteq> SIGINT" "list_all harmless es"
  shows "\<forall>r. cl_phase (client_run env (Signal sg # es) s) \<noteq> Exited r"
proof -
  let ?s = "s\<lparr>cl_listening := False\<rparr>"
  have "client_run env (Signal sg # es) s = client_run env es ?s"
    using assms by (simp add: client_run_def on_signal_def Let_def)
  with deaf_run [of ?s es env] assms show ?thesis by simp
qed

theorem signal_lost_in_backoff_witness:
  "cl_phase (client_run \<lparr>ce_test_mode = True, ce_loopback = False\<rparr>
      [Signal SIGTERM, SleepDone, ConnectOk setup_fine, Signal SIGTERM]
      (client_run \<lparr>ce_test_mode = True, ce_loopback = False\<rparr> [ConnectErr 0] client_start)) \<noteq> Exited None"
proof -
  have "cl_phase (client_run \<lparr>ce_test_mode = True, ce_loopback = False\<rparr> [ConnectErr 0] client_start) = ConnectBackoff"
    by (simp add: client_run_def client_start_def back_off_def Let_def)
  from signal_lost_in_backoff [OF this, of SIGTERM "[SleepDone, ConnectOk setup_fine, Signal SIGTERM]"]
  show ?thesis by (simp add: harmless_def)
qed

text \<open>
  The back-off: attempt \<open>n\<close> waits within 20 per cent of \<open>2 ^ (n - 1)\<close> seconds, capped at thirty seconds
  before the jitter, so never less than 0.8 s nor more than 36 s; no attempt number overflows.
\<close>

theorem reconnect_delay_bounds:
  "5 * reconnect_delay rnd attempt \<ge> 4 * min (1000 * 2 ^ (unat attempt - 1)) 30000
   \<and> 5 * reconnect_delay rnd attempt \<le> 6 * min (1000 * 2 ^ (unat attempt - 1)) 30000
   \<and> 800 \<le> reconnect_delay rnd attempt \<and> reconnect_delay rnd attempt \<le> 36000
   \<and> reconnect_delay 12000 6 = 36000"
proof -
  let ?n = "unat attempt - 1"
  have eq: "min (1000 * saturating_pow2 ?n) 30000 = min (1000 * 2 ^ ?n) 30000"
  proof (cases "(2 :: nat) ^ ?n \<le> 2 ^ 32 - 1")
    case False
    then have "(2 :: nat) ^ ?n \<ge> 2 ^ 32" by simp
    then show ?thesis by (simp add: saturating_pow2_def min_def)
  qed (simp add: saturating_pow2_def)
  have "reconnect_delay 12000 6 = 36000"
    by (simp add: reconnect_delay_def Let_def saturating_pow2_def RECONNECT_MIN_DELAY_def RECONNECT_MAX_DELAY_def
        fifth_trunc_values)
  moreover have "min (1000 * 2 ^ ?n) 30000 \<ge> (1000 :: nat)" by simp
  ultimately show ?thesis using reconnect_delay_near [where a = attempt and rnd = rnd] unfolding eq by linarith
qed

fun ends_tunnel :: "tunnel_event \<Rightarrow> tunnel_exit option" where
  "ends_tunnel (Received (Inl e) w) = Some (ExitError (TunnelTransport e))"
| "ends_tunnel (HealthFired r) = Some (ExitHealth r)"
| "ends_tunnel _ = None"

text \<open>
  What ends a tunnel: it ends exactly at the first receive error or health event, with that
  reason. An error of the upload task is not among them: after it the tunnel goes on receiving while
  nothing is sent any more.
\<close>

theorem tunnel_exit_exact:
  "snd (run_tunnel batching es t) = (case find (\<lambda>e. ends_tunnel e \<noteq> None) es of None \<Rightarrow> None | Some e \<Rightarrow> ends_tunnel e)
   \<and> (\<not> ct_upload_alive t \<longrightarrow>
      datagrams_sent (ct_stats (fst (run_tunnel batching es t))) = datagrams_sent (ct_stats t)
      \<and> \<not> ct_upload_alive (fst (run_tunnel batching es t)))"
proof (induction batching es t rule: run_tunnel.induct)
  case (3 batching data write_ok es t)
  have w: "datagrams_sent (ct_stats (write_packet w p t)) = datagrams_sent (ct_stats t)"
    "ct_upload_alive (write_packet w p t) = ct_upload_alive t" for w p t
    by (simp_all add: write_packet_def record_tun_write_def)
  then have "datagrams_sent (ct_stats (fold (write_packet w) ps t)) = datagrams_sent (ct_stats t)"
    "ct_upload_alive (fold (write_packet w) ps t) = ct_upload_alive t" for w ps t
    by (induction ps arbitrary: t) simp_all
  with w have "datagrams_sent (ct_stats (receive_step batching data write_ok t)) = datagrams_sent (ct_stats t)"
    "ct_upload_alive (receive_step batching data write_ok t) = ct_upload_alive t"
    by (simp_all add: receive_step_def Let_def record_recv_def)
  with 3 show ?case by simp
next
  case (2 batching pkt r es t)
  have "\<not> ct_upload_alive t \<Longrightarrow> upload_step pkt r t = t" by (simp add: upload_step_def)
  with 2 show ?case by auto
qed simp_all

theorem tunnel_exit_exact_witness:
  "let t = upload_step [0x45] (Inl (ConnectionLost ''gone'')) client_tunnel_new;
       r = run_tunnel True [Uploaded [0x45] (Inr Sent), Received (Inr [0x45]) (\<lambda>_. True)] t in
   snd r = None \<and> datagrams_sent (ct_stats (fst r)) = 0"
proof -
  let ?t = "upload_step [0x45] (Inl (ConnectionLost ''gone'')) client_tunnel_new"
  have "\<not> ct_upload_alive ?t" "datagrams_sent (ct_stats ?t) = 0"
    by (simp_all add: upload_step_def client_tunnel_new_def record_tun_read_def Stats_new_def)
  then show ?thesis
    using tunnel_exit_exact [of True "[Uploaded [0x45] (Inr Sent), Received (Inr [0x45]) (\<lambda>_. True)]" ?t]
    by (simp add: Let_def)
qed

end
