(* ===== verification/Firewall.thy ===== *)
theory Firewall
  imports Routes "HOL-Library.Multiset"
begin

text \<open>
  Firewall rules: NAT and MSS clamping of \<open>redpill-tun/src/route.rs\<close>, connection-tracking bypass of
  \<open>xdp.rs\<close> and the kill switch of \<open>killswitch.rs\<close>. Commands are run by the argument \<open>ex\<close> as in
  \<^theory_text>\<open>Routes\<close>. The clean-up before MSS clamping deletes a rule until the command fails, which is a loop
  that need not end: it is a partial function, and that it returns is proved from what \<open>iptables -D\<close> does.
\<close>

section \<open>NAT\<close>

definition enable_ip_forwarding_linux :: "(file_system, unit) host" where
  "enable_ip_forwarding_linux fs =
     (case fs_write fs ''/proc/sys/net/ipv4/ip_forward'' ''1'' of
        Inl e \<Rightarrow> (fs, Inl (RouteIo e))
      | Inr fs' \<Rightarrow> (fs', Inr ()))"

definition enable_ip_forwarding_other :: "(file_system, unit) host" where
  "enable_ip_forwarding_other fs = (fs, Inl UnsupportedPlatform)"

text \<open>The word after \<open>handle\<close>, and the deletion of every listed rule a predicate selects.\<close>

definition rule_handle :: "string \<Rightarrow> string option" where
  "rule_handle line = word_after ''handle'' (split_whitespace line)"

definition delete_handle :: "string \<Rightarrow> string \<Rightarrow> string \<Rightarrow> string \<times> string list" where
  "delete_handle table chain h = (''nft'', [''delete'', ''rule'', ''ip'', table, chain, ''handle'', h])"

definition flush_chain :: "'w exec \<Rightarrow> string \<Rightarrow> string \<Rightarrow> (string \<Rightarrow> bool) \<Rightarrow> 'w \<Rightarrow> 'w" where
  "flush_chain ex table chain selected w =
     (case run_cmd_output ex ''nft'' [''-a'', ''list'', ''chain'', ''ip'', table, chain] w of
        (w, Inl _) \<Rightarrow> w
      | (w, Inr output) \<Rightarrow>
          let handles = List.map_filter rule_handle (filter selected (lines output)) in
          try_cmds ex (map (delete_handle table chain) handles) w)"

definition in_quotes :: "string \<Rightarrow> string" where
  "in_quotes s = [CHR 0x22] @ s @ [CHR 0x22]"

definition masquerade_line :: "string \<Rightarrow> string \<Rightarrow> bool" where
  "masquerade_line tun_subnet line \<longleftrightarrow> sublist tun_subnet line \<and> sublist ''masquerade'' line"

definition forward_line :: "string \<Rightarrow> string \<Rightarrow> bool" where
  "forward_line wan_interface line \<longleftrightarrow>
     (sublist (in_quotes ''redpill+'') line \<or> sublist (in_quotes ''redpill*'') line)
     \<and> sublist (in_quotes wan_interface) line \<and> sublist ''accept'' line"

definition flush_nat_rules :: "'w exec \<Rightarrow> string \<Rightarrow> string \<Rightarrow> 'w \<Rightarrow> 'w" where
  "flush_nat_rules ex tun_subnet wan_interface w =
     flush_chain ex ''filter'' ''FORWARD'' (forward_line wan_interface)
       (flush_chain ex ''nat'' ''POSTROUTING'' (masquerade_line tun_subnet) w)"

definition masquerade_args :: "string \<Rightarrow> string \<Rightarrow> string \<Rightarrow> string list" where
  "masquerade_args op tun_subnet wan_interface =
     [''-t'', ''nat'', op, ''POSTROUTING'', ''-s'', tun_subnet, ''-o'', wan_interface, ''-j'', ''MASQUERADE'']"

definition forward_in_args :: "string \<Rightarrow> string \<Rightarrow> string list" where
  "forward_in_args op wan_interface =
     [op, ''FORWARD'', ''-i'', wan_interface, ''-o'', ''redpill+'', ''-m'', ''state'', ''--state'',
      ''RELATED,ESTABLISHED'', ''-j'', ''ACCEPT'']"

definition forward_out_args :: "string \<Rightarrow> string \<Rightarrow> string list" where
  "forward_out_args op wan_interface =
     [op, ''FORWARD'', ''-i'', ''redpill+'', ''-o'', wan_interface, ''-j'', ''ACCEPT'']"

definition setup_nat_linux :: "'w exec \<Rightarrow> string \<Rightarrow> string \<Rightarrow> ('w, unit) host" where
  "setup_nat_linux ex tun_subnet wan_interface w =
     run_cmds ex
       [(''iptables'', masquerade_args ''-A'' tun_subnet wan_interface),
        (''iptables'', forward_in_args ''-A'' wan_interface),
        (''iptables'', forward_out_args ''-A'' wan_interface)]
       (flush_nat_rules ex tun_subnet wan_interface w)"

definition setup_nat_other :: "string \<Rightarrow> string \<Rightarrow> ('w, unit) host" where
  "setup_nat_other tun_subnet wan_interface w = (w, Inl UnsupportedPlatform)"

definition cleanup_nat_linux :: "'w exec \<Rightarrow> string \<Rightarrow> string \<Rightarrow> ('w, unit) host" where
  "cleanup_nat_linux ex tun_subnet wan_interface w =
     (try_cmds ex
       [(''iptables'', masquerade_args ''-D'' tun_subnet wan_interface),
        (''iptables'', forward_in_args ''-D'' wan_interface),
        (''iptables'', forward_out_args ''-D'' wan_interface)]
       (flush_nat_rules ex tun_subnet wan_interface w), Inr ())"

definition cleanup_nat_other :: "string \<Rightarrow> string \<Rightarrow> ('w, unit) host" where
  "cleanup_nat_other tun_subnet wan_interface w = (w, Inr ())"

section \<open>MSS clamping\<close>

text \<open>\<open>(tun_mtu as i32 - 60).max(512)\<close>, with the wrap-around of the cast and the subtraction.\<close>

definition mss_value :: "u32 \<Rightarrow> int" where
  "mss_value tun_mtu = max (sint (tun_mtu - 60)) 512"

definition mss_line :: "string \<Rightarrow> string \<Rightarrow> bool" where
  "mss_line tun_dev line \<longleftrightarrow>
     (sublist (''oifname '' @ in_quotes tun_dev) line \<or> sublist (''iifname '' @ in_quotes tun_dev) line)
     \<and> sublist ''maxseg'' line"

definition flush_mss_rules_nft :: "'w exec \<Rightarrow> string \<Rightarrow> 'w \<Rightarrow> 'w" where
  "flush_mss_rules_nft ex tun_dev w =
     fold (\<lambda>chain. flush_chain ex ''mangle'' chain (mss_line tun_dev)) [''FORWARD'', ''OUTPUT''] w"

definition mss_args :: "string \<Rightarrow> string \<Rightarrow> u32 \<Rightarrow> string \<times> string \<Rightarrow> string list" where
  "mss_args op tun_dev tun_mtu spec =
     [''-t'', ''mangle'', op, snd spec, fst spec, tun_dev, ''-p'', ''tcp'', ''--tcp-flags'', ''SYN,RST'', ''SYN'',
      ''-j'', ''TCPMSS'', ''--set-mss'', show_nat (nat (mss_value tun_mtu))]"

definition mss_specs :: "(string \<times> string) list" where
  "mss_specs = [(''-o'', ''FORWARD''), (''-i'', ''FORWARD''), (''-o'', ''OUTPUT'')]"

text \<open>\<open>loop { if run_cmd(\<dots>).is_err() { break; } }\<close>\<close>

partial_function (option) delete_until_err :: "'w exec \<Rightarrow> string \<Rightarrow> string list \<Rightarrow> 'w \<Rightarrow> 'w option" where
  "delete_until_err ex program args w =
     (case run_cmd ex program args w of
        (w', r) \<Rightarrow> (case r of Inl e \<Rightarrow> Some w' | Inr _ \<Rightarrow> delete_until_err ex program args w'))"

fun delete_all_specs :: "'w exec \<Rightarrow> string \<Rightarrow> u32 \<Rightarrow> (string \<times> string) list \<Rightarrow> 'w \<Rightarrow> 'w option" where
  "delete_all_specs ex tun_dev tun_mtu [] w = Some w"
| "delete_all_specs ex tun_dev tun_mtu (spec # specs) w =
     Option.bind (delete_until_err ex ''iptables'' (mss_args ''-D'' tun_dev tun_mtu spec) w)
       (delete_all_specs ex tun_dev tun_mtu specs)"

definition setup_mss_clamping_linux :: "'w exec \<Rightarrow> string \<Rightarrow> u32 \<Rightarrow> 'w \<Rightarrow> ('w \<times> (route_error + unit)) option" where
  "setup_mss_clamping_linux ex tun_dev tun_mtu w =
     map_option (\<lambda>w. run_cmds ex (map (\<lambda>spec. (''iptables'', mss_args ''-A'' tun_dev tun_mtu spec)) mss_specs)
                  (flush_mss_rules_nft ex tun_dev w))
       (delete_all_specs ex tun_dev tun_mtu mss_specs w)"

definition setup_mss_clamping_other :: "string \<Rightarrow> u32 \<Rightarrow> ('w, unit) host" where
  "setup_mss_clamping_other tun_dev tun_mtu w = (w, Inr ())"

definition cleanup_mss_clamping_linux :: "'w exec \<Rightarrow> string \<Rightarrow> u32 \<Rightarrow> 'w \<Rightarrow> 'w" where
  "cleanup_mss_clamping_linux ex tun_dev tun_mtu w =
     try_cmds ex (map (\<lambda>spec. (''iptables'', mss_args ''-D'' tun_dev tun_mtu spec)) mss_specs)
       (flush_mss_rules_nft ex tun_dev w)"

section \<open>Connection-tracking bypass\<close>

definition notrack_in :: "string \<Rightarrow> string list" where
  "notrack_in op = [''-t'', ''raw'', op, ''PREROUTING'', ''-p'', ''udp'', ''--dport'', ''443'', ''-j'', ''NOTRACK'']"

definition notrack_out :: "string \<Rightarrow> string list" where
  "notrack_out op = [''-t'', ''raw'', op, ''OUTPUT'', ''-p'', ''udp'', ''--sport'', ''443'', ''-j'', ''NOTRACK'']"

text \<open>\<open>for _ in 0..n { if !ok { break; } }\<close> over the status of a command.\<close>

fun repeat_while_ok :: "'w exec \<Rightarrow> string \<Rightarrow> string list \<Rightarrow> nat \<Rightarrow> 'w \<Rightarrow> 'w" where
  "repeat_while_ok ex program args 0 w = w"
| "repeat_while_ok ex program args (Suc n) w =
     (if cmd_ok ex program args w then repeat_while_ok ex program args n (fst (ex program args [] w))
      else fst (ex program args [] w))"

definition cleanup_notrack_iptables :: "'w exec \<Rightarrow> 'w \<Rightarrow> 'w" where
  "cleanup_notrack_iptables ex w =
     repeat_while_ok ex ''iptables'' (notrack_out ''-D'') 10 (repeat_while_ok ex ''iptables'' (notrack_in ''-D'') 10 w)"

definition setup_notrack_iptables :: "'w exec \<Rightarrow> 'w \<Rightarrow> 'w \<times> bool" where
  "setup_notrack_iptables ex w =
     (let w1 = cleanup_notrack_iptables ex w;
          w2 = fst (ex ''iptables'' (notrack_in ''-A'') [] w1);
          w3 = fst (ex ''iptables'' (notrack_out ''-A'') [] w2) in
      (w3, cmd_ok ex ''iptables'' (notrack_in ''-A'') w1 \<and> cmd_ok ex ''iptables'' (notrack_out ''-A'') w2))"

definition attach_bpf_filter :: "'w exec \<Rightarrow> 'w \<Rightarrow> 'w \<times> bool result" where
  "attach_bpf_filter ex w = (case setup_notrack_iptables ex w of (w, ok) \<Rightarrow> (w, Ok ok))"

text \<open>
  Socket tuning: three options are set, whatever the answers. \<open>setopt\<close> is the system call (level, option and
  value), the numbers of the socket level and of the buffer options are the platform's.
\<close>

definition SOL_UDP :: int where "SOL_UDP = 17"
definition UDP_GRO :: int where "UDP_GRO = 104"

definition tune_socket :: "int \<Rightarrow> int \<Rightarrow> int \<Rightarrow> (int \<Rightarrow> int \<Rightarrow> int \<Rightarrow> 'w \<Rightarrow> 'w) \<Rightarrow> 'w \<Rightarrow> 'w \<times> unit result" where
  "tune_socket SOL_SOCKET SO_RCVBUF SO_SNDBUF setopt w =
     (let buf_size = 8 * 1024 * 1024;
          w = setopt SOL_SOCKET SO_RCVBUF buf_size w;
          w = setopt SOL_SOCKET SO_SNDBUF buf_size w;
          w = setopt SOL_UDP UDP_GRO 0 w in
      (w, Ok ()))"

section \<open>Kill switch\<close>

definition pf_rules :: "string \<Rightarrow> string \<Rightarrow> string list \<Rightarrow> string" where
  "pf_rules tun_name server_ip extra_hosts =
     ''pass out quick on '' @ tun_name @ '' all'' @ [newline]
     @ ''pass out quick to '' @ server_ip @ [newline]
     @ ''pass out quick on lo0 all'' @ [newline]
     @ concat (map (\<lambda>host. ''pass out quick to '' @ host @ '' port 443'' @ [newline]) extra_hosts)
     @ ''block drop out all'' @ [newline]"

definition ignore_cmd :: "'w exec \<Rightarrow> string \<Rightarrow> string list \<Rightarrow> 'w \<Rightarrow> 'w" where
  "ignore_cmd ex program args w = fst (ex program args [] w)"

definition enable_with_extras_macos ::
  "'w exec \<Rightarrow> nat \<Rightarrow> string \<Rightarrow> string \<Rightarrow> string list \<Rightarrow> 'w \<times> file_system \<Rightarrow> ('w \<times> file_system) \<times> unit result" where
  "enable_with_extras_macos ex pid tun_name server_ip extra_hosts s =
     (case s of (w, fs) \<Rightarrow>
        let path = ''/tmp/redpill-pf-'' @ show_nat pid @ ''.conf'' in
        (case fs_write fs path (pf_rules tun_name server_ip extra_hosts) of
           Inl e \<Rightarrow> ((w, fs), Err e)
         | Inr fs \<Rightarrow>
             (case ex ''pfctl'' [''-a'', ''com.redpill'', ''-f'', path] [] w of
                (w, Inl e) \<Rightarrow> ((w, fs), Err (IoError e))
              | (w, Inr output) \<Rightarrow>
                  if \<not> out_success output then ((w, fs), Err (Bail ''pfctl load rules failed''))
                  else ((ignore_cmd ex ''pfctl'' [''-E''] w, try_fs (\<lambda>fs. fs_remove fs path) fs), Ok ()))))"

definition enable_macos ::
  "'w exec \<Rightarrow> nat \<Rightarrow> string \<Rightarrow> string \<Rightarrow> u16 \<Rightarrow> 'w \<times> file_system \<Rightarrow> ('w \<times> file_system) \<times> unit result" where
  "enable_macos ex pid tun_name server_ip port = enable_with_extras_macos ex pid tun_name server_ip []"

definition disable_macos :: "'w exec \<Rightarrow> 'w \<Rightarrow> 'w" where
  "disable_macos ex = ignore_cmd ex ''pfctl'' [''-a'', ''com.redpill'', ''-F'', ''all'']"

definition cleanup_stale_macos :: "'w exec \<Rightarrow> 'w \<Rightarrow> 'w" where
  "cleanup_stale_macos ex = ignore_cmd ex ''pfctl'' [''-a'', ''com.redpill'', ''-F'', ''all'']"

definition enable_linux :: "string \<Rightarrow> string \<Rightarrow> u16 \<Rightarrow> 'w \<Rightarrow> 'w \<times> unit result" where
  "enable_linux tun_name server_ip port w = (w, Ok ())"

definition enable_with_extras_linux :: "string \<Rightarrow> string \<Rightarrow> u16 \<Rightarrow> string list \<Rightarrow> 'w \<Rightarrow> 'w \<times> unit result" where
  "enable_with_extras_linux tun_name server_ip port extra_hosts w = (w, Ok ())"

definition disable_linux :: "'w \<Rightarrow> 'w" where "disable_linux w = w"
definition cleanup_stale_linux :: "'w \<Rightarrow> 'w" where "cleanup_stale_linux w = w"

definition ks_name :: "string \<Rightarrow> string" where
  "ks_name sfx = ''name=Redpill VPN Kill Switch - '' @ sfx"

definition ks_block_args :: "string list" where
  "ks_block_args =
     [''advfirewall'', ''firewall'', ''add'', ''rule'', ks_name ''Block All'', ''dir=out'', ''action=block'',
      ''enable=yes'', ''profile=any'']"

definition ks_allow_args :: "string \<Rightarrow> string \<Rightarrow> string list" where
  "ks_allow_args sfx remote =
     [''advfirewall'', ''firewall'', ''add'', ''rule'', ks_name sfx, ''dir=out'', ''action=allow'',
      ''remoteip='' @ remote, ''enable=yes'', ''profile=any'']"

definition ks_delete_args :: "string \<Rightarrow> string list" where
  "ks_delete_args sfx = [''advfirewall'', ''firewall'', ''delete'', ''rule'', ks_name sfx]"

definition ks_suffixes :: "string list" where
  "ks_suffixes = [''Block All'', ''Allow Server'', ''Allow Loopback'']"

definition cleanup_stale_windows :: "'w exec \<Rightarrow> 'w \<Rightarrow> 'w" where
  "cleanup_stale_windows ex w = fold (\<lambda>sfx. ignore_cmd ex ''netsh'' (ks_delete_args sfx)) ks_suffixes w"

text \<open>\<open>let _ = Command::\<dots>.output()?\<close>: only a failure to start the program is an error.\<close>

fun start_cmds :: "'w exec \<Rightarrow> string \<Rightarrow> string list list \<Rightarrow> 'w \<Rightarrow> 'w \<times> unit result" where
  "start_cmds ex program [] w = (w, Ok ())"
| "start_cmds ex program (args # cs) w =
     (case ex program args [] w of
        (w, Inl e) \<Rightarrow> (w, Err (IoError e))
      | (w, Inr _) \<Rightarrow> start_cmds ex program cs w)"

definition enable_with_extras_windows :: "'w exec \<Rightarrow> string \<Rightarrow> string list \<Rightarrow> 'w \<Rightarrow> 'w \<times> unit result" where
  "enable_with_extras_windows ex server_ip extra_hosts w =
     start_cmds ex ''netsh''
       ([ks_block_args, ks_allow_args ''Allow Server'' server_ip, ks_allow_args ''Allow Loopback'' ''127.0.0.0/8'']
        @ map (\<lambda>host. ks_allow_args (''Allow '' @ host) host) extra_hosts)
       (cleanup_stale_windows ex w)"

definition enable_windows :: "'w exec \<Rightarrow> string \<Rightarrow> string \<Rightarrow> u16 \<Rightarrow> 'w \<Rightarrow> 'w \<times> unit result" where
  "enable_windows ex tun_name server_ip port = enable_with_extras_windows ex server_ip []"

definition disable_windows :: "'w exec \<Rightarrow> 'w \<Rightarrow> 'w" where
  "disable_windows ex w =
     ignore_cmd ex ''netsh'' (ks_delete_args ''Allow Loopback'')
       (ignore_cmd ex ''netsh'' (ks_delete_args ''Allow Server'')
         (ignore_cmd ex ''netsh'' (ks_delete_args ''Block All'') w))"

section \<open>Lemmas\<close>

subsection \<open>Listed rules\<close>

text \<open>
  \<open>nft -a list chain\<close> prints a rule on a line of its own, indented, with its handle last; the other lines of
  the listing belong to no rule. Deleting by handle removes the rule with that handle. The rules of the
  chain in a host state are \<open>rs\<close>: the words of a rule and its handle.
\<close>

type_synonym nft_rule = "string list \<times> string"

definition show_rule :: "nft_rule \<Rightarrow> string" where
  "show_rule r = [CHR 0x09, CHR 0x09] @ join_words (fst r @ [''#'', ''handle'', snd r])"

definition rule_ok :: "nft_rule \<Rightarrow> bool" where
  "rule_ok r \<longleftrightarrow> is_word (snd r) \<and> (\<forall>w \<in> set (fst r). is_word w \<and> w \<noteq> ''handle'')"

definition rules_ok :: "nft_rule list \<Rightarrow> bool" where
  "rules_ok rs \<longleftrightarrow> distinct (map snd rs) \<and> (\<forall>r \<in> set rs. rule_ok r)"

definition nft_tool :: "'w exec \<Rightarrow> string \<Rightarrow> string \<Rightarrow> (string \<Rightarrow> bool) \<Rightarrow> ('w \<Rightarrow> nft_rule list) \<Rightarrow> bool" where
  "nft_tool ex table chain selected rs \<longleftrightarrow>
     (\<forall>w. rules_ok (rs w) \<longrightarrow>
        (\<exists>w' out before after. ex ''nft'' [''-a'', ''list'', ''chain'', ''ip'', table, chain] [] w = (w', Inr out)
           \<and> rs w' = rs w \<and> out_success out \<and> lines (out_stdout out) = before @ map show_rule (rs w) @ after
           \<and> (\<forall>l \<in> set (before @ after). \<not> selected l)))
     \<and> (\<forall>w h. rs (fst (ex ''nft'' (snd (delete_handle table chain h)) [] w)) = filter (\<lambda>r. snd r \<noteq> h) (rs w))"

lemma split_whitespace_tab: "split_whitespace (CHR 0x09 # s) = split_whitespace s"
proof -
  have "trim_start (CHR 0x09 # s) = trim_start s"
    using strip_front_whites(1) [of "[CHR 0x09]" s] by (simp add: trim_start_def ascii_white_def code_def)
  then show ?thesis by (subst (1 2) split_whitespace.simps) simp
qed

lemma word_after_append: "k \<notin> set ws \<Longrightarrow> word_after k (ws @ k # v # vs) = Some v"
  by (induction ws) auto

lemma rule_handle_show: "rule_ok r \<Longrightarrow> rule_handle (show_rule r) = Some (snd r)"
proof -
  assume r: "rule_ok r"
  have "is_word ''#''" "is_word ''handle''" by (simp_all add: is_word_def visible_def ascii_white_def code_def)
  with r have words: "split_whitespace (show_rule r) = (fst r @ [''#'']) @ ''handle'' # [snd r]"
    by (simp add: show_rule_def split_whitespace_tab split_whitespace_join rule_ok_def)
  have "''handle'' \<notin> set (fst r @ [''#''])" using r by (auto simp: rule_ok_def)
  from word_after_append [OF this, of "snd r" "[]"] show ?thesis by (simp only: rule_handle_def words)
qed

lemma try_delete_handles:
  assumes "\<forall>w h. rs (fst (ex ''nft'' (snd (delete_handle table chain h)) [] w)) = filter (\<lambda>r. snd r \<noteq> h) (rs w)"
  shows "rs (try_cmds ex (map (delete_handle table chain) hs) w) = filter (\<lambda>r. snd r \<notin> set hs) (rs w)"
proof (induction hs arbitrary: w)
  case (Cons h hs)
  have "rs (try_cmds ex (map (delete_handle table chain) (h # hs)) w)
      = rs (try_cmds ex (map (delete_handle table chain) hs) (fst (ex ''nft'' (snd (delete_handle table chain h)) [] w)))"
    by (simp add: run_cmd_state delete_handle_def)
  with Cons.IH assms show ?case by (auto intro: filter_cong)
qed simp

lemma map_filter_handles: "\<forall>r \<in> set rs. rule_ok r \<Longrightarrow>
  List.map_filter rule_handle (filter selected (map show_rule rs)) = map snd (filter (selected \<circ> show_rule) rs)"
  by (induction rs) (auto simp: rule_handle_show)

text \<open>Flushing deletes exactly the selected rules of the chain and keeps the others in order.\<close>

lemma flush_chain_exact:
  assumes "nft_tool ex table chain selected rs" "rules_ok (rs w)"
  shows "rs (flush_chain ex table chain selected w) = filter (\<lambda>r. \<not> selected (show_rule r)) (rs w)"
proof -
  obtain w' out before after
    where out: "ex ''nft'' [''-a'', ''list'', ''chain'', ''ip'', table, chain] [] w = (w', Inr out)"
      "rs w' = rs w" "out_success out" "lines (out_stdout out) = before @ map show_rule (rs w) @ after"
    and frame: "\<forall>l \<in> set (before @ after). \<not> selected l"
    using assms unfolding nft_tool_def by blast
  have deletes: "\<forall>w h. rs (fst (ex ''nft'' (snd (delete_handle table chain h)) [] w)) = filter (\<lambda>r. snd r \<noteq> h) (rs w)"
    using assms(1) unfolding nft_tool_def by blast
  have ok: "\<forall>r \<in> set (rs w). rule_ok r" "distinct (map snd (rs w))" using assms(2) by (simp_all add: rules_ok_def)
  let ?hs = "map snd (filter (selected \<circ> show_rule) (rs w))"
  have "filter selected before = []" "filter selected after = []" using frame by (simp_all add: filter_empty_conv)
  then have hs: "List.map_filter rule_handle (filter selected (lines (out_stdout out))) = ?hs"
    using map_filter_handles [OF ok(1), of selected] by (simp add: out(4))
  have "rs (flush_chain ex table chain selected w) = filter (\<lambda>r. snd r \<notin> set ?hs) (rs w)"
    using out(1-3) try_delete_handles [of rs ex table chain ?hs w', OF deletes]
    by (simp add: flush_chain_def run_cmd_output_def Let_def hs del: map_map)
  also have "\<dots> = filter (\<lambda>r. \<not> selected (show_rule r)) (rs w)"
    using ok(2) by (intro filter_cong refl) (auto simp: distinct_map inj_on_def)
  finally show ?thesis .
qed

text \<open>Commands on the \<open>FORWARD\<close> chain of the filter table, and the masquerade rule of \<open>iptables\<close>.\<close>

definition forward_cmd :: "string \<Rightarrow> string \<Rightarrow> string list \<Rightarrow> bool" where
  "forward_cmd wan program args \<longleftrightarrow>
     program = ''iptables'' \<and> (\<exists>op \<in> {''-A'', ''-D''}. args = forward_in_args op wan \<or> args = forward_out_args op wan)
     \<or> program = ''nft'' \<and> (args = [''-a'', ''list'', ''chain'', ''ip'', ''filter'', ''FORWARD'']
          \<or> (\<exists>h. args = snd (delete_handle ''filter'' ''FORWARD'' h)))"

definition appends_masquerade :: "'w exec \<Rightarrow> string \<Rightarrow> string \<Rightarrow> ('w \<Rightarrow> nft_rule list) \<Rightarrow> bool" where
  "appends_masquerade ex tun_subnet wan rs \<longleftrightarrow>
     (\<forall>w. cmd_ok ex ''iptables'' (masquerade_args ''-A'' tun_subnet wan) w \<longrightarrow>
        (\<exists>r. rs (fst (ex ''iptables'' (masquerade_args ''-A'' tun_subnet wan) [] w)) = rs w @ [r]
           \<and> masquerade_line tun_subnet (show_rule r) \<and> (rules_ok (rs w) \<longrightarrow> rules_ok (rs w @ [r]))))"

lemma forward_cmdI [simp, intro]:
  "forward_cmd wan ''iptables'' (forward_in_args ''-A'' wan)" "forward_cmd wan ''iptables'' (forward_out_args ''-A'' wan)"
  "forward_cmd wan ''nft'' [''-a'', ''list'', ''chain'', ''ip'', ''filter'', ''FORWARD'']"
  "forward_cmd wan ''nft'' (snd (delete_handle ''filter'' ''FORWARD'' h))"
  by (auto simp: forward_cmd_def)

lemma try_cmds_keep:
  "\<forall>c \<in> set cs. \<forall>w. rs (fst (ex (fst c) (snd c) [] w)) = rs w \<Longrightarrow> rs (try_cmds ex cs w) = rs w"
  by (induction cs arbitrary: w) (auto simp: run_cmd_state)

lemma flush_chain_keep:
  assumes "\<And>w. rs (fst (ex ''nft'' [''-a'', ''list'', ''chain'', ''ip'', table, chain] [] w)) = rs w"
    and "\<And>w h. rs (fst (ex ''nft'' (snd (delete_handle table chain h)) [] w)) = rs w"
  shows "rs (flush_chain ex table chain selected w) = rs w"
proof -
  let ?list = "[''-a'', ''list'', ''chain'', ''ip'', table, chain]"
  obtain w1 r where r: "ex ''nft'' ?list [] w = (w1, r)" by fastforce
  then have w1: "rs w1 = rs w" using assms(1) [of w] by simp
  have "rs (try_cmds ex (map (delete_handle table chain) hs) w') = rs w'" for hs w'
    by (rule try_cmds_keep) (use assms(2) in \<open>auto simp: delete_handle_def\<close>)
  with w1 show ?thesis by (cases r) (simp_all add: flush_chain_def run_cmd_output_def Let_def r)
qed

lemma run_cmds_keep:
  assumes "\<forall>c \<in> set cs. \<forall>w. rs (fst (ex (fst c) (snd c) [] w)) = rs w"
  shows "rs (fst (run_cmds ex cs w)) = rs w"
  using assms
proof (induction cs arbitrary: w)
  case (Cons c cs)
  then show ?case by (cases c) (simp add: run_cmds_Cons run_cmd_state del: run_cmds.simps)
qed (simp add: host_return_def)

lemma rules_ok_filter: "rules_ok rs \<Longrightarrow> rules_ok (filter P rs)"
  by (auto simp: rules_ok_def distinct_map inj_on_def)

lemma setup_nat_rules:
  assumes tool: "nft_tool ex ''nat'' ''POSTROUTING'' (masquerade_line tun_subnet) rs"
    and other: "\<forall>w p args. forward_cmd wan p args \<longrightarrow> rs (fst (ex p args [] w)) = rs w"
    and appends: "appends_masquerade ex tun_subnet wan rs"
    and "rules_ok (rs w)" and run: "setup_nat_linux ex tun_subnet wan w = (w', Inr ())"
  shows "rules_ok (rs w') \<and> (\<exists>r. rs w' = filter (\<lambda>r. \<not> masquerade_line tun_subnet (show_rule r)) (rs w) @ [r]
     \<and> masquerade_line tun_subnet (show_rule r))"
proof -
  let ?sel = "\<lambda>r. masquerade_line tun_subnet (show_rule r)"
  let ?flushed = "flush_nat_rules ex tun_subnet wan w" and ?args = "masquerade_args ''-A'' tun_subnet wan"
  let ?fwd = "[(''iptables'', forward_in_args ''-A'' wan), (''iptables'', forward_out_args ''-A'' wan)]"
  have "rs (flush_chain ex ''filter'' ''FORWARD'' selected w) = rs w" for selected w
    by (rule flush_chain_keep) (use other in auto)
  then have flushed: "rs ?flushed = filter (\<lambda>r. \<not> ?sel r) (rs w)"
    using flush_chain_exact [OF tool assms(4)] by (simp add: flush_nat_rules_def)
  have ok: "cmd_ok ex ''iptables'' ?args ?flushed"
    using run run_cmd_fails [of ex "''iptables''" ?args ?flushed]
    by (auto simp: setup_nat_linux_def run_cmds_Cons simp del: run_cmds.simps split: if_splits)
  then have w': "fst (run_cmds ex ?fwd (fst (ex ''iptables'' ?args [] ?flushed))) = w'"
    using run by (simp only: setup_nat_linux_def run_cmds_Cons [of ex "''iptables''" ?args] if_True fst_conv)
  from appends ok obtain r where r: "rs (fst (ex ''iptables'' ?args [] ?flushed)) = rs ?flushed @ [r]" "?sel r"
    "rules_ok (rs ?flushed) \<longrightarrow> rules_ok (rs ?flushed @ [r])"
    unfolding appends_masquerade_def by blast
  have fine: "rules_ok (rs ?flushed)" using assms(4) unfolding flushed by (rule rules_ok_filter)
  have "\<forall>c \<in> set ?fwd. \<forall>w. rs (fst (ex (fst c) (snd c) [] w)) = rs w" using other by auto
  from run_cmds_keep [of ?fwd rs ex, OF this] have "rs w' = rs ?flushed @ [r]" unfolding w' [symmetric] r(1) [symmetric] .
  with flushed fine r(2,3) show ?thesis by auto
qed

text \<open>
  Setting NAT up is idempotent as documented: however many masquerade rules for the subnet earlier runs
  left, a successful set-up leaves exactly one, and the other rules of the chain stay as they were.
\<close>

theorem nat_masquerade_once:
  assumes tool: "nft_tool ex ''nat'' ''POSTROUTING'' (masquerade_line tun_subnet) rs"
    and other: "\<forall>w p args. forward_cmd wan p args \<longrightarrow> rs (fst (ex p args [] w)) = rs w"
    and appends: "appends_masquerade ex tun_subnet wan rs"
    and "rules_ok (rs w)" and run: "setup_nat_linux ex tun_subnet wan w = (w', Inr ())"
  shows "length (filter (\<lambda>r. masquerade_line tun_subnet (show_rule r)) (rs w')) = 1
     \<and> filter (\<lambda>r. \<not> masquerade_line tun_subnet (show_rule r)) (rs w')
        = filter (\<lambda>r. \<not> masquerade_line tun_subnet (show_rule r)) (rs w)"
  using setup_nat_rules [OF assms] by auto

text \<open>A host that is nothing but the rules of the chain.\<close>

definition sample_rule :: nft_rule where
  "sample_rule = ([''ip'', ''saddr'', ''10.0.1.0/24'', ''oifname'', ''eth0'', ''masquerade''], ''9'')"

definition sample_next :: "nft_rule list \<Rightarrow> nft_rule" where
  "sample_next rs = (fst sample_rule, concat (map snd rs) @ ''9'')"

definition sample_nft :: "nft_rule list exec" where
  "sample_nft program args inp rs =
     (let answer = (\<lambda>rs ok out. (rs, Inr \<lparr>out_success = ok, out_stdout = out, out_stderr = []\<rparr>)) in
      if args = [''-a'', ''list'', ''chain'', ''ip'', ''nat'', ''POSTROUTING''] then
        answer rs True (concat (map (\<lambda>r. show_rule r @ [newline]) rs))
      else if args = snd (delete_handle ''nat'' ''POSTROUTING'' (args ! 6)) then
        answer (filter (\<lambda>r. snd r \<noteq> args ! 6) rs) True []
      else if args = masquerade_args ''-A'' ''10.0.1.0/24'' ''eth0'' then answer (rs @ [sample_next rs]) True []
      else answer rs (args ! 2 \<noteq> ''-D'') [])"

lemma line_text_show: "rule_ok r \<Longrightarrow> line_text (show_rule r)"
proof -
  assume "rule_ok r"
  moreover have "is_word ''#''" "is_word ''handle''" by (simp_all add: is_word_def visible_def ascii_white_def code_def)
  ultimately have "line_text (join_words (fst r @ [''#'', ''handle'', snd r]))"
    by (intro line_text_words) (auto simp: rule_ok_def)
  then show ?thesis by (auto simp: show_rule_def line_text_def newline_def)
qed

lemma sample_nft_tool: "nft_tool sample_nft ''nat'' ''POSTROUTING'' selected id"
proof -
  have "lines (concat (map (\<lambda>r. show_rule r @ [newline]) rs)) = map show_rule rs" if "rules_ok rs" for rs
    using lines_print [of "map show_rule rs"] that line_text_show by (simp add: rules_ok_def comp_def)
  then show ?thesis by (auto simp: nft_tool_def sample_nft_def delete_handle_def Let_def intro!: exI [of _ "[]"])
qed

lemma sample_nft_other: "\<forall>w p args. forward_cmd ''eth0'' p args \<longrightarrow> id (fst (sample_nft p args [] w)) = id w"
  by (auto simp: forward_cmd_def sample_nft_def Let_def forward_in_args_def forward_out_args_def delete_handle_def
      masquerade_args_def)

lemma sublist_join: "w \<in> set ws \<Longrightarrow> sublist w (join_words ws)"
proof (induction ws rule: join_words.induct)
  case (3 u v ws)
  show ?case
  proof (cases "w = u")
    case False
    with 3 obtain ps ss where "join_words (v # ws) = ps @ w @ ss" by (auto simp: sublist_def)
    then have "join_words (u # v # ws) = (u @ '' '' @ ps) @ w @ ss" by simp
    then show ?thesis unfolding sublist_def by blast
  qed (simp add: sublist_append_rightI)
qed simp_all

lemma sublist_show_rule: "x @ w \<in> set (fst r) \<Longrightarrow> sublist w (show_rule r)"
proof -
  assume "x @ w \<in> set (fst r)"
  then obtain ps ss where "join_words (fst r @ [''#'', ''handle'', snd r]) = ps @ (x @ w) @ ss"
    using sublist_join [of "x @ w" "fst r @ [''#'', ''handle'', snd r]"] by (auto simp: sublist_def)
  then have "show_rule r = ([CHR 0x09, CHR 0x09] @ ps @ x) @ w @ ss" by (simp add: show_rule_def)
  then show ?thesis unfolding sublist_def by blast
qed

lemma sample_next_line: "masquerade_line ''10.0.1.0/24'' (show_rule (sample_next rs))"
  using sublist_show_rule [of "[]" "''10.0.1.0/24''" "sample_next rs"] sublist_show_rule [of "[]" "''masquerade''" "sample_next rs"]
  by (simp add: masquerade_line_def sample_rule_def sample_next_def)

lemma sample_next_Nil [simp]: "sample_next [] = sample_rule"
  by (simp add: sample_next_def sample_rule_def)

text \<open>The handle is longer than every other one.\<close>

lemma sample_next_fresh: "rules_ok rs \<Longrightarrow> rules_ok (rs @ [sample_next rs])"
proof -
  assume rs: "rules_ok rs"
  have len: "length (snd r) \<le> length (concat (map snd rs))" if "r \<in> set rs" for r
    using that by (induction rs) auto
  have "concat (map snd rs) @ ''9'' \<noteq> snd r" if "r \<in> set rs" for r
  proof
    assume "concat (map snd rs) @ ''9'' = snd r"
    from arg_cong [OF this, of length] len [OF that] show False by simp
  qed
  moreover have "is_word (concat (map snd rs) @ ''9'')"
    using rs by (auto simp: rules_ok_def rule_ok_def is_word_def visible_def ascii_white_def code_def)
  ultimately show ?thesis using rs
    by (auto simp: rules_ok_def rule_ok_def sample_next_def sample_rule_def is_word_def visible_def ascii_white_def code_def)
qed

lemma sample_nft_appends: "appends_masquerade sample_nft ''10.0.1.0/24'' ''eth0'' id"
  using sample_next_line sample_next_fresh
  by (auto simp: appends_masquerade_def sample_nft_def masquerade_args_def delete_handle_def Let_def)

theorem nat_masquerade_once_witness:
  "\<exists>rs'. setup_nat_linux sample_nft ''10.0.1.0/24'' ''eth0'' [sample_rule] = (rs', Inr ())
     \<and> length (filter (\<lambda>r. masquerade_line ''10.0.1.0/24'' (show_rule r)) rs') = 1"
proof -
  obtain rs' where run: "setup_nat_linux sample_nft ''10.0.1.0/24'' ''eth0'' [sample_rule] = (rs', Inr ())"
    by (auto simp: setup_nat_linux_def host_then_def host_return_def run_cmd_def sample_nft_def Let_def masquerade_args_def
        forward_in_args_def forward_out_args_def delete_handle_def)
  have "rules_ok (id [sample_rule])"
    by (simp add: rules_ok_def rule_ok_def sample_rule_def is_word_def visible_def ascii_white_def code_def)
  from nat_masquerade_once [OF sample_nft_tool sample_nft_other sample_nft_appends this run] run show ?thesis by auto
qed

text \<open>
  The flush selects by substring: a masquerade rule of another network whose text ends like the tunnel's
  subnet, such as \<open>110.0.1.0/24\<close> for \<open>10.0.1.0/24\<close>, is deleted too.
\<close>

theorem nat_flush_hits_other_subnet:
  assumes "nft_tool ex ''nat'' ''POSTROUTING'' (masquerade_line tun_subnet) rs" "rules_ok (rs w)"
    and "r \<in> set (rs w)" "p @ tun_subnet \<in> set (fst r)" "''masquerade'' \<in> set (fst r)"
  shows "r \<notin> set (rs (flush_chain ex ''nat'' ''POSTROUTING'' (masquerade_line tun_subnet) w))"
proof -
  have "masquerade_line tun_subnet (show_rule r)"
    using sublist_show_rule [OF assms(4)] sublist_show_rule [of "[]", simplified, OF assms(5)] by (simp add: masquerade_line_def)
  with flush_chain_exact [OF assms(1,2)] show ?thesis by simp
qed

theorem nat_flush_hits_other_subnet_witness:
  "([''ip'', ''saddr'', ''110.0.1.0/24'', ''masquerade''], ''7'')
     \<notin> set (flush_chain sample_nft ''nat'' ''POSTROUTING'' (masquerade_line ''10.0.1.0/24'')
             [([''ip'', ''saddr'', ''110.0.1.0/24'', ''masquerade''], ''7'')])"
proof -
  let ?r = "([''ip'', ''saddr'', ''110.0.1.0/24'', ''masquerade''], ''7'')"
  have "rules_ok (id [?r])" by (simp add: rules_ok_def rule_ok_def is_word_def visible_def ascii_white_def code_def)
  from nat_flush_hits_other_subnet [where rs = id and p = "''1''" and r = ?r, OF sample_nft_tool this] show ?thesis by simp
qed

subsection \<open>MSS clamping\<close>

text \<open>
  The host as far as clamping is concerned: the rules of the two chains of the mangle table, as \<open>nft\<close> lists
  them (\<open>rs\<close>), and which of them are the clamping rule of a direction with the current size (\<open>clamps\<close>).
  Deleting such a rule by its text with \<open>iptables\<close> succeeds as long as there is one and takes the first away,
  appending adds one at the end; both appear in the listing with the interface and \<open>maxseg\<close>. Commands on one
  chain leave the other alone. Rules of the device with another size, or of other devices, are ordinary
  rules of the chains.
\<close>

definition remove_first :: "('a \<Rightarrow> bool) \<Rightarrow> 'a list \<Rightarrow> 'a list" where
  "remove_first P xs = takeWhile (\<lambda>x. \<not> P x) xs @ tl (dropWhile (\<lambda>x. \<not> P x) xs)"

definition chain_apart :: "'w exec \<Rightarrow> (string \<Rightarrow> 'w \<Rightarrow> nft_rule list) \<Rightarrow> string \<Rightarrow> string \<Rightarrow> bool" where
  "chain_apart ex rs chain other \<longleftrightarrow>
     (\<forall>w. rs other (fst (ex ''nft'' [''-a'', ''list'', ''chain'', ''ip'', ''mangle'', chain] [] w)) = rs other w)
     \<and> (\<forall>w h. rs other (fst (ex ''nft'' (snd (delete_handle ''mangle'' chain h)) [] w)) = rs other w)"

definition mss_deletes ::
  "'w exec \<Rightarrow> string list \<Rightarrow> string \<Rightarrow> (string \<Rightarrow> 'w \<Rightarrow> nft_rule list) \<Rightarrow> (nft_rule \<Rightarrow> bool) \<Rightarrow> bool" where
  "mss_deletes ex args chain rs clamp \<longleftrightarrow>
     (\<forall>w. (cmd_ok ex ''iptables'' args w \<longleftrightarrow> (\<exists>r \<in> set (rs chain w). clamp r))
        \<and> (\<forall>c. rs c (fst (ex ''iptables'' args [] w)) = (if c = chain then remove_first clamp (rs c w) else rs c w)))"

definition mss_appends ::
  "'w exec \<Rightarrow> string list \<Rightarrow> string \<Rightarrow> (string \<Rightarrow> 'w \<Rightarrow> nft_rule list) \<Rightarrow> (nft_rule \<Rightarrow> bool) \<Rightarrow> bool" where
  "mss_appends ex args chain rs clamp \<longleftrightarrow>
     (\<forall>w. cmd_ok ex ''iptables'' args w \<longrightarrow>
        (\<exists>r. clamp r \<and> (rules_ok (rs chain w) \<longrightarrow> rules_ok (rs chain w @ [r]))
           \<and> (\<forall>c. rs c (fst (ex ''iptables'' args [] w)) = (if c = chain then rs c w @ [r] else rs c w))))"

definition mss_tool ::
  "'w exec \<Rightarrow> string \<Rightarrow> u32 \<Rightarrow> (string \<Rightarrow> 'w \<Rightarrow> nft_rule list) \<Rightarrow> (string \<times> string \<Rightarrow> nft_rule \<Rightarrow> bool) \<Rightarrow> bool" where
  "mss_tool ex tun_dev tun_mtu rs clamps \<longleftrightarrow>
     (\<forall>chain \<in> {''FORWARD'', ''OUTPUT''}. nft_tool ex ''mangle'' chain (mss_line tun_dev) (rs chain))
     \<and> chain_apart ex rs ''FORWARD'' ''OUTPUT'' \<and> chain_apart ex rs ''OUTPUT'' ''FORWARD''
     \<and> (\<forall>spec \<in> set mss_specs. (\<forall>r. clamps spec r \<longrightarrow> mss_line tun_dev (show_rule r))
          \<and> mss_deletes ex (mss_args ''-D'' tun_dev tun_mtu spec) (snd spec) rs (clamps spec)
          \<and> mss_appends ex (mss_args ''-A'' tun_dev tun_mtu spec) (snd spec) rs (clamps spec))"

lemma mss_tool_chains:
  assumes "mss_tool ex dev mtu rs clamps"
  shows "nft_tool ex ''mangle'' ''FORWARD'' (mss_line dev) (rs ''FORWARD'')" "nft_tool ex ''mangle'' ''OUTPUT'' (mss_line dev) (rs ''OUTPUT'')"
    "rs ''OUTPUT'' (flush_chain ex ''mangle'' ''FORWARD'' selected w) = rs ''OUTPUT'' w"
    "rs ''FORWARD'' (flush_chain ex ''mangle'' ''OUTPUT'' selected w) = rs ''FORWARD'' w"
proof -
  show "nft_tool ex ''mangle'' ''FORWARD'' (mss_line dev) (rs ''FORWARD'')" "nft_tool ex ''mangle'' ''OUTPUT'' (mss_line dev) (rs ''OUTPUT'')"
    using assms by (simp_all add: mss_tool_def)
  have apart: "chain_apart ex rs ''FORWARD'' ''OUTPUT''" "chain_apart ex rs ''OUTPUT'' ''FORWARD''" using assms by (simp_all add: mss_tool_def)
  show "rs ''OUTPUT'' (flush_chain ex ''mangle'' ''FORWARD'' selected w) = rs ''OUTPUT'' w"
    by (rule flush_chain_keep) (use apart(1) in \<open>simp_all add: chain_apart_def\<close>)
  show "rs ''FORWARD'' (flush_chain ex ''mangle'' ''OUTPUT'' selected w) = rs ''FORWARD'' w"
    by (rule flush_chain_keep) (use apart(2) in \<open>simp_all add: chain_apart_def\<close>)
qed

lemma mss_toolD:
  assumes "mss_tool ex dev mtu rs clamps" "spec \<in> set mss_specs"
  shows "clamps spec r \<Longrightarrow> mss_line dev (show_rule r)"
    and "cmd_ok ex ''iptables'' (mss_args ''-D'' dev mtu spec) w \<longleftrightarrow> (\<exists>r \<in> set (rs (snd spec) w). clamps spec r)"
    and "rs chain (fst (ex ''iptables'' (mss_args ''-D'' dev mtu spec) [] w))
      = (if chain = snd spec then remove_first (clamps spec) (rs chain w) else rs chain w)"
    and "cmd_ok ex ''iptables'' (mss_args ''-A'' dev mtu spec) w \<Longrightarrow>
      \<exists>r. clamps spec r \<and> (\<forall>chain. rs chain (fst (ex ''iptables'' (mss_args ''-A'' dev mtu spec) [] w))
         = (if chain = snd spec then rs chain w @ [r] else rs chain w))"
proof -
  have s: "\<forall>r. clamps spec r \<longrightarrow> mss_line dev (show_rule r)"
    "mss_deletes ex (mss_args ''-D'' dev mtu spec) (snd spec) rs (clamps spec)"
    "mss_appends ex (mss_args ''-A'' dev mtu spec) (snd spec) rs (clamps spec)"
    using assms unfolding mss_tool_def by blast+
  from s(1) show "clamps spec r \<Longrightarrow> mss_line dev (show_rule r)" by blast
  from s(2) show "cmd_ok ex ''iptables'' (mss_args ''-D'' dev mtu spec) w \<longleftrightarrow> (\<exists>r \<in> set (rs (snd spec) w). clamps spec r)"
    "rs chain (fst (ex ''iptables'' (mss_args ''-D'' dev mtu spec) [] w))
      = (if chain = snd spec then remove_first (clamps spec) (rs chain w) else rs chain w)"
    unfolding mss_deletes_def by blast+
  from s(3) show "cmd_ok ex ''iptables'' (mss_args ''-A'' dev mtu spec) w \<Longrightarrow>
      \<exists>r. clamps spec r \<and> (\<forall>chain. rs chain (fst (ex ''iptables'' (mss_args ''-A'' dev mtu spec) [] w))
         = (if chain = snd spec then rs chain w @ [r] else rs chain w))"
    unfolding mss_appends_def by blast
qed

lemma filter_remove_first: "(\<And>x. P x \<Longrightarrow> \<not> Q x) \<Longrightarrow> filter Q (remove_first P xs) = filter Q xs"
  by (induction xs) (auto simp: remove_first_def)

lemma length_remove_first: "\<exists>x \<in> set xs. P x \<Longrightarrow> length (remove_first P xs) < length xs"
  by (induction xs) (auto simp: remove_first_def)

lemma rules_ok_remove_first: "rules_ok rs \<Longrightarrow> rules_ok (remove_first P rs)"
proof -
  assume ok: "rules_ok rs"
  have "subseq (remove_first P rs) rs" by (induction rs) (auto simp: remove_first_def)
  then obtain N where "remove_first P rs = nths rs N" by (auto simp: subseq_conv_nths)
  with ok show ?thesis by (simp add: rules_ok_def nths_map [symmetric] distinct_nthsI) (meson in_set_nthsD)
qed

text \<open>What clamping must not touch: the listed rules that are not clamping rules of the device.\<close>

definition mss_others :: "string \<Rightarrow> nft_rule list \<Rightarrow> nft_rule list" where
  "mss_others tun_dev rs = filter (\<lambda>r. \<not> mss_line tun_dev (show_rule r)) rs"

definition mss_kept :: "string \<Rightarrow> (string \<Rightarrow> 'w \<Rightarrow> nft_rule list) \<Rightarrow> 'w \<Rightarrow> 'w \<Rightarrow> bool" where
  "mss_kept dev rs w w' \<longleftrightarrow>
     (\<forall>chain. mss_others dev (rs chain w') = mss_others dev (rs chain w) \<and> (rules_ok (rs chain w) \<longrightarrow> rules_ok (rs chain w')))"

lemma mss_kept_refl: "mss_kept dev rs w w" and mss_kept_trans: "mss_kept dev rs w w1 \<Longrightarrow> mss_kept dev rs w1 w2 \<Longrightarrow> mss_kept dev rs w w2"
  by (simp_all add: mss_kept_def)

lemma mss_delete_kept:
  assumes "mss_tool ex dev mtu rs clamps" "spec \<in> set mss_specs"
  shows "mss_kept dev rs w (fst (ex ''iptables'' (mss_args ''-D'' dev mtu spec) [] w))"
proof -
  have "filter (\<lambda>r. \<not> mss_line dev (show_rule r)) (remove_first (clamps spec) xs) = filter (\<lambda>r. \<not> mss_line dev (show_rule r)) xs" for xs
    by (rule filter_remove_first) (simp add: mss_toolD(1) [OF assms])
  then show ?thesis by (simp add: mss_kept_def mss_others_def mss_toolD(3) [OF assms] rules_ok_remove_first)
qed

lemma delete_until_err_eq:
  "delete_until_err ex p args w =
     (if cmd_ok ex p args w then delete_until_err ex p args (fst (ex p args [] w)) else Some (fst (ex p args [] w)))"
  by (subst delete_until_err.simps) (auto simp: run_cmd_def cmd_ok_def split: prod.splits sum.splits)

lemma delete_until_err_returns:
  assumes "mss_tool ex dev mtu rs clamps" "spec \<in> set mss_specs"
  shows "\<exists>w'. delete_until_err ex ''iptables'' (mss_args ''-D'' dev mtu spec) w = Some w' \<and> mss_kept dev rs w w'"
proof (induction "length (rs (snd spec) w)" arbitrary: w rule: less_induct)
  case less
  let ?args = "mss_args ''-D'' dev mtu spec"
  note kept = mss_delete_kept [OF assms, of w]
  show ?case
  proof (cases "cmd_ok ex ''iptables'' ?args w")
    case True
    then have "length (rs (snd spec) (fst (ex ''iptables'' ?args [] w))) < length (rs (snd spec) w)"
      by (simp add: mss_toolD(2,3) [OF assms] length_remove_first)
    from less [OF this] kept True show ?thesis by (subst delete_until_err_eq) (auto intro: mss_kept_trans)
  qed (use kept in \<open>subst delete_until_err_eq, simp\<close>)
qed

lemma delete_all_specs_returns:
  assumes "mss_tool ex dev mtu rs clamps" "set specs \<subseteq> set mss_specs"
  shows "\<exists>w'. delete_all_specs ex dev mtu specs w = Some w' \<and> mss_kept dev rs w w'"
  using assms(2)
proof (induction specs arbitrary: w)
  case (Cons spec specs)
  then obtain w1 where w1: "delete_until_err ex ''iptables'' (mss_args ''-D'' dev mtu spec) w = Some w1" "mss_kept dev rs w w1"
    using delete_until_err_returns [OF assms(1), of spec w] by auto
  from Cons obtain w2 where "delete_all_specs ex dev mtu specs w1 = Some w2" "mss_kept dev rs w1 w2" by auto
  with w1 mss_kept_trans show ?case by fastforce
qed (simp add: mss_kept_refl)

text \<open>The flush leaves exactly the other rules of both chains.\<close>

lemma flush_mss_exact:
  assumes tool: "mss_tool ex dev mtu rs clamps" and ok: "rules_ok (rs ''FORWARD'' w)" "rules_ok (rs ''OUTPUT'' w)"
  shows "rs ''FORWARD'' (flush_mss_rules_nft ex dev w) = mss_others dev (rs ''FORWARD'' w)"
    "rs ''OUTPUT'' (flush_mss_rules_nft ex dev w) = mss_others dev (rs ''OUTPUT'' w)"
proof -
  let ?w = "flush_chain ex ''mangle'' ''FORWARD'' (mss_line dev) w"
  note both = flush_mss_rules_nft_def [of ex dev w, simplified]
  have out: "rs ''OUTPUT'' ?w = rs ''OUTPUT'' w" by (rule mss_tool_chains(3) [OF tool])
  have "rs ''OUTPUT'' (flush_chain ex ''mangle'' ''OUTPUT'' (mss_line dev) ?w) = mss_others dev (rs ''OUTPUT'' ?w)"
    unfolding mss_others_def by (rule flush_chain_exact [where rs = "rs ''OUTPUT''"]) (simp_all only: mss_tool_chains(2) [OF tool] out ok(2))
  then show "rs ''OUTPUT'' (flush_mss_rules_nft ex dev w) = mss_others dev (rs ''OUTPUT'' w)" by (simp only: both out)
  have "rs ''FORWARD'' ?w = mss_others dev (rs ''FORWARD'' w)"
    unfolding mss_others_def by (rule flush_chain_exact [where rs = "rs ''FORWARD''"]) (simp_all only: mss_tool_chains(1) [OF tool] ok(1))
  then show "rs ''FORWARD'' (flush_mss_rules_nft ex dev w) = mss_others dev (rs ''FORWARD'' w)"
    by (simp only: both mss_tool_chains(4) [OF tool])
qed

text \<open>Appending the rules of a list of directions, in order, each to its chain.\<close>

lemma append_specs:
  assumes "mss_tool ex dev mtu rs clamps" "set specs \<subseteq> set mss_specs"
    and "run_cmds ex (map (\<lambda>spec. (''iptables'', mss_args ''-A'' dev mtu spec)) specs) w = (w', Inr ())"
  shows "\<exists>new. list_all2 clamps specs new
     \<and> (\<forall>chain. rs chain w' = rs chain w @ map snd (filter (\<lambda>(spec, r). snd spec = chain) (zip specs new)))"
  using assms(2-)
proof (induction specs arbitrary: w)
  case Nil
  then show ?case by (simp add: host_return_def)
next
  case (Cons spec specs)
  let ?args = "mss_args ''-A'' dev mtu spec"
  from Cons.prems(2) have ok: "cmd_ok ex ''iptables'' ?args w"
    using run_cmd_fails [of ex "''iptables''" ?args w]
    by (auto simp: run_cmds_Cons simp del: run_cmds.simps split: if_splits)
  with Cons.prems obtain r where r: "clamps spec r" "\<forall>chain. rs chain (fst (ex ''iptables'' ?args [] w))
      = (if chain = snd spec then rs chain w @ [r] else rs chain w)" using mss_toolD(4) [OF assms(1), of spec w] by auto
  from Cons.prems ok Cons.IH [of "fst (ex ''iptables'' ?args [] w)"] obtain new where "list_all2 clamps specs new"
    "\<forall>chain. rs chain w' = rs chain (fst (ex ''iptables'' ?args [] w)) @ map snd (filter (\<lambda>(spec, r). snd spec = chain) (zip specs new))"
    by (auto simp: run_cmds_Cons simp del: run_cmds.simps)
  with r show ?case by (intro exI [of _ "r # new"]) auto
qed

text \<open>
  Claim C20. Setting MSS clamping up returns, whatever clamping rules earlier runs left, although it deletes
  rules until the command fails. When it succeeds, the two chains hold the rules they held before that are not
  clamping rules of the device, in their order, and after them the new rule of each direction once: copies with
  the same size and stale rules with another size are gone.
\<close>

theorem mss_clamping_once:
  assumes tool: "mss_tool ex tun_dev tun_mtu rs clamps" and ok: "rules_ok (rs ''FORWARD'' w)" "rules_ok (rs ''OUTPUT'' w)"
  shows "\<exists>w' r. setup_mss_clamping_linux ex tun_dev tun_mtu w = Some (w', r)
     \<and> (r = Inr () \<longrightarrow>
         (\<exists>out inn own. clamps (''-o'', ''FORWARD'') out \<and> clamps (''-i'', ''FORWARD'') inn \<and> clamps (''-o'', ''OUTPUT'') own
            \<and> rs ''FORWARD'' w' = filter (\<lambda>r. \<not> mss_line tun_dev (show_rule r)) (rs ''FORWARD'' w) @ [out, inn]
            \<and> rs ''OUTPUT'' w' = filter (\<lambda>r. \<not> mss_line tun_dev (show_rule r)) (rs ''OUTPUT'' w) @ [own]))"
proof -
  obtain w1 where w1: "delete_all_specs ex tun_dev tun_mtu mss_specs w = Some w1" "mss_kept tun_dev rs w w1"
    using delete_all_specs_returns [OF tool subset_refl, of w] by auto
  let ?w = "flush_mss_rules_nft ex tun_dev w1"
  from w1(2) ok have ok1: "rules_ok (rs ''FORWARD'' w1)" "rules_ok (rs ''OUTPUT'' w1)" by (simp_all add: mss_kept_def)
  have "mss_others tun_dev (rs chain w1) = mss_others tun_dev (rs chain w)" for chain using w1(2) by (simp add: mss_kept_def)
  then have flushed: "rs ''FORWARD'' ?w = mss_others tun_dev (rs ''FORWARD'' w)" "rs ''OUTPUT'' ?w = mss_others tun_dev (rs ''OUTPUT'' w)"
    using flush_mss_exact [where rs = rs and w = w1, OF tool ok1(1) ok1(2)] by (simp_all only:)
  obtain w2 r where r: "run_cmds ex (map (\<lambda>spec. (''iptables'', mss_args ''-A'' tun_dev tun_mtu spec)) mss_specs) ?w = (w2, r)" by fastforce
  then have set_up: "setup_mss_clamping_linux ex tun_dev tun_mtu w = Some (w2, r)"
    by (simp add: setup_mss_clamping_linux_def w1(1))
  have "\<exists>out inn own. clamps (''-o'', ''FORWARD'') out \<and> clamps (''-i'', ''FORWARD'') inn \<and> clamps (''-o'', ''OUTPUT'') own
      \<and> rs ''FORWARD'' w2 = filter (\<lambda>r. \<not> mss_line tun_dev (show_rule r)) (rs ''FORWARD'' w) @ [out, inn]
      \<and> rs ''OUTPUT'' w2 = filter (\<lambda>r. \<not> mss_line tun_dev (show_rule r)) (rs ''OUTPUT'' w) @ [own]" if "r = Inr ()"
  proof -
    from append_specs [OF tool subset_refl r [unfolded that]] obtain new where new: "list_all2 clamps mss_specs new"
      "\<forall>chain. rs chain w2 = rs chain ?w @ map snd (filter (\<lambda>(spec, r). snd spec = chain) (zip mss_specs new))" by blast
    from new(1) obtain out inn own where n: "new = [out, inn, own]" and c: "clamps (''-o'', ''FORWARD'') out"
      "clamps (''-i'', ''FORWARD'') inn" "clamps (''-o'', ''OUTPUT'') own"
      by (auto simp: mss_specs_def list_all2_Cons1)
    with new(2) flushed show ?thesis
      by (intro exI [of _ out] exI [of _ inn] exI [of _ own]) (simp add: mss_specs_def mss_others_def)
  qed
  with set_up show ?thesis by (intro exI [of _ w2] exI [of _ r] conjI impI)
qed

text \<open>A host that is nothing but the two chains, for the device \<open>redpill0\<close> and an MTU of 1200.\<close>

definition sample_words :: "string \<times> string \<Rightarrow> string list" where
  "sample_words spec = [if fst spec = ''-o'' then ''oifname'' else ''iifname'', in_quotes ''redpill0'', ''tcp'', ''option'',
     ''maxseg'', ''size'', ''set'', ''1140'']"

definition sample_clamps :: "string \<times> string \<Rightarrow> nft_rule \<Rightarrow> bool" where
  "sample_clamps spec r \<longleftrightarrow> fst r = sample_words spec"

definition sample_mangle :: "(string \<Rightarrow> nft_rule list) exec" where
  "sample_mangle program args inp rs =
     (let answer = (\<lambda>rs ok out. (rs, Inr \<lparr>out_success = ok, out_stdout = out, out_stderr = []\<rparr>));
          spec = (args ! 4, args ! 3); chain = args ! 3 in
      if args ! 0 = ''-a'' then answer rs True (concat (map (\<lambda>r. show_rule r @ [newline]) (rs (args ! 5))))
      else if args ! 0 = ''delete'' then answer (rs(args ! 4 := filter (\<lambda>r. snd r \<noteq> args ! 6) (rs (args ! 4)))) True []
      else if args ! 2 = ''-D'' then
        answer (rs(chain := remove_first (sample_clamps spec) (rs chain))) (\<exists>r \<in> set (rs chain). sample_clamps spec r) []
      else answer (rs(chain := rs chain @ [(sample_words spec, concat (map snd (rs chain)) @ ''9'')])) True [])"

lemma sample_clamps_line: "sample_clamps spec r \<Longrightarrow> mss_line ''redpill0'' (show_rule r)"
proof -
  assume "sample_clamps spec r"
  then have r: "fst r = sample_words spec" by (simp add: sample_clamps_def)
  have "show_rule r = ([CHR 0x09, CHR 0x09]) @ (fst r ! 0 @ '' '' @ in_quotes ''redpill0'') @ '' tcp option maxseg size set 1140 # handle '' @ snd r"
    by (simp add: show_rule_def r sample_words_def in_quotes_def)
  then have "sublist (fst r ! 0 @ '' '' @ in_quotes ''redpill0'') (show_rule r)" unfolding sublist_def by blast
  moreover have "sublist ''maxseg'' (show_rule r)" by (rule sublist_show_rule [of "[]"]) (simp add: r sample_words_def)
  ultimately show ?thesis by (auto simp: mss_line_def r sample_words_def split: if_splits)
qed

text \<open>A handle longer than all others is fresh.\<close>

lemma longer_handle_fresh:
  assumes ok: "rules_ok rs" and ws: "\<forall>w \<in> set ws. is_word w \<and> w \<noteq> ''handle''"
  shows "rules_ok (rs @ [(ws, concat (map snd rs) @ ''9'')])"
proof -
  have len: "length (snd r) \<le> length (concat (map snd rs))" if "r \<in> set rs" for r using that by (induction rs) auto
  have "concat (map snd rs) @ ''9'' \<noteq> snd r" if "r \<in> set rs" for r
  proof
    assume "concat (map snd rs) @ ''9'' = snd r"
    from arg_cong [OF this, of length] len [OF that] show False by simp
  qed
  moreover have "is_word (concat (map snd rs) @ ''9'')"
    using ok by (auto simp: rules_ok_def rule_ok_def is_word_def visible_def ascii_white_def code_def)
  ultimately show ?thesis using ok ws by (auto simp: rules_ok_def rule_ok_def)
qed

lemma sample_mangle_nft: "nft_tool sample_mangle ''mangle'' chain selected (\<lambda>h. h chain)"
proof -
  have "lines (concat (map (\<lambda>r. show_rule r @ [newline]) rs)) = map show_rule rs" if "rules_ok rs" for rs
    using lines_print [of "map show_rule rs"] that line_text_show by (simp add: rules_ok_def comp_def)
  then show ?thesis by (auto simp: nft_tool_def sample_mangle_def delete_handle_def Let_def intro!: exI [of _ "[]"])
qed

lemma sample_mangle_tool: "mss_tool sample_mangle ''redpill0'' 1200 (\<lambda>chain h. h chain) sample_clamps"
proof -
  let ?rs = "\<lambda>chain (h :: string \<Rightarrow> nft_rule list). h chain"
  have words: "\<forall>w \<in> set (sample_words spec). is_word w \<and> w \<noteq> ''handle''" for spec
    by (simp add: sample_words_def is_word_def visible_def ascii_white_def code_def in_quotes_def)
  have d: "sample_mangle ''iptables'' (mss_args ''-D'' ''redpill0'' 1200 spec) [] h
      = (h(snd spec := remove_first (sample_clamps spec) (h (snd spec))),
         Inr \<lparr>out_success = \<exists>r \<in> set (h (snd spec)). sample_clamps spec r, out_stdout = [], out_stderr = []\<rparr>)" for h spec
    by (simp add: sample_mangle_def mss_args_def Let_def)
  have a: "sample_mangle ''iptables'' (mss_args ''-A'' ''redpill0'' 1200 spec) [] h
      = (h(snd spec := h (snd spec) @ [(sample_words spec, concat (map snd (h (snd spec))) @ ''9'')]),
         Inr \<lparr>out_success = True, out_stdout = [], out_stderr = []\<rparr>)" for h spec
    by (simp add: sample_mangle_def mss_args_def Let_def)
  have "mss_deletes sample_mangle (mss_args ''-D'' ''redpill0'' 1200 spec) (snd spec) ?rs (sample_clamps spec)" for spec
    by (simp add: mss_deletes_def cmd_ok_def d)
  moreover have "mss_appends sample_mangle (mss_args ''-A'' ''redpill0'' 1200 spec) (snd spec) ?rs (sample_clamps spec)" for spec
    unfolding mss_appends_def a fst_conv
  proof (intro allI impI)
    fix h
    show "\<exists>r. sample_clamps spec r \<and> (rules_ok (h (snd spec)) \<longrightarrow> rules_ok (h (snd spec) @ [r]))
        \<and> (\<forall>c. (h(snd spec := h (snd spec) @ [(sample_words spec, concat (map snd (h (snd spec))) @ ''9'')])) c
              = (if c = snd spec then h c @ [r] else h c))"
      using longer_handle_fresh [OF _ words]
      by (intro exI [of _ "(sample_words spec, concat (map snd (h (snd spec))) @ ''9'')"]) (simp add: sample_clamps_def)
  qed
  moreover have "chain_apart sample_mangle ?rs c c'" if "c' \<noteq> c" for c c'
    using that by (simp add: chain_apart_def sample_mangle_def delete_handle_def Let_def)
  ultimately show ?thesis unfolding mss_tool_def using sample_clamps_line sample_mangle_nft by simp
qed

text \<open>A stale rule with another size, a copy of the current one, and a rule of another device.\<close>

definition sample_chains :: "string \<Rightarrow> nft_rule list" where
  "sample_chains chain =
     (if chain = ''FORWARD'' then
        [([''oifname'', in_quotes ''redpill0'', ''maxseg'', ''1340''], ''4''), (sample_words (''-o'', chain), ''5''),
         ([''oifname'', in_quotes ''eth0'', ''accept''], ''6'')]
      else [])"

theorem mss_clamping_once_witness:
  "\<exists>h out inn. setup_mss_clamping_linux sample_mangle ''redpill0'' 1200 sample_chains = Some (h, Inr ())
     \<and> h ''FORWARD'' = [([''oifname'', in_quotes ''eth0'', ''accept''], ''6''), out, inn] \<and> length (h ''OUTPUT'') = 1"
proof -
  have ok: "rules_ok (sample_chains ''FORWARD'')" "rules_ok (sample_chains ''OUTPUT'')"
    by (simp_all add: sample_chains_def sample_words_def rules_ok_def rule_ok_def is_word_def visible_def ascii_white_def code_def in_quotes_def)
  from mss_clamping_once [where rs = "\<lambda>chain h. h chain", OF sample_mangle_tool ok] obtain h r
    where h: "setup_mss_clamping_linux sample_mangle ''redpill0'' 1200 sample_chains = Some (h, r)"
      and chains: "r = Inr () \<longrightarrow> (\<exists>out inn own. h ''FORWARD'' = filter (\<lambda>r. \<not> mss_line ''redpill0'' (show_rule r)) (sample_chains ''FORWARD'') @ [out, inn]
        \<and> h ''OUTPUT'' = filter (\<lambda>r. \<not> mss_line ''redpill0'' (show_rule r)) (sample_chains ''OUTPUT'') @ [own])" by blast
  have "snd (run_cmds sample_mangle (map (\<lambda>spec. (''iptables'', mss_args ''-A'' ''redpill0'' 1200 spec)) mss_specs) w) = Inr ()" for w
    by (simp add: mss_specs_def host_then_def host_return_def run_cmd_def sample_mangle_def mss_args_def Let_def)
  with h have "r = Inr ()" by (auto simp: setup_mss_clamping_linux_def) (metis snd_conv)
  moreover have "filter (\<lambda>r. \<not> mss_line ''redpill0'' (show_rule r)) (sample_chains ''FORWARD'')
      = [([''oifname'', in_quotes ''eth0'', ''accept''], ''6'')]" by code_simp
  ultimately show ?thesis using h chains by (auto simp: sample_chains_def)
qed

subsection \<open>Connection-tracking bypass\<close>

text \<open>\<open>iptables\<close> on one rule of the raw table, of which \<open>c\<close> copies are installed.\<close>

definition counts_rule :: "'w exec \<Rightarrow> (string \<Rightarrow> string list) \<Rightarrow> ('w \<Rightarrow> nat) \<Rightarrow> bool" where
  "counts_rule ex args c \<longleftrightarrow>
     (\<forall>w. (cmd_ok ex ''iptables'' (args ''-D'') w \<longleftrightarrow> 0 < c w)
        \<and> c (fst (ex ''iptables'' (args ''-D'') [] w)) = c w - 1
        \<and> (cmd_ok ex ''iptables'' (args ''-A'') w \<longrightarrow> c (fst (ex ''iptables'' (args ''-A'') [] w)) = c w + 1))"

definition unaffected :: "'w exec \<Rightarrow> (string \<Rightarrow> string list) \<Rightarrow> ('w \<Rightarrow> nat) \<Rightarrow> bool" where
  "unaffected ex args c \<longleftrightarrow> (\<forall>w op. c (fst (ex ''iptables'' (args op) [] w)) = c w)"

lemma repeat_while_ok_counts:
  "counts_rule ex args c \<Longrightarrow> c (repeat_while_ok ex ''iptables'' (args ''-D'') n w) = c w - n"
  by (induction n arbitrary: w) (auto simp: counts_rule_def)

lemma repeat_while_ok_unaffected:
  "unaffected ex args c \<Longrightarrow> c (repeat_while_ok ex ''iptables'' (args op) n w) = c w"
  by (induction n arbitrary: w) (auto simp: unaffected_def)

text \<open>
  The clean-up of the connection-tracking rules takes away up to ten copies of each and no more, so the
  documented clean-up of all of them holds up to ten; a successful set-up leaves one copy more than that.
\<close>

theorem notrack_counts:
  assumes "counts_rule ex notrack_in ci" "counts_rule ex notrack_out co"
    and "unaffected ex notrack_out ci" "unaffected ex notrack_in co"
  shows "ci (cleanup_notrack_iptables ex w) = ci w - 10 \<and> co (cleanup_notrack_iptables ex w) = co w - 10
     \<and> (setup_notrack_iptables ex w = (w', True) \<longrightarrow> ci w' = ci w - 10 + 1 \<and> co w' = co w - 10 + 1)"
proof -
  have clean: "ci (cleanup_notrack_iptables ex w) = ci w - 10" "co (cleanup_notrack_iptables ex w) = co w - 10"
    using assms by (simp_all add: cleanup_notrack_iptables_def repeat_while_ok_counts repeat_while_ok_unaffected)
  then show ?thesis
    using assms by (auto simp: setup_notrack_iptables_def Let_def counts_rule_def unaffected_def)
qed

definition sample_raw :: "(nat \<times> nat) exec" where
  "sample_raw program args inp c =
     (let ok = (\<lambda>c b. (c, Inr \<lparr>out_success = b, out_stdout = [], out_stderr = []\<rparr>)); add = (args ! 2 = ''-A'') in
      if args ! 3 = ''PREROUTING'' then ok (if add then fst c + 1 else fst c - 1, snd c) (add \<or> 0 < fst c)
      else ok (fst c, if add then snd c + 1 else snd c - 1) (add \<or> 0 < snd c))"

theorem notrack_counts_witness: "fst (cleanup_notrack_iptables sample_raw (12, 3)) = 2 \<and> snd (cleanup_notrack_iptables sample_raw (12, 3)) = 0"
proof -
  have "counts_rule sample_raw notrack_in fst" "counts_rule sample_raw notrack_out snd"
    "unaffected sample_raw notrack_out fst" "unaffected sample_raw notrack_in snd"
    by (auto simp: counts_rule_def unaffected_def cmd_ok_def sample_raw_def notrack_in_def notrack_out_def Let_def)
  from notrack_counts [OF this, of "(12, 3)"] show ?thesis by simp
qed

subsection \<open>Kill switch\<close>

text \<open>
  macOS: a failing \<open>pfctl\<close> is reported, but the rules stay behind in the file they were written to.
\<close>

theorem pf_rules_left_behind:
  assumes "path = ''/tmp/redpill-pf-'' @ show_nat pid @ ''.conf''"
    and "fs_write fs path (pf_rules tun_name server_ip hosts) = Ok fs'"
    and "ex ''pfctl'' [''-a'', ''com.redpill'', ''-f'', path] [] w = (w', Inr out)" "\<not> out_success out"
  shows "\<exists>e. enable_with_extras_macos ex pid tun_name server_ip hosts (w, fs) = ((w', fs'), Err e)
     \<and> map_of (files fs') path = Some (pf_rules tun_name server_ip hosts)"
  using assms fs_write_eq [of fs path] by (auto simp: enable_with_extras_macos_def Let_def update_conv' split: if_splits)

theorem pf_rules_left_behind_witness:
  "\<exists>fs' e. enable_with_extras_macos (\<lambda>p args inp w. (w, Inr \<lparr>out_success = False, out_stdout = [], out_stderr = []\<rparr>)) 7 ''utun4'' ''203.0.113.7'' []
      ((), \<lparr>files = [], dirs = [''/tmp''], writable = (\<lambda>_. True)\<rparr>) = (((), fs'), Err e)
     \<and> map_of (files fs') (''/tmp/redpill-pf-'' @ show_nat 7 @ ''.conf'') = Some (pf_rules ''utun4'' ''203.0.113.7'' [])"
proof -
  let ?path = "''/tmp/redpill-pf-'' @ show_nat 7 @ ''.conf''" and ?fs = "\<lparr>files = [], dirs = [''/tmp''], writable = (\<lambda>_. True)\<rparr>"
  have "parent ?path = ''/tmp''" "?path \<noteq> ''/tmp''" by code_simp+
  then obtain fs' where "fs_write ?fs ?path (pf_rules ''utun4'' ''203.0.113.7'' []) = Ok fs'"
    by (simp add: fs_write_eq may_write_def)
  from pf_rules_left_behind [OF refl this, of "\<lambda>p args inp w. (w, Inr \<lparr>out_success = False, out_stdout = [], out_stderr = []\<rparr>)" "()" "()"]
  show ?thesis by auto
qed

text \<open>
  The Windows firewall as the list of its rules, each the arguments it was added with: an \<open>add\<close> that reports
  success appends its rule and one that fails changes nothing, and \<open>delete\<close> removes every rule of the name.
  The program starts; whether it succeeds is left open.
\<close>

definition netsh_tool :: "'w exec \<Rightarrow> ('w \<Rightarrow> string list list) \<Rightarrow> bool" where
  "netsh_tool ex fw \<longleftrightarrow>
     (\<forall>w args. args = ks_block_args \<or> (\<exists>sfx remote. args = ks_allow_args sfx remote) \<longrightarrow>
        (\<exists>w' out. ex ''netsh'' args [] w = (w', Inr out) \<and> fw w' = (if out_success out then fw w @ [args] else fw w)))
     \<and> (\<forall>w sfx. fw (fst (ex ''netsh'' (ks_delete_args sfx) [] w)) = filter (\<lambda>r. r ! 4 \<noteq> ks_name sfx) (fw w))"

definition foreign_rule :: "string list \<Rightarrow> bool" where
  "foreign_rule r \<longleftrightarrow> r ! 4 \<notin> ks_name ` set ks_suffixes"

lemma start_cmds_add:
  assumes "netsh_tool ex fw" "\<forall>args \<in> set cs. args = ks_block_args \<or> (\<exists>sfx remote. args = ks_allow_args sfx remote)"
  shows "\<exists>w' added. start_cmds ex ''netsh'' cs w = (w', Ok ()) \<and> fw w' = fw w @ added \<and> subseq added cs
     \<and> ((\<forall>w. \<forall>args \<in> set cs. cmd_ok ex ''netsh'' args w) \<longrightarrow> added = cs)"
  using assms(2)
proof (induction cs arbitrary: w)
  case (Cons args cs)
  with assms(1) obtain w1 out where w1: "ex ''netsh'' args [] w = (w1, Inr out)" "fw w1 = (if out_success out then fw w @ [args] else fw w)"
    unfolding netsh_tool_def by (metis list.set_intros(1))
  from Cons obtain w2 added where "start_cmds ex ''netsh'' cs w1 = (w2, Ok ())" "fw w2 = fw w1 @ added" "subseq added cs"
    "(\<forall>w. \<forall>args \<in> set cs. cmd_ok ex ''netsh'' args w) \<longrightarrow> added = cs" by (metis list.set_intros(2))
  moreover have "(\<forall>w. \<forall>a \<in> set (args # cs). cmd_ok ex ''netsh'' a w) \<Longrightarrow> out_success out"
    using w1(1) by (auto simp: cmd_ok_def dest!: spec [of _ w])
  ultimately show ?case using w1
    by (intro exI [of _ w2] exI [of _ "if out_success out then args # added else added"]) auto
qed simp

lemma windows_deletes:
  assumes "netsh_tool ex fw"
  shows "fw (disable_windows ex w) = filter foreign_rule (fw w)"
    and "fw (cleanup_stale_windows ex w) = filter foreign_rule (fw w)"
proof -
  have del: "fw (ignore_cmd ex ''netsh'' (ks_delete_args sfx) w) = filter (\<lambda>r. r ! 4 \<noteq> ks_name sfx) (fw w)" for sfx w
    using assms by (simp add: netsh_tool_def ignore_cmd_def)
  show "fw (disable_windows ex w) = filter foreign_rule (fw w)"
    "fw (cleanup_stale_windows ex w) = filter foreign_rule (fw w)"
    by (auto simp: disable_windows_def cleanup_stale_windows_def ks_suffixes_def foreign_rule_def del intro!: filter_cong)
qed

text \<open>The rules the kill switch wants: one that blocks, and those that allow.\<close>

definition ks_wanted :: "string \<Rightarrow> string list \<Rightarrow> string list list" where
  "ks_wanted server_ip hosts =
     [ks_block_args, ks_allow_args ''Allow Server'' server_ip, ks_allow_args ''Allow Loopback'' ''127.0.0.0/8'']
     @ map (\<lambda>h. ks_allow_args (''Allow '' @ h) h) hosts"

text \<open>
  Claim C35. The kill switch on Windows, whichever \<open>netsh\<close> commands succeed: enabling reports success as long as
  the program starts. It removes its three fixed rules left by an earlier run and adds those of its rules
  whose command succeeded, in order, all of them when every command did. Disabling brings the foreign rules
  back as they were and removes the three fixed rules, so without extra hosts nothing of it is left; but a
  rule added for an extra host has a name of its own that neither disabling nor a later clean-up of stale
  rules mentions, and stays.
\<close>

theorem windows_killswitch_leftovers:
  assumes "netsh_tool ex fw" and "enable_with_extras_windows ex server_ip hosts w = (w1, r)"
  shows "r = Ok () \<and> (\<exists>added. subseq added (ks_wanted server_ip hosts) \<and> fw w1 = filter foreign_rule (fw w) @ added
     \<and> ((\<forall>w. \<forall>args \<in> set (ks_wanted server_ip hosts). cmd_ok ex ''netsh'' args w) \<longrightarrow> added = ks_wanted server_ip hosts)
     \<and> fw (disable_windows ex w1) = filter foreign_rule (fw w) @ filter foreign_rule added
     \<and> (hosts = [] \<longrightarrow> fw (disable_windows ex w1) = filter foreign_rule (fw w))
     \<and> (\<forall>h. ks_allow_args (''Allow '' @ h) h \<in> set added \<and> h \<noteq> ''Server'' \<and> h \<noteq> ''Loopback'' \<longrightarrow>
          ks_allow_args (''Allow '' @ h) h \<in> set (fw (cleanup_stale_windows ex (disable_windows ex w1)))))"
proof -
  have "\<forall>args \<in> set (ks_wanted server_ip hosts). args = ks_block_args \<or> (\<exists>sfx remote. args = ks_allow_args sfx remote)"
    by (auto simp: ks_wanted_def)
  from start_cmds_add [OF assms(1) this, of "cleanup_stale_windows ex w"] obtain w2 added
    where w2: "start_cmds ex ''netsh'' (ks_wanted server_ip hosts) (cleanup_stale_windows ex w) = (w2, Ok ())"
      "fw w2 = filter foreign_rule (fw w) @ added" "subseq added (ks_wanted server_ip hosts)"
      "(\<forall>w. \<forall>args \<in> set (ks_wanted server_ip hosts). cmd_ok ex ''netsh'' args w) \<longrightarrow> added = ks_wanted server_ip hosts"
    by (auto simp: windows_deletes [OF assms(1)])
  have w1: "w1 = w2" "r = Ok ()"
    using assms(2) w2(1) by (auto simp: enable_with_extras_windows_def ks_wanted_def simp del: start_cmds.simps)
  have fixed: "\<not> foreign_rule ks_block_args" "\<not> foreign_rule (ks_allow_args ''Allow Server'' x)"
    "\<not> foreign_rule (ks_allow_args ''Allow Loopback'' x)" for x
    by (simp_all add: foreign_rule_def ks_block_args_def ks_allow_args_def ks_suffixes_def)
  have "filter foreign_rule added = []" if "hosts = []"
  proof -
    have "set added \<subseteq> set (ks_wanted server_ip [])" using w2(3) that by (auto dest: list_emb_set)
    then show ?thesis using fixed by (auto simp: filter_empty_conv ks_wanted_def)
  qed
  moreover have "fw (disable_windows ex w1) = filter foreign_rule (fw w) @ filter foreign_rule added"
    by (simp only: windows_deletes(1) [OF assms(1)] w1(1) w2(2) filter_append filter_filter conj_absorb)
  moreover have "foreign_rule (ks_allow_args (''Allow '' @ h) h)" if "h \<noteq> ''Server''" "h \<noteq> ''Loopback''" for h
    using that by (auto simp: foreign_rule_def ks_allow_args_def ks_suffixes_def ks_name_def)
  ultimately show ?thesis using w1 w2(2-) by (intro conjI exI [of _ added]) (simp_all add: windows_deletes(2) [OF assms(1)])
qed

definition sample_netsh :: "string list list exec" where
  "sample_netsh program args inp fw =
     (if args ! 2 = ''add'' then fw @ [args] else filter (\<lambda>r. r ! 4 \<noteq> args ! 4) fw,
      Inr \<lparr>out_success = True, out_stdout = [], out_stderr = []\<rparr>)"

theorem windows_killswitch_leftovers_witness:
  "disable_windows sample_netsh (fst (enable_with_extras_windows sample_netsh ''203.0.113.7'' [''104.16.0.1''] []))
     = [ks_allow_args ''Allow 104.16.0.1'' ''104.16.0.1'']"
proof -
  have "netsh_tool sample_netsh id"
    by (auto simp: netsh_tool_def sample_netsh_def ks_block_args_def ks_allow_args_def ks_delete_args_def)
  moreover have "\<forall>w. \<forall>args \<in> set (ks_wanted ''203.0.113.7'' [''104.16.0.1'']). cmd_ok sample_netsh ''netsh'' args w"
    by (simp add: cmd_ok_def sample_netsh_def)
  ultimately have "disable_windows sample_netsh (fst (enable_with_extras_windows sample_netsh ''203.0.113.7'' [''104.16.0.1''] []))
      = filter foreign_rule (ks_wanted ''203.0.113.7'' [''104.16.0.1''])"
    using windows_killswitch_leftovers [OF _ surjective_pairing, of sample_netsh id "''203.0.113.7''" "[''104.16.0.1'']" "[]"] by auto
  then show ?thesis by (simp add: ks_wanted_def foreign_rule_def ks_block_args_def ks_allow_args_def ks_suffixes_def ks_name_def)
qed

end
