(* ===== verification/Daemon.thy ===== *)
theory Daemon
  imports Device Stats
begin

text \<open>
  The client's daemon mode: paths, PID file, stopping and forking of \<open>daemon.rs\<close>, the status socket of
  \<open>ipc.rs\<close> and the commands of the client's \<open>main\<close>. Files are a \<open>file_system\<close>; signals, forks and the JSON
  library are arguments. Printed text is left out except what a command reports.
\<close>

section \<open>Paths\<close>

definition ignore_fs :: "file_system \<Rightarrow> file_system result \<Rightarrow> file_system" where
  "ignore_fs fs r = (case r of Inl _ \<Rightarrow> fs | Inr fs' \<Rightarrow> fs')"

definition home_file :: "string \<Rightarrow> string \<Rightarrow> string \<Rightarrow> file_system \<Rightarrow> file_system \<times> string" where
  "home_file home sub name fs =
     (let dir = path_join home sub in (ignore_fs fs (create_dir_all fs dir), path_join dir name))"

definition pid_path :: "bool \<Rightarrow> string option \<Rightarrow> file_system \<Rightarrow> file_system \<times> string" where
  "pid_path macos home fs =
     (case (macos, home) of
        (True, Some h) \<Rightarrow> home_file h ''Library/Application Support/redpill'' ''redpill.pid'' fs
      | _ \<Rightarrow> (fs, ''/var/run/redpill.pid''))"

definition log_path :: "bool \<Rightarrow> string option \<Rightarrow> file_system \<Rightarrow> file_system \<times> string" where
  "log_path macos home fs =
     (case (macos, home) of
        (True, Some h) \<Rightarrow> home_file h ''Library/Logs'' ''redpill.log'' fs
      | _ \<Rightarrow> (ignore_fs fs (create_dir_all fs ''/var/log/redpill''), path_join ''/var/log/redpill'' ''client.log''))"

definition socket_path :: "bool \<Rightarrow> string option \<Rightarrow> file_system \<Rightarrow> file_system \<times> string" where
  "socket_path macos home fs =
     (case (macos, home) of
        (True, Some h) \<Rightarrow> home_file h ''Library/Application Support/redpill'' ''redpill.sock'' fs
      | _ \<Rightarrow> (fs, ''/var/run/redpill.sock''))"

section \<open>PID file\<close>

definition write_pid :: "u32 \<Rightarrow> string \<Rightarrow> file_system \<Rightarrow> file_system \<times> unit result" where
  "write_pid pid path fs =
     (case create_dir_all fs (parent path) of
        Inl e \<Rightarrow> (fs, Err e)
      | Inr fs \<Rightarrow>
          (case fs_write fs path (show_nat (unat pid)) of
             Inl e \<Rightarrow> (fs, Err e)
           | Inr fs \<Rightarrow> (fs, Ok ())))"

definition read_pid :: "string \<Rightarrow> file_system \<Rightarrow> u32 option" where
  "read_pid path fs =
     (case read_to_string (map_of (files fs)) path of
        Inl _ \<Rightarrow> None
      | Inr s \<Rightarrow> map_option of_nat (parse_uint (2 ^ 32) (trim s)))"

definition remove_pid :: "string \<Rightarrow> file_system \<Rightarrow> file_system" where
  "remove_pid path fs = ignore_fs fs (fs_remove fs path)"

text \<open>
  Signals: the process is named by the PID as a signed 32-bit number. \<open>alive\<close> is whether signal 0 can be
  sent; a failure to send says whether there is no such process.
\<close>

datatype kill_result = KillOk | KillEsrch | KillFailed string

definition is_running :: "(int \<Rightarrow> bool) \<Rightarrow> string \<Rightarrow> file_system \<Rightarrow> file_system \<times> u32 option" where
  "is_running alive path fs =
     (case read_pid path fs of
        None \<Rightarrow> (fs, None)
      | Some pid \<Rightarrow> if alive (sint pid) then (fs, Some pid) else (remove_pid path fs, None))"

text \<open>The poll: whether the process was gone at one of the next \<open>n\<close> checks, and how many were made.\<close>

fun poll_gone :: "(nat \<Rightarrow> int \<Rightarrow> bool) \<Rightarrow> int \<Rightarrow> nat \<Rightarrow> nat \<Rightarrow> bool" where
  "poll_gone alive pid i 0 = False"
| "poll_gone alive pid i (Suc n) = (if \<not> alive i pid then True else poll_gone alive pid (Suc i) n)"

definition stop_daemon ::
  "(int \<Rightarrow> kill_result) \<Rightarrow> (nat \<Rightarrow> int \<Rightarrow> bool) \<Rightarrow> string \<Rightarrow> file_system \<Rightarrow> file_system \<times> unit result" where
  "stop_daemon term alive path fs =
     (case read_pid path fs of
        None \<Rightarrow> (fs, Err (Bail ''No daemon running (PID file not found)''))
      | Some pid \<Rightarrow>
          (case term (sint pid) of
             KillOk \<Rightarrow> if poll_gone alive (sint pid) 0 20 then (remove_pid path fs, Ok ()) else (fs, Ok ())
           | KillEsrch \<Rightarrow> (remove_pid path fs, Err (Bail ''Daemon not running (stale PID file removed)''))
           | KillFailed e \<Rightarrow> (fs, Err (Bail ''Failed to send SIGTERM''))))"

section \<open>Forking\<close>

datatype fork_result = ForkFailed string | InChild | InParent

record fork_env =
  fk_first :: fork_result
  fk_setsid :: "string + unit"
  fk_second :: fork_result

datatype daemonized = ProcessExits | Daemonized "unit result"

definition open_log :: "string \<Rightarrow> file_system \<Rightarrow> file_system \<times> unit result" where
  "open_log path fs =
     (let fs = ignore_fs fs (create_dir_all fs (parent path)) in
      if path \<in> fst ` set (files fs) \<and> writable fs path then (fs, Ok ())
      else case fs_write fs path [] of Inl e \<Rightarrow> (fs, Err e) | Inr fs \<Rightarrow> (fs, Ok ()))"

definition daemonize :: "fork_env \<Rightarrow> string \<Rightarrow> file_system \<Rightarrow> file_system \<times> daemonized" where
  "daemonize fk path fs =
     (case fk_first fk of
        ForkFailed e \<Rightarrow> (fs, Daemonized (Err (Bail ''fork() failed'')))
      | InParent \<Rightarrow> (fs, ProcessExits)
      | InChild \<Rightarrow>
          (case fk_setsid fk of
             Inl e \<Rightarrow> (fs, Daemonized (Err (Bail ''setsid() failed'')))
           | Inr _ \<Rightarrow>
               (case fk_second fk of
                  ForkFailed e \<Rightarrow> (fs, Daemonized (Err (Bail ''fork() failed'')))
                | InParent \<Rightarrow> (fs, ProcessExits)
                | InChild \<Rightarrow> (case open_log path fs of (fs, r) \<Rightarrow> (fs, Daemonized r)))))"

section \<open>Status socket\<close>

record daemon_status =
  ds_connected :: bool
  ds_server :: string
  ds_transport :: string
  ds_client_ip :: "string option"
  ds_uptime_secs :: u64
  ds_bytes_sent :: u64
  ds_bytes_recv :: u64
  ds_datagrams_sent :: u64
  ds_datagrams_recv :: u64

record daemon_state =
  dst_connected :: bool
  dst_server :: string
  dst_transport :: string
  dst_client_ip :: "string option"
  dst_stats :: stats

definition to_status :: "u64 \<Rightarrow> daemon_state \<Rightarrow> daemon_status" where
  "to_status elapsed self =
     \<lparr>ds_connected = dst_connected self, ds_server = dst_server self, ds_transport = dst_transport self,
      ds_client_ip = dst_client_ip self, ds_uptime_secs = elapsed, ds_bytes_sent = bytes_sent (dst_stats self),
      ds_bytes_recv = bytes_recv (dst_stats self), ds_datagrams_sent = datagrams_sent (dst_stats self),
      ds_datagrams_recv = datagrams_recv (dst_stats self)\<rparr>"

text \<open>\<open>read_line\<close>: the bytes up to and including the first newline, which have to be UTF-8.\<close>

definition read_line :: "string \<Rightarrow> string result" where
  "read_line s =
     (let l = takeWhile (\<lambda>c. c \<noteq> newline) s @ take 1 (dropWhile (\<lambda>c. c \<noteq> newline) s) in
      if utf8_ok (map code l) then Ok l else Err (IoError ''invalid utf-8''))"

text \<open>What the server writes to one connection; a failed serialisation gives the empty text.\<close>

definition ipc_reply :: "(daemon_status \<Rightarrow> string option) \<Rightarrow> u64 \<Rightarrow> daemon_state \<Rightarrow> string \<Rightarrow> string" where
  "ipc_reply to_json elapsed state request =
     (case read_line request of
        Inl _ \<Rightarrow> []
      | Inr line \<Rightarrow>
          if line = [] then []
          else if trim line = ''status'' then
            (case to_json (to_status elapsed state) of Some j \<Rightarrow> j | None \<Rightarrow> []) @ [newline]
          else ''unknown command: '' @ trim line @ [newline])"

text \<open>
  The server's accept loop: the connections it accepts, each with the request sent on it and the time and
  the shared state when it is answered, or the error of an \<open>accept\<close>, after which the loop goes on. The result
  is what each connection is sent; nothing is accepted when the listener cannot be made asynchronous.
\<close>

datatype ipc_accept = IpcAcceptError string | IpcAccepted string u64 daemon_state

fun ipc_accept_loop :: "(daemon_status \<Rightarrow> string option) \<Rightarrow> ipc_accept list \<Rightarrow> string list" where
  "ipc_accept_loop to_json [] = []"
| "ipc_accept_loop to_json (IpcAcceptError e # accepts) = ipc_accept_loop to_json accepts"
| "ipc_accept_loop to_json (IpcAccepted request elapsed state # accepts) =
     ipc_reply to_json elapsed state request # ipc_accept_loop to_json accepts"

definition spawn_ipc_server :: "(daemon_status \<Rightarrow> string option) \<Rightarrow> unit result \<Rightarrow> ipc_accept list \<Rightarrow> string list" where
  "spawn_ipc_server to_json from_std accepts =
     (case from_std of Inl _ \<Rightarrow> [] | Inr _ \<Rightarrow> ipc_accept_loop to_json accepts)"

text \<open>A query over a connection: \<open>answer\<close> maps what was sent to what comes back, or the error of a read.\<close>

definition query_status ::
  "(string \<Rightarrow> daemon_status option) \<Rightarrow> string option \<Rightarrow> (string \<Rightarrow> string + string) \<Rightarrow> daemon_status result" where
  "query_status from_json connect_error answer =
     (case connect_error of
        Some e \<Rightarrow> Err (Bail ''Cannot connect to daemon'')
      | None \<Rightarrow>
          (case answer (''status'' @ [newline]) of
             Inl e \<Rightarrow> Err (IoError e)
           | Inr reply \<Rightarrow>
               and_then (read_line reply) (\<lambda>line.
                 case from_json line of
                   None \<Rightarrow> Err (Bail ''Invalid daemon response'')
                 | Some status \<Rightarrow> Ok status)))"

text \<open>Binding removes what is at the path; the socket appears there as a file.\<close>

definition bind_ipc_socket :: "string \<Rightarrow> (unit result) \<Rightarrow> file_system \<Rightarrow> file_system \<times> unit result" where
  "bind_ipc_socket path nonblocking fs =
     (let fs = ignore_fs fs (fs_remove fs path) in
      if path \<in> fst ` set (files fs) then (fs, Err (Bail ''Failed to bind IPC socket''))
      else case fs_write fs path [] of
        Inl e \<Rightarrow> (fs, Err (Bail ''Failed to bind IPC socket''))
      | Inr fs \<Rightarrow> (fs, nonblocking))"

section \<open>Commands of the client\<close>

datatype client_command = Connect | Up | Down | Status

datatype main_report = ReportStatus daemon_status | ReportPid u32 | ReportNone

datatype main_out = Returned_main "unit result" | Reported main_report | Parent_exits

record main_env =
  me_macos :: bool
  me_home :: "string option"
  me_pid :: u32
  me_term :: "int \<Rightarrow> kill_result"
  me_alive :: "nat \<Rightarrow> int \<Rightarrow> bool"
  me_fork :: fork_env
  me_query :: "daemon_status result"
  me_runtime :: "unit result"
  me_run :: "bool \<Rightarrow> file_system \<Rightarrow> file_system \<times> unit result"

definition run_body :: "main_env \<Rightarrow> bool \<Rightarrow> file_system \<Rightarrow> file_system \<times> main_out" where
  "run_body env daemon_mode fs =
     (case me_runtime env of
        Inl e \<Rightarrow> (fs, Returned_main (Err e))
      | Inr _ \<Rightarrow>
          if \<not> daemon_mode then (case me_run env False (fst (pid_path (me_macos env) (me_home env) fs)) of (fs, r) \<Rightarrow> (fs, Returned_main r))
          else
            (case pid_path (me_macos env) (me_home env) fs of (fs, pid_file) \<Rightarrow>
               (case write_pid (me_pid env) pid_file fs of
                  (fs, Inl e) \<Rightarrow> (fs, Returned_main (Err e))
                | (fs, Inr _) \<Rightarrow>
                    (case me_run env True fs of (fs, result) \<Rightarrow>
                       let fs = remove_pid pid_file fs in
                       (case socket_path (me_macos env) (me_home env) fs of (fs, sock) \<Rightarrow>
                          (ignore_fs fs (fs_remove fs sock), Returned_main result))))))"

definition client_main :: "main_env \<Rightarrow> client_command option \<Rightarrow> file_system \<Rightarrow> file_system \<times> main_out" where
  "client_main env cmd fs =
     (case cmd of
        Some Down \<Rightarrow>
          (case pid_path (me_macos env) (me_home env) fs of (fs, path) \<Rightarrow>
             (case stop_daemon (me_term env) (me_alive env) path fs of (fs, r) \<Rightarrow> (fs, Returned_main r)))
      | Some Status \<Rightarrow>
          (case socket_path (me_macos env) (me_home env) fs of (fs, sock) \<Rightarrow>
             (case me_query env of
                Inr status \<Rightarrow> (fs, Reported (ReportStatus status))
              | Inl e \<Rightarrow>
                  (case pid_path (me_macos env) (me_home env) fs of (fs, path) \<Rightarrow>
                     (case is_running (me_alive env 0) path fs of
                        (fs, Some pid) \<Rightarrow> (fs, Reported (ReportPid pid))
                      | (fs, None) \<Rightarrow> (fs, Reported ReportNone)))))
      | Some Up \<Rightarrow>
          (case pid_path (me_macos env) (me_home env) fs of (fs, path) \<Rightarrow>
             (case is_running (me_alive env 0) path fs of
                (fs, Some pid) \<Rightarrow> (fs, Returned_main (Err (Bail ''Daemon already running'')))
              | (fs, None) \<Rightarrow>
                  (case log_path (me_macos env) (me_home env) fs of (fs, logfile) \<Rightarrow>
                     (case daemonize (me_fork env) logfile fs of
                        (fs, ProcessExits) \<Rightarrow> (fs, Parent_exits)
                      | (fs, Daemonized (Inl e)) \<Rightarrow> (fs, Returned_main (Err e))
                      | (fs, Daemonized (Inr _)) \<Rightarrow> run_body env True fs))))
      | _ \<Rightarrow> run_body env False fs)"

section \<open>Lemmas and properties\<close>

lemma visible_show_nat: "\<forall>c \<in> set (show_nat n). visible c"
proof -
  have digit: "visible (char_of (48 + d))" if "d < 10" for d :: nat
    using that by (auto simp: visible_def ascii_white_def code_def)
  then show ?thesis using dec_digits_range [of n] by (auto simp: show_nat_digits)
qed

lemma read_pid_show: "map_of (files fs) path = Some (show_nat (unat pid)) \<Longrightarrow> read_pid path fs = Some pid"
proof -
  assume pidfile: "map_of (files fs) path = Some (show_nat (unat pid))"
  have "utf8_ok (map code (show_nat (unat pid)))"
    using visible_show_nat by (intro utf8_ok_ascii) (auto simp: visible_def)
  moreover have "trim (show_nat (unat pid)) = show_nat (unat pid)"
    using trim_visible [OF visible_show_nat, of "[]" "[]"] by simp
  moreover have "unat pid < 2 ^ 32" using unsigned_less [of pid] by simp
  ultimately show ?thesis by (simp add: read_pid_def read_to_string_def pidfile parse_uint_show)
qed

text \<open>The PID a daemon writes is the PID its controller reads.\<close>

theorem pid_file_roundtrip:
  assumes "write_pid pid path fs = (fs', Ok ())"
  shows "read_pid path fs' = Some pid"
proof -
  from assms obtain fs1 where "fs_write fs1 path (show_nat (unat pid)) = Ok fs'"
    by (auto simp: write_pid_def split: sum.splits)
  then show ?thesis by (intro read_pid_show) (auto simp: fs_write_eq split: if_splits)
qed

definition sample_fs :: file_system where
  "sample_fs = \<lparr>files = [], dirs = [''/var/run''], writable = \<lambda>_. True\<rparr>"

lemma sample_write_pid:
  "write_pid pid ''/var/run/redpill.pid'' sample_fs
     = (sample_fs\<lparr>files := [(''/var/run/redpill.pid'', show_nat (unat pid))]\<rparr>, Ok ())"
  by (simp add: write_pid_def create_dir_all_def fs_write_def sample_fs_def parent_def)

theorem pid_file_roundtrip_witness: "\<exists>fs. write_pid 4711 ''/var/run/redpill.pid'' sample_fs = (fs, Ok ()) \<and> read_pid ''/var/run/redpill.pid'' fs = Some 4711"
  using pid_file_roundtrip [OF sample_write_pid, of 4711] sample_write_pid [of 4711] by blast

lemma poll_gone_iff: "poll_gone alive pid i n \<longleftrightarrow> (\<exists>j < n. \<not> alive (i + j) pid)"
proof (induction n arbitrary: i)
  case (Suc n)
  have "(\<exists>j < Suc n. \<not> alive (i + j) pid) \<longleftrightarrow> \<not> alive i pid \<or> (\<exists>j < n. \<not> alive (Suc i + j) pid)"
    by (metis Suc_less_eq add_Suc_right add_Suc_shift add_0_right less_Suc_eq_0_disj zero_less_Suc)
  with Suc show ?case by simp
qed simp

lemma read_pid_file: "read_pid path fs = Some pid \<Longrightarrow> path \<in> fst ` set (files fs)"
  by (auto simp: read_pid_def read_to_string_def split: option.splits sum.splits if_splits dest!: map_of_SomeD)
     (metis fst_conv image_eqI)

lemma read_pid_removed:
  assumes "read_pid path fs = Some pid"
  shows "read_pid path (remove_pid path fs) = (if writable fs path then None else Some pid)"
  using assms read_pid_file [OF assms]
  by (auto simp: remove_pid_def ignore_fs_def fs_remove_def read_pid_def read_to_string_def)

text \<open>
  Claim C39. Stopping a daemon: the PID file is removed exactly if the process was gone
  already or is gone at one of the twenty checks that follow (and the file may be removed). The command
  succeeds whenever the signal could be sent, also when the process keeps running.
\<close>

theorem stop_daemon_exact:
  assumes "read_pid path fs = Some pid" "stop_daemon term alive path fs = (fs', r)"
  shows "(r = Ok () \<longleftrightarrow> term (sint pid) = KillOk)
     \<and> (read_pid path fs' = None \<longleftrightarrow> writable fs path
          \<and> (term (sint pid) = KillEsrch \<or> term (sint pid) = KillOk \<and> (\<exists>i < 20. \<not> alive i (sint pid))))"
  using assms read_pid_removed [OF assms(1)]
  by (cases "term (sint pid)") (auto simp: stop_daemon_def poll_gone_iff split: if_splits)

theorem stop_daemon_exact_witness:
  "read_pid ''/var/run/redpill.pid'' (fst (stop_daemon (\<lambda>_. KillOk) (\<lambda>i _. i < 3) ''/var/run/redpill.pid''
     (sample_fs\<lparr>files := [(''/var/run/redpill.pid'', show_nat (unat (4711 :: u32)))]\<rparr>))) = None"
proof -
  let ?fs = "sample_fs\<lparr>files := [(''/var/run/redpill.pid'', show_nat (unat (4711 :: u32)))]\<rparr>"
  have "read_pid ''/var/run/redpill.pid'' ?fs = Some 4711" by (rule read_pid_show) simp
  note stop = stop_daemon_exact [OF this surjective_pairing, of "\<lambda>_. KillOk" "\<lambda>i _. i < 3", THEN conjunct2]
  have "\<exists>i < (20 :: nat). \<not> i < (3 :: nat)" by (rule exI [of _ 3]) simp
  moreover have "writable ?fs p" for p by (simp add: sample_fs_def)
  ultimately show ?thesis unfolding stop by blast
qed

text \<open>
  The number in the PID file is only bounded by 32 bits and cast to a signed one: for the largest value
  the signal goes to process \<open>-1\<close>, which means every process.
\<close>

theorem stop_signals_every_process:
  assumes "map_of (files fs) path = Some ''4294967295''"
  shows "snd (stop_daemon term alive path fs) = Ok () \<longleftrightarrow> term (- 1) = KillOk"
proof -
  have n: "unat (- 1 :: u32) = 4294967295" by (simp add: unsigned_minus_1_eq_mask mask_eq_exp_minus_1)
  have "show_nat 4294967295 = ''4294967295''" by (simp add: show_nat.simps digit_chars)
  with assms n have "map_of (files fs) path = Some (show_nat (unat (- 1 :: u32)))" by simp
  from read_pid_show [OF this] have "read_pid path fs = Some (- 1)" .
  then show ?thesis by (cases "term (- 1)") (auto simp: stop_daemon_def)
qed

theorem stop_signals_every_process_witness:
  "snd (stop_daemon (\<lambda>p. if p = - 1 then KillOk else KillEsrch) (\<lambda>_ _. True) ''p''
     \<lparr>files = [(''p'', ''4294967295'')], dirs = [], writable = \<lambda>_. True\<rparr>) = Ok ()"
  using stop_signals_every_process [of "\<lparr>files = [(''p'', ''4294967295'')], dirs = [], writable = \<lambda>_. True\<rparr>" "''p''"
      "\<lambda>p. if p = - 1 then KillOk else KillEsrch" "\<lambda>_ _. True"]
  by simp

text \<open>
  The status a client queries is the status of the daemon: with a JSON library that prints on one line of
  UTF-8 and reads back what it printed, also before a newline, the query returns exactly the snapshot.
\<close>

theorem ipc_status_roundtrip:
  assumes "to_json (to_status elapsed state) = Some j" "from_json (j @ [newline]) = Some (to_status elapsed state)"
    and "newline \<notin> set j" "utf8_ok (map code (j @ [newline]))"
  shows "query_status from_json None (\<lambda>request. Inr (ipc_reply to_json elapsed state request)) = Ok (to_status elapsed state)"
proof -
  have line: "read_line (s @ [newline]) = Ok (s @ [newline])" if "newline \<notin> set s" "utf8_ok (map code (s @ [newline]))" for s
  proof -
    have "takeWhile (\<lambda>c. c \<noteq> newline) (s @ [newline]) = s" "dropWhile (\<lambda>c. c \<noteq> newline) (s @ [newline]) = [newline]"
      using that(1) by (induction s) auto
    with that(2) show ?thesis by (simp add: read_line_def)
  qed
  have "read_line (''status'' @ [newline]) = Ok (''status'' @ [newline])"
    by (rule line) (simp add: newline_def, rule utf8_ok_ascii, simp add: newline_def code_def)
  moreover have "trim (''status'' @ [newline]) = ''status''"
    using trim_visible [of "''status''" "[]" "[newline]"] by (simp add: visible_def ascii_white_def code_def newline_def)
  ultimately have "ipc_reply to_json elapsed state (''status'' @ [newline]) = j @ [newline]"
    using assms(1) by (simp add: ipc_reply_def)
  with line [OF assms(3,4)] assms(2) show ?thesis by (simp add: query_status_def)
qed

definition sample_daemon :: daemon_state where
  "sample_daemon = \<lparr>dst_connected = True, dst_server = ''203.0.113.7:443'', dst_transport = ''quic'', dst_client_ip = None,
     dst_stats = Stats_new\<rparr>"

theorem ipc_status_roundtrip_witness:
  "query_status (\<lambda>_. Some (to_status 5 sample_daemon)) None
     (\<lambda>request. Inr (ipc_reply (\<lambda>_. Some ''{}'') 5 sample_daemon request)) = Ok (to_status 5 sample_daemon)"
proof -
  have "utf8_ok (map code (''{}'' @ [newline]))" by (rule utf8_ok_ascii) (simp add: code_def newline_def)
  then show ?thesis by (intro ipc_status_roundtrip [where j = "''{}''"]) (simp_all add: newline_def)
qed

text \<open>
  Every connection of a running server is answered, whatever errors \<open>accept\<close> reported before it, and one
  client's request does not change another's answer.
\<close>

theorem ipc_connections_independent:
  "spawn_ipc_server to_json (Ok ()) (before @ IpcAccepted request elapsed state # after) =
     spawn_ipc_server to_json (Ok ()) before @ ipc_reply to_json elapsed state request # spawn_ipc_server to_json (Ok ()) after"
proof -
  have "ipc_accept_loop to_json (xs @ ys) = ipc_accept_loop to_json xs @ ipc_accept_loop to_json ys" for xs ys
    by (induction to_json xs rule: ipc_accept_loop.induct) simp_all
  then show ?thesis by (simp add: spawn_ipc_server_def)
qed

text \<open>
  Starting and ending a daemon on Linux: \<open>up\<close> refuses to start beside a live one and changes no file, and a
  daemon that has written its PID file removes the file when its client ends, whatever the client's
  result, which it passes on.
\<close>

theorem up_exclusive_and_clean:
  assumes linux: "\<not> me_macos env"
  shows "(read_pid ''/var/run/redpill.pid'' fs = Some pid \<longrightarrow> me_alive env 0 (sint pid) \<longrightarrow>
            client_main env (Some Up) fs = (fs, Returned_main (Err (Bail ''Daemon already running''))))
     \<and> (me_runtime env = Ok () \<longrightarrow> write_pid (me_pid env) ''/var/run/redpill.pid'' fs = (fs1, Ok ()) \<longrightarrow>
            me_run env True fs1 = (fs2, r) \<longrightarrow> writable fs2 ''/var/run/redpill.pid'' \<longrightarrow>
            snd (run_body env True fs) = Returned_main r
            \<and> read_pid ''/var/run/redpill.pid'' (fst (run_body env True fs)) = None)"
proof -
  have path: "pid_path (me_macos env) (me_home env) fs = (fs, ''/var/run/redpill.pid'')"
    "socket_path (me_macos env) (me_home env) fs = (fs, ''/var/run/redpill.sock'')" for fs
    using linux by (auto simp: pid_path_def socket_path_def split: option.splits)
  have other: "read_pid ''/var/run/redpill.pid'' (ignore_fs fs (fs_remove fs ''/var/run/redpill.sock''))
      = read_pid ''/var/run/redpill.pid'' fs" for fs
    by (simp add: ignore_fs_def fs_remove_def read_pid_def read_to_string_def)
  have gone: "read_pid path (remove_pid path fs) = None" if "writable fs path" for fs path
  proof (cases "read_pid path fs")
    case None
    then show ?thesis by (auto simp: remove_pid_def ignore_fs_def fs_remove_def read_pid_def read_to_string_def)
  qed (use read_pid_removed that in simp)
  show ?thesis
    by (auto simp: client_main_def run_body_def path is_running_def other gone Let_def)
qed

theorem up_exclusive_and_clean_witness:
  "\<exists>env. read_pid ''/var/run/redpill.pid'' (fst (run_body env True sample_fs)) = None"
proof -
  let ?env = "\<lparr>me_macos = False, me_home = None, me_pid = 4711, me_term = \<lambda>_. KillOk, me_alive = \<lambda>_ _. True,
    me_fork = \<lparr>fk_first = InChild, fk_setsid = Inr (), fk_second = InChild\<rparr>, me_query = Err (Bail []),
    me_runtime = Ok (), me_run = \<lambda>_ fs. (fs, Ok ())\<rparr>"
  have "\<not> me_macos ?env" by simp
  from up_exclusive_and_clean [OF this, of sample_fs 0] sample_write_pid [of 4711] show ?thesis
    by (intro exI [of _ ?env]) (auto simp: sample_fs_def)
qed

end
