(* ===== verification/Acme.thy ===== *)
theory Acme
  imports Routes
begin

text \<open>
  The certificate resolver of \<open>acme.rs\<close> and the decoy page of \<open>decoy.rs\<close>. Parsing PEM files into a certified
  key and generating a certificate are arguments (\<open>parse_pair\<close>, the generated triple of certificate text,
  key text and key); the clock enters as the age of the certificate file. The HTTP/3 library is the
  sequence of its answers.
\<close>

section \<open>Certificate cache\<close>

definition CERT_NAME :: string where "CERT_NAME = ''cert.pem''"
definition KEY_NAME :: string where "KEY_NAME = ''key.pem''"

definition fs_read :: "file_system \<Rightarrow> string \<Rightarrow> string result" where
  "fs_read fs p = (case map_of (files fs) p of None \<Rightarrow> Err (IoError p) | Some s \<Rightarrow> Ok s)"

definition load_certified_key ::
  "(string \<Rightarrow> string \<Rightarrow> 'k result) \<Rightarrow> string \<Rightarrow> string \<Rightarrow> file_system \<Rightarrow> 'k result" where
  "load_certified_key parse_pair cpath kpath fs =
     and_then (fs_read fs cpath) (\<lambda>cert_pem. and_then (fs_read fs kpath) (\<lambda>key_pem. parse_pair cert_pem key_pem))"

record 'k generated =
  gen_cert_pem :: string
  gen_key_pem :: string
  gen_key :: 'k

definition generate_placeholder_key :: "'k generated result \<Rightarrow> 'k result" where
  "generate_placeholder_key gen = and_then gen (\<lambda>g. Ok (gen_key g))"

definition AcmeCertResolver_new ::
  "(string \<Rightarrow> string \<Rightarrow> 'k result) \<Rightarrow> string \<Rightarrow> 'k generated result \<Rightarrow> file_system \<Rightarrow> file_system \<times> 'k result" where
  "AcmeCertResolver_new parse_pair acme_dir gen fs =
     (case create_dir_all fs acme_dir of
        Inl e \<Rightarrow> (fs, Err e)
      | Inr fs \<Rightarrow>
          let cpath = path_join acme_dir CERT_NAME; kpath = path_join acme_dir KEY_NAME in
          (fs, if fs_exists fs cpath \<and> fs_exists fs kpath then
                 (case load_certified_key parse_pair cpath kpath fs of
                    Inr key \<Rightarrow> Ok key
                  | Inl e \<Rightarrow> generate_placeholder_key gen)
               else generate_placeholder_key gen))"

text \<open>
  A request: generate, write both files, return the key. The conversion of the generated key, which follows the writes
  in the code, is part of \<open>gen\<close>.
\<close>

definition request_certificate :: "string \<Rightarrow> 'k generated result \<Rightarrow> file_system \<Rightarrow> file_system \<times> 'k result" where
  "request_certificate cache_dir gen fs =
     (case gen of
        Inl e \<Rightarrow> (fs, Err e)
      | Inr g \<Rightarrow>
          (case fs_write fs (path_join cache_dir CERT_NAME) (gen_cert_pem g) of
             Inl e \<Rightarrow> (fs, Err e)
           | Inr fs \<Rightarrow>
               (case fs_write fs (path_join cache_dir KEY_NAME) (gen_key_pem g) of
                  Inl e \<Rightarrow> (fs, Err e)
                | Inr fs \<Rightarrow> (fs, Ok (gen_key g)))))"

text \<open>The resolver: the files and the key it serves, replaced when a request succeeds.\<close>

type_synonym 'k resolver = "file_system \<times> 'k"

definition install :: "file_system \<times> 'k result \<Rightarrow> 'k \<Rightarrow> 'k resolver" where
  "install r key = (fst r, case snd r of Inr k \<Rightarrow> k | Inl _ \<Rightarrow> key)"

definition acme_initial :: "string \<Rightarrow> 'k generated result \<Rightarrow> 'k resolver \<Rightarrow> 'k resolver" where
  "acme_initial cache_dir gen s =
     (if \<not> fs_exists (fst s) (path_join cache_dir CERT_NAME)
      then install (request_certificate cache_dir gen (fst s)) (snd s) else s)"

definition SIXTY_DAYS :: nat where "SIXTY_DAYS = 60 * 24 * 3600"

definition needs_renewal ::
  "(string \<Rightarrow> string \<Rightarrow> 'k result) \<Rightarrow> string \<Rightarrow> nat option \<Rightarrow> file_system \<Rightarrow> bool" where
  "needs_renewal parse_pair cache_dir age fs =
     (case load_certified_key parse_pair (path_join cache_dir CERT_NAME) (path_join cache_dir KEY_NAME) fs of
        Inr _ \<Rightarrow> (case age of Some a \<Rightarrow> a > SIXTY_DAYS | None \<Rightarrow> False)
      | Inl _ \<Rightarrow> True)"

definition acme_tick ::
  "(string \<Rightarrow> string \<Rightarrow> 'k result) \<Rightarrow> string \<Rightarrow> nat option \<times> 'k generated result \<Rightarrow> 'k resolver \<Rightarrow> 'k resolver" where
  "acme_tick parse_pair cache_dir e s =
     (if needs_renewal parse_pair cache_dir (fst e) (fst s)
      then install (request_certificate cache_dir (snd e) (fst s)) (snd s) else s)"

definition run_acme_renewal ::
  "(string \<Rightarrow> string \<Rightarrow> 'k result) \<Rightarrow> string \<Rightarrow> 'k generated result \<Rightarrow> (nat option \<times> 'k generated result) list
     \<Rightarrow> 'k resolver \<Rightarrow> 'k resolver" where
  "run_acme_renewal parse_pair cache_dir gen ticks s =
     fold (acme_tick parse_pair cache_dir) ticks (acme_initial cache_dir gen s)"

section \<open>Decoy page\<close>

text \<open>What the HTTP/3 library answers to one \<open>accept\<close>, with the results of the three sends.\<close>

datatype h3_event = H3Request bool bool bool | H3ResolveError | H3Closed | H3Error

record h3_response =
  h3_status :: nat
  h3_headers :: "(string \<times> string) list"
  h3_body :: "string option"
  h3_finished :: bool

definition decoy_headers :: "string \<Rightarrow> (string \<times> string) list" where
  "decoy_headers html =
     [(''server'', ''nginx/1.24.0''), (''content-type'', ''text/html''), (''content-length'', show_nat (length html))]"

fun decoy_loop :: "string \<Rightarrow> h3_event list \<Rightarrow> h3_response list" where
  "decoy_loop html [] = []"
| "decoy_loop html (H3Request head_ok body_ok finish_ok # es) =
     (if \<not> head_ok then []
      else
        let r = \<lparr>h3_status = 200, h3_headers = decoy_headers html, h3_body = None, h3_finished = False\<rparr> in
        if \<not> body_ok then [r]
        else let r = r\<lparr>h3_body := Some html\<rparr> in
        if \<not> finish_ok then [r] else r\<lparr>h3_finished := True\<rparr> # decoy_loop html es)"
| "decoy_loop html (_ # es) = []"

text \<open>\<open>default_html\<close> is the constant page; \<open>timed_out\<close> is whether thirty seconds passed first.\<close>

definition handle_http3_inner :: "string \<Rightarrow> (string \<rightharpoonup> string) \<Rightarrow> string \<Rightarrow> bool \<Rightarrow> h3_event list \<Rightarrow> h3_response list" where
  "handle_http3_inner default_html fs page_path build_ok es =
     (let html = (case read_to_string fs page_path of Inr content \<Rightarrow> content | Inl _ \<Rightarrow> default_html) in
      if \<not> build_ok then [] else decoy_loop html es)"

definition handle_http3 ::
  "string \<Rightarrow> (string \<rightharpoonup> string) \<Rightarrow> string \<Rightarrow> bool \<Rightarrow> bool \<Rightarrow> h3_event list \<Rightarrow> h3_response list \<times> (nat \<times> string) option" where
  "handle_http3 default_html fs page_path build_ok timed_out es =
     (handle_http3_inner default_html fs page_path build_ok es, if timed_out then Some (0, ''timeout'') else None)"

section \<open>Lemmas and properties\<close>

abbreviation cert_file :: "string \<Rightarrow> string" where "cert_file d \<equiv> path_join d CERT_NAME"
abbreviation key_file :: "string \<Rightarrow> string" where "key_file d \<equiv> path_join d KEY_NAME"

lemma cache_files_differ: "cert_file d \<noteq> key_file d" "key_file d \<noteq> cert_file d"
  by (auto simp: path_join_def CERT_NAME_def KEY_NAME_def)

lemma fs_read_write: "fs_write fs p s = Ok fs' \<Longrightarrow> fs_read fs' q = (if q = p then Ok s else fs_read fs q)"
  by (auto simp: fs_write_eq fs_read_def split: if_splits)

text \<open>The library reads back what it printed.\<close>

definition reads_back :: "(string \<Rightarrow> string \<Rightarrow> 'k result) \<Rightarrow> 'k generated result \<Rightarrow> bool" where
  "reads_back parse_pair gen \<longleftrightarrow> (\<forall>g. gen = Ok g \<longrightarrow> parse_pair (gen_cert_pem g) (gen_key_pem g) = Ok (gen_key g))"

lemma request_installs:
  assumes "reads_back parse_pair gen" "request_certificate d gen fs = (fs', Ok k)"
  shows "load_certified_key parse_pair (cert_file d) (key_file d) fs' = Ok k"
  using assms
  by (auto simp: request_certificate_def load_certified_key_def reads_back_def and_then_def fs_read_write cache_files_differ
      split: sum.splits)

text \<open>The two cache files can be written, or neither can.\<close>

definition both_or_none :: "string \<Rightarrow> file_system \<Rightarrow> bool" where
  "both_or_none d fs \<longleftrightarrow> (may_write fs (cert_file d) \<longleftrightarrow> may_write fs (key_file d))"

lemma request_keeps_pair:
  assumes "both_or_none d fs" "request_certificate d gen fs = (fs', Inl e)"
  shows "fs' = fs"
  using assms by (auto simp: request_certificate_def both_or_none_def fs_write_eq split: sum.splits if_splits)

lemma request_both: "both_or_none d fs \<Longrightarrow> both_or_none d (fst (request_certificate d gen fs))"
  by (auto simp: request_certificate_def both_or_none_def fs_write_eq split: sum.splits)

definition serves_cache :: "(string \<Rightarrow> string \<Rightarrow> 'k result) \<Rightarrow> string \<Rightarrow> 'k resolver \<Rightarrow> bool" where
  "serves_cache parse_pair d s \<longleftrightarrow>
     both_or_none d (fst s)
     \<and> (\<forall>k. load_certified_key parse_pair (cert_file d) (key_file d) (fst s) = Ok k \<longrightarrow> snd s = k)"

lemma install_serves:
  assumes "reads_back parse_pair gen" "serves_cache parse_pair d s"
  shows "serves_cache parse_pair d (install (request_certificate d gen (fst s)) (snd s))"
proof (cases "request_certificate d gen (fst s)")
  case (Pair fs' r)
  with assms request_installs [of parse_pair gen d "fst s" fs'] request_keeps_pair [of d "fst s" gen fs']
    request_both [of d "fst s" gen]
  show ?thesis by (cases r) (auto simp: install_def serves_cache_def)
qed

lemma acme_tick_serves:
  "reads_back parse_pair (snd e) \<Longrightarrow> serves_cache parse_pair d s \<Longrightarrow> serves_cache parse_pair d (acme_tick parse_pair d e s)"
  using install_serves [of parse_pair "snd e" d s] by (simp add: acme_tick_def)

lemma acme_ticks_serve:
  "\<forall>e \<in> set ticks. reads_back parse_pair (snd e) \<Longrightarrow> serves_cache parse_pair d s
     \<Longrightarrow> serves_cache parse_pair d (fold (acme_tick parse_pair d) ticks s)"
  by (induction ticks arbitrary: s) (simp_all add: acme_tick_serves)

text \<open>
  Claim C38. The key served is always the one in the cache, when the cache loads at all: a resolver that starts on the
  key its files hold (or on files that do not load) keeps serving the key of its files through the initial
  request and any number of renewals, failed ones included, as long as the two files can be written
  together.
\<close>

theorem acme_serves_cached_key:
  assumes "\<forall>g \<in> insert gen (snd ` set ticks). reads_back parse_pair g" "serves_cache parse_pair d s"
  shows "serves_cache parse_pair d (run_acme_renewal parse_pair d gen ticks s)"
proof -
  have "serves_cache parse_pair d (acme_initial d gen s)"
    using assms install_serves [of parse_pair gen d s] by (simp add: acme_initial_def)
  then show ?thesis using assms(1) by (simp add: run_acme_renewal_def acme_ticks_serve)
qed

definition sample_gen :: "nat generated" where
  "sample_gen = \<lparr>gen_cert_pem = ''C'', gen_key_pem = ''K'', gen_key = 7\<rparr>"

definition sample_parse :: "string \<Rightarrow> string \<Rightarrow> nat result" where
  "sample_parse c k = (if c = ''C'' \<and> k = ''K'' then Ok 7 else Err (Bail ''pem''))"

definition acme_fs :: file_system where
  "acme_fs = \<lparr>files = [], dirs = [''/etc/acme''], writable = \<lambda>_. True\<rparr>"

lemma sample_both: "both_or_none ''/etc/acme'' acme_fs"
  by (simp add: both_or_none_def may_write_def path_join_def CERT_NAME_def KEY_NAME_def acme_fs_def parent_def)

theorem acme_serves_cached_key_witness:
  "serves_cache sample_parse ''/etc/acme''
     (run_acme_renewal sample_parse ''/etc/acme'' (Ok sample_gen) [(Some (SIXTY_DAYS + 1), Ok sample_gen)] (acme_fs, 0))"
proof (rule acme_serves_cached_key)
  show "serves_cache sample_parse ''/etc/acme'' (acme_fs, 0)"
    using sample_both by (simp add: serves_cache_def load_certified_key_def fs_read_def acme_fs_def and_then_def)
qed (simp add: reads_back_def sample_gen_def sample_parse_def)

text \<open>
  When only the key file cannot be written, a request fails after it has replaced the certificate: the
  cache then holds the new certificate beside the old key, which the next start loads as a pair.
\<close>

theorem acme_mixed_pair:
  assumes "may_write fs (cert_file d)" "\<not> may_write fs (key_file d)" "fs_read fs (key_file d) = Ok old"
  shows "\<exists>fs' e. request_certificate d (Ok g) fs = (fs', Inl e)
     \<and> load_certified_key parse_pair (cert_file d) (key_file d) fs' = parse_pair (gen_cert_pem g) old"
  using assms
  by (auto simp: request_certificate_def fs_write_eq load_certified_key_def fs_read_def and_then_def cache_files_differ
      split: option.splits)

theorem acme_mixed_pair_witness:
  "\<exists>fs' e. request_certificate ''/etc/acme'' (Ok sample_gen)
       (acme_fs\<lparr>files := [(''/etc/acme/key.pem'', ''old'')], writable := \<lambda>p. p = ''/etc/acme/cert.pem''\<rparr>) = (fs', Inl e)
     \<and> load_certified_key (\<lambda>c k. Ok (c, k)) ''/etc/acme/cert.pem'' ''/etc/acme/key.pem'' fs' = Ok (''C'', ''old'')"
proof -
  let ?fs = "acme_fs\<lparr>files := [(''/etc/acme/key.pem'', ''old'')], writable := \<lambda>p. p = ''/etc/acme/cert.pem''\<rparr>"
  have paths: "cert_file ''/etc/acme'' = ''/etc/acme/cert.pem''" "key_file ''/etc/acme'' = ''/etc/acme/key.pem''"
    by (simp_all add: path_join_def CERT_NAME_def KEY_NAME_def)
  have "may_write ?fs (cert_file ''/etc/acme'')" "\<not> may_write ?fs (key_file ''/etc/acme'')"
    "fs_read ?fs (key_file ''/etc/acme'') = Ok ''old''"
    by (simp_all add: paths may_write_def acme_fs_def parent_def fs_read_def)
  from acme_mixed_pair [OF this, of sample_gen "\<lambda>c k. Ok (c, k)"] show ?thesis by (simp add: paths sample_gen_def)
qed

text \<open>
  A cached certificate that does not load is not requested at start-up, since its file exists: the
  placeholder is served until the first tick twelve hours later, which does request one.
\<close>

theorem acme_broken_cache_waits:
  assumes "fs_exists fs (cert_file d)" "load_certified_key parse_pair (cert_file d) (key_file d) fs = Inl e"
  shows "acme_initial d gen (fs, key) = (fs, key)
     \<and> acme_tick parse_pair d (age, gen) (fs, key) = install (request_certificate d gen fs) key"
  using assms by (simp add: acme_initial_def acme_tick_def needs_renewal_def)

theorem acme_broken_cache_waits_witness:
  "acme_initial ''/etc/acme'' (Ok sample_gen) (acme_fs\<lparr>files := [(''/etc/acme/cert.pem'', ''x'')]\<rparr>, 0)
     = (acme_fs\<lparr>files := [(''/etc/acme/cert.pem'', ''x'')]\<rparr>, 0)"
proof -
  let ?fs = "acme_fs\<lparr>files := [(''/etc/acme/cert.pem'', ''x'')]\<rparr>"
  have "fs_exists ?fs (cert_file ''/etc/acme'')"
    "load_certified_key sample_parse (cert_file ''/etc/acme'') (key_file ''/etc/acme'') ?fs = Inl (IoError ''/etc/acme/key.pem'')"
    by (simp_all add: path_join_def CERT_NAME_def KEY_NAME_def fs_exists_def load_certified_key_def fs_read_def and_then_def)
  from acme_broken_cache_waits [OF this, of "Ok sample_gen" 0] show ?thesis by simp
qed

text \<open>
  Every complete answer of the decoy is a page with status 200, the configured file's text (or the default
  page if the file cannot be read) and its true length, whatever is requested; answers stop at the first
  failure.
\<close>

theorem decoy_serves_page:
  assumes "r \<in> set (fst (handle_http3 default_html fs page_path build_ok timed_out es))"
  shows "h3_status r = 200
     \<and> (h3_body r = None \<or> h3_body r = Some (case read_to_string fs page_path of Inr c \<Rightarrow> c | Inl _ \<Rightarrow> default_html))
     \<and> (\<forall>b. h3_body r = Some b \<longrightarrow> (''content-length'', show_nat (length b)) \<in> set (h3_headers r))
     \<and> (h3_finished r \<longrightarrow> h3_body r \<noteq> None)"
proof -
  have "r \<in> set (decoy_loop html es) \<Longrightarrow>
     h3_status r = 200 \<and> (h3_body r = None \<or> h3_body r = Some html) \<and> h3_headers r = decoy_headers html
     \<and> (h3_finished r \<longrightarrow> h3_body r \<noteq> None)" for html
    by (induction html es rule: decoy_loop.induct) (auto simp: Let_def split: if_splits)
  with assms show ?thesis
    by (fastforce simp: handle_http3_def handle_http3_inner_def Let_def decoy_headers_def split: if_splits)
qed

theorem decoy_serves_page_witness:
  "\<exists>r. fst (handle_http3 ''<html>'' Map.empty ''/nope'' True False [H3Request True True True]) = [r]
     \<and> h3_status r = 200 \<and> h3_body r = Some ''<html>''"
proof -
  obtain r where r: "fst (handle_http3 ''<html>'' Map.empty ''/nope'' True False [H3Request True True True]) = [r]"
    "h3_finished r" by (simp add: handle_http3_def handle_http3_inner_def read_to_string_def Let_def)
  with decoy_serves_page [of r "''<html>''" Map.empty "''/nope''" True False "[H3Request True True True]"]
  show ?thesis by (auto simp: read_to_string_def)
qed

end
