(* ===== verification/Upload.thy ===== *)
theory Upload
  imports Tunnel Client
begin

text \<open>
  The upload task of the client's \<open>run_tunnel\<close>: packets read from the TUN device are handed to the transport
  and, on Unix, flushed after every batch of reads. The transport is an interface, a \<open>send\<close> and a \<open>flush\<close>
  with what is on the network and what is still buffered; it is interpreted on the buffered writer of TCP
  Reality and on QUIC datagrams.
\<close>

section \<open>The upload loops\<close>

datatype upload_error = UpRead string | UpSend transport_error

definition count_send :: "nat \<Rightarrow> send_result \<Rightarrow> stats \<Rightarrow> stats" where
  "count_send n r st =
     (case r of Sent \<Rightarrow> record_send st n | TooLarge \<Rightarrow> record_too_large st | Blocked \<Rightarrow> record_blocked st)"

text \<open>
  Unix: the inner loop after one wake-up. The result is the transport and counters, the number of packets
  sent, the reads not yet made and the error that ends the task, if any.
\<close>

fun tun2dg_batch ::
  "('c \<Rightarrow> bytes \<Rightarrow> 'c \<times> send_result tresult) \<Rightarrow> target_os \<Rightarrow> nat \<Rightarrow> tun_read list \<Rightarrow> 'c \<times> stats
     \<Rightarrow> ('c \<times> stats) \<times> nat \<times> tun_read list \<times> upload_error option" where
  "tun2dg_batch send os batch [] s = (s, batch, [], None)"
| "tun2dg_batch send os batch (rd # rs) s =
     (case rd of
        TunPacket raw \<Rightarrow>
          if length (tun_buf_read raw) > TUN_HDR os then
            let st = record_tun_read (snd s);
                ip_pkt = drop (TUN_HDR os) (tun_buf_read raw) in
            (case send (fst s) ip_pkt of
               (c, Inl e) \<Rightarrow> ((c, st), batch, rs, Some (UpSend e))
             | (c, Inr r) \<Rightarrow>
                 let s = (c, count_send (length ip_pkt) r st) in
                 if batch + 1 \<ge> MAX_TUN_BATCH then (s, batch + 1, rs, None)
                 else tun2dg_batch send os (batch + 1) rs s)
          else (s, batch, rs, None)
      | TunEmpty \<Rightarrow> (s, batch, rs, None)
      | TunAgain \<Rightarrow> (s, batch, rs, None)
      | TunError e \<Rightarrow> (s, batch, rs, Some (UpRead e)))"

lemma tun2dg_batch_rest:
  "tun2dg_batch send os b rs s = (s', n, rs', r) \<Longrightarrow> length rs' \<le> length rs \<and> (rs \<noteq> [] \<longrightarrow> length rs' < length rs)"
  by (induction send os b rs s arbitrary: s' n rs' r rule: tun2dg_batch.induct)
    (fastforce simp: Let_def split: tun_read.splits if_splits prod.splits sum.splits)+

text \<open>The outer loop: a batch that sent anything is flushed.\<close>

function run_tun2dg ::
  "('c \<Rightarrow> bytes \<Rightarrow> 'c \<times> send_result tresult) \<Rightarrow> ('c \<Rightarrow> 'c \<times> unit tresult) \<Rightarrow> target_os \<Rightarrow> tun_read list \<Rightarrow> 'c \<times> stats
     \<Rightarrow> ('c \<times> stats) \<times> upload_error option" where
  "run_tun2dg send flush os rs s =
     (if rs = [] then (s, None)
      else case tun2dg_batch send os 0 rs s of
        (s', n, rs', Some e) \<Rightarrow> (s', Some e)
      | (s', n, rs', None) \<Rightarrow>
          if n > 0 then
            (case flush (fst s') of
               (c, Inl e) \<Rightarrow> ((c, snd s'), Some (UpSend e))
             | (c, Inr _) \<Rightarrow> run_tun2dg send flush os rs' (c, snd s'))
          else run_tun2dg send flush os rs' s')"
  by pat_completeness auto
termination
  by (relation "measure (\<lambda>(send, flush, os, rs, s). length rs)") (auto dest: tun2dg_batch_rest [OF sym])

declare run_tun2dg.simps [simp del]

text \<open>
  Windows: a thread reads packets of any positive length into a channel and the task sends what comes out,
  without a flush. The result is the error that ends the task; a failed read only ends the thread.
\<close>

fun wintun_reader :: "(string + bytes) list \<Rightarrow> bytes list" where
  "wintun_reader [] = []"
| "wintun_reader (Inr pkt # rs) =
     (if take (TUN_MTU + 64) pkt \<noteq> [] then take (TUN_MTU + 64) pkt # wintun_reader rs else wintun_reader rs)"
| "wintun_reader (Inl e # rs) = []"

fun wintun2dg ::
  "('c \<Rightarrow> bytes \<Rightarrow> 'c \<times> send_result tresult) \<Rightarrow> bytes list \<Rightarrow> 'c \<times> stats \<Rightarrow> ('c \<times> stats) \<times> upload_error option" where
  "wintun2dg send [] s = (s, None)"
| "wintun2dg send (pkt # ps) s =
     (let st = record_tun_read (snd s) in
      case send (fst s) pkt of
        (c, Inl e) \<Rightarrow> ((c, st), Some (UpSend e))
      | (c, Inr r) \<Rightarrow> wintun2dg send ps (c, count_send (length pkt) r st))"

section \<open>The sending ends of two transports\<close>

text \<open>
  TCP Reality: \<open>io\<close> is the error of writing to or flushing the stream, if any; a failed write leaves what was
  sent before as it is.
\<close>

definition TcpReality_write :: "(tls_writer \<Rightarrow> string option) \<Rightarrow> tls_writer \<Rightarrow> bytes \<Rightarrow> tls_writer \<times> send_result tresult" where
  "TcpReality_write io w data =
     (if length data > MAX_FRAME_SIZE then (w, Inr TooLarge)
      else case io w of
        Some e \<Rightarrow> (w, Inl (ConnectionLost e))
      | None \<Rightarrow> (buf_write (u16_to_be (len_u16 data) @ data) w, Inr Sent))"

definition TcpReality_flush :: "(tls_writer \<Rightarrow> string option) \<Rightarrow> tls_writer \<Rightarrow> tls_writer \<times> unit tresult" where
  "TcpReality_flush io w = (case io w of Some e \<Rightarrow> (w, Inl (ConnectionLost e)) | None \<Rightarrow> (buf_flush w, Inr ()))"

text \<open>A stream that works.\<close>

definition stream_up :: "tls_writer \<Rightarrow> string option" where
  "stream_up w = None"

text \<open>QUIC: \<open>answer\<close> is what the connection says to a datagram; flushing is the trait's default.\<close>

definition QuicRaw_write :: "(bytes \<Rightarrow> send_datagram) \<Rightarrow> bytes list \<Rightarrow> bytes \<Rightarrow> bytes list \<times> send_result tresult" where
  "QuicRaw_write answer ds data = (if answer data = DgOk then ds @ [data] else ds, QuicRaw_send answer data)"

definition Transport_flush :: "'c \<Rightarrow> 'c \<times> unit tresult" where
  "Transport_flush c = (c, Inr ())"

section \<open>The interface of a buffered sender\<close>

text \<open>The packets of a sequence of reads, and reads a transport can serve.\<close>

definition upload_packet :: "target_os \<Rightarrow> tun_read \<Rightarrow> bytes list" where
  "upload_packet os rd =
     (case rd of
        TunPacket raw \<Rightarrow> if length (tun_buf_read raw) > TUN_HDR os then [drop (TUN_HDR os) (tun_buf_read raw)] else []
      | _ \<Rightarrow> [])"

definition upload_packets :: "target_os \<Rightarrow> tun_read list \<Rightarrow> bytes list" where
  "upload_packets os rs = concat (map (upload_packet os) rs)"

definition sendable :: "target_os \<Rightarrow> (bytes \<Rightarrow> bool) \<Rightarrow> tun_read list \<Rightarrow> bool" where
  "sendable os carries rs \<longleftrightarrow>
     (\<forall>rd \<in> set rs. case rd of TunPacket raw \<Rightarrow> carries (drop (TUN_HDR os) (tun_buf_read raw)) | TunError _ \<Rightarrow> False | _ \<Rightarrow> True)"

text \<open>
  \<open>wire\<close> is what the network has, \<open>held\<close> what waits in a buffer, \<open>enc\<close> how a packet is written. Sending a packet
  the transport carries appends it to what was written before, and flushing empties the buffer onto the
  network.
\<close>

locale buffered_sender =
  fixes send :: "'c \<Rightarrow> bytes \<Rightarrow> 'c \<times> send_result tresult"
    and flush :: "'c \<Rightarrow> 'c \<times> unit tresult"
    and wire :: "'c \<Rightarrow> 'x list"
    and held :: "'c \<Rightarrow> 'x list"
    and enc :: "bytes \<Rightarrow> 'x list"
    and carries :: "bytes \<Rightarrow> bool"
  assumes send_law: "carries p \<Longrightarrow> \<exists>c'. send c p = (c', Inr Sent) \<and> wire c' @ held c' = wire c @ held c @ enc p"
    and flush_law: "\<exists>c'. flush c = (c', Inr ()) \<and> wire c' = wire c @ held c \<and> held c' = []"
begin

lemma batch_sends:
  assumes "tun2dg_batch send os b rs s = (s', n, rs', r)" "sendable os carries rs"
  shows "r = None \<and> (\<exists>ds. rs = ds @ rs' \<and> b \<le> n \<and> (n = b \<longrightarrow> fst s' = fst s)
     \<and> wire (fst s') @ held (fst s') = wire (fst s) @ held (fst s) @ concat (map enc (upload_packets os ds)))"
  using assms
proof (induction rs arbitrary: b s)
  case (Cons rd rs)
  show ?case
  proof (cases "upload_packet os rd")
    case Nil
    with Cons.prems have "s' = s" "n = b" "rs' = rs" "r = None"
      by (auto simp: upload_packet_def sendable_def split: tun_read.splits if_splits)
    with Nil show ?thesis by (intro conjI exI [of _ "[rd]"]) (auto simp: upload_packets_def)
  next
    case (Cons pkt pkts)
    then obtain raw where rd: "rd = TunPacket raw" "length (tun_buf_read raw) > TUN_HDR os"
      "upload_packet os rd = [drop (TUN_HDR os) (tun_buf_read raw)]" (is "_ = [?p]")
      by (auto simp: upload_packet_def split: tun_read.splits if_splits)
    have "carries ?p" using Cons.prems(2) rd by (auto simp: sendable_def)
    with send_law obtain c where c: "send (fst s) ?p = (c, Inr Sent)"
      "wire c @ held c = wire (fst s) @ held (fst s) @ enc ?p" by blast
    let ?s = "(c, record_send (record_tun_read (snd s)) (length ?p))"
    show ?thesis
    proof (cases "b + 1 \<ge> MAX_TUN_BATCH")
      case True
      with Cons.prems(1) rd(1,2) c(1) have "s' = ?s" "n = b + 1" "rs' = rs" "r = None" by (auto simp: Let_def count_send_def)
      with c(2) rd(3) show ?thesis by (intro conjI exI [of _ "[rd]"]) (auto simp: upload_packets_def)
    next
      case False
      with Cons.prems(1) rd(1,2) c(1) have "tun2dg_batch send os (b + 1) rs ?s = (s', n, rs', r)"
        by (auto simp: Let_def count_send_def)
      from Cons.IH [OF this] Cons.prems(2) obtain ds where "r = None" "rs = ds @ rs'" "b + 1 \<le> n"
        "wire (fst s') @ held (fst s') = wire c @ held c @ concat (map enc (upload_packets os ds))"
        by (auto simp: sendable_def)
      with c(2) rd(3) show ?thesis by (intro conjI exI [of _ "rd # ds"]) (auto simp: upload_packets_def)
    qed
  qed
qed (auto simp: upload_packets_def)

text \<open>Nothing is lost, reordered or left in the buffer when the task waits for the device.\<close>

lemma upload_delivers:
  assumes "run_tun2dg send flush os rs s = (s', r)" "sendable os carries rs" "held (fst s) = []"
  shows "r = None \<and> held (fst s') = [] \<and> wire (fst s') = wire (fst s) @ concat (map enc (upload_packets os rs))"
  using assms
proof (induction "length rs" arbitrary: rs s rule: less_induct)
  case less
  show ?case
  proof (cases "rs = []")
    case True
    with less.prems show ?thesis by (simp add: run_tun2dg.simps upload_packets_def)
  next
    case False
    obtain s1 n rs' e where b: "tun2dg_batch send os 0 rs s = (s1, n, rs', e)" by (metis prod_cases4)
    from batch_sends [OF b less.prems(2)] obtain ds where e: "e = None" and ds: "rs = ds @ rs'"
      and idle: "n = 0 \<longrightarrow> fst s1 = fst s"
      and w: "wire (fst s1) @ held (fst s1) = wire (fst s) @ concat (map enc (upload_packets os ds))"
      using less.prems(3) by auto
    obtain c where c: "flush (fst s1) = (c, Inr ())" "wire c = wire (fst s1) @ held (fst s1)" "held c = []"
      using flush_law by blast
    have shorter: "length rs' < length rs" using tun2dg_batch_rest [OF b] False by simp
    have rest: "sendable os carries rs'" using less.prems(2) ds by (simp add: sendable_def)
    show ?thesis
    proof (cases "n = 0")
      case True
      with b e less.prems(1) False have "run_tun2dg send flush os rs' s1 = (s', r)" by (subst (asm) run_tun2dg.simps) simp
      from less.hyps [OF shorter this rest] True idle w less.prems(3) ds show ?thesis by (auto simp: upload_packets_def)
    next
      case False
      with b e c less.prems(1) \<open>rs \<noteq> []\<close> have "run_tun2dg send flush os rs' (c, snd s1) = (s', r)"
        by (subst (asm) run_tun2dg.simps) simp
      from less.hyps [OF shorter this rest] c w ds show ?thesis by (auto simp: upload_packets_def)
    qed
  qed
qed

end

text \<open>The TCP writer and QUIC datagrams.\<close>

interpretation tcp_upload: buffered_sender "TcpReality_write stream_up" "TcpReality_flush stream_up" tw_wire tw_buf
  "\<lambda>p. u16_to_be (len_u16 p) @ p" "\<lambda>p. length p \<le> MAX_FRAME_SIZE"
proof unfold_locales
  fix p :: bytes and c :: tls_writer assume "length p \<le> MAX_FRAME_SIZE"
  then show "\<exists>c'. TcpReality_write stream_up c p = (c', Inr Sent) \<and> tw_wire c' @ tw_buf c' = tw_wire c @ tw_buf c @ u16_to_be (len_u16 p) @ p"
    using buf_write_bytes [of "u16_to_be (len_u16 p) @ p" c] by (simp add: TcpReality_write_def stream_up_def)
qed (simp add: TcpReality_flush_def stream_up_def buf_flush_def)

interpretation quic_upload: buffered_sender "QuicRaw_write answer" Transport_flush "\<lambda>ds. ds" "\<lambda>_. []"
  "\<lambda>p. [p]" "\<lambda>p. answer p = DgOk" for answer
  by unfold_locales (simp_all add: QuicRaw_write_def QuicRaw_send_def Transport_flush_def)

section \<open>Properties\<close>

lemma upload_packet_bounds: "p \<in> set (upload_packets os rs) \<Longrightarrow> p \<noteq> [] \<and> length p \<le> TUN_MTU + 4"
  by (auto simp: upload_packets_def upload_packet_def tun_buf_read_def split: tun_read.splits if_splits)

definition no_read_error :: "tun_read list \<Rightarrow> bool" where
  "no_read_error rs \<longleftrightarrow> (\<forall>rd \<in> set rs. case rd of TunError _ \<Rightarrow> False | _ \<Rightarrow> True)"

lemma sendable_frames: "no_read_error rs \<Longrightarrow> sendable os (\<lambda>p. length p \<le> MAX_FRAME_SIZE) rs"
  by (auto simp: no_read_error_def sendable_def tun_buf_read_def MAX_FRAME_SIZE_def TUN_MTU_def split: tun_read.splits)

text \<open>
  Uploads over TCP Reality, the upload task alone: as long as reads of the device and writes to the stream succeed, the task never ends,
  leaves nothing in its buffer when it waits for the device, and the server's loop on the stream writes to
  its device exactly the packets read that carry the client's address, in order and unchanged (with no
  bandwidth limit); the reads are grouped in batches in any way.
\<close>

theorem tcp_upload_delivers:
  assumes "no_read_error rs" "run_tun2dg (TcpReality_write stream_up) (TcpReality_flush stream_up) os rs (tls_writer_new, st) = (s, r)"
  shows "r = None \<and> tw_buf (fst s) = []
     \<and> tls2tun_loop ip (\<lambda>n u. (u, True)) (tw_wire (fst s)) u []
        = (u, filter (\<lambda>p. validate_source_ip p ip) (upload_packets os rs), IoError ''unexpected end of file'')"
proof -
  have frame: "(\<lambda>p. u16_to_be (len_u16 p) @ p) = tcp_frame" by (simp add: fun_eq_iff tcp_frame_def)
  from tcp_upload.upload_delivers [OF assms(2) sendable_frames [OF assms(1)]]
  have d: "r = None" "tw_buf (fst s) = []" "tw_wire (fst s) = concat (map tcp_frame (upload_packets os rs))"
    by (simp_all add: tls_writer_new_def frame)
  have "list_all tcp_carries (upload_packets os rs)"
    using upload_packet_bounds [of _ os rs] by (force simp: list_all_iff tcp_carries_def MAX_FRAME_SIZE_def TUN_MTU_def)
  from tls2tun_frames [OF this, of ip u "[]"] d show ?thesis by simp
qed

text \<open>
  A stream that fails ends the task at the first packet it is given: the error is the connection's, the
  packet is counted as read and not as sent, and nothing after it is read.
\<close>

theorem tcp_upload_stops:
  assumes "\<And>w. io w = Some e" "length (tun_buf_read raw) > TUN_HDR os"
  shows "run_tun2dg (TcpReality_write io) (TcpReality_flush io) os (TunPacket raw # rs) (w, st)
     = ((w, record_tun_read st), Some (UpSend (ConnectionLost e)))"
proof -
  have "length (tun_buf_read raw) - TUN_HDR os \<le> MAX_FRAME_SIZE"
    by (simp add: tun_buf_read_def MAX_FRAME_SIZE_def TUN_MTU_def)
  then show ?thesis using assms by (simp add: run_tun2dg.simps TcpReality_write_def Let_def)
qed

definition upload_sample :: bytes where
  "upload_sample = 0x45 # replicate 11 0 @ [10, 0, 1, 5] @ replicate 4 0"

theorem tcp_upload_delivers_witness:
  "\<exists>s. run_tun2dg (TcpReality_write stream_up) (TcpReality_flush stream_up) Linux [TunPacket upload_sample, TunAgain] (tls_writer_new, Stats_new) = (s, None)
     \<and> fst (snd (tls2tun_loop (Ipv4Addr 10 0 1 5) (\<lambda>n u. (u, True)) (tw_wire (fst s)) () [])) = [upload_sample]"
proof -
  let ?rs = "[TunPacket upload_sample, TunAgain]"
  obtain s r where run: "run_tun2dg (TcpReality_write stream_up) (TcpReality_flush stream_up) Linux ?rs (tls_writer_new, Stats_new) = (s, r)" by fastforce
  have "no_read_error ?rs" by (simp add: no_read_error_def)
  note up = tcp_upload_delivers [OF this run, of "Ipv4Addr 10 0 1 5" "()"]
  have "upload_packets Linux ?rs = [upload_sample]"
    by (simp add: upload_packets_def upload_packet_def upload_sample_def TUN_HDR_def tun_buf_read_def TUN_MTU_def)
  moreover have "validate_source_ip upload_sample (Ipv4Addr 10 0 1 5)"
    by (simp add: upload_sample_def validate_source_ip_def ip_version_def version_nibble_def nth_append)
  ultimately show ?thesis using up run by auto
qed

theorem tcp_upload_stops_witness:
  "snd (run_tun2dg (TcpReality_write (\<lambda>_. Some ''reset'')) (TcpReality_flush (\<lambda>_. Some ''reset'')) Linux [TunPacket upload_sample]
      (tls_writer_new, Stats_new)) = Some (UpSend (ConnectionLost ''reset''))"
  using tcp_upload_stops [of "\<lambda>_. Some ''reset''" "''reset''" Linux upload_sample "[]" tls_writer_new Stats_new]
  by (simp add: upload_sample_def TUN_HDR_def tun_buf_read_def TUN_MTU_def)

lemma wintun_holds:
  "length (tw_buf c) + length (concat (map tcp_frame ps)) < 65536 \<Longrightarrow> list_all tcp_carries ps \<Longrightarrow>
   \<exists>st'. wintun2dg (TcpReality_write stream_up) ps (c, st) = ((c\<lparr>tw_buf := tw_buf c @ concat (map tcp_frame ps)\<rparr>, st'), None)"
proof (induction ps arbitrary: c st)
  case (Cons p ps)
  have "TcpReality_write stream_up c p = (c\<lparr>tw_buf := tw_buf c @ tcp_frame p\<rparr>, Inr Sent)"
    using Cons.prems by (auto simp: TcpReality_write_def stream_up_def buf_write_def tcp_frame_def tcp_carries_def Let_def)
  with Cons.IH [of "c\<lparr>tw_buf := tw_buf c @ tcp_frame p\<rparr>"] Cons.prems show ?case by (simp add: Let_def)
qed simp

lemma wintun_reader_carries: "list_all tcp_carries (wintun_reader rs)"
  by (induction rs rule: wintun_reader.induct) (auto simp: tcp_carries_def MAX_FRAME_SIZE_def TUN_MTU_def)

text \<open>
  On Windows the upload task never flushes its transport: over TCP Reality the packets stay in the 64 KiB
  buffer, and nothing at all is on the network until that much has been read.
\<close>

theorem windows_upload_unflushed:
  assumes "length (concat (map tcp_frame (wintun_reader rs))) < 65536"
  shows "\<exists>st'. wintun2dg (TcpReality_write stream_up) (wintun_reader rs) (tls_writer_new, st)
     = ((tls_writer_new\<lparr>tw_buf := concat (map tcp_frame (wintun_reader rs))\<rparr>, st'), None)
     \<and> tw_wire (tls_writer_new\<lparr>tw_buf := concat (map tcp_frame (wintun_reader rs))\<rparr>) = []"
  using wintun_holds [of tls_writer_new "wintun_reader rs" st] assms wintun_reader_carries [of rs]
  by (simp add: tls_writer_new_def)

theorem windows_upload_unflushed_witness:
  "tw_wire (fst (fst (wintun2dg (TcpReality_write stream_up) (wintun_reader [Inr upload_sample]) (tls_writer_new, Stats_new)))) = []"
  using windows_upload_unflushed [of "[Inr upload_sample]" Stats_new]
  by (auto simp: upload_sample_def tcp_frame_def TUN_MTU_def)

end
