(* ===== verification/Startup.thy ===== *)
theory Startup
  imports Server Firewall Device
begin

text \<open>
  What the server does to its host: the part of \<open>main\<close> that creates the TUN device and configures interface,
  forwarding, NAT and MSS clamping, and the end of \<open>main\<close> that undoes it. The host is the state commands
  act on, the files and the open descriptors.
\<close>

section \<open>Host and errors\<close>

record 'w os_host =
  sh_net :: 'w
  sh_files :: file_system
  sh_fds :: fds

datatype startup_error = StartTun tun_error | StartRoute route_error | StartErr anyhow | StartPanic

text \<open>The system calls of device creation, of the MTU request, and whether the build has the \<open>xdp\<close> feature.\<close>

record server_sys =
  sv_tun :: tun_sys
  sv_socket :: "string + nat"
  sv_ioctl :: "string \<Rightarrow> int \<Rightarrow> string + unit"
  sv_xdp :: bool

text \<open>\<open>?\<close> on the host; a result of \<open>None\<close> is a loop that does not end.\<close>

type_synonym ('w, 'a) startup = "('w os_host \<times> (startup_error + 'a)) option"

definition up_then :: "'w os_host \<times> (startup_error + 'a) \<Rightarrow> ('w os_host \<Rightarrow> 'a \<Rightarrow> ('w, 'b) startup) \<Rightarrow> ('w, 'b) startup" where
  "up_then m f = (case m of (h, Inl e) \<Rightarrow> Some (h, Inl e) | (h, Inr x) \<Rightarrow> f h x)"

definition on_net :: "('w, 'a) host \<Rightarrow> 'w os_host \<Rightarrow> 'w os_host \<times> (startup_error + 'a)" where
  "on_net m h = (case m (sh_net h) of (w, r) \<Rightarrow> (h\<lparr>sh_net := w\<rparr>, map_sum StartRoute id r))"

definition on_files :: "(file_system, 'a) host \<Rightarrow> 'w os_host \<Rightarrow> 'w os_host \<times> (startup_error + 'a)" where
  "on_files m h = (case m (sh_files h) of (fs, r) \<Rightarrow> (h\<lparr>sh_files := fs\<rparr>, map_sum StartRoute id r))"

definition on_fds :: "(fds \<Rightarrow> fds \<times> (tun_error + 'a)) \<Rightarrow> 'w os_host \<Rightarrow> 'w os_host \<times> (startup_error + 'a)" where
  "on_fds m h = (case m (sh_fds h) of (fds, r) \<Rightarrow> (h\<lparr>sh_fds := fds\<rparr>, map_sum StartTun id r))"

section \<open>Start-up and shutdown\<close>

definition server_subnet :: "server_config \<Rightarrow> string \<Rightarrow> string" where
  "server_subnet config base = base @ ''/'' @ show_nat (unat (srv_tun_prefix_len config))"

text \<open>MSS clamping may not return; its error is passed on, and the queue settings are best effort.\<close>

definition server_mss_up :: "'w exec \<Rightarrow> server_config \<Rightarrow> string \<Rightarrow> 'w os_host \<Rightarrow> ('w, unit) startup" where
  "server_mss_up ex config dev h =
     (case setup_mss_clamping_linux ex dev (srv_mtu config) (sh_net h) of
        None \<Rightarrow> None
      | Some (w, Inl e) \<Rightarrow> Some (h\<lparr>sh_net := w\<rparr>, Inl (StartRoute e))
      | Some (w, Inr _) \<Rightarrow> Some (h\<lparr>sh_net := configure_tun_performance ex dev 10000 w\<rparr>, Inr ()))"

definition server_network_up :: "'w exec \<Rightarrow> server_config \<Rightarrow> string \<Rightarrow> 'w os_host \<Rightarrow> ('w, unit) startup" where
  "server_network_up ex config dev h =
     (case parse_ipv4 (srv_tun_address config) of
        None \<Rightarrow> Some (h, Inl (StartErr (ParseError ''AddrParseError'')))
      | Some server_ip \<Rightarrow>
          up_then (on_net (configure_interface_linux ex dev server_ip (srv_tun_prefix_len config)) h) (\<lambda>h _.
          up_then (on_files enable_ip_forwarding_linux h) (\<lambda>h _.
          case subnet_from_config config of
            None \<Rightarrow> Some (h, Inl StartPanic)
          | Some base \<Rightarrow>
              up_then (if nat_enabled (srv_nat config)
                       then on_net (setup_nat_linux ex (server_subnet config base) (nat_interface (srv_nat config))) h
                       else (h, Inr ())) (\<lambda>h _. server_mss_up ex config dev h))))"

text \<open>An error after the creation of the device drops the device.\<close>

definition drop_on_error :: "tun_device \<Rightarrow> ('w, 'a) startup \<Rightarrow> ('w, 'a) startup" where
  "drop_on_error tun m =
     (case m of
        Some (h, Inl e) \<Rightarrow> Some (h\<lparr>sh_fds := TunDevice_drop tun (sh_fds h)\<rparr>, Inl e)
      | _ \<Rightarrow> m)"

definition startup_map :: "('a \<Rightarrow> 'b) \<Rightarrow> ('w, 'a) startup \<Rightarrow> ('w, 'b) startup" where
  "startup_map f m = map_option (map_prod id (map_sum id f)) m"

definition server_up :: "server_sys \<Rightarrow> 'w exec \<Rightarrow> server_config \<Rightarrow> 'w os_host \<Rightarrow> ('w, tun_device) startup" where
  "server_up sys ex config h =
     up_then (on_fds (TunDevice_create_linux (sv_tun sys) (srv_tun_name config)) h) (\<lambda>h tun.
       startup_map (\<lambda>_. tun) (drop_on_error tun
         (up_then (on_fds (set_mtu_linux (sv_socket sys) (sv_ioctl sys) tun (srv_mtu config)) h) (\<lambda>h _.
            server_network_up ex config (td_name tun) h))))"

definition server_down :: "server_sys \<Rightarrow> 'w exec \<Rightarrow> server_config \<Rightarrow> string \<Rightarrow> tun_device \<Rightarrow> 'w os_host \<Rightarrow> 'w os_host" where
  "server_down sys ex config subnet tun h =
     (let w = sh_net h;
          w = (if sv_xdp sys then cleanup_notrack_iptables ex w else w);
          w = (if nat_enabled (srv_nat config) then fst (cleanup_nat_linux ex subnet (nat_interface (srv_nat config)) w) else w);
          w = cleanup_mss_clamping_linux ex (td_name tun) (srv_mtu config) w in
      h\<lparr>sh_net := w, sh_fds := TunDevice_drop tun (sh_fds h)\<rparr>)"

section \<open>What successful start-up did\<close>

text \<open>When a step of the start-up succeeds.\<close>

named_theorems startup_ok

lemma up_then_Ok [startup_ok]: "up_then m f = Some (h, Inr x) \<longleftrightarrow> (\<exists>h' y. m = (h', Inr y) \<and> f h' y = Some (h, Inr x))"
  by (auto simp: up_then_def split: prod.splits sum.splits)

lemma startup_bind_Ok [startup_ok]:
  "Option.bind m (\<lambda>r. up_then r f) = Some (h, Inr x) \<longleftrightarrow> (\<exists>h' y. m = Some (h', Inr y) \<and> f h' y = Some (h, Inr x))"
  by (cases m) (auto simp: up_then_Ok)

lemma on_net_Ok [startup_ok]: "on_net m h = (h', Inr y) \<longleftrightarrow> (\<exists>w. m (sh_net h) = (w, Inr y) \<and> h' = h\<lparr>sh_net := w\<rparr>)"
  by (cases "m (sh_net h)"; cases "snd (m (sh_net h))") (auto simp: on_net_def)

lemma on_files_Ok: "on_files m h = (h', Inr y) \<Longrightarrow> sh_net h' = sh_net h \<and> sh_fds h' = sh_fds h"
  by (auto simp: on_files_def split: prod.splits)

lemma on_fds_net: "on_fds m h = (h', r) \<Longrightarrow> sh_net h' = sh_net h \<and> sh_fds h' = fst (m (sh_fds h))"
  by (auto simp: on_fds_def split: prod.splits)

lemma on_fds_Ok: "on_fds m h = (h', Inr y) \<Longrightarrow> m (sh_fds h) = (sh_fds h', Inr y)"
  by (cases "m (sh_fds h)"; cases "snd (m (sh_fds h))") (auto simp: on_fds_def)

lemma startup_map_Ok [startup_ok]:
  "startup_map f m = Some (h, Inr y) \<longleftrightarrow> (\<exists>x. m = Some (h, Inr x) \<and> y = f x)"
proof (cases m)
  case (Some p)
  then show ?thesis by (cases p; cases "snd p") (auto simp: startup_map_def)
qed (simp add: startup_map_def)

lemma startup_map_simps [simp]:
  "startup_map f (Some (h, Inl e)) = Some (h, Inl e)" "startup_map f (Some (h, Inr x)) = Some (h, Inr (f x))"
  "startup_map f None = None"
  by (simp_all add: startup_map_def)

lemma map_sum_Ok [startup_ok]: "map_sum f id r = Inr y \<longleftrightarrow> r = Inr y"
  by (cases r) auto

lemma drop_on_error_Ok [startup_ok]: "drop_on_error tun m = Some (h, Inr x) \<longleftrightarrow> m = Some (h, Inr x)"
  by (auto simp: drop_on_error_def split: option.splits sum.splits)

lemma drop_on_error_simps [simp]:
  "drop_on_error tun (Some (h, Inl e)) = Some (h\<lparr>sh_fds := TunDevice_drop tun (sh_fds h)\<rparr>, Inl e)"
  "drop_on_error tun (Some (h, Inr x)) = Some (h, Inr x)" "drop_on_error tun None = None"
  by (simp_all add: drop_on_error_def)

lemma on_fds_Err: "on_fds m h = (h', Inl e) \<Longrightarrow> \<exists>e'. m (sh_fds h) = (sh_fds h', Inl e')"
  by (cases "m (sh_fds h)"; cases "snd (m (sh_fds h))") (auto simp: on_fds_def)

lemma server_up_Ok:
  "server_up sys ex config h = Some (h', Inr tun) \<longleftrightarrow>
     (\<exists>h1 h2. on_fds (TunDevice_create_linux (sv_tun sys) (srv_tun_name config)) h = (h1, Inr tun)
        \<and> on_fds (set_mtu_linux (sv_socket sys) (sv_ioctl sys) tun (srv_mtu config)) h1 = (h2, Inr ())
        \<and> server_network_up ex config (td_name tun) h2 = Some (h', Inr ()))"
  unfolding server_up_def startup_ok by auto

lemma server_mss_up_Ok:
  assumes "server_mss_up ex config dev h = Some (h', Inr ())"
  shows "\<exists>w. setup_mss_clamping_linux ex dev (srv_mtu config) (sh_net h) = Some (w, Inr ())
     \<and> sh_net h' = configure_tun_performance ex dev 10000 w \<and> sh_fds h' = sh_fds h"
  using assms by (auto simp: server_mss_up_def split: option.splits sum.splits)

text \<open>The commands of a successful start-up, in order.\<close>

lemma server_network_up_Ok:
  assumes "server_network_up ex config dev h = Some (h', Inr ())" "subnet_from_config config = Some base"
  shows "\<exists>server_ip w1 w2 w3. configure_interface_linux ex dev server_ip (srv_tun_prefix_len config) (sh_net h) = (w1, Inr ())
     \<and> (if nat_enabled (srv_nat config)
        then setup_nat_linux ex (server_subnet config base) (nat_interface (srv_nat config)) w1 = (w2, Inr ()) else w2 = w1)
     \<and> setup_mss_clamping_linux ex dev (srv_mtu config) w2 = Some (w3, Inr ())
     \<and> sh_net h' = configure_tun_performance ex dev 10000 w3 \<and> sh_fds h' = sh_fds h"
proof -
  from assms obtain ip h1 h2 h3 where ip: "parse_ipv4 (srv_tun_address config) = Some ip"
    and h1: "on_net (configure_interface_linux ex dev ip (srv_tun_prefix_len config)) h = (h1, Inr ())"
    and h2: "on_files enable_ip_forwarding_linux h1 = (h2, Inr ())"
    and h3: "(if nat_enabled (srv_nat config)
       then on_net (setup_nat_linux ex (server_subnet config base) (nat_interface (srv_nat config))) h2
       else (h2, Inr ())) = (h3, Inr ())"
    and h': "server_mss_up ex config dev h3 = Some (h', Inr ())"
    by (auto simp: server_network_up_def up_then_Ok split: option.splits)
  from h3 have "(if nat_enabled (srv_nat config)
        then setup_nat_linux ex (server_subnet config base) (nat_interface (srv_nat config)) (sh_net h2) = (sh_net h3, Inr ())
        else sh_net h3 = sh_net h2) \<and> sh_fds h3 = sh_fds h2"
    by (auto simp: on_net_Ok split: if_splits)
  with h1 on_files_Ok [OF h2] server_mss_up_Ok [OF h'] show ?thesis
    by (auto simp: on_net_Ok split: if_splits)
qed

lemma server_network_up_fds: "server_network_up ex config dev h = Some (h', r) \<Longrightarrow> sh_fds h' = sh_fds h"
  by (auto simp: server_network_up_def server_mss_up_def up_then_def on_net_def on_files_def
      split: option.splits prod.splits sum.splits if_splits)

lemma create_linux_fds:
  "TunDevice_create_linux io name fds = (fds', Inr d) \<Longrightarrow> sys_open io = Inr (td_fd d) \<and> fds' = insert (td_fd d) fds"
  by (auto simp: create_defs fd_open_def fd_close_def split: sum.splits if_splits)

lemma create_linux_error_fds:
  "TunDevice_create_linux io name fds = (fds', Inl e) \<Longrightarrow> CHR 0x00 \<notin> set name \<Longrightarrow>
   \<forall>fd. sys_open io = Inr fd \<longrightarrow> fd \<notin> fds \<Longrightarrow> fds' = fds"
  by (auto simp: create_defs fd_open_def fd_close_def split: sum.splits if_splits)

lemma set_mtu_linux_fds:
  assumes "\<forall>s. socket = Inr s \<longrightarrow> s \<notin> fds" shows "fst (set_mtu_linux socket ioctl d mtu fds) = fds"
  using assms by (auto simp: set_mtu_linux_def fd_open_def fd_close_def Let_def split: sum.splits)

section \<open>Commands that leave a chain alone\<close>

text \<open>
  The other commands the server runs, on the interface and its queue, on the \<open>FORWARD\<close> chain of the filter
  table, and on the mangle and raw tables: each leaves the \<open>POSTROUTING\<close> chain of the NAT table as it is.
\<close>

definition interface_cmd :: "string \<Rightarrow> string list \<Rightarrow> bool" where
  "interface_cmd program args \<longleftrightarrow>
     program = ''ip'' \<and> (\<exists>dev a. args = [''addr'', ''add'', a, ''dev'', dev] \<or> args = [''link'', ''set'', dev, ''up'']
         \<or> args = [''link'', ''set'', dev, ''txqueuelen'', a])
     \<or> program = ''tc'' \<and> (\<exists>dev. args = [''qdisc'', ''replace'', ''dev'', dev, ''root'', ''noqueue''])"

definition mangle_cmd :: "string \<Rightarrow> string list \<Rightarrow> bool" where
  "mangle_cmd program args \<longleftrightarrow>
     program = ''iptables'' \<and> (\<exists>op \<in> {''-A'', ''-D''}. \<exists>dev mtu. \<exists>spec \<in> set mss_specs. args = mss_args op dev mtu spec)
     \<or> program = ''nft'' \<and> (\<exists>chain \<in> {''FORWARD'', ''OUTPUT''}. args = [''-a'', ''list'', ''chain'', ''ip'', ''mangle'', chain]
         \<or> (\<exists>h. args = snd (delete_handle ''mangle'' chain h)))"

definition raw_cmd :: "string \<Rightarrow> string list \<Rightarrow> bool" where
  "raw_cmd program args \<longleftrightarrow> program = ''iptables'' \<and> (\<exists>op \<in> {''-A'', ''-D''}. args = notrack_in op \<or> args = notrack_out op)"

definition other_cmd :: "string \<Rightarrow> string list \<Rightarrow> bool" where
  "other_cmd program args \<longleftrightarrow>
     interface_cmd program args \<or> (\<exists>wan. forward_cmd wan program args) \<or> mangle_cmd program args \<or> raw_cmd program args"

definition others_keep :: "'w exec \<Rightarrow> ('w \<Rightarrow> nft_rule list) \<Rightarrow> bool" where
  "others_keep ex rs \<longleftrightarrow> (\<forall>program args w. other_cmd program args \<longrightarrow> rs (fst (ex program args [] w)) = rs w)"

text \<open>Deleting a masquerade rule by its text changes nothing when no such rule is there.\<close>

definition deletes_masquerade :: "'w exec \<Rightarrow> string \<Rightarrow> string \<Rightarrow> ('w \<Rightarrow> nft_rule list) \<Rightarrow> bool" where
  "deletes_masquerade ex subnet wan rs \<longleftrightarrow>
     (\<forall>w. (\<forall>r \<in> set (rs w). \<not> masquerade_line subnet (show_rule r)) \<longrightarrow>
        rs (fst (ex ''iptables'' (masquerade_args ''-D'' subnet wan) [] w)) = rs w)"

lemmas other_cmd_defs = other_cmd_def interface_cmd_def mangle_cmd_def raw_cmd_def forward_cmd_def

lemma interface_cmds:
  "interface_cmd ''ip'' [''addr'', ''add'', a, ''dev'', dev]" "interface_cmd ''ip'' [''link'', ''set'', dev, ''up'']"
  "interface_cmd ''ip'' [''link'', ''set'', dev, ''txqueuelen'', a]"
  "interface_cmd ''tc'' [''qdisc'', ''replace'', ''dev'', dev, ''root'', ''noqueue'']"
  by (simp_all add: interface_cmd_def)

lemma forward_cmds:
  assumes "op \<in> {''-A'', ''-D''}"
  shows "forward_cmd wan ''iptables'' (forward_in_args op wan)" "forward_cmd wan ''iptables'' (forward_out_args op wan)"
  using assms by (simp_all only: forward_cmd_def) blast+

lemma mangle_cmds:
  assumes "op \<in> {''-A'', ''-D''}" "spec \<in> set mss_specs" shows "mangle_cmd ''iptables'' (mss_args op dev mtu spec)"
  using assms by (simp only: mangle_cmd_def) blast

lemma raw_cmds:
  assumes "op \<in> {''-A'', ''-D''}" shows "raw_cmd ''iptables'' (notrack_in op)" "raw_cmd ''iptables'' (notrack_out op)"
  using assms by (simp_all only: raw_cmd_def) blast+

lemma other_cmdI:
  "interface_cmd p args \<Longrightarrow> other_cmd p args" "forward_cmd wan p args \<Longrightarrow> other_cmd p args"
  "mangle_cmd p args \<Longrightarrow> other_cmd p args" "raw_cmd p args \<Longrightarrow> other_cmd p args"
  by (auto simp only: other_cmd_def)

lemmas other_cmds = other_cmdI(1) [OF interface_cmds(1)] other_cmdI(1) [OF interface_cmds(2)] other_cmdI(1) [OF interface_cmds(3)]
  other_cmdI(1) [OF interface_cmds(4)] other_cmdI(2) [OF forward_cmds(1)] other_cmdI(2) [OF forward_cmds(2)]
  other_cmdI(3) [OF mangle_cmds] other_cmdI(4) [OF raw_cmds(1)] other_cmdI(4) [OF raw_cmds(2)]

text \<open>The two commands of a flush, on the three other chains.\<close>

lemma other_flush_cmds:
  assumes "(table, chain) \<in> {(''filter'', ''FORWARD''), (''mangle'', ''FORWARD''), (''mangle'', ''OUTPUT'')}"
  shows "other_cmd ''nft'' [''-a'', ''list'', ''chain'', ''ip'', table, chain]" "other_cmd ''nft'' (snd (delete_handle table chain h))"
  using assms by (auto simp: other_cmd_def forward_cmd_def mangle_cmd_def delete_handle_def)

lemma delete_until_err_keep:
  assumes "\<And>w. rs (fst (ex p args [] w)) = rs w" "delete_until_err ex p args w = Some w'"
  shows "rs w' = rs w"
proof -
  let ?keeps = "\<lambda>e q as. \<forall>w. rs (fst (e q as [] w)) = rs w"
  have "?keeps ex p args \<longrightarrow> rs w' = rs w"
  proof (rule delete_until_err.raw_induct [of "\<lambda>e q as v v'. ?keeps e q as \<longrightarrow> rs v' = rs v", OF _ assms(2)])
    fix f e q as v v'
    assume ih: "\<And>e q as v v'. f e q as v = Some v' \<Longrightarrow> ?keeps e q as \<longrightarrow> rs v' = rs v"
      and step: "(case run_cmd e q as v of (w', r) \<Rightarrow> case r of Inl e \<Rightarrow> Some w' | Inr _ \<Rightarrow> f e q as w') = Some v'"
    have "rs (fst (run_cmd e q as v)) = rs v" if "?keeps e q as" using that by (simp add: run_cmd_state)
    with ih step show "?keeps e q as \<longrightarrow> rs v' = rs v" by (fastforce split: prod.splits sum.splits)
  qed
  with assms(1) show ?thesis by blast
qed

lemma repeat_while_ok_keep: "(\<And>w. rs (fst (ex p args [] w)) = rs w) \<Longrightarrow> rs (repeat_while_ok ex p args n w) = rs w"
  by (induction n arbitrary: w) auto

lemma others_keepD: "others_keep ex rs \<Longrightarrow> other_cmd p args \<Longrightarrow> rs (fst (ex p args [] w)) = rs w"
  by (simp add: others_keep_def)

lemma other_flush_keep:
  assumes "others_keep ex rs" "(table, chain) \<in> {(''filter'', ''FORWARD''), (''mangle'', ''FORWARD''), (''mangle'', ''OUTPUT'')}"
  shows "rs (flush_chain ex table chain selected w) = rs w"
  by (rule flush_chain_keep) (simp_all add: others_keepD [OF assms(1)] other_flush_cmds [OF assms(2)])

lemma delete_all_specs_keep:
  assumes "others_keep ex rs" "set specs \<subseteq> set mss_specs" "delete_all_specs ex dev mtu specs w = Some w'"
  shows "rs w' = rs w"
  using assms(2,3)
proof (induction specs arbitrary: w)
  case (Cons spec specs)
  then obtain w1 where w1: "delete_until_err ex ''iptables'' (mss_args ''-D'' dev mtu spec) w = Some w1"
    "delete_all_specs ex dev mtu specs w1 = Some w'" by (auto simp: bind_eq_Some_conv)
  from delete_until_err_keep [of rs, OF _ w1(1)] Cons.IH [OF _ w1(2)] Cons.prems(1) show ?case
    by (simp add: others_keepD [OF assms(1)] other_cmds)
qed simp

lemma flush_mss_rules_nft_keep:
  assumes "others_keep ex rs" shows "rs (flush_mss_rules_nft ex dev w) = rs w"
  by (simp add: flush_mss_rules_nft_def other_flush_keep [OF assms])

lemma mss_keep:
  assumes "others_keep ex rs"
  shows "setup_mss_clamping_linux ex dev mtu w = Some (w', r) \<Longrightarrow> rs w' = rs w"
    and "rs (cleanup_mss_clamping_linux ex dev mtu w) = rs w"
proof -
  let ?cmds = "\<lambda>op. map (\<lambda>spec. (''iptables'', mss_args op dev mtu spec)) mss_specs"
  have c: "\<forall>c \<in> set (?cmds op). \<forall>w. rs (fst (ex (fst c) (snd c) [] w)) = rs w" if "op \<in> {''-A'', ''-D''}" for op
    using that by (auto simp: others_keepD [OF assms] other_cmds)
  show "rs (cleanup_mss_clamping_linux ex dev mtu w) = rs w"
    using try_cmds_keep [of "?cmds ''-D''" rs ex, OF c [OF insertI2 [OF insertI1]]] by (simp only: cleanup_mss_clamping_linux_def flush_mss_rules_nft_keep [OF assms])
  assume "setup_mss_clamping_linux ex dev mtu w = Some (w', r)"
  then obtain w1 where w1: "delete_all_specs ex dev mtu mss_specs w = Some w1"
    "run_cmds ex (?cmds ''-A'') (flush_mss_rules_nft ex dev w1) = (w', r)"
    by (auto simp: setup_mss_clamping_linux_def)
  from run_cmds_keep [of "?cmds ''-A''" rs ex, OF c [OF insertI1], of "flush_mss_rules_nft ex dev w1"] delete_all_specs_keep [OF assms subset_refl w1(1)]
  show "rs w' = rs w" by (simp only: w1(2) fst_conv flush_mss_rules_nft_keep [OF assms])
qed

lemma interface_keep:
  assumes "others_keep ex rs"
  shows "configure_interface_linux ex dev ip pl w = (w', r) \<Longrightarrow> rs w' = rs w"
    and "rs (configure_tun_performance ex dev q w) = rs w"
proof -
  note keep = others_keepD [OF assms]
  show "rs (configure_tun_performance ex dev q w) = rs w"
    unfolding configure_tun_performance_def by (rule try_cmds_keep) (simp add: keep other_cmds)
  assume "configure_interface_linux ex dev ip pl w = (w', r)"
  moreover have "rs (fst (configure_interface_linux ex dev ip pl w)) = rs w"
    unfolding configure_interface_linux_def by (rule run_cmds_keep) (simp add: keep other_cmds)
  ultimately show "rs w' = rs w" by simp
qed

lemma cleanup_notrack_keep:
  assumes "others_keep ex rs" shows "rs (cleanup_notrack_iptables ex w) = rs w"
  unfolding cleanup_notrack_iptables_def by (simp add: repeat_while_ok_keep others_keepD [OF assms] other_cmds)

lemma flush_nat_rules_exact:
  assumes "nft_tool ex ''nat'' ''POSTROUTING'' (masquerade_line subnet) rs" "others_keep ex rs" "rules_ok (rs w)"
  shows "rs (flush_nat_rules ex subnet wan' w) = filter (\<lambda>r. \<not> masquerade_line subnet (show_rule r)) (rs w)"
  using flush_chain_exact [OF assms(1,3)] by (simp add: flush_nat_rules_def other_flush_keep [OF assms(2)])

lemma cleanup_nat_exact:
  assumes "nft_tool ex ''nat'' ''POSTROUTING'' (masquerade_line subnet) rs" "others_keep ex rs"
    "deletes_masquerade ex subnet wan rs" "rules_ok (rs w)"
  shows "rs (fst (cleanup_nat_linux ex subnet wan w)) = filter (\<lambda>r. \<not> masquerade_line subnet (show_rule r)) (rs w)"
proof -
  let ?f = "flush_nat_rules ex subnet wan w"
  have f: "rs ?f = filter (\<lambda>r. \<not> masquerade_line subnet (show_rule r)) (rs w)"
    by (rule flush_nat_rules_exact [OF assms(1,2,4)])
  then have "rs (fst (ex ''iptables'' (masquerade_args ''-D'' subnet wan) [] ?f)) = rs ?f"
    using assms(3) by (simp add: deletes_masquerade_def)
  with f show ?thesis by (simp add: cleanup_nat_linux_def run_cmd_state others_keepD [OF assms(2)] other_cmds)
qed

section \<open>Properties\<close>

text \<open>A successful start leaves one masquerade rule of the subnet at the end of the chain.\<close>

lemma server_up_nat:
  fixes rs :: "'w \<Rightarrow> nft_rule list"
  assumes base: "subnet_from_config config = Some base" and nat: "nat_enabled (srv_nat config)"
    and subnet: "subnet = server_subnet config base" and wan: "wan = nat_interface (srv_nat config)"
    and tool: "nft_tool ex ''nat'' ''POSTROUTING'' (masquerade_line subnet) rs"
    and keep: "others_keep ex rs" and add: "appends_masquerade ex subnet wan rs"
    and up: "server_up sys ex config h = Some (h1, Inr tun)" and ok: "rules_ok (rs (sh_net h))"
  shows "rules_ok (rs (sh_net h1)) \<and> (\<exists>r. rs (sh_net h1)
     = filter (\<lambda>r. \<not> masquerade_line subnet (show_rule r)) (rs (sh_net h)) @ [r] \<and> masquerade_line subnet (show_rule r))"
proof -
  from up obtain h3 h4 where h3: "on_fds (TunDevice_create_linux (sv_tun sys) (srv_tun_name config)) h = (h3, Inr tun)"
    and h4: "on_fds (set_mtu_linux (sv_socket sys) (sv_ioctl sys) tun (srv_mtu config)) h3 = (h4, Inr ())"
    and net: "server_network_up ex config (td_name tun) h4 = Some (h1, Inr ())"
    unfolding server_up_Ok by blast
  have start: "sh_net h4 = sh_net h" using on_fds_net [OF h3] on_fds_net [OF h4] by simp
  from server_network_up_Ok [OF net base] nat obtain ip w1 w2 w3
    where w1: "configure_interface_linux ex (td_name tun) ip (srv_tun_prefix_len config) (sh_net h) = (w1, Inr ())"
      and w2: "setup_nat_linux ex subnet wan w1 = (w2, Inr ())"
      and w3: "setup_mss_clamping_linux ex (td_name tun) (srv_mtu config) w2 = Some (w3, Inr ())"
      and h1: "sh_net h1 = configure_tun_performance ex (td_name tun) 10000 w3"
    unfolding start subnet wan by auto
  have fwd: "\<forall>w p args. forward_cmd wan p args \<longrightarrow> rs (fst (ex p args [] w)) = rs w"
    using others_keepD [OF keep other_cmdI(2)] by blast
  have "rs w1 = rs (sh_net h)" by (rule interface_keep(1) [OF keep w1])
  moreover have "rs (sh_net h1) = rs w2" using mss_keep(1) [OF keep w3] interface_keep(2) [OF keep] by (simp add: h1)
  ultimately show ?thesis using setup_nat_rules [OF tool fwd add _ w2] ok by simp
qed

text \<open>The shutdown removes the subnet's masquerade rules and no other.\<close>

lemma server_down_nat:
  assumes nat: "nat_enabled (srv_nat config)" and wan: "wan = nat_interface (srv_nat config)"
    and tool: "nft_tool ex ''nat'' ''POSTROUTING'' (masquerade_line subnet) rs" and keep: "others_keep ex rs"
    and del: "deletes_masquerade ex subnet wan rs" and ok: "rules_ok (rs (sh_net h))"
  shows "rs (sh_net (server_down sys ex config subnet tun h)) = filter (\<lambda>r. \<not> masquerade_line subnet (show_rule r)) (rs (sh_net h))"
  using cleanup_nat_exact [OF tool keep del, of "sh_net h"] ok nat
    cleanup_nat_exact [OF tool keep del, of "cleanup_notrack_iptables ex (sh_net h)"]
  by (simp add: server_down_def Let_def mss_keep(2) [OF keep] cleanup_notrack_keep [OF keep] wan [symmetric])

lemma attach_bpf_keep:
  assumes "others_keep ex rs" shows "rs (fst (attach_bpf_filter ex w)) = rs w"
  by (simp add: attach_bpf_filter_def setup_notrack_iptables_def Let_def others_keepD [OF assms] other_cmds cleanup_notrack_keep [OF assms])

text \<open>
  Descriptors: a start that fails after the device was opened closes it again, and a successful start adds
  the device's.
\<close>

lemma server_up_fds:
  assumes fresh: "\<forall>fd. sys_open (sv_tun sys) = Inr fd \<longrightarrow> fd \<notin> sh_fds h"
      "\<forall>s. sv_socket sys = Inr s \<longrightarrow> s \<notin> sh_fds h \<and> sys_open (sv_tun sys) \<noteq> Inr s"
    and name: "CHR 0x00 \<notin> set (srv_tun_name config)"
    and up: "server_up sys ex config h = Some (h1, r)"
  shows "case r of Inl _ \<Rightarrow> sh_fds h1 = sh_fds h
     | Inr tun \<Rightarrow> td_fd tun \<in> sh_fds h1 \<and> TunDevice_drop tun (sh_fds h1) = sh_fds h"
proof -
  obtain h2 d where h2: "on_fds (TunDevice_create_linux (sv_tun sys) (srv_tun_name config)) h = (h2, d)" by fastforce
  show ?thesis
  proof (cases d)
    case (Inl e)
    from on_fds_Err [OF h2 [unfolded Inl]] obtain e'
      where "TunDevice_create_linux (sv_tun sys) (srv_tun_name config) (sh_fds h) = (sh_fds h2, Inl e')" by blast
    from create_linux_error_fds [OF this name fresh(1)] h2 Inl up show ?thesis by (auto simp: server_up_def up_then_def)
  next
    case (Inr tun)
    from create_linux_fds [OF on_fds_Ok [OF h2 [unfolded Inr]]]
    have created: "sys_open (sv_tun sys) = Inr (td_fd tun)" "sh_fds h2 = insert (td_fd tun) (sh_fds h)" by simp_all
    obtain h3 m where h3: "on_fds (set_mtu_linux (sv_socket sys) (sv_ioctl sys) tun (srv_mtu config)) h2 = (h3, m)" by fastforce
    have "\<forall>s. sv_socket sys = Inr s \<longrightarrow> s \<notin> sh_fds h2" using created fresh(2) by auto
    from set_mtu_linux_fds [OF this] have "sh_fds h3 = sh_fds h2" using on_fds_net [OF h3] by simp
    let ?run = "up_then (h3, m) (\<lambda>h _. server_network_up ex config (td_name tun) h)"
    from up obtain h4 q where q: "?run = Some (h4, q)" by (cases ?run) (auto simp: server_up_def up_then_def [of "(h2, Inr tun)"] h2 h3 Inr)
    then have "sh_fds h4 = sh_fds h3" by (cases m) (auto simp: up_then_def dest: server_network_up_fds)
    with up q \<open>sh_fds h3 = sh_fds h2\<close> created fresh(1) show ?thesis
      by (cases q) (auto simp: server_up_def up_then_def [of "(h2, Inr tun)"] h2 h3 Inr TunDevice_drop_def fd_close_def)
  qed
qed

definition sample_server_sys :: server_sys where
  "sample_server_sys = \<lparr>sv_tun = sample_sys, sv_socket = Inr 6, sv_ioctl = \<lambda>_ _. Inr (), sv_xdp = True\<rparr>"

definition sample_host :: "nft_rule list os_host" where
  "sample_host =
     \<lparr>sh_net = [],
      sh_files = \<lparr>files = [(''/config'', []), (default_cert_file, []), (default_key_file, [])],
                  dirs = [''/proc/sys/net/ipv4'', ''/users''], writable = \<lambda>_. True\<rparr>,
      sh_fds = {0, 1, 2}\<rparr>"

definition sample_server_config :: server_config where
  "sample_server_config =
     ServerConfig_default\<lparr>srv_nat := \<lparr>nat_enabled = True, nat_interface = ''eth0''\<rparr>, srv_users_dir := Some ''/users''\<rparr>"

lemma sample_config_values:
  "parse_ipv4 (srv_tun_address sample_server_config) = Some (Ipv4Addr 10 0 1 1)"
  "subnet_from_config sample_server_config = Some ''10.0.1.0''"
  "server_subnet sample_server_config ''10.0.1.0'' = ''10.0.1.0/24''"
  "srv_tun_name sample_server_config = ''redpill1''" "nat_enabled (srv_nat sample_server_config)"
  "nat_interface (srv_nat sample_server_config) = ''eth0''" "srv_tun_prefix_len sample_server_config = 24"
  by (code_simp, code_simp, code_simp)
    (simp_all add: sample_server_config_def ServerConfig_default_def default_tun_name_def default_tun_prefix_len_def)

lemmas sample_cmd_defs = other_cmd_defs masquerade_args_def delete_handle_def forward_in_args_def forward_out_args_def
  mss_args_def notrack_in_def notrack_out_def

lemma sample_nft_other_cmd: "other_cmd p args \<Longrightarrow> fst (sample_nft p args [] rs) = rs"
  unfolding sample_cmd_defs by (elim disjE conjE exE bexE) (simp_all add: sample_nft_def masquerade_args_def delete_handle_def)

lemma sample_nft_keep: "others_keep sample_nft id"
  by (simp add: others_keep_def sample_nft_other_cmd)

lemma sample_nft_deletes: "deletes_masquerade sample_nft ''10.0.1.0/24'' ''eth0'' id"
  by (auto simp: deletes_masquerade_def masquerade_args_def delete_handle_def sample_nft_def Let_def)

lemma sample_delete_until_err:
  "delete_until_err sample_nft ''iptables'' (mss_args ''-D'' dev mtu spec) rs = Some rs"
  by (subst delete_until_err_eq) (simp add: cmd_ok_def sample_nft_def mss_args_def delete_handle_def masquerade_args_def Let_def)

lemma sample_run_cmd:
  assumes "other_cmd p args" "args ! 2 \<noteq> ''-D''" shows "run_cmd sample_nft p args rs = (rs, Inr ())"
  using sample_nft_other_cmd [OF assms(1), of rs] assms(2) by (auto simp: run_cmd_def sample_nft_def Let_def split: if_splits)

lemma lines_Nil [simp]: "lines [] = []"
  by (subst lines.simps) simp

lemma sample_setup_nat: "setup_nat_linux sample_nft ''10.0.1.0/24'' ''eth0'' [] = ([sample_rule], Inr ())"
  by (simp add: setup_nat_linux_def flush_nat_rules_def flush_chain_def run_cmd_output_def host_then_def host_return_def
      run_cmd_def sample_nft_def Let_def masquerade_args_def forward_in_args_def forward_out_args_def delete_handle_def)

lemma sample_append_mss: "run_cmd sample_nft ''iptables'' (mss_args ''-A'' dev mtu spec) rs = (rs, Inr ())"
  by (simp add: run_cmd_def sample_nft_def mss_args_def masquerade_args_def delete_handle_def Let_def)

lemma sample_setup_mss: "setup_mss_clamping_linux sample_nft dev mtu rs = Some (rs, Inr ())"
  by (simp add: setup_mss_clamping_linux_def mss_specs_def sample_delete_until_err flush_mss_rules_nft_keep [OF sample_nft_keep, simplified]
      host_then_def host_return_def sample_append_mss)

lemma sample_server_up:
  "\<exists>h1 tun. server_up sample_server_sys sample_nft sample_server_config sample_host = Some (h1, Inr tun)"
proof -
  have iface: "configure_interface_linux sample_nft ''redpill1'' (Ipv4Addr 10 0 1 1) 24 rs = (rs, Inr ())" for rs
    by (simp add: configure_interface_linux_def host_then_def host_return_def sample_run_cmd other_cmds show_simps)
  show ?thesis
    by (simp add: server_up_def up_then_def on_fds_def on_net_def on_files_def create_defs sample_server_sys_def sample_sys_def
        sample_host_def sample_config_values iface IFNAMSIZ_def server_network_up_def server_mss_up_def sample_setup_nat
        sample_setup_mss set_mtu_linux_def enable_ip_forwarding_linux_def fs_write_eq may_write_def parent_def)
qed

end
