(* ===== verification/ServerMain.thy ===== *)
theory ServerMain
  imports Startup Sessions Camouflage Acme
begin

text \<open>
  The server's \<open>main\<close>, \<^verbatim>\<open>src/crates/redpill-quic/src/server.rs\<close>, from the command line to the exit: loading
  the configuration, user commands, keys and certificate, the QUIC endpoint, the host (\<open>Startup\<close>), the shared
  state, the listeners, the accept loop and the shutdown. Sessions are the tasks of \<open>Sessions\<close>.
\<close>

section \<open>Before the host is changed\<close>

text \<open>
  The environment: the TOML parser, PEM reader and generated certificates, the \<open>acme\<close> feature, what TLS says
  to a certificate and key, and the results of binding the socket, creating the endpoint and registering
  the signal.
\<close>

record ('w, 'k) main_env =
  mn_from_str :: "string \<Rightarrow> server_config result"
  mn_pem :: pem_reader
  mn_gen :: cert_pair
  mn_acme :: bool
  mn_acme_pair :: "string \<Rightarrow> string \<Rightarrow> 'k result"
  mn_acme_gen :: "'k generated result"
  mn_tls :: "bytes \<Rightarrow> bytes \<Rightarrow> unit result"
  mn_bind :: "socket_addr \<Rightarrow> unit result"
  mn_endpoint :: "unit result"
  mn_sighup :: "unit result"
  mn_sys :: server_sys
  mn_exec :: "'w exec"

definition on_disk :: "(file_system \<Rightarrow> file_system \<times> 'a result) \<Rightarrow> 'w os_host \<Rightarrow> 'w os_host \<times> (startup_error + 'a)" where
  "on_disk m h = (case m (sh_files h) of (fs, r) \<Rightarrow> (h\<lparr>sh_files := fs\<rparr>, map_sum StartErr id r))"

definition parse_listen :: "string \<Rightarrow> 'w os_host \<Rightarrow> 'w os_host \<times> (startup_error + socket_addr)" where
  "parse_listen s h =
     (h, case parse_socket_addr s of None \<Rightarrow> Inl (StartErr (ParseError ''AddrParseError'')) | Some a \<Rightarrow> Inr a)"

text \<open>The configuration: the file if there is one, the defaults only without a user command.\<close>

definition main_config ::
  "(string \<Rightarrow> server_config result) \<Rightarrow> file_system \<Rightarrow> string \<Rightarrow> command option \<Rightarrow> server_config result" where
  "main_config from_str fs path cmd =
     (if fs_exists fs path then ServerConfig_load from_str (map_of (files fs)) path
      else if cmd \<noteq> None then Err (Bail (''Config not found at '' @ path))
      else Ok ServerConfig_default)"

text \<open>The certificate: by ACME for a configured domain, from files otherwise.\<close>

definition main_certificate ::
  "('w, 'k) main_env \<Rightarrow> server_config \<Rightarrow> file_system \<Rightarrow> file_system \<times> unit result" where
  "main_certificate E config fs =
     (case srv_domain config of
        Some domain \<Rightarrow>
          if mn_acme E then
            (case AcmeCertResolver_new (mn_acme_pair E) (srv_acme_dir config) (mn_acme_gen E) fs of
               (fs, r) \<Rightarrow> (fs, and_then r (\<lambda>_. Ok ())))
          else (fs, Err (Bail (''domain='' @ domain @ '' requires the acme feature'')))
      | None \<Rightarrow>
          (case load_or_generate (mn_pem E) (mn_gen E) fs (srv_cert_file config) (srv_key_file config) of
             (fs, r) \<Rightarrow> (fs, and_then r (\<lambda>pair. mn_tls E (cert_der pair) (key_der pair)))))"

text \<open>
  The endpoint: bind, attach the connection-tracking bypass if built with it, whatever it answers, and
  create the endpoint.
\<close>

definition main_endpoint ::
  "('w, 'k) main_env \<Rightarrow> server_config \<Rightarrow> 'w os_host \<Rightarrow> 'w os_host \<times> (startup_error + unit)" where
  "main_endpoint E config h =
     (case parse_listen (srv_listen config) h of
        (h, Inl e) \<Rightarrow> (h, Inl e)
      | (h, Inr addr) \<Rightarrow>
          (case mn_bind E addr of
             Inl e \<Rightarrow> (h, Inl (StartErr e))
           | Inr _ \<Rightarrow>
               let h = (if sv_xdp (mn_sys E) then h\<lparr>sh_net := fst (attach_bpf_filter (mn_exec E) (sh_net h))\<rparr> else h) in
               (h, map_sum StartErr id (mn_endpoint E))))"

section \<open>After the host is changed\<close>

text \<open>The listeners: a bad address or certificate is an error of \<open>main\<close>, which drops the device and nothing else.\<close>

definition main_listeners ::
  "('w, 'k) main_env \<Rightarrow> server_config \<Rightarrow> 'w os_host \<Rightarrow> ('w, unit) startup" where
  "main_listeners E config h =
     up_then (parse_listen (srv_metrics_listen config) h) (\<lambda>h _.
     up_then (if reality_enabled (srv_reality config) then
                (case parse_listen (reality_listen (srv_reality config)) h of
                   (h, Inl e) \<Rightarrow> (h, Inl e)
                 | (h, Inr addr) \<Rightarrow>
                     on_disk (\<lambda>fs. case load_or_generate (mn_pem E) (mn_gen E) fs (srv_cert_file config) (srv_key_file config) of
                        (fs, r) \<Rightarrow> (fs, and_then r (\<lambda>pair. mn_tls E (cert_der pair) (key_der pair)))) h)
              else (h, Inr ())) (\<lambda>h _.
     up_then (if ws_enabled (srv_websocket config) then
                (case parse_listen (ws_listen (srv_websocket config)) h of
                   (h, Inl e) \<Rightarrow> (h, Inl e) | (h, Inr addr) \<Rightarrow> (h, Inr ()))
              else (h, Inr ())) (\<lambda>h _.
       Some (h, map_sum StartErr id (mn_sighup E)))))"

definition main_state :: "server_config \<Rightarrow> auth_mode \<Rightarrow> string \<Rightarrow> startup_error + server_state" where
  "main_state config auth path =
     (case ServerState_new config auth path of None \<Rightarrow> Inl StartPanic | Some r \<Rightarrow> map_sum StartErr id r)"

definition main_serve ::
  "('w, 'k) main_env \<Rightarrow> server_config \<Rightarrow> auth_mode \<Rightarrow> string \<Rightarrow> tun_device \<Rightarrow> 'w os_host \<Rightarrow> ('w, server_state) startup" where
  "main_serve E config auth path tun h =
     drop_on_error tun
       (up_then (h, main_state config auth path) (\<lambda>h st. startup_map (\<lambda>_. st) (main_listeners E config h)))"

definition main_boot ::
  "('w, 'k) main_env \<Rightarrow> server_config \<Rightarrow> string \<Rightarrow> 'w os_host \<Rightarrow> ('w, tun_device \<times> server_state) startup" where
  "main_boot E config path h =
     up_then (on_disk (\<lambda>fs. init_auth fs config) h) (\<lambda>h auth.
     up_then (on_disk (main_certificate E config) h) (\<lambda>h _.
     up_then (main_endpoint E config h) (\<lambda>h _.
     Option.bind (server_up (mn_sys E) (mn_exec E) config h) (\<lambda>r.
     up_then r (\<lambda>h tun. startup_map (Pair tun) (main_serve E config auth path tun h))))))"

section \<open>The accept loop\<close>

text \<open>
  Events of the loop: cancellation, a hang-up signal with the files at that moment, an incoming connection,
  the end of the endpoint; between two of them the other tasks run, a function on the shared state and the
  sessions.
\<close>

datatype accept_event =
    Cancelled | Hangup file_system | Incoming | NoMoreIncoming | Tasks "server_state \<times> session list \<Rightarrow> server_state \<times> session list"

fun accept_loop ::
  "(string \<Rightarrow> server_config result) \<Rightarrow> accept_event list \<Rightarrow> server_state \<times> session list \<Rightarrow> (server_state \<times> session list) \<times> bool" where
  "accept_loop from_str [] c = (c, False)"
| "accept_loop from_str (Cancelled # es) c = (c, True)"
| "accept_loop from_str (Hangup fs # es) c = accept_loop from_str es (reload_config from_str fs (fst c), snd c)"
| "accept_loop from_str (Incoming # es) c =
     accept_loop from_str es (if accept_refused (fst c) then c else (fst c, snd c @ [session_new KQuic]))"
| "accept_loop from_str (NoMoreIncoming # es) c = (c, True)"
| "accept_loop from_str (Tasks f # es) c = accept_loop from_str es (f c)"

text \<open>
  The accept loops of the other two listeners: a listener that cannot be bound returns; a failed accept is
  skipped, and every accepted connection gets a task, without a limit.
\<close>

datatype listen_event = Accepted | AcceptError string | ListenCancelled | ListenTasks "server_state \<times> session list \<Rightarrow> server_state \<times> session list"

fun listener_loop :: "kind \<Rightarrow> listen_event list \<Rightarrow> server_state \<times> session list \<Rightarrow> (server_state \<times> session list) \<times> bool" where
  "listener_loop k [] c = (c, False)"
| "listener_loop k (Accepted # es) c = listener_loop k es (fst c, snd c @ [session_new k])"
| "listener_loop k (AcceptError e # es) c = listener_loop k es c"
| "listener_loop k (ListenCancelled # es) c = (c, True)"
| "listener_loop k (ListenTasks f # es) c = listener_loop k es (f c)"

definition run_ws_listener :: "unit result \<Rightarrow> listen_event list \<Rightarrow> server_state \<times> session list \<Rightarrow> (server_state \<times> session list) \<times> bool" where
  "run_ws_listener bound es c = (case bound of Inl e \<Rightarrow> (c, True) | Inr _ \<Rightarrow> listener_loop KWs es c)"

definition run_tcp_reality_listener ::
  "unit result \<Rightarrow> listen_event list \<Rightarrow> server_state \<times> session list \<Rightarrow> (server_state \<times> session list) \<times> bool" where
  "run_tcp_reality_listener bound es c = (case bound of Inl e \<Rightarrow> (c, True) | Inr _ \<Rightarrow> listener_loop KTcp es c)"

section \<open>The whole run\<close>

datatype main_result = Printed "string list" | Serving "server_state \<times> session list" tun_device | Finished "server_state \<times> session list"

text \<open>A run: the result of a user command, or the server with the events of its accept loop.\<close>

definition main_finish ::
  "('w, 'k) main_env \<Rightarrow> server_config \<Rightarrow> tun_device \<Rightarrow> (server_state \<times> session list) \<times> bool \<Rightarrow> 'w os_host
     \<Rightarrow> ('w, main_result) startup" where
  "main_finish E config tun r h =
     (case r of
        (c, False) \<Rightarrow> Some (h, Inr (Serving c tun))
      | (c, True) \<Rightarrow>
          (case subnet_from_config config of
             None \<Rightarrow> Some (h, Inl StartPanic)
           | Some base \<Rightarrow>
               Some (server_down (mn_sys E) (mn_exec E) config (server_subnet config base) tun h, Inr (Finished c))))"

definition server_main ::
  "('w, 'k) main_env \<Rightarrow> bytes \<Rightarrow> string \<Rightarrow> command option \<Rightarrow> accept_event list \<Rightarrow> 'w os_host \<Rightarrow> ('w, main_result) startup" where
  "server_main E rng path cmd es h =
     up_then (h, map_sum StartErr id (main_config (mn_from_str E) (sh_files h) path cmd)) (\<lambda>h config.
       case cmd of
         Some c \<Rightarrow> up_then (on_disk (\<lambda>fs. run_command rng fs config c) h) (\<lambda>h out. Some (h, Inr (Printed out)))
       | None \<Rightarrow>
           Option.bind (main_boot E config path h) (\<lambda>r. up_then r (\<lambda>h (tun, st).
             main_finish E config tun (accept_loop (mn_from_str E) es (st, [])) h)))"

section \<open>Lemmas\<close>

lemma main_state_fresh: "main_state config auth path = Inr st \<Longrightarrow> server_fresh st"
  using router_invar_new
  by (auto simp: main_state_def ServerState_new_def server_fresh_def pool_invar_new pool_held_new
      Metrics_new_def ClientRouter_new_def split: option.splits ipv4.splits)

lemma reload_quiet: "others_quiet st (reload_config from_str fs st)"
  by (auto simp: others_quiet_def reload_config_def Let_def split: sum.splits option.splits)

text \<open>Between two events of the loop the other tasks take steps of the session model.\<close>

definition tasks_ok :: "accept_event list \<Rightarrow> bool" where
  "tasks_ok es \<longleftrightarrow> (\<forall>e \<in> set es. case e of Tasks f \<Rightarrow> \<forall>c. sys_step\<^sup>*\<^sup>* c (f c) | _ \<Rightarrow> True)"

lemma reachable_star: "sys_step\<^sup>*\<^sup>* c c' \<Longrightarrow> reachable c \<Longrightarrow> reachable c'"
  by (induction rule: rtranclp_induct) (auto intro: reachable.Step)

lemma reachable_reload: "reachable (st, ss) \<Longrightarrow> reachable (reload_config from_str fs st, ss)"
  by (rule reachable.Step [OF _ sys_step.Other [OF reload_quiet]])

lemma reachable_spawn: "reachable (st, ss) \<Longrightarrow> (k = KQuic \<longrightarrow> \<not> accept_refused st) \<Longrightarrow> reachable (st, ss @ [session_new k])"
  by (rule reachable.Step [OF _ sys_step.Spawn])

lemma accept_loop_reachable:
  "accept_loop from_str es c = (c', b) \<Longrightarrow> tasks_ok es \<Longrightarrow> reachable c \<Longrightarrow> reachable c'"
proof (induction es arbitrary: c)
  case (Cons e es)
  obtain st ss where c: "c = (st, ss)" by fastforce
  from Cons.prems(2) have es: "tasks_ok es" by (simp add: tasks_ok_def)
  from Cons.prems show ?case
    by (cases e) (auto simp: c tasks_ok_def [of "_ # _"] intro: Cons.IH [OF _ es] reachable_reload reachable_spawn reachable_star
        split: if_splits)
qed simp

lemma accept_loop_ends: "snd (accept_loop from_str es c) \<longleftrightarrow> Cancelled \<in> set es \<or> NoMoreIncoming \<in> set es"
  by (induction from_str es c rule: accept_loop.induct) auto

lemma main_serve_Ok: "main_serve E config auth path tun h = Some (h', Inr st) \<Longrightarrow> main_state config auth path = Inr st"
  by (auto simp: main_serve_def startup_ok)

lemma main_boot_fresh: "main_boot E config path h = Some (h', Inr (tun, st)) \<Longrightarrow> server_fresh st"
  by (auto simp: main_boot_def startup_ok dest: main_serve_Ok intro: main_state_fresh)

text \<open>What the steps around the set-up of the host leave alone.\<close>

lemma on_disk_same: "on_disk m h = (h', r) \<Longrightarrow> sh_net h' = sh_net h \<and> sh_fds h' = sh_fds h"
  by (auto simp: on_disk_def split: prod.splits)

lemma parse_listen_same: "parse_listen s h = (h', r) \<Longrightarrow> h' = h"
  by (simp add: parse_listen_def)

lemma main_endpoint_same:
  assumes "main_endpoint E config h = (h', r)" "others_keep (mn_exec E) rs"
  shows "rs (sh_net h') = rs (sh_net h) \<and> sh_fds h' = sh_fds h"
  using assms(1)
  by (auto simp: main_endpoint_def parse_listen_def Let_def attach_bpf_keep [OF assms(2)] split: option.splits sum.splits if_splits)

lemma main_listeners_same:
  "main_listeners E config h = Some (h', r) \<Longrightarrow> sh_net h' = sh_net h \<and> sh_fds h' = sh_fds h"
  by (auto simp: main_listeners_def up_then_def parse_listen_def dest: on_disk_same split: sum.splits prod.splits option.splits if_splits)

lemma main_serve_same:
  assumes "main_serve E config auth path tun h = Some (h', r)"
  shows "sh_net h' = sh_net h \<and> sh_fds h' = (case r of Inl _ \<Rightarrow> TunDevice_drop tun (sh_fds h) | Inr _ \<Rightarrow> sh_fds h)"
proof (cases "main_state config auth path")
  case (Inl e)
  with assms have "h' = h\<lparr>sh_fds := TunDevice_drop tun (sh_fds h)\<rparr>" "r = Inl e" by (simp_all add: main_serve_def up_then_def)
  then show ?thesis by simp
next
  case (Inr st)
  show ?thesis
  proof (cases "main_listeners E config h")
    case (Some p)
    obtain h1 q where p: "p = (h1, q)" by fastforce
    have run: "main_serve E config auth path tun h = drop_on_error tun (startup_map (\<lambda>_. st) (Some (h1, q)))"
      by (simp add: main_serve_def up_then_def Inr Some p)
    note same = main_listeners_same [OF Some [unfolded p]]
    show ?thesis
    proof (cases q)
      case (Inl e)
      with run assms have "h' = h1\<lparr>sh_fds := TunDevice_drop tun (sh_fds h1)\<rparr>" "r = Inl e" by simp_all
      with same show ?thesis by simp
    next
      case (Inr u)
      with run assms have "h' = h1" "r = Inr st" by simp_all
      with same show ?thesis by simp
    qed
  qed (use assms Inr in \<open>simp add: main_serve_def up_then_def\<close>)
qed

text \<open>The boot brings the host up and then changes neither the network nor the descriptors.\<close>

lemma main_boot_up:
  assumes "main_boot E config path h = Some (h', Inr (tun, st))" "others_keep (mn_exec E) rs"
  shows "\<exists>h1 h2. rs (sh_net h1) = rs (sh_net h) \<and> sh_fds h1 = sh_fds h
     \<and> server_up (mn_sys E) (mn_exec E) config h1 = Some (h2, Inr tun) \<and> sh_net h' = sh_net h2 \<and> sh_fds h' = sh_fds h2"
proof -
  from assms(1) obtain auth ha hb hc hd where ha: "on_disk (\<lambda>fs. init_auth fs config) h = (ha, Inr auth)"
    and hb: "on_disk (main_certificate E config) ha = (hb, Inr ())" and hc: "main_endpoint E config hb = (hc, Inr ())"
    and hd: "server_up (mn_sys E) (mn_exec E) config hc = Some (hd, Inr tun)"
    and h': "main_serve E config auth path tun hd = Some (h', Inr st)"
    by (auto simp: main_boot_def startup_ok)
  from on_disk_same [OF ha] on_disk_same [OF hb] main_endpoint_same [OF hc assms(2)] main_serve_same [OF h'] hd
  show ?thesis by auto
qed

section \<open>A sample run\<close>

definition sample_env :: "(nft_rule list, unit) main_env" where
  "sample_env =
     \<lparr>mn_from_str = \<lambda>_. Ok sample_server_config, mn_pem = \<lparr>pem_certs = \<lambda>_. Ok [[1]], pem_key = \<lambda>_. Ok (Some [2])\<rparr>,
      mn_gen = \<lparr>cert_der = [], key_der = [], cert_pem = [], key_pem = []\<rparr>, mn_acme = False,
      mn_acme_pair = \<lambda>_ _. Ok (), mn_acme_gen = Err (Bail []), mn_tls = \<lambda>_ _. Ok (), mn_bind = \<lambda>_. Ok (),
      mn_endpoint = Ok (), mn_sighup = Ok (), mn_sys = sample_server_sys, mn_exec = sample_nft\<rparr>"

lemma sample_main_config: "main_config (mn_from_str sample_env) (sh_files sample_host) ''/config'' None = Ok sample_server_config"
proof -
  have "ServerConfig_validate sample_server_config = Ok ()"
    using default_parts by (simp add: ServerConfig_validate_def sample_server_config_def ServerConfig_default_def default_mtu_def
        default_tun_prefix_len_def default_max_connections_def)
  then show ?thesis by (simp add: main_config_def ServerConfig_load_def read_to_string_def sample_env_def sample_host_def fs_exists_def)
qed

lemma sample_fresh:
  "\<forall>fd. sys_open (sv_tun (mn_sys sample_env)) = Inr fd \<longrightarrow> fd \<notin> sh_fds sample_host"
  "\<forall>s. sv_socket (mn_sys sample_env) = Inr s \<longrightarrow> s \<notin> sh_fds sample_host \<and> sys_open (sv_tun (mn_sys sample_env)) \<noteq> Inr s"
  by (simp_all add: sample_env_def sample_server_sys_def sample_sys_def sample_host_def)

lemma sample_boot: "\<exists>h' tun st. main_boot sample_env sample_server_config ''/config'' sample_host = Some (h', Inr (tun, st))"
proof -
  let ?c = sample_server_config
  have cfg: "srv_users_dir ?c = Some ''/users''" "srv_domain ?c = None" "srv_cert_file ?c = default_cert_file"
    "srv_key_file ?c = default_key_file" "\<not> reality_enabled (srv_reality ?c)" "\<not> ws_enabled (srv_websocket ?c)"
    by (simp_all add: sample_server_config_def ServerConfig_default_def RealityServerConfig_default_def WebSocketServerConfig_default_def)
  obtain auth where auth: "init_auth (sh_files sample_host) ?c = (sh_files sample_host, Ok auth)"
    by (auto simp: init_auth_def cfg fs_exists_def sample_host_def UserStore_load_def read_dir_def path_join_def file_name_def
      default_cert_file_def default_key_file_def)
  have cert: "main_certificate sample_env ?c (sh_files sample_host) = (sh_files sample_host, Ok ())"
    by (simp add: main_certificate_def cfg load_or_generate_def fs_exists_def sample_host_def load_from_files_def read_to_string_def
        sample_env_def pem_to_cert_der_def pem_to_key_der_def)
  have endpoint: "main_endpoint sample_env ?c sample_host = (sample_host, Inr ())"
  proof -
    have "fst (attach_bpf_filter sample_nft []) = []" using attach_bpf_keep [OF sample_nft_keep, of "[]"] by simp
    then show ?thesis using default_parts(1)
      by (auto simp: main_endpoint_def parse_listen_def sample_env_def sample_server_sys_def sample_host_def sample_server_config_def
          ServerConfig_default_def Let_def split: option.splits)
  qed
  obtain h1 tun where up: "server_up (mn_sys sample_env) (mn_exec sample_env) ?c sample_host = Some (h1, Inr tun)"
    using sample_server_up by (auto simp: sample_env_def)
  obtain st where st: "main_state ?c auth ''/config'' = Inr st"
  proof -
    have "parse_ipv4 (show_ipv4 (Ipv4Addr 10 0 1 0)) = Some (Ipv4Addr 10 0 1 0)" by (rule parse_show_ipv4)
    then have "parse_ipv4 ''10.0.1.0'' = Some (Ipv4Addr 10 0 1 0)" by (simp add: show_simps)
    moreover obtain dns where "parse_ipv4 (srv_dns ?c) = Some dns"
      using default_parts(4) by (auto simp: sample_server_config_def ServerConfig_default_def)
    ultimately show ?thesis by (simp add: main_state_def ServerState_new_def sample_config_values that)
  qed
  have "main_listeners sample_env ?c h1 = Some (h1, Inr ())"
    using default_parts(2) by (auto simp: main_listeners_def up_then_def parse_listen_def cfg sample_env_def sample_server_config_def
       ServerConfig_default_def RealityServerConfig_default_def WebSocketServerConfig_default_def split: option.splits)
  with up st cert auth endpoint show ?thesis
    by (simp add: main_boot_def main_serve_def on_disk_def up_then_def)
qed

lemma sample_run: "\<exists>h' c. server_main sample_env [] ''/config'' None [Incoming, Cancelled] sample_host = Some (h', Inr (Finished c))"
proof -
  obtain h1 tun st where "main_boot sample_env sample_server_config ''/config'' sample_host = Some (h1, Inr (tun, st))"
    using sample_boot by blast
  then show ?thesis by (simp add: server_main_def up_then_def main_finish_def sample_main_config sample_config_values)
qed

section \<open>Properties\<close>

text \<open>
  Claim C4. The whole program keeps the guarantees of the session model: whatever connections come in, however the
  tasks interleave and whenever the configuration is reloaded, the server \<open>main\<close> starts is in a reachable
  state, so the addresses of its sessions are distinct and exactly the ones the pool has handed out; and
  the accept loop ends exactly on cancellation or when the endpoint is closed.
\<close>

theorem server_main_sessions:
  assumes run: "server_main E rng path None es h = Some (h', Inr r)" and tasks: "tasks_ok es"
  shows "\<exists>st ss. (r = Finished (st, ss) \<or> (\<exists>tun. r = Serving (st, ss) tun))
     \<and> ((\<exists>c. r = Finished c) \<longleftrightarrow> Cancelled \<in> set es \<or> NoMoreIncoming \<in> set es)
     \<and> reachable (st, ss) \<and> distinct (addresses ss) \<and> pool_held (ss_pool st) = set (addresses ss)"
proof -
  from run obtain config h1 tun st0 where boot: "main_boot E config path h = Some (h1, Inr (tun, st0))"
    and fin: "main_finish E config tun (accept_loop (mn_from_str E) es (st0, [])) h1 = Some (h', Inr r)"
    by (auto simp: server_main_def startup_ok)
  obtain st ss b where loop: "accept_loop (mn_from_str E) es (st0, []) = ((st, ss), b)" by (metis prod.exhaust)
  have "reachable (st, ss)"
    by (rule accept_loop_reachable [OF loop tasks reachable.Init [OF main_boot_fresh [OF boot]]])
  moreover from reachable_invar [OF this] have "distinct (addresses ss)" "pool_held (ss_pool st) = set (addresses ss)"
    by (simp_all add: sessions_invar_def)
  moreover have "b \<longleftrightarrow> Cancelled \<in> set es \<or> NoMoreIncoming \<in> set es"
    using accept_loop_ends [of "mn_from_str E" es "(st0, [])"] by (simp add: loop)
  ultimately show ?thesis using fin by (cases b) (auto simp: main_finish_def loop split: option.splits)
qed

theorem server_main_sessions_witness:
  "\<exists>h' r st ss. server_main sample_env [] ''/config'' None [Incoming, Cancelled] sample_host = Some (h', Inr r)
     \<and> r = Finished (st, ss) \<and> reachable (st, ss)"
proof -
  obtain h' c where run: "server_main sample_env [] ''/config'' None [Incoming, Cancelled] sample_host = Some (h', Inr (Finished c))"
    using sample_run by blast
  have "tasks_ok [Incoming, Cancelled]" by (simp add: tasks_ok_def)
  from server_main_sessions [OF run this] run show ?thesis by auto
qed

text \<open>
  Claim C19. What a whole run of the server leaves of the NAT chain: when the program ends after serving, its own
  masquerade rule is gone, and the chain holds, in order, the rules it held before the start, less every
  masquerade rule whose listing contains the text of the subnet. Those are the ones an earlier run left
  behind, and, since the flush compares by substring, also rules of another network such as \<open>110.0.1.0/24\<close> for
  \<open>10.0.1.0/24\<close>. Without such rules the chain is exactly as it was. The descriptors open before are open
  again and no others. The bypass rules, the reloads and the sessions in between do not matter.
\<close>

theorem server_run_restores_host:
  fixes rs :: "'w \<Rightarrow> nft_rule list" and E :: "('w, 'k) main_env"
  assumes config: "main_config (mn_from_str E) (sh_files h) path None = Ok config"
    and base: "subnet_from_config config = Some base" and nat: "nat_enabled (srv_nat config)"
    and subnet: "subnet = server_subnet config base" and wan: "wan = nat_interface (srv_nat config)"
    and tool: "nft_tool (mn_exec E) ''nat'' ''POSTROUTING'' (masquerade_line subnet) rs"
    and keep: "others_keep (mn_exec E) rs"
    and add: "appends_masquerade (mn_exec E) subnet wan rs" and del: "deletes_masquerade (mn_exec E) subnet wan rs"
    and ok: "rules_ok (rs (sh_net h))"
    and fresh: "\<forall>fd. sys_open (sv_tun (mn_sys E)) = Inr fd \<longrightarrow> fd \<notin> sh_fds h"
      "\<forall>s. sv_socket (mn_sys E) = Inr s \<longrightarrow> s \<notin> sh_fds h \<and> sys_open (sv_tun (mn_sys E)) \<noteq> Inr s"
    and name: "CHR 0x00 \<notin> set (srv_tun_name config)"
    and run: "server_main E rng path None es h = Some (h', Inr (Finished c))"
  shows "rs (sh_net h') = filter (\<lambda>r. \<not> masquerade_line subnet (show_rule r)) (rs (sh_net h)) \<and> sh_fds h' = sh_fds h
     \<and> ((\<forall>r \<in> set (rs (sh_net h)). \<not> masquerade_line subnet (show_rule r)) \<longrightarrow> rs (sh_net h') = rs (sh_net h))"
proof -
  from run config obtain h1 tun st where boot: "main_boot E config path h = Some (h1, Inr (tun, st))"
    and fin: "main_finish E config tun (accept_loop (mn_from_str E) es (st, [])) h1 = Some (h', Inr (Finished c))"
    by (auto simp: server_main_def startup_ok)
  from fin base have h': "h' = server_down (mn_sys E) (mn_exec E) config subnet tun h1"
    by (auto simp: main_finish_def subnet split: bool.splits prod.splits)
  from main_boot_up [OF boot keep] obtain h2 h3 where h2: "rs (sh_net h2) = rs (sh_net h)" "sh_fds h2 = sh_fds h"
    and up: "server_up (mn_sys E) (mn_exec E) config h2 = Some (h3, Inr tun)"
    and h1: "sh_net h1 = sh_net h3" "sh_fds h1 = sh_fds h3" by blast
  have fresh': "\<forall>fd. sys_open (sv_tun (mn_sys E)) = Inr fd \<longrightarrow> fd \<notin> sh_fds h2"
      "\<forall>s. sv_socket (mn_sys E) = Inr s \<longrightarrow> s \<notin> sh_fds h2 \<and> sys_open (sv_tun (mn_sys E)) \<noteq> Inr s"
    using fresh by (simp_all add: h2)
  from server_up_nat [OF base nat subnet wan tool keep add up] ok h2
  obtain r where r: "rules_ok (rs (sh_net h1))" "masquerade_line subnet (show_rule r)"
    "rs (sh_net h1) = filter (\<lambda>r. \<not> masquerade_line subnet (show_rule r)) (rs (sh_net h)) @ [r]" by (auto simp: h1)
  from server_down_nat [OF nat wan tool keep del r(1)] r(2,3)
  have "rs (sh_net h') = filter (\<lambda>r. \<not> masquerade_line subnet (show_rule r)) (rs (sh_net h))" by (simp add: h')
  moreover have "sh_fds h' = sh_fds h" using server_up_fds [OF fresh' name up] by (simp add: h' server_down_def Let_def h1 h2)
  ultimately show ?thesis by simp
qed

theorem server_run_restores_host_witness:
  "\<exists>h' c. server_main sample_env [] ''/config'' None [Incoming, Cancelled] sample_host = Some (h', Inr (Finished c))
     \<and> sh_net h' = [] \<and> sh_fds h' = {0, 1, 2}"
proof -
  obtain h' c where run: "server_main sample_env [] ''/config'' None [Incoming, Cancelled] sample_host = Some (h', Inr (Finished c))"
    using sample_run by blast
  have ex: "mn_exec sample_env = sample_nft" by (simp add: sample_env_def)
  have "rules_ok (id (sh_net sample_host))" by (simp add: sample_host_def rules_ok_def)
  moreover have "CHR 0x00 \<notin> set (srv_tun_name sample_server_config)" by (simp add: sample_config_values)
  ultimately have "id (sh_net h') = filter (\<lambda>r. \<not> masquerade_line ''10.0.1.0/24'' (show_rule r)) (id (sh_net sample_host))
      \<and> sh_fds h' = sh_fds sample_host
      \<and> ((\<forall>r \<in> set (id (sh_net sample_host)). \<not> masquerade_line ''10.0.1.0/24'' (show_rule r)) \<longrightarrow> id (sh_net h') = id (sh_net sample_host))"
    by (intro server_run_restores_host [where es = "[Incoming, Cancelled]" and c = c and rng = "[]" and rs = id, OF sample_main_config
          sample_config_values(2,5) sample_config_values(3) [symmetric] sample_config_values(6) [symmetric]])
      (simp_all add: ex sample_nft_tool sample_nft_keep sample_nft_appends sample_nft_deletes sample_fresh run)
  with run show ?thesis by (auto simp: sample_host_def)
qed

text \<open>
  An error after the host was set up does not undo it: with the TCP listener enabled on an address that does
  not parse, which the validation of the configuration lets through, the program ends with an error, and
  the masquerade rule stays in the chain.
\<close>

theorem late_error_keeps_nat:
  fixes rs :: "'w \<Rightarrow> nft_rule list"
  assumes base: "subnet_from_config config = Some base" and nat: "nat_enabled (srv_nat config)"
    and subnet: "subnet = server_subnet config base" and wan: "wan = nat_interface (srv_nat config)"
    and tool: "nft_tool (mn_exec E) ''nat'' ''POSTROUTING'' (masquerade_line subnet) rs"
    and keep: "others_keep (mn_exec E) rs" and add: "appends_masquerade (mn_exec E) subnet wan rs"
    and up: "server_up (mn_sys E) (mn_exec E) config h = Some (h1, Inr tun)" and ok: "rules_ok (rs (sh_net h))"
    and listen: "reality_enabled (srv_reality config)" "parse_socket_addr (reality_listen (srv_reality config)) = None"
  shows "\<exists>h2 e r. main_serve E config auth path tun h1 = Some (h2, Inl e)
     \<and> rs (sh_net h2) = filter (\<lambda>r. \<not> masquerade_line subnet (show_rule r)) (rs (sh_net h)) @ [r]
     \<and> masquerade_line subnet (show_rule r)"
proof -
  have "\<exists>h2 e. main_serve E config auth path tun h1 = Some (h2, Inl e)"
    using listen by (cases "main_state config auth path"; cases "parse_socket_addr (srv_metrics_listen config)")
      (auto simp: main_serve_def main_listeners_def up_then_def parse_listen_def)
  then obtain h2 e where h2: "main_serve E config auth path tun h1 = Some (h2, Inl e)" by blast
  with main_serve_same [OF h2] server_up_nat [OF base nat subnet wan tool keep add up ok] show ?thesis by auto
qed

text \<open>A TCP listener on an empty address.\<close>

definition sample_bad_config :: server_config where
  "sample_bad_config = sample_server_config\<lparr>srv_reality := \<lparr>reality_enabled = True, reality_listen = [], reality_target = []\<rparr>\<rparr>"

lemma sample_bad_values:
  "subnet_from_config sample_bad_config = Some ''10.0.1.0''" "nat_enabled (srv_nat sample_bad_config)"
  "''10.0.1.0/24'' = server_subnet sample_bad_config ''10.0.1.0''" "''eth0'' = nat_interface (srv_nat sample_bad_config)"
  "server_up sys ex sample_bad_config h = server_up sys ex sample_server_config h"
  using sample_config_values
  by (simp_all add: sample_bad_config_def subnet_from_config_def server_subnet_def server_up_def server_network_up_def server_mss_up_def)

theorem late_error_keeps_nat_witness:
  "\<exists>h1 tun h2 e r. server_up sample_server_sys sample_nft sample_bad_config sample_host = Some (h1, Inr tun)
     \<and> main_serve sample_env sample_bad_config (SinglePsk (PskAuthenticator_new [])) ''/config'' tun h1 = Some (h2, Inl e)
     \<and> sh_net h2 = [r]"
proof -
  obtain h1 tun where up: "server_up sample_server_sys sample_nft sample_bad_config sample_host = Some (h1, Inr tun)"
    using sample_server_up by (auto simp: sample_bad_values)
  have env: "mn_exec sample_env = sample_nft" "mn_sys sample_env = sample_server_sys" by (simp_all add: sample_env_def)
  have bad: "reality_enabled (srv_reality sample_bad_config)" "parse_socket_addr (reality_listen (srv_reality sample_bad_config)) = None"
    by (simp add: sample_bad_config_def, code_simp)
  have "rules_ok (id (sh_net sample_host))" by (simp add: sample_host_def rules_ok_def)
  from late_error_keeps_nat [where E = sample_env and rs = id and auth = "SinglePsk (PskAuthenticator_new [])" and path = "''/config''",
      OF sample_bad_values(1-4), unfolded env, OF sample_nft_tool sample_nft_keep sample_nft_appends up this bad]
  show ?thesis using up by (auto simp: sample_host_def)
qed

end
