(* ===== verification/ClientHost.thy ===== *)
theory ClientHost
  imports Client Startup
begin

text \<open>
  The client on a Linux host: the loop of \<open>run_client\<close> (\<^verbatim>\<open>src/crates/redpill-quic/src/client.rs\<close>) with the
  commands it runs. \<open>Client\<close> keeps the results of the calls as events and logs the calls; here the same loop makes
  them, on the routing table, the resolver file and the descriptors, and refines it.
\<close>

section \<open>State and events\<close>

record 'w client_conf =
  cf_exec :: "'w exec"
  cf_env :: client_env
  cf_server :: string
  cf_port :: u16

record 'w client_machine =
  cm_ctl :: client_state
  cm_host :: "'w os_host"
  cm_tun :: tun_device
  cm_saved :: "saved_routes option"
  cm_uploads :: fds

datatype host_event =
    HostSignal signal
  | HostConnectOk session_config
  | HostConnectErr u64
  | HostTunnelEnds tunnel_exit u64
  | HostSleepDone
  | HostUploadStarted nat
  | HostUploadGone nat

text \<open>
  The events of \<open>Client\<close>, with the upload tasks of the tunnels: a task starts with a duplicate of the device's
  descriptor, one that is not open, and is gone when it ends by itself or when its abort takes effect, which may
  be later. Nobody awaits it. The code starts one task per tunnel; the model does not count them.
\<close>

text \<open>The message of a routing error as \<open>anyhow\<close> has it.\<close>

fun route_anyhow :: "route_error \<Rightarrow> anyhow" where
  "route_anyhow (CommandFailed cmd err) = Bail (''command failed: '' @ cmd @ '' - '' @ err)"
| "route_anyhow (RouteIo e) = e"
| "route_anyhow UnsupportedPlatform = Bail ''route configuration is only supported on Linux and macOS''"
| "route_anyhow NoDefaultGateway = Bail ''could not determine default gateway''"

section \<open>Start-up\<close>

text \<open>Clean-up of what a killed client left, unless in test mode; then the device, dropped when its MTU cannot be set.\<close>

definition client_stale :: "'w client_conf \<Rightarrow> 'w os_host \<Rightarrow> 'w os_host" where
  "client_stale cf h =
     (if ce_test_mode (cf_env cf) then h
      else case cleanup_stale_client_linux (cf_exec cf) (cleanup_stale_linux (sh_net h), sh_files h) of
        (w, fs) \<Rightarrow> h\<lparr>sh_net := w, sh_files := fs\<rparr>)"

definition client_device :: "server_sys \<Rightarrow> 'w os_host \<Rightarrow> ('w, tun_device) startup" where
  "client_device sys h =
     up_then (on_fds (TunDevice_create_linux (sv_tun sys) ''tun'') h) (\<lambda>h tun.
       startup_map (\<lambda>_. tun) (drop_on_error tun
         (up_then (on_fds (set_mtu_linux (sv_socket sys) (sv_ioctl sys) tun (of_nat TUN_MTU)) h) (\<lambda>h _. Some (h, Inr ())))))"

definition client_machine_start :: "tun_device \<Rightarrow> 'w os_host \<Rightarrow> 'w client_machine" where
  "client_machine_start tun h = \<lparr>cm_ctl = client_start, cm_host = h, cm_tun = tun, cm_saved = None, cm_uploads = {}\<rparr>"

section \<open>The loop\<close>

text \<open>Leaving \<open>run_client\<close> by an error: nothing is cleaned up but the device.\<close>

definition client_fail :: "anyhow \<Rightarrow> client_state \<Rightarrow> 'w os_host \<Rightarrow> 'w client_machine \<Rightarrow> 'w client_machine" where
  "client_fail e ctl h m =
     m\<lparr>cm_ctl := ctl\<lparr>cl_phase := Exited (Some e)\<rparr>, cm_host := h\<lparr>sh_fds := TunDevice_drop (cm_tun m) (sh_fds h)\<rparr>\<rparr>"

definition net_op :: "('w, 'a) host \<Rightarrow> 'w os_host \<Rightarrow> 'w os_host \<times> anyhow + 'w os_host \<times> 'a" where
  "net_op f h = (case f (sh_net h) of
     (w, Inl e) \<Rightarrow> Inl (h\<lparr>sh_net := w\<rparr>, route_anyhow e) | (w, Inr x) \<Rightarrow> Inr (h\<lparr>sh_net := w\<rparr>, x))"

definition file_op :: "(file_system, 'a) host \<Rightarrow> 'w os_host \<Rightarrow> 'w os_host \<times> anyhow + 'w os_host \<times> 'a" where
  "file_op f h = (case f (sh_files h) of
     (fs, Inl e) \<Rightarrow> Inl (h\<lparr>sh_files := fs\<rparr>, route_anyhow e) | (fs, Inr x) \<Rightarrow> Inr (h\<lparr>sh_files := fs\<rparr>, x))"

text \<open>
  Routes, DNS and kill switch, once per process. The two listings the code runs afterwards to log their
  output change nothing and are left out.
\<close>

definition client_protect :: "'w client_conf \<Rightarrow> ipv4 \<Rightarrow> client_state \<Rightarrow> 'w os_host \<Rightarrow> 'w client_machine \<Rightarrow> 'w client_machine" where
  "client_protect cf server_tunnel_ip ctl h m =
     (case net_op (get_default_gateway_linux (cf_exec cf)) h of
        Inl (h, e) \<Rightarrow> client_fail e (log_call GetDefaultGateway (Err e) ctl) h m
      | Inr (h, gw) \<Rightarrow>
          let ctl = log_call GetDefaultGateway (Ok ()) ctl in
     (case net_op (setup_client_routes_linux (cf_exec cf) (cf_server cf) server_tunnel_ip gw) h of
        Inl (h, e) \<Rightarrow> client_fail e (log_call SetupRoutes (Err e) ctl) h m
      | Inr (h, saved) \<Rightarrow>
          let ctl = log_call SetupRoutes (Ok ()) ctl in
     (case file_op setup_client_dns_linux h of
        Inl (h, e) \<Rightarrow> client_fail e (log_call SetupDns (Err e) ctl) h m
      | Inr (h, _) \<Rightarrow>
          let ctl = set_saved_routes (log_call SetupDns (Ok ()) ctl); m = m\<lparr>cm_saved := Some saved\<rparr> in
     (case enable_linux (td_name (cm_tun m)) (cf_server cf) (cf_port cf) (sh_net h) of
        (w, Inl e) \<Rightarrow> client_fail e (log_call KillswitchEnable (Err e) ctl) (h\<lparr>sh_net := w\<rparr>) m
      | (w, Inr _) \<Rightarrow>
          m\<lparr>cm_ctl := (set_killswitch_enabled (log_call KillswitchEnable (Ok ()) ctl))\<lparr>cl_phase := InTunnel\<rparr>,
            cm_host := h\<lparr>sh_net := w\<rparr>\<rparr>))))"

definition client_connected :: "'w client_conf \<Rightarrow> session_config \<Rightarrow> 'w client_machine \<Rightarrow> 'w client_machine" where
  "client_connected cf sc m =
     (let ctl = (cm_ctl m)\<lparr>cl_attempt := 0, cl_connected := True\<rparr> in
      case net_op (configure_client_interface_linux (cf_exec cf) (td_name (cm_tun m)) (sc_client_ip sc) (sc_server_ip sc) (sc_mtu sc))
             (cm_host m) of
        Inl (h, e) \<Rightarrow> client_fail e (log_call ConfigureInterface (Err e) ctl) h m
      | Inr (h, _) \<Rightarrow>
          let ctl = log_call ConfigureInterface (Ok ()) ctl in
          if \<not> ce_test_mode (cf_env cf) \<and> \<not> cl_routes_configured ctl \<and> \<not> ce_loopback (cf_env cf)
          then client_protect cf (sc_server_ip sc) ctl h m
          else m\<lparr>cm_ctl := ctl\<lparr>cl_phase := InTunnel\<rparr>, cm_host := h\<rparr>)"

text \<open>
  Leaving the loop by \<open>break\<close>: kill switch, DNS, routes, device. A signal in the tunnel drops \<open>run_tunnel\<close> before its
  end, where it would abort the upload task: the task goes on, detached, with its descriptor.
\<close>

definition client_finish :: "'w client_conf \<Rightarrow> 'w client_machine \<Rightarrow> 'w client_machine" where
  "client_finish cf m =
     (let h = cm_host m;
          h = (if cl_killswitch_enabled (cm_ctl m) then h\<lparr>sh_net := disable_linux (sh_net h)\<rparr> else h);
          h = (case cm_saved m of
                 None \<Rightarrow> h
               | Some saved \<Rightarrow>
                   let h = h\<lparr>sh_files := cleanup_client_dns_linux (sh_files h)\<rparr> in
                   h\<lparr>sh_net := cleanup_client_routes_linux (cf_exec cf) saved (sh_net h)\<rparr>) in
      m\<lparr>cm_ctl := finish (cm_ctl m), cm_host := h\<lparr>sh_fds := TunDevice_drop (cm_tun m) (sh_fds h)\<rparr>\<rparr>)"

definition signal_stops :: "signal \<Rightarrow> client_state \<Rightarrow> bool" where
  "signal_stops sg s \<longleftrightarrow>
     (case cl_phase s of
        Connecting \<Rightarrow> cl_listening s | InTunnel \<Rightarrow> cl_listening s | TunnelBackoff \<Rightarrow> cl_listening s
      | ConnectBackoff \<Rightarrow> sg = SIGINT | Exited _ \<Rightarrow> False)"

definition upload_opens :: "nat \<Rightarrow> 'w client_machine \<Rightarrow> 'w client_machine" where
  "upload_opens fd m = m\<lparr>cm_host := (cm_host m)\<lparr>sh_fds := fd_open fd (sh_fds (cm_host m))\<rparr>, cm_uploads := insert fd (cm_uploads m)\<rparr>"

definition upload_closes :: "nat \<Rightarrow> 'w client_machine \<Rightarrow> 'w client_machine" where
  "upload_closes fd m = m\<lparr>cm_host := (cm_host m)\<lparr>sh_fds := fd_close fd (sh_fds (cm_host m))\<rparr>, cm_uploads := cm_uploads m - {fd}\<rparr>"

fun client_host_step :: "'w client_conf \<Rightarrow> host_event \<Rightarrow> 'w client_machine \<Rightarrow> 'w client_machine" where
  "client_host_step cf (HostSignal sg) m =
     (if signal_stops sg (cm_ctl m) then client_finish cf (m\<lparr>cm_ctl := (cm_ctl m)\<lparr>cl_listening := False\<rparr>\<rparr>)
      else m\<lparr>cm_ctl := on_signal sg (cm_ctl m)\<rparr>)"
| "client_host_step cf (HostConnectOk sc) m = (if cl_phase (cm_ctl m) = Connecting then client_connected cf sc m else m)"
| "client_host_step cf (HostConnectErr rnd) m = m\<lparr>cm_ctl := client_step (cf_env cf) (ConnectErr rnd) (cm_ctl m)\<rparr>"
| "client_host_step cf (HostTunnelEnds x rnd) m = m\<lparr>cm_ctl := client_step (cf_env cf) (TunnelEnds x rnd) (cm_ctl m)\<rparr>"
| "client_host_step cf HostSleepDone m = m\<lparr>cm_ctl := client_step (cf_env cf) SleepDone (cm_ctl m)\<rparr>"
| "client_host_step cf (HostUploadStarted fd) m =
     (if cl_phase (cm_ctl m) = InTunnel \<and> fd \<notin> sh_fds (cm_host m) then upload_opens fd m else m)"
| "client_host_step cf (HostUploadGone fd) m = (if fd \<in> cm_uploads m then upload_closes fd m else m)"

definition client_host_run :: "'w client_conf \<Rightarrow> host_event list \<Rightarrow> 'w client_machine \<Rightarrow> 'w client_machine" where
  "client_host_run cf es m = fold (client_host_step cf) es m"

text \<open>The whole program: stale state, the QUIC endpoint, the device and the loop.\<close>

definition client_program ::
  "'w client_conf \<Rightarrow> unit result \<Rightarrow> server_sys \<Rightarrow> host_event list \<Rightarrow> 'w os_host \<Rightarrow> ('w, 'w client_machine) startup" where
  "client_program cf endpoint sys es h =
     up_then (client_stale cf h, map_sum StartErr id endpoint) (\<lambda>h _.
     Option.bind (client_device sys h) (\<lambda>r. up_then r (\<lambda>h tun.
       let m = client_host_run cf es (client_machine_start tun h) in Some (cm_host m, Inr m))))"

text \<open>The end of \<open>main\<close>: the runtime is dropped, and with it the tasks that are left.\<close>

definition runtime_drop :: "'w client_machine \<Rightarrow> 'w client_machine" where
  "runtime_drop m = m\<lparr>cm_host := (cm_host m)\<lparr>sh_fds := sh_fds (cm_host m) - cm_uploads m\<rparr>, cm_uploads := {}\<rparr>"

section \<open>Refinement of the loop\<close>

lemma client_fail_ctl [simp]: "cm_ctl (client_fail e ctl h m) = ctl\<lparr>cl_phase := Exited (Some e)\<rparr>"
  by (simp add: client_fail_def)

lemma client_protect_ctl:
  "\<exists>g r d k. cm_ctl (client_protect cf tip ctl h m) =
     try_call GetDefaultGateway g id (try_call SetupRoutes r id (try_call SetupDns d set_saved_routes
       (try_call KillswitchEnable k set_killswitch_enabled (\<lambda>s. s\<lparr>cl_phase := InTunnel\<rparr>)))) ctl"
proof (cases "net_op (get_default_gateway_linux (cf_exec cf)) h")
  case (Inl p)
  then show ?thesis by (intro exI [of _ "Inl (snd p)"]) (auto simp: client_protect_def split: prod.splits)
next
  case (Inr p)
  obtain h1 gw where g: "net_op (get_default_gateway_linux (cf_exec cf)) h = Inr (h1, gw)" using Inr by (cases p) auto
  show ?thesis
  proof (cases "net_op (setup_client_routes_linux (cf_exec cf) (cf_server cf) tip gw) h1")
    case (Inl q)
    then show ?thesis
      by (intro exI [of _ "Inr ()"] exI [of _ "Inl (snd q)"]) (auto simp: client_protect_def g split: prod.splits)
  next
    case (Inr q)
    obtain h2 saved where r: "net_op (setup_client_routes_linux (cf_exec cf) (cf_server cf) tip gw) h1 = Inr (h2, saved)"
      using Inr by (cases q) auto
    show ?thesis
    proof (cases "file_op setup_client_dns_linux h2")
      case (Inl f)
      then show ?thesis
        by (intro exI [of _ "Inr ()"] exI [of _ "Inl (snd f)"]) (auto simp: client_protect_def g r split: prod.splits)
    next
      case (Inr f)
      then show ?thesis
        by (intro exI [of _ "Inr ()"]) (auto simp: client_protect_def g r enable_linux_def Let_def split: prod.splits)
    qed
  qed
qed

lemma client_connected_ctl: "\<exists>io. cm_ctl (client_connected cf sc m) = on_connected (cf_env cf) io (cm_ctl m)"
proof -
  let ?ctl = "(cm_ctl m)\<lparr>cl_attempt := 0, cl_connected := True\<rparr>"
  let ?op = "net_op (configure_client_interface_linux (cf_exec cf) (td_name (cm_tun m)) (sc_client_ip sc) (sc_server_ip sc) (sc_mtu sc)) (cm_host m)"
  show ?thesis
  proof (cases ?op)
    case (Inl p)
    then show ?thesis
      by (intro exI [of _ "\<lparr>si_interface = Inl (snd p), si_gateway = Ok (), si_routes = Ok (), si_dns = Ok (), si_killswitch = Ok ()\<rparr>"])
        (auto simp: client_connected_def on_connected_def Let_def split: prod.splits)
  next
    case (Inr p)
    obtain h where h: "?op = Inr (h, ())" using Inr by (cases p) auto
    let ?ctl = "log_call ConfigureInterface (Ok ()) ?ctl"
    from client_protect_ctl [of cf "sc_server_ip sc" ?ctl h m] obtain g r d k where ctl:
      "cm_ctl (client_protect cf (sc_server_ip sc) ?ctl h m) =
        try_call GetDefaultGateway g id (try_call SetupRoutes r id (try_call SetupDns d set_saved_routes
       (try_call KillswitchEnable k set_killswitch_enabled (\<lambda>s. s\<lparr>cl_phase := InTunnel\<rparr>)))) ?ctl"
      by blast
    show ?thesis
      by (intro exI [of _ "\<lparr>si_interface = Ok (), si_gateway = g, si_routes = r, si_dns = d, si_killswitch = k\<rparr>"])
        (simp add: client_connected_def on_connected_def Let_def h ctl)
  qed
qed

lemma client_finish_ctl [simp]: "cm_ctl (client_finish cf m) = finish (cm_ctl m)"
  by (simp add: client_finish_def Let_def)

lemma signal_stops_ctl: "signal_stops sg s \<Longrightarrow> on_signal sg s = finish (s\<lparr>cl_listening := False\<rparr>)"
  by (auto simp: signal_stops_def on_signal_def Let_def split: phase.splits)

lemma upload_ctl [simp]:
  "cm_ctl (upload_opens fd m) = cm_ctl m" "cm_ctl (upload_closes fd m) = cm_ctl m"
  by (simp_all add: upload_opens_def upload_closes_def)

text \<open>Each step is a step of \<open>Client\<close>, or a step of an upload task, which \<open>Client\<close> does not see.\<close>

lemma client_host_step_ctl:
  "cm_ctl (client_host_step cf e m) = cm_ctl m \<or> (\<exists>e'. cm_ctl (client_host_step cf e m) = client_step (cf_env cf) e' (cm_ctl m))"
proof (cases e)
  case (HostSignal sg)
  then show ?thesis by (intro disjI2 exI [of _ "Signal sg"]) (simp add: signal_stops_ctl)
next
  case (HostConnectOk sc)
  obtain io where "cm_ctl (client_connected cf sc m) = on_connected (cf_env cf) io (cm_ctl m)" using client_connected_ctl by blast
  with HostConnectOk show ?thesis by (intro disjI2 exI [of _ "ConnectOk io"]) simp
qed (auto simp del: client_step.simps)

lemma client_host_run_ctl: "\<exists>es'. cm_ctl (client_host_run cf es m) = client_run (cf_env cf) es' (cm_ctl m)"
proof (induction es arbitrary: m)
  case Nil
  show ?case by (intro exI [of _ "[]"]) (simp add: client_host_run_def client_run_def)
next
  case (Cons e es)
  from Cons obtain es' where run: "cm_ctl (client_host_run cf (e # es) m) = client_run (cf_env cf) es' (cm_ctl (client_host_step cf e m))"
    by (auto simp: client_host_run_def)
  from client_host_step_ctl [of cf e m] show ?case
  proof (elim disjE exE)
    fix e'
    assume "cm_ctl (client_host_step cf e m) = client_step (cf_env cf) e' (cm_ctl m)"
    with run show ?thesis by (intro exI [of _ "e' # es'"]) (simp add: client_run_def)
  qed (use run in auto)
qed

section \<open>What the host looks like\<close>

text \<open>
  \<open>tbl\<close> holds the routes through a gateway. The route to the peer that comes with an address is not in it, and the
  three other commands of the set-up leave it alone: adding the address, setting MTU and state of the link,
  and listing the default route.
\<close>

definition addr_add :: "string \<Rightarrow> ipv4 \<Rightarrow> ipv4 \<Rightarrow> string list" where
  "addr_add dev cip sip = [''addr'', ''add'', show_ipv4 cip @ ''/32'', ''peer'', show_ipv4 sip @ ''/32'', ''dev'', dev]"

definition link_up :: "string \<Rightarrow> u16 \<Rightarrow> string list" where
  "link_up dev mtu = [''link'', ''set'', dev, ''mtu'', show_nat (unat mtu), ''up'']"

definition route_show :: "string list" where
  "route_show = [''route'', ''show'', ''default'']"

definition link_keeps :: "'w exec \<Rightarrow> ('w \<Rightarrow> route_table) \<Rightarrow> bool" where
  "link_keeps ex tbl \<longleftrightarrow>
     (\<forall>w args. (\<exists>dev cip sip. args = addr_add dev cip sip) \<or> (\<exists>dev mtu. args = link_up dev mtu) \<or> args = route_show \<longrightarrow>
        tbl (fst (ex ''ip'' args [] w)) = tbl w)"

lemma link_keepsD:
  assumes "link_keeps ex tbl"
  shows "tbl (fst (ex ''ip'' (addr_add dev cip sip) [] w)) = tbl w" "tbl (fst (ex ''ip'' (link_up dev mtu) [] w)) = tbl w"
    "tbl (fst (ex ''ip'' route_show [] w)) = tbl w"
  using assms unfolding link_keeps_def by blast+

lemma configure_client_interface_cons:
  "configure_client_interface_linux ex dev cip sip mtu = run_cmds ex [(''ip'', addr_add dev cip sip), (''ip'', link_up dev mtu)]"
  by (simp add: configure_client_interface_linux_def addr_add_def link_up_def)

definition dns_saved :: "string \<Rightarrow> file_system \<Rightarrow> bool" where
  "dns_saved orig fs \<longleftrightarrow>
     map_of (files fs) RESOLV_CONF = Some vpn_resolv \<and> map_of (files fs) RESOLV_BAK = Some orig \<and> may_write fs RESOLV_CONF"

definition dns_ready :: "string \<Rightarrow> file_system \<Rightarrow> bool" where
  "dns_ready orig fs \<longleftrightarrow>
     map_of (files fs) RESOLV_CONF = Some orig \<and> utf8_ok (map code orig) \<and> may_write fs RESOLV_CONF \<and> may_write fs RESOLV_BAK"

lemma dns_up: "dns_ready orig fs \<Longrightarrow> setup_client_dns_linux fs = (fs', r) \<Longrightarrow> r = Inr () \<and> dns_saved orig fs'"
  by (auto simp: dns_ready_def dns_saved_def setup_client_dns_linux_def read_to_string_def try_fs_def fs_write_eq Let_def
      split: if_splits)

lemma dns_down: "dns_saved orig fs \<Longrightarrow> utf8_ok (map code orig) \<Longrightarrow>
    map_of (files (cleanup_client_dns_linux fs)) RESOLV_CONF = Some orig"
  by (auto simp: dns_saved_def cleanup_client_dns_linux_def read_to_string_def try_fs_def fs_write_eq fs_remove_def)

lemma interface_table:
  assumes "link_keeps ex tbl" "configure_client_interface_linux ex dev cip sip mtu w = (w', r)"
  shows "tbl w' = tbl w"
proof -
  have "tbl (fst (configure_client_interface_linux ex dev cip sip mtu w)) = tbl w"
    unfolding configure_client_interface_cons by (rule run_cmds_keep) (simp add: link_keepsD [OF assms(1)])
  with assms(2) show ?thesis by simp
qed

lemma gateway_table:
  assumes "link_keeps ex tbl" "get_default_gateway_linux ex w = (w', r)"
  shows "tbl w' = tbl w"
proof -
  note link_keepsD(3) [OF assms(1), of w]
  with assms(2) show ?thesis
    by (auto simp: route_show_def get_default_gateway_linux_def host_then_def run_cmd_output_def split: prod.splits sum.splits if_splits)
qed

text \<open>The protections in place, with what the clean-up needs to know; and the host as it was.\<close>

definition protected :: "('w \<Rightarrow> route_table) \<Rightarrow> string \<Rightarrow> ipv4 \<Rightarrow> route_table \<Rightarrow> string \<Rightarrow> 'w client_machine \<Rightarrow> bool" where
  "protected tbl server a t0 orig m \<longleftrightarrow>
     (\<exists>gw tip. cm_saved m = Some \<lparr>sr_server_real_ip = server, sr_gateway = gw, sr_server_tunnel_ip = show_ipv4 tip\<rparr>
        \<and> tbl (sh_net (cm_host m)) = with_routes (vpn_routes a gw tip) t0)
     \<and> t0 (a, 32) = None \<and> t0 half0 = None \<and> t0 half1 = None \<and> dns_saved orig (sh_files (cm_host m))"

definition untouched :: "('w \<Rightarrow> route_table) \<Rightarrow> route_table \<Rightarrow> string \<Rightarrow> 'w client_machine \<Rightarrow> bool" where
  "untouched tbl t0 orig m \<longleftrightarrow>
     cm_saved m = None \<and> tbl (sh_net (cm_host m)) = t0 \<and> dns_ready orig (sh_files (cm_host m))"

definition host_invar :: "'w client_conf \<Rightarrow> ('w \<Rightarrow> route_table) \<Rightarrow> ipv4 \<Rightarrow> route_table \<Rightarrow> string \<Rightarrow> 'w client_machine \<Rightarrow> bool" where
  "host_invar cf tbl a t0 orig m \<longleftrightarrow>
     (case cl_phase (cm_ctl m) of
        Exited None \<Rightarrow> tbl (sh_net (cm_host m)) = t0 \<and> map_of (files (sh_files (cm_host m))) RESOLV_CONF = Some orig
      | Exited (Some e) \<Rightarrow> True
      | _ \<Rightarrow> if cl_routes_configured (cm_ctl m) then protected tbl (cf_server cf) a t0 orig m else untouched tbl t0 orig m)"

lemma host_invar_running:
  "\<forall>r. cl_phase (cm_ctl m) \<noteq> Exited r \<Longrightarrow> host_invar cf tbl a t0 orig m \<longleftrightarrow>
     (if cl_routes_configured (cm_ctl m) then protected tbl (cf_server cf) a t0 orig m else untouched tbl t0 orig m)"
  by (auto simp: host_invar_def split: phase.splits)

lemma host_invar_fail [simp]: "host_invar cf tbl a t0 orig (client_fail e ctl h m)"
  by (simp add: host_invar_def)

lemma net_op_cases:
  "net_op f h = Inl (h', e) \<Longrightarrow> \<exists>w e'. f (sh_net h) = (w, Inl e') \<and> h' = h\<lparr>sh_net := w\<rparr>"
  "net_op f h = Inr (h', x) \<Longrightarrow> \<exists>w. f (sh_net h) = (w, Inr x) \<and> h' = h\<lparr>sh_net := w\<rparr>"
  by (auto simp: net_op_def split: prod.splits sum.splits)

lemma file_op_cases: "file_op f h = Inr (h', x) \<Longrightarrow> \<exists>fs. f (sh_files h) = (fs, Inr x) \<and> h' = h\<lparr>sh_files := fs\<rparr>"
  by (auto simp: file_op_def split: prod.splits sum.splits)

lemma client_finish_invar:
  assumes tool: "route_tool OnLinux (cf_exec cf) tbl" and server: "parse_ipv4 (cf_server cf) = Some a"
    and utf8: "utf8_ok (map code orig)"
    and inv: "host_invar cf tbl a t0 orig m" and run: "\<forall>r. cl_phase (cm_ctl m) \<noteq> Exited r"
  shows "host_invar cf tbl a t0 orig (client_finish cf m)"
proof (cases "cl_routes_configured (cm_ctl m)")
  case True
  with inv run have p: "protected tbl (cf_server cf) a t0 orig m" by (simp add: host_invar_running)
  then obtain gw tip where saved: "cm_saved m = Some \<lparr>sr_server_real_ip = cf_server cf, sr_gateway = gw, sr_server_tunnel_ip = show_ipv4 tip\<rparr>"
    and t: "tbl (sh_net (cm_host m)) = with_routes (vpn_routes a gw tip) t0"
    and fresh: "t0 (a, 32) = None" "t0 half0 = None" "t0 half1 = None" and dns: "dns_saved orig (sh_files (cm_host m))"
    by (auto simp: protected_def)
  have "t0((a, 32) := None, half0 := None, half1 := None) = t0" using fresh by auto
  with deletes_routes [OF tool server t] dns_down [OF dns utf8] show ?thesis
    by (simp add: host_invar_def client_finish_def finish_def Let_def saved disable_linux_def cleanup_client_routes_def)
next
  case False
  with inv run have "untouched tbl t0 orig m" by (simp add: host_invar_running)
  then show ?thesis
    by (simp add: host_invar_def client_finish_def finish_def Let_def untouched_def disable_linux_def dns_ready_def)
qed

lemma client_protect_invar:
  assumes tool: "route_tool OnLinux (cf_exec cf) tbl" "link_keeps (cf_exec cf) tbl" and server: "parse_ipv4 (cf_server cf) = Some a"
    and start: "tbl (sh_net h) = t0" "dns_ready orig (sh_files h)"
  shows "host_invar cf tbl a t0 orig (client_protect cf tip ctl h m)"
proof (cases "net_op (get_default_gateway_linux (cf_exec cf)) h")
  case (Inl p)
  then show ?thesis by (cases p) (simp add: client_protect_def)
next
  case (Inr p)
  obtain h1 gw where g: "net_op (get_default_gateway_linux (cf_exec cf)) h = Inr (h1, gw)" using Inr by (cases p) auto
  from net_op_cases(2) [OF g] obtain w1 where w1: "get_default_gateway_linux (cf_exec cf) (sh_net h) = (w1, Inr gw)"
    "h1 = h\<lparr>sh_net := w1\<rparr>" by blast
  from gateway_table [OF tool(2) w1(1)] have t1: "tbl w1 = t0" by (simp add: start)
  show ?thesis
  proof (cases "net_op (setup_client_routes_linux (cf_exec cf) (cf_server cf) tip gw) h1")
    case (Inl q)
    then show ?thesis by (cases q) (simp add: client_protect_def g)
  next
    case (Inr q)
    obtain h2 saved where r: "net_op (setup_client_routes_linux (cf_exec cf) (cf_server cf) tip gw) h1 = Inr (h2, saved)"
      using Inr by (cases q) auto
    from net_op_cases(2) [OF r] obtain w2
      where w2: "setup_client_routes OnLinux (cf_exec cf) (cf_server cf) tip gw w1 = (w2, Inr saved)" "h2 = h1\<lparr>sh_net := w2\<rparr>"
      by (auto simp: w1 setup_client_routes_def)
    from setup_client_routes_table [OF tool(1) server w2(1)] t1
    have tbl: "tbl w2 = with_routes (vpn_routes a gw tip) t0" "t0 (a, 32) = None" "t0 half0 = None" "t0 half1 = None"
      "saved = \<lparr>sr_server_real_ip = cf_server cf, sr_gateway = gw, sr_server_tunnel_ip = show_ipv4 tip\<rparr>" by auto
    obtain fs d where d: "setup_client_dns_linux (sh_files h2) = (fs, d)" by fastforce
    with dns_up [OF _ d, of orig] start have "d = Inr ()" "dns_saved orig fs" by (auto simp: w2 w1)
    from d \<open>d = Inr ()\<close> have "file_op setup_client_dns_linux h2 = Inr (h2\<lparr>sh_files := fs\<rparr>, ())" by (simp add: file_op_def)
    then have "client_protect cf tip ctl h m = m\<lparr>cm_saved := Some saved, cm_host := h2\<lparr>sh_files := fs\<rparr>,
        cm_ctl := (set_killswitch_enabled (log_call KillswitchEnable (Ok ()) (set_saved_routes (log_call SetupDns (Ok ())
          (log_call SetupRoutes (Ok ()) (log_call GetDefaultGateway (Ok ()) ctl))))))\<lparr>cl_phase := InTunnel\<rparr>\<rparr>"
      by (simp add: client_protect_def g r enable_linux_def Let_def)
    with tbl \<open>dns_saved orig fs\<close> show ?thesis by (auto simp: host_invar_def protected_def w2)
  qed
qed

lemma client_connected_invar:
  assumes tool: "route_tool OnLinux (cf_exec cf) tbl" "link_keeps (cf_exec cf) tbl" and server: "parse_ipv4 (cf_server cf) = Some a"
    and inv: "host_invar cf tbl a t0 orig m" and run: "cl_phase (cm_ctl m) = Connecting"
  shows "host_invar cf tbl a t0 orig (client_connected cf sc m)"
proof -
  let ?op = "net_op (configure_client_interface_linux (cf_exec cf) (td_name (cm_tun m)) (sc_client_ip sc) (sc_server_ip sc) (sc_mtu sc)) (cm_host m)"
  show ?thesis
  proof (cases ?op)
    case (Inl p)
    then show ?thesis by (cases p) (simp add: client_connected_def Let_def)
  next
    case (Inr p)
    obtain h where op: "?op = Inr (h, ())" using Inr by (cases p) auto
    from net_op_cases(2) [OF op] interface_table [OF tool(2)] have h: "tbl (sh_net h) = tbl (sh_net (cm_host m))"
      "sh_files h = sh_files (cm_host m)" by auto
    show ?thesis
    proof (cases "cl_routes_configured (cm_ctl m)")
      case True
      with inv run have "protected tbl (cf_server cf) a t0 orig m" by (simp add: host_invar_running)
      with True h show ?thesis by (simp add: client_connected_def op Let_def host_invar_def protected_def)
    next
      case False
      with inv run have u: "untouched tbl t0 orig m" by (simp add: host_invar_running)
      have "host_invar cf tbl a t0 orig (client_protect cf (sc_server_ip sc) ctl h m)" for ctl
        by (rule client_protect_invar [OF tool server]) (use u h in \<open>simp_all add: untouched_def\<close>)
      moreover have "host_invar cf tbl a t0 orig
          (m\<lparr>cm_ctl := (log_call c r ((cm_ctl m)\<lparr>cl_attempt := 0, cl_connected := True\<rparr>))\<lparr>cl_phase := InTunnel\<rparr>, cm_host := h\<rparr>)" for c r
        using u h False by (simp add: host_invar_def untouched_def)
      ultimately show ?thesis by (simp add: client_connected_def op Let_def)
    qed
  qed
qed

lemma host_invar_ctl:
  assumes "host_invar cf tbl a t0 orig m" "cl_routes_configured ctl = cl_routes_configured (cm_ctl m)"
    and "ctl = cm_ctl m \<or> (\<forall>r. cl_phase ctl \<noteq> Exited r) \<and> (\<forall>r. cl_phase (cm_ctl m) \<noteq> Exited r)"
  shows "host_invar cf tbl a t0 orig (m\<lparr>cm_ctl := ctl\<rparr>)"
  using assms by (auto simp: host_invar_running protected_def untouched_def)

lemma signal_ignored:
  assumes "\<not> signal_stops sg s"
  shows "on_signal sg s = s \<or> (\<forall>r. cl_phase (on_signal sg s) \<noteq> Exited r) \<and> (\<forall>r. cl_phase s \<noteq> Exited r)"
    and "cl_routes_configured (on_signal sg s) = cl_routes_configured s"
  using assms by (auto simp: signal_stops_def on_signal_def Let_def split: phase.splits)

lemma host_invar_upload:
  assumes "host_invar cf tbl a t0 orig m"
  shows "host_invar cf tbl a t0 orig (upload_opens fd m)" "host_invar cf tbl a t0 orig (upload_closes fd m)"
  using assms
  by (auto simp: host_invar_def upload_opens_def upload_closes_def protected_def untouched_def split: phase.splits option.splits)

lemma client_host_step_invar:
  assumes tool: "route_tool OnLinux (cf_exec cf) tbl" "link_keeps (cf_exec cf) tbl" and server: "parse_ipv4 (cf_server cf) = Some a"
    and utf8: "utf8_ok (map code orig)" and inv: "host_invar cf tbl a t0 orig m"
  shows "host_invar cf tbl a t0 orig (client_host_step cf e m)"
proof (cases e)
  case (HostSignal sg)
  show ?thesis
  proof (cases "signal_stops sg (cm_ctl m)")
    case True
    then have run: "\<forall>r. cl_phase (cm_ctl m) \<noteq> Exited r" by (auto simp: signal_stops_def split: phase.splits)
    then have "host_invar cf tbl a t0 orig (m\<lparr>cm_ctl := (cm_ctl m)\<lparr>cl_listening := False\<rparr>\<rparr>)"
      by (intro host_invar_ctl [OF inv]) simp_all
    from client_finish_invar [OF tool(1) server utf8 this] run True HostSignal show ?thesis by simp
  next
    case False
    from host_invar_ctl [OF inv signal_ignored(2) [OF False] signal_ignored(1) [OF False]] False HostSignal show ?thesis by simp
  qed
next
  case (HostConnectOk sc)
  then show ?thesis using client_connected_invar [OF tool server inv] inv by simp
next
  case (HostConnectErr rnd)
  show ?thesis unfolding HostConnectErr client_host_step.simps
    by (rule host_invar_ctl [OF inv]) (auto simp: back_off_def Let_def)
next
  case (HostTunnelEnds x rnd)
  show ?thesis unfolding HostTunnelEnds client_host_step.simps
    by (rule host_invar_ctl [OF inv]; cases x) (auto simp: back_off_def Let_def)
next
  case HostSleepDone
  show ?thesis unfolding HostSleepDone client_host_step.simps by (rule host_invar_ctl [OF inv]) auto
next
  case (HostUploadStarted fd)
  then show ?thesis using inv by (simp add: host_invar_upload)
next
  case (HostUploadGone fd)
  then show ?thesis using inv by (simp add: host_invar_upload)
qed

lemma client_host_run_invar:
  assumes "route_tool OnLinux (cf_exec cf) tbl" "link_keeps (cf_exec cf) tbl" "parse_ipv4 (cf_server cf) = Some a"
    and "utf8_ok (map code orig)" "host_invar cf tbl a t0 orig m"
  shows "host_invar cf tbl a t0 orig (client_host_run cf es m)"
  using assms(5) unfolding client_host_run_def
  by (induction es arbitrary: m) (simp_all add: client_host_step_invar [OF assms(1-4)])

section \<open>A sample host\<close>

text \<open>A routing table, the addresses added so far, and a default gateway.\<close>

definition sample_linux :: "(route_table \<times> string list list) exec" where
  "sample_linux program args inp w =
     (let answer = (\<lambda>w ok out. (w, Inr \<lparr>out_success = ok, out_stdout = out, out_stderr = []\<rparr>)) in
      if args = [''route'', ''show'', ''default''] then answer w True (''default via 192.168.1.1 dev eth0'' @ [newline])
      else if take 1 args = [''addr''] then
        (if args \<in> set (snd w) then answer w False [] else answer (fst w, args # snd w) True [])
      else if take 1 args = [''link''] then answer w True []
      else case sample_ip program args inp (fst w) of (t, r) \<Rightarrow> ((t, snd w), r))"

lemma sample_linux_route [simp]:
  "sample_linux p (''route'' # x # y # z # as) inp w = (case sample_ip p (''route'' # x # y # z # as) inp (fst w) of (t, r) \<Rightarrow> ((t, snd w), r))"
  "sample_linux p [''route'', ''del'', d] inp w = (case sample_ip p [''route'', ''del'', d] inp (fst w) of (t, r) \<Rightarrow> ((t, snd w), r))"
  by (simp_all add: sample_linux_def Let_def)

lemma sample_linux_lift:
  assumes "\<And>inp w. sample_linux p args inp w = (case sample_ip p args inp (fst w) of (t, r) \<Rightarrow> ((t, snd w), r))"
  shows "adds_route sample_ip id p args d gw \<Longrightarrow> adds_route sample_linux fst p args d gw"
    and "deletes_route sample_ip id p args d acc \<Longrightarrow> deletes_route sample_linux fst p args d acc"
proof -
  have f: "fst (fst (sample_linux p args [] w)) = fst (sample_ip p args [] (fst w))"
    "snd (sample_linux p args [] w) = snd (sample_ip p args [] (fst w))" for w
    by (simp_all add: assms split: prod.split)
  show "adds_route sample_ip id p args d gw \<Longrightarrow> adds_route sample_linux fst p args d gw"
    unfolding adds_route_def cmd_ok_def f by simp
  show "deletes_route sample_ip id p args d acc \<Longrightarrow> deletes_route sample_linux fst p args d acc"
    unfolding deletes_route_def cmd_ok_def f by simp
qed

lemma sample_linux_tool: "route_tool OnLinux sample_linux fst"
  using sample_ip_tool by (auto intro!: sample_linux_lift)

lemma sample_linux_link: "link_keeps sample_linux fst"
  by (auto simp: link_keeps_def sample_linux_def Let_def addr_add_def link_up_def route_show_def)

definition sample_client :: "(route_table \<times> string list list) client_conf" where
  "sample_client = \<lparr>cf_exec = sample_linux, cf_env = \<lparr>ce_test_mode = False, ce_loopback = False\<rparr>, cf_server = sample_server_ip, cf_port = 443\<rparr>"

definition sample_client_host :: "(route_table \<times> string list list) os_host" where
  "sample_client_host =
     \<lparr>sh_net = (Map.empty, []),
      sh_files = \<lparr>files = [(RESOLV_CONF, ''nameserver 9.9.9.9'')], dirs = [''/etc''], writable = \<lambda>_. True\<rparr>, sh_fds = {0, 1, 2}\<rparr>"

definition sample_session :: session_config where
  "sample_session = \<lparr>sc_client_ip = Ipv4Addr 10 0 1 2, sc_server_ip = Ipv4Addr 10 0 1 1, sc_dns_ip = Ipv4Addr 1 1 1 1, sc_mtu = 1200,
     sc_keepalive_secs = 10, sc_flags = 0\<rparr>"

abbreviation sample_machine :: "(route_table \<times> string list list) client_machine" where
  "sample_machine \<equiv> client_machine_start \<lparr>td_fd = 5, td_name = ''tun''\<rparr> (sample_client_host\<lparr>sh_fds := {0, 1, 2, 5}\<rparr>)"

lemma sample_dns_ready: "dns_ready ''nameserver 9.9.9.9'' (sh_files sample_client_host)"
proof -
  have "parent RESOLV_CONF = ''/etc''" "RESOLV_CONF \<noteq> ''/etc''" "RESOLV_BAK \<noteq> ''/etc''" by (simp_all add: RESOLV_CONF_def RESOLV_BAK_def parent_def)
  moreover have "utf8_ok (map code ''nameserver 9.9.9.9'')" by code_simp
  ultimately show ?thesis by (simp add: dns_ready_def sample_client_host_def may_write_def)
qed

lemma sample_connects:
  "cl_phase (cm_ctl (client_host_step sample_client (HostConnectOk sample_session) sample_machine)) = InTunnel"
  "cl_listening (cm_ctl (client_host_step sample_client (HostConnectOk sample_session) sample_machine))"
proof -
  have gw: "get_default_gateway_linux sample_linux w = (w, Inr ''192.168.1.1'')" for w
  proof -
    have "is_word ''default''" "is_word ''via''" "is_word ''192.168.1.1''" "is_word ''dev''" "is_word ''eth0''"
      by (simp_all add: is_word_def visible_def ascii_white_def code_def)
    then show ?thesis
      by (intro default_gateway_found [where pre = "[]" and post = "[]" and others = "[''dev'', ''eth0'']" and err = "[]"])
        (simp_all add: sample_linux_def Let_def)
  qed
  have iface: "configure_client_interface_linux sample_linux dev cip sip mtu (t, []) = ((t, [addr_add dev cip sip]), Inr ())" for dev cip sip mtu t
    by (simp add: configure_client_interface_linux_def host_then_def host_return_def run_cmd_def sample_linux_def Let_def addr_add_def)
  obtain t saved where routes: "setup_client_routes_linux sample_linux sample_server_ip (Ipv4Addr 10 0 1 1) ''192.168.1.1'' (Map.empty, as)
      = ((t, as), Inr saved)" for as
    using that by (auto simp: setup_client_routes_linux_def Let_def host_then_def host_return_def
      run_cmd_def sample_ip_ok sample_network_host [OF sample_server_parses])
  obtain fs where dns: "setup_client_dns_linux (sh_files sample_client_host) = (fs, Inr ())"
    using dns_up [OF sample_dns_ready] by (metis prod.collapse)
  show "cl_phase (cm_ctl (client_host_step sample_client (HostConnectOk sample_session) sample_machine)) = InTunnel"
    using dns by (simp add: client_connected_def client_protect_def net_op_def file_op_def client_machine_start_def client_start_def
        sample_client_def sample_client_host_def sample_session_def Let_def gw iface routes enable_linux_def)
  show "cl_listening (cm_ctl (client_host_step sample_client (HostConnectOk sample_session) sample_machine))"
    using dns by (simp add: client_connected_def client_protect_def net_op_def file_op_def client_machine_start_def client_start_def
        sample_client_def sample_client_host_def sample_session_def Let_def gw iface routes enable_linux_def)
qed

lemma sample_no_uploads: "cm_uploads (client_host_step sample_client (HostConnectOk sample_session) sample_machine) = {}"
  by (simp add: client_connected_def client_protect_def client_fail_def client_machine_start_def Let_def split: sum.split prod.split)

section \<open>Properties\<close>

lemma client_machine_ctl_invar: "client_invar (cf_env cf) (cm_ctl (client_host_run cf es (client_machine_start tun h)))"
proof -
  obtain es' where "cm_ctl (client_host_run cf es (client_machine_start tun h)) = client_run (cf_env cf) es' client_start"
    using client_host_run_ctl [of cf es "client_machine_start tun h"] by (auto simp: client_machine_start_def)
  then show ?thesis by (simp add: client_run_invar client_start_invar)
qed

lemma client_host_protected_and_restored:
  assumes tool: "route_tool OnLinux (cf_exec cf) tbl" "link_keeps (cf_exec cf) tbl" and server: "parse_ipv4 (cf_server cf) = Some a"
    and ready: "dns_ready orig (sh_files h)"
    and run: "m = client_host_run cf es (client_machine_start tun h)"
  shows "(cl_phase (cm_ctl m) = Exited None \<longrightarrow>
        tbl (sh_net (cm_host m)) = tbl (sh_net h) \<and> map_of (files (sh_files (cm_host m))) RESOLV_CONF = Some orig)
     \<and> (cl_phase (cm_ctl m) = InTunnel \<and> \<not> ce_test_mode (cf_env cf) \<and> \<not> ce_loopback (cf_env cf) \<longrightarrow>
        (\<exists>gw tip. tbl (sh_net (cm_host m)) = (tbl (sh_net h))((a, 32) \<mapsto> gw, half0 \<mapsto> show_ipv4 tip, half1 \<mapsto> show_ipv4 tip))
        \<and> map_of (files (sh_files (cm_host m))) RESOLV_CONF = Some vpn_resolv)"
proof -
  have "host_invar cf tbl a (tbl (sh_net h)) orig (client_machine_start tun h)"
    using ready by (simp add: host_invar_def client_machine_start_def client_start_def untouched_def)
  then have inv: "host_invar cf tbl a (tbl (sh_net h)) orig m"
    unfolding run by (intro client_host_run_invar [OF tool server]) (use ready in \<open>simp_all add: dns_ready_def\<close>)
  have ctl: "client_invar (cf_env cf) (cm_ctl m)" unfolding run by (rule client_machine_ctl_invar)
  show ?thesis
  proof (intro conjI impI)
    assume "cl_phase (cm_ctl m) = Exited None"
    with inv show "tbl (sh_net (cm_host m)) = tbl (sh_net h)" "map_of (files (sh_files (cm_host m))) RESOLV_CONF = Some orig"
      by (simp_all add: host_invar_def)
  next
    assume t: "cl_phase (cm_ctl m) = InTunnel \<and> \<not> ce_test_mode (cf_env cf) \<and> \<not> ce_loopback (cf_env cf)"
    with ctl have "cl_routes_configured (cm_ctl m)" by (simp add: client_invar_def)
    with inv t have p: "protected tbl (cf_server cf) a (tbl (sh_net h)) orig m" by (simp add: host_invar_def)
    then show "\<exists>gw tip. tbl (sh_net (cm_host m)) = (tbl (sh_net h))((a, 32) \<mapsto> gw, half0 \<mapsto> show_ipv4 tip, half1 \<mapsto> show_ipv4 tip)"
      by (auto simp: protected_def vpn_routes_def)
    from p show "map_of (files (sh_files (cm_host m))) RESOLV_CONF = Some vpn_resolv" by (simp add: protected_def dns_saved_def)
  qed
qed

text \<open>
  Whoever leaves the loop, by whatever way, closes the device and no other descriptor; besides those open before, the
  descriptors of the upload tasks are open.
\<close>

definition fds_invar :: "tun_device \<Rightarrow> fds \<Rightarrow> 'w client_machine \<Rightarrow> bool" where
  "fds_invar tun fds m \<longleftrightarrow>
     cm_tun m = tun \<and> cm_uploads m \<inter> fds = {}
     \<and> sh_fds (cm_host m) = (case cl_phase (cm_ctl m) of Exited _ \<Rightarrow> TunDevice_drop tun fds | _ \<Rightarrow> fds) \<union> cm_uploads m"

lemma drop_union: "td_fd tun \<in> fds \<Longrightarrow> U \<inter> fds = {} \<Longrightarrow> TunDevice_drop tun (fds \<union> U) = TunDevice_drop tun fds \<union> U"
  by (auto simp: TunDevice_drop_def fd_close_def)

lemma client_fail_fds:
  assumes "td_fd tun \<in> fds" "cm_tun m = tun" "cm_uploads m \<inter> fds = {}" "sh_fds h = fds \<union> cm_uploads m"
  shows "fds_invar tun fds (client_fail e ctl h m)"
  using assms by (simp add: fds_invar_def client_fail_def drop_union)

lemma running_fds:
  "cm_tun m = tun \<Longrightarrow> cm_uploads m \<inter> fds = {} \<Longrightarrow> cl_phase ctl = InTunnel \<Longrightarrow> sh_fds h = fds \<union> cm_uploads m \<Longrightarrow>
   fds_invar tun fds (m\<lparr>cm_ctl := ctl, cm_host := h\<rparr>)"
  by (simp add: fds_invar_def)

lemma op_fds: "net_op f h = Inl (h', e) \<Longrightarrow> sh_fds h' = sh_fds h" "net_op f h = Inr (h', x) \<Longrightarrow> sh_fds h' = sh_fds h"
  "file_op g h = Inl (h', e) \<Longrightarrow> sh_fds h' = sh_fds h" "file_op g h = Inr (h', y) \<Longrightarrow> sh_fds h' = sh_fds h"
  by (auto simp: net_op_def file_op_def split: prod.splits sum.splits)

lemma client_protect_fds:
  assumes tun: "td_fd tun \<in> fds" "cm_tun m = tun" "cm_uploads m \<inter> fds = {}" and h: "sh_fds h = fds \<union> cm_uploads m"
  shows "fds_invar tun fds (client_protect cf tip ctl h m)"
  using assms
  by (auto simp: client_protect_def enable_linux_def Let_def dest!: op_fds intro!: client_fail_fds running_fds split: sum.splits)

lemma client_connected_fds:
  assumes inv: "fds_invar tun fds m" and run: "cl_phase (cm_ctl m) = Connecting" and tun: "td_fd tun \<in> fds"
  shows "fds_invar tun fds (client_connected cf sc m)"
proof -
  have m: "cm_tun m = tun" "cm_uploads m \<inter> fds = {}" "sh_fds (cm_host m) = fds \<union> cm_uploads m"
    using inv run by (simp_all add: fds_invar_def)
  let ?op = "net_op (configure_client_interface_linux (cf_exec cf) (td_name tun) (sc_client_ip sc) (sc_server_ip sc) (sc_mtu sc)) (cm_host m)"
  show ?thesis
  proof (cases ?op)
    case (Inl p)
    obtain h e where p: "p = (h, e)" by fastforce
    from op_fds(1) [OF Inl [unfolded p]] m tun show ?thesis
      by (simp add: client_connected_def Let_def Inl p client_fail_fds)
  next
    case (Inr p)
    obtain h where p: "p = (h, ())" by (cases p) auto
    from op_fds(2) [OF Inr [unfolded p]] m have h: "sh_fds h = fds \<union> cm_uploads m" by simp
    with client_protect_fds [OF tun m(1,2) h] m show ?thesis
      by (simp add: client_connected_def Let_def Inr p running_fds)
  qed
qed

lemma client_finish_fds:
  assumes "fds_invar tun fds m" "\<forall>r. cl_phase (cm_ctl m) \<noteq> Exited r" "td_fd tun \<in> fds" shows "fds_invar tun fds (client_finish cf m)"
  using assms by (auto simp: fds_invar_def client_finish_def finish_def Let_def drop_union split: option.splits phase.splits)

lemma upload_fds:
  assumes "fds_invar tun fds m"
  shows "cl_phase (cm_ctl m) = InTunnel \<Longrightarrow> fd \<notin> sh_fds (cm_host m) \<Longrightarrow> fds_invar tun fds (upload_opens fd m)"
    and "fd \<in> cm_uploads m \<Longrightarrow> fds_invar tun fds (upload_closes fd m)"
  using assms
  by (auto simp: fds_invar_def upload_opens_def upload_closes_def fd_open_def fd_close_def TunDevice_drop_def split: phase.splits)

lemma fds_invar_ctl:
  assumes "fds_invar tun fds m" "ctl = cm_ctl m \<or> (\<forall>r. cl_phase ctl \<noteq> Exited r) \<and> (\<forall>r. cl_phase (cm_ctl m) \<noteq> Exited r)"
  shows "fds_invar tun fds (m\<lparr>cm_ctl := ctl\<rparr>)"
  using assms by (auto simp: fds_invar_def split: phase.splits)

lemma client_host_step_fds:
  assumes "fds_invar tun fds m" "td_fd tun \<in> fds" shows "fds_invar tun fds (client_host_step cf e m)"
proof (cases e)
  case (HostSignal sg)
  show ?thesis
  proof (cases "signal_stops sg (cm_ctl m)")
    case True
    then have run: "\<forall>r. cl_phase (cm_ctl m) \<noteq> Exited r" by (auto simp: signal_stops_def split: phase.splits)
    with client_finish_fds [OF fds_invar_ctl [OF assms(1), of "(cm_ctl m)\<lparr>cl_listening := False\<rparr>"] _ assms(2)] True HostSignal
    show ?thesis by simp
  next
    case False
    with fds_invar_ctl [OF assms(1) signal_ignored(1) [OF False]] HostSignal show ?thesis by simp
  qed
next
  case (HostConnectOk sc)
  then show ?thesis using client_connected_fds [OF assms(1) _ assms(2)] assms(1) by simp
next
  case (HostTunnelEnds x rnd)
  show ?thesis unfolding HostTunnelEnds client_host_step.simps
    by (rule fds_invar_ctl [OF assms(1)]; cases x) (auto simp: back_off_def Let_def)
next
  case (HostConnectErr rnd)
  show ?thesis unfolding HostConnectErr client_host_step.simps
    by (rule fds_invar_ctl [OF assms(1)]) (auto simp: back_off_def Let_def)
next
  case HostSleepDone
  show ?thesis unfolding HostSleepDone client_host_step.simps by (rule fds_invar_ctl [OF assms(1)]) auto
next
  case (HostUploadStarted fd)
  then show ?thesis using upload_fds(1) [OF assms(1)] assms(1) by simp
next
  case (HostUploadGone fd)
  then show ?thesis using upload_fds(2) [OF assms(1)] assms(1) by simp
qed

lemma client_host_run_fds: "fds_invar tun fds m \<Longrightarrow> td_fd tun \<in> fds \<Longrightarrow> fds_invar tun fds (client_host_run cf es m)"
  unfolding client_host_run_def by (induction es arbitrary: m) (simp_all add: client_host_step_fds)

lemma client_device_Ok:
  assumes "client_device sys h = Some (h', Inr tun)" "\<forall>fd. sys_open (sv_tun sys) = Inr fd \<longrightarrow> fd \<notin> sh_fds h"
    "\<forall>s. sv_socket sys = Inr s \<longrightarrow> s \<notin> sh_fds h \<and> sys_open (sv_tun sys) \<noteq> Inr s"
  shows "sh_net h' = sh_net h \<and> sh_files h' = sh_files h \<and> TunDevice_drop tun (sh_fds h') = sh_fds h \<and> td_fd tun \<in> sh_fds h'"
proof -
  from assms(1) obtain h1 where h1: "on_fds (TunDevice_create_linux (sv_tun sys) ''tun'') h = (h1, Inr tun)"
    and h': "on_fds (set_mtu_linux (sv_socket sys) (sv_ioctl sys) tun (of_nat TUN_MTU)) h1 = (h', Inr ())"
    by (auto simp: client_device_def startup_ok)
  from create_linux_fds [OF on_fds_Ok [OF h1]]
  have created: "sys_open (sv_tun sys) = Inr (td_fd tun)" "sh_fds h1 = insert (td_fd tun) (sh_fds h)" by simp_all
  have "\<forall>s. sv_socket sys = Inr s \<longrightarrow> s \<notin> sh_fds h1" using created assms(3) by auto
  from set_mtu_linux_fds [OF this] on_fds_net [OF h'] have "sh_fds h' = sh_fds h1" by simp
  moreover have "sh_files h' = sh_files h" using h1 h' by (auto simp: on_fds_def split: prod.splits)
  ultimately show ?thesis using created assms(2) on_fds_net [OF h1] on_fds_net [OF h']
    by (auto simp: TunDevice_drop_def fd_close_def)
qed

text \<open>
  Claim C15. A Linux client over its whole life, whatever connects, fails, reconnects or is signalled in any order, on a
  host whose resolver file is UTF-8 text and can be written, as its backup can, once stale state was
  cleaned up. In a tunnel outside test mode and not to a loopback server, the routing table is the one before
  with the bypass to the server and the two halves through the tunnel, and the resolver file is the tunnel's.
  After a clean exit routing table and resolver file are what they were. After any exit, clean or by an error,
  the device is closed; the descriptors open are those open before the start and those of the upload tasks that are
  not gone yet, which a signal in the tunnel leaves detached, and the end of the runtime closes these too. (The kill
  switch does nothing on Linux, so nothing is said about it.)
\<close>

theorem client_program_protects_and_restores:
  assumes tool: "route_tool OnLinux (cf_exec cf) tbl" "link_keeps (cf_exec cf) tbl" and server: "parse_ipv4 (cf_server cf) = Some a"
    and h0: "h0 = client_stale cf h" and ready: "dns_ready orig (sh_files h0)"
    and fresh: "\<forall>fd. sys_open (sv_tun sys) = Inr fd \<longrightarrow> fd \<notin> sh_fds h"
      "\<forall>s. sv_socket sys = Inr s \<longrightarrow> s \<notin> sh_fds h \<and> sys_open (sv_tun sys) \<noteq> Inr s"
    and run: "client_program cf endpoint sys es h = Some (h', Inr m)"
  shows "(cl_phase (cm_ctl m) = Exited None \<longrightarrow>
        tbl (sh_net h') = tbl (sh_net h0) \<and> map_of (files (sh_files h')) RESOLV_CONF = Some orig)
     \<and> (cl_phase (cm_ctl m) = InTunnel \<and> \<not> ce_test_mode (cf_env cf) \<and> \<not> ce_loopback (cf_env cf) \<longrightarrow>
        (\<exists>gw tip. tbl (sh_net h') = (tbl (sh_net h0))((a, 32) \<mapsto> gw, half0 \<mapsto> show_ipv4 tip, half1 \<mapsto> show_ipv4 tip))
        \<and> map_of (files (sh_files h')) RESOLV_CONF = Some vpn_resolv)
     \<and> ((\<exists>r. cl_phase (cm_ctl m) = Exited r) \<longrightarrow>
        sh_fds h' = sh_fds h \<union> cm_uploads m \<and> sh_fds (cm_host (runtime_drop m)) = sh_fds h)"
proof -
  from run obtain h1 tun where dev: "client_device sys h0 = Some (h1, Inr tun)"
    and m: "m = client_host_run cf es (client_machine_start tun h1)" "h' = cm_host m"
    unfolding client_program_def up_then_Ok startup_bind_Ok Let_def h0 by auto
  have fds: "sh_fds h0 = sh_fds h" by (simp add: h0 client_stale_def split: prod.split)
  from client_device_Ok [OF dev] fresh have h1: "sh_net h1 = sh_net h0" "sh_files h1 = sh_files h0"
    "TunDevice_drop tun (sh_fds h1) = sh_fds h" "td_fd tun \<in> sh_fds h1" by (auto simp: fds)
  from ready have "dns_ready orig (sh_files h1)" by (simp add: h1)
  note life = client_host_protected_and_restored [OF tool server this m(1), unfolded h1(1), folded m(2)]
  have "fds_invar tun (sh_fds h1) (client_machine_start tun h1)"
    by (simp add: fds_invar_def client_machine_start_def client_start_def)
  from client_host_run_fds [OF this h1(4), of cf es] have inv: "fds_invar tun (sh_fds h1) m" by (simp only: m(1))
  have "sh_fds h' = sh_fds h \<union> cm_uploads m \<and> sh_fds (cm_host (runtime_drop m)) = sh_fds h" if "cl_phase (cm_ctl m) = Exited r" for r
  proof -
    have "sh_fds h \<subseteq> sh_fds h1" using h1(3) by (auto simp: TunDevice_drop_def fd_close_def)
    with inv that have "sh_fds (cm_host m) = sh_fds h \<union> cm_uploads m" "cm_uploads m \<inter> sh_fds h = {}" by (auto simp: fds_invar_def h1(3))
    then show ?thesis by (auto simp: runtime_drop_def m(2))
  qed
  then have "(\<exists>r. cl_phase (cm_ctl m) = Exited r) \<longrightarrow>
      sh_fds h' = sh_fds h \<union> cm_uploads m \<and> sh_fds (cm_host (runtime_drop m)) = sh_fds h" by blast
  then show ?thesis by (rule conjI [OF conjunct1 [OF life] conjI [OF conjunct2 [OF life]]])
qed

lemma sample_stale: "client_stale sample_client sample_client_host = sample_client_host"
proof -
  have "try_cmds sample_linux [(''ip'', [''route'', ''del'', ''0.0.0.0/1'']), (''ip'', [''route'', ''del'', ''128.0.0.0/1''])] (Map.empty, []) = (Map.empty, [])"
    by (simp add: sample_linux_def sample_ip_def run_cmd_state Let_def split: option.split)
  then show ?thesis
    by (simp add: client_stale_def sample_client_def sample_client_host_def cleanup_stale_linux_def cleanup_stale_client_linux_def
        cleanup_client_dns_linux_def read_to_string_def RESOLV_CONF_def RESOLV_BAK_def del: try_cmds.simps)
qed

lemma sample_device:
  "client_device sample_server_sys sample_client_host =
     Some (sample_client_host\<lparr>sh_fds := {0, 1, 2, 5}\<rparr>, Inr \<lparr>td_fd = 5, td_name = ''tun''\<rparr>)"
  by (simp add: client_device_def up_then_def on_fds_def create_defs sample_server_sys_def sample_sys_def set_mtu_linux_def
      sample_client_host_def IFNAMSIZ_def drop_on_error_def startup_map_def fd_close_def fd_open_def insert_commute)

theorem client_program_protects_and_restores_witness:
  "\<exists>h m. client_program sample_client (Ok ()) sample_server_sys [HostConnectOk sample_session, HostUploadStarted 7, HostSignal SIGTERM]
       sample_client_host = Some (h, Inr m) \<and> cl_phase (cm_ctl m) = Exited None \<and> fst (sh_net h) = Map.empty
     \<and> sh_fds h = {0, 1, 2, 7} \<and> sh_fds (cm_host (runtime_drop m)) = {0, 1, 2}
     \<and> map_of (files (sh_files h)) RESOLV_CONF = Some ''nameserver 9.9.9.9''"
proof -
  let ?es = "[HostConnectOk sample_session, HostUploadStarted 7, HostSignal SIGTERM]"
  let ?m = "client_host_run sample_client ?es sample_machine"
  let ?t = "client_host_step sample_client (HostConnectOk sample_session) sample_machine"
  have cf: "cf_exec sample_client = sample_linux" "cf_server sample_client = sample_server_ip" by (simp_all add: sample_client_def)
  have run: "client_program sample_client (Ok ()) sample_server_sys ?es sample_client_host = Some (cm_host ?m, Inr ?m)"
    by (simp add: client_program_def sample_stale sample_device up_then_def Let_def)
  have "fds_invar \<lparr>td_fd = 5, td_name = ''tun''\<rparr> {0, 1, 2, 5} sample_machine"
    by (simp add: fds_invar_def client_machine_start_def client_start_def)
  from client_host_step_fds [OF this, of sample_client "HostConnectOk sample_session"] sample_connects(1)
  have open_fds: "sh_fds (cm_host ?t) = {0, 1, 2, 5} \<union> cm_uploads ?t" "cm_uploads ?t = {}"
    using sample_no_uploads by (simp_all add: fds_invar_def del: client_host_step.simps)
  then have m: "?m = client_finish sample_client ((upload_opens 7 ?t)\<lparr>cm_ctl := (cm_ctl ?t)\<lparr>cl_listening := False\<rparr>\<rparr>)"
    using sample_connects by (simp add: client_host_run_def signal_stops_def del: client_host_step.simps(2))
  then have exit: "cl_phase (cm_ctl ?m) = Exited None" and up: "cm_uploads ?m = {7}"
    using open_fds(2) by (simp_all add: finish_def Let_def client_finish_def upload_opens_def del: client_host_step.simps(2))
  have fresh: "\<forall>fd. sys_open (sv_tun sample_server_sys) = Inr fd \<longrightarrow> fd \<notin> sh_fds sample_client_host"
    "\<forall>s. sv_socket sample_server_sys = Inr s \<longrightarrow> s \<notin> sh_fds sample_client_host \<and> sys_open (sv_tun sample_server_sys) \<noteq> Inr s"
    by (simp_all add: sample_server_sys_def sample_sys_def sample_client_host_def)
  from client_program_protects_and_restores [of sample_client fst "Ipv4Addr 203 0 113 7", unfolded cf,
      OF sample_linux_tool sample_linux_link sample_server_parses sample_stale [symmetric] sample_dns_ready fresh run]
  have "fst (sh_net (cm_host ?m)) = fst (sh_net sample_client_host) \<and> sh_fds (cm_host ?m) = sh_fds sample_client_host \<union> {7}
      \<and> sh_fds (cm_host (runtime_drop ?m)) = sh_fds sample_client_host
      \<and> map_of (files (sh_files (cm_host ?m))) RESOLV_CONF = Some ''nameserver 9.9.9.9''"
    using exit up by blast
  with exit run show ?thesis by (auto simp: sample_client_host_def)
qed

text \<open>
  \<open>ip addr add\<close> fails exactly if the interface has the address already; the other commands of the set-up,
  on the link and on routes, take no address away.
\<close>

definition addr_tool :: "'w exec \<Rightarrow> ('w \<Rightarrow> (string \<times> ipv4 \<times> ipv4) set) \<Rightarrow> bool" where
  "addr_tool ex addrs \<longleftrightarrow>
     (\<forall>w dev cip sip. (cmd_ok ex ''ip'' (addr_add dev cip sip) w \<longleftrightarrow> (dev, cip, sip) \<notin> addrs w)
        \<and> (cmd_ok ex ''ip'' (addr_add dev cip sip) w \<longrightarrow> (dev, cip, sip) \<in> addrs (fst (ex ''ip'' (addr_add dev cip sip) [] w))))
     \<and> (\<forall>w args. (\<exists>dev mtu. args = link_up dev mtu) \<or> args = route_show \<or> (\<exists>to gw. args = [''route'', ''add'', to, ''via'', gw]) \<longrightarrow>
          addrs w \<subseteq> addrs (fst (ex ''ip'' args [] w)))"

definition has_address :: "('w \<Rightarrow> (string \<times> ipv4 \<times> ipv4) set) \<Rightarrow> session_config \<Rightarrow> 'w client_machine \<Rightarrow> bool" where
  "has_address addrs sc m \<longleftrightarrow> (td_name (cm_tun m), sc_client_ip sc, sc_server_ip sc) \<in> addrs (sh_net (cm_host m))"

lemma run_cmds_grow:
  assumes "\<forall>c \<in> set cs. \<forall>w. (f w :: 'b set) \<subseteq> f (fst (ex (fst c) (snd c) [] w))"
  shows "f w \<subseteq> f (fst (run_cmds ex cs w))"
  using assms
proof (induction cs arbitrary: w)
  case (Cons c cs)
  obtain p args where c: "c = (p, args)" by fastforce
  have step: "f w \<subseteq> f (fst (ex p args [] w))" using Cons.prems by (simp add: c)
  have "f (fst (ex p args [] w)) \<subseteq> f (fst (run_cmds ex cs (fst (ex p args [] w))))" using Cons by simp
  with step show ?case unfolding c run_cmds_Cons by (auto simp: run_cmd_state simp del: run_cmds.simps)
qed (simp add: host_return_def)

lemma addr_toolD:
  assumes "addr_tool ex addrs"
  shows "cmd_ok ex ''ip'' (addr_add dev cip sip) w \<longleftrightarrow> (dev, cip, sip) \<notin> addrs w"
    and "cmd_ok ex ''ip'' (addr_add dev cip sip) w \<Longrightarrow> (dev, cip, sip) \<in> addrs (fst (ex ''ip'' (addr_add dev cip sip) [] w))"
    and "addrs w \<subseteq> addrs (fst (ex ''ip'' (link_up dev mtu) [] w))" "addrs w \<subseteq> addrs (fst (ex ''ip'' route_show [] w))"
      "addrs w \<subseteq> addrs (fst (ex ''ip'' [''route'', ''add'', to, ''via'', gw] [] w))"
  using assms unfolding addr_tool_def by blast+

lemma interface_has_address:
  assumes tool: "addr_tool ex addrs" and run: "configure_client_interface_linux ex dev cip sip mtu w = (w', Inr ())"
  shows "(dev, cip, sip) \<in> addrs w'"
proof -
  let ?add = "addr_add dev cip sip" and ?link = "link_up dev mtu"
  have ok: "cmd_ok ex ''ip'' ?add w"
    using run run_cmd_fails [of ex "''ip''" ?add w]
    by (auto simp: configure_client_interface_cons run_cmds_Cons simp del: run_cmds.simps split: if_splits)
  have "run_cmds ex [(''ip'', ?link)] (fst (ex ''ip'' ?add [] w)) = (w', Inr ())"
    using run ok by (simp only: configure_client_interface_cons run_cmds_Cons if_True)
  moreover have "addrs (fst (ex ''ip'' ?add [] w)) \<subseteq> addrs (fst (run_cmds ex [(''ip'', ?link)] (fst (ex ''ip'' ?add [] w))))"
    by (rule run_cmds_grow) (simp add: addr_toolD(3) [OF tool])
  ultimately show ?thesis using addr_toolD(2) [OF tool ok] by auto
qed

lemma gateway_grow:
  assumes "addr_tool ex addrs" "get_default_gateway_linux ex w = (w', r)" shows "addrs w \<subseteq> addrs w'"
proof -
  note addr_toolD(4) [OF assms(1), of w]
  with assms(2) show ?thesis
    by (auto simp: route_show_def get_default_gateway_linux_def host_then_def run_cmd_output_def split: prod.splits sum.splits if_splits)
qed

lemma routes_grow:
  assumes "addr_tool ex addrs" "setup_client_routes_linux ex s tip gw w = (w', r)" shows "addrs w \<subseteq> addrs w'"
proof -
  let ?cs = "[(''ip'', [''route'', ''add'', s, ''via'', gw]), (''ip'', [''route'', ''add'', ''0.0.0.0/1'', ''via'', show_ipv4 tip]),
     (''ip'', [''route'', ''add'', ''128.0.0.0/1'', ''via'', show_ipv4 tip])]"
  have "addrs w \<subseteq> addrs (fst (run_cmds ex ?cs w))" by (rule run_cmds_grow) (simp add: addr_toolD(5) [OF assms(1)])
  moreover have "w' = fst (run_cmds ex ?cs w)"
    using assms(2) by (auto simp: setup_client_routes_linux_def Let_def host_then_def [of "run_cmds ex ?cs"] host_return_def
        simp del: run_cmds.simps split: prod.splits sum.splits)
  ultimately show ?thesis by simp
qed

lemma client_protect_grow:
  assumes "addr_tool (cf_exec cf) addrs" "cl_phase (cm_ctl (client_protect cf tip ctl h m)) = InTunnel"
  shows "addrs (sh_net h) \<subseteq> addrs (sh_net (cm_host (client_protect cf tip ctl h m))) \<and> cm_tun (client_protect cf tip ctl h m) = cm_tun m"
proof -
  have "addrs (sh_net h) \<subseteq> addrs w2" if "get_default_gateway_linux (cf_exec cf) (sh_net h) = (w1, Inr gw)"
    "setup_client_routes_linux (cf_exec cf) (cf_server cf) tip gw w1 = (w2, r)" for w1 w2 gw r
    using gateway_grow [OF assms(1) that(1)] routes_grow [OF assms(1) that(2)] by (rule order_trans)
  with assms(2) show ?thesis
    by (auto simp: client_protect_def enable_linux_def net_op_def file_op_def Let_def split: sum.splits prod.splits) blast
qed

lemma connected_has_address:
  assumes tool: "addr_tool (cf_exec cf) addrs" and up: "cl_phase (cm_ctl (client_connected cf sc m)) = InTunnel"
  shows "has_address addrs sc (client_connected cf sc m)"
proof -
  let ?op = "net_op (configure_client_interface_linux (cf_exec cf) (td_name (cm_tun m)) (sc_client_ip sc) (sc_server_ip sc) (sc_mtu sc)) (cm_host m)"
  obtain h where op: "?op = Inr (h, ())" using up by (auto simp: client_connected_def Let_def split: sum.splits)
  from net_op_cases(2) [OF op] interface_has_address [OF tool]
  have "(td_name (cm_tun m), sc_client_ip sc, sc_server_ip sc) \<in> addrs (sh_net h)" by auto
  moreover note client_protect_grow [OF tool, of "sc_server_ip sc" "log_call ConfigureInterface (Ok ()) ((cm_ctl m)\<lparr>cl_attempt := 0, cl_connected := True\<rparr>)" h m]
  ultimately show ?thesis using up by (auto simp: client_connected_def op Let_def has_address_def split: if_splits)
qed

lemma same_address_fails:
  assumes tool: "addr_tool (cf_exec cf) addrs" and has: "has_address addrs sc m"
  shows "\<exists>e ctl h. client_connected cf sc m = client_fail e ctl h m
     \<and> sh_files h = sh_files (cm_host m) \<and> sh_net h = fst (cf_exec cf ''ip'' (addr_add (td_name (cm_tun m)) (sc_client_ip sc) (sc_server_ip sc)) [] (sh_net (cm_host m)))"
proof -
  let ?add = "addr_add (td_name (cm_tun m)) (sc_client_ip sc) (sc_server_ip sc)"
  have no: "\<not> cmd_ok (cf_exec cf) ''ip'' ?add (sh_net (cm_host m))" using has by (simp add: addr_toolD(1) [OF tool] has_address_def)
  obtain e where e: "run_cmd (cf_exec cf) ''ip'' ?add (sh_net (cm_host m)) = (fst (cf_exec cf ''ip'' ?add [] (sh_net (cm_host m))), Inl e)"
    using run_cmd_fails [OF no] by blast
  have "configure_client_interface_linux (cf_exec cf) (td_name (cm_tun m)) (sc_client_ip sc) (sc_server_ip sc) (sc_mtu sc) (sh_net (cm_host m))
      = (fst (cf_exec cf ''ip'' ?add [] (sh_net (cm_host m))), Inl e)"
    by (simp only: configure_client_interface_cons run_cmds_Cons no if_False e)
  then have "client_connected cf sc m = client_fail (route_anyhow e)
      (log_call ConfigureInterface (Err (route_anyhow e)) ((cm_ctl m)\<lparr>cl_attempt := 0, cl_connected := True\<rparr>))
      ((cm_host m)\<lparr>sh_net := fst (cf_exec cf ''ip'' ?add [] (sh_net (cm_host m)))\<rparr>) m"
    by (simp add: client_connected_def Let_def net_op_def)
  then show ?thesis by force
qed

text \<open>
  On Linux a client does not survive a reconnection to the same address: once the tunnel is up, an
  interruption the health monitor asks for, followed by a successful connect that assigns the same address,
  ends the program with an error of \<open>ip addr add\<close>, and the routes and the resolver file stay as they were
  in the tunnel, so nothing is reachable any more but the server.
\<close>

theorem reconnect_same_address_exits:
  assumes tool: "addr_tool (cf_exec cf) addrs" "link_keeps (cf_exec cf) tbl"
    and start: "cl_phase (cm_ctl m) = Connecting" and m1: "m1 = client_host_step cf (HostConnectOk sc) m"
    and up: "cl_phase (cm_ctl m1) = InTunnel"
    and same: "sc_client_ip sc' = sc_client_ip sc" "sc_server_ip sc' = sc_server_ip sc"
    and m2: "m2 = client_host_run cf [HostTunnelEnds (ExitHealth reason) rnd, HostConnectOk sc'] m1"
  shows "\<exists>e. cl_phase (cm_ctl m2) = Exited (Some e) \<and> tbl (sh_net (cm_host m2)) = tbl (sh_net (cm_host m1))
     \<and> sh_files (cm_host m2) = sh_files (cm_host m1)"
proof -
  let ?m = "client_host_step cf (HostTunnelEnds (ExitHealth reason) rnd) m1"
  have m: "cl_phase (cm_ctl ?m) = Connecting" "cm_host ?m = cm_host m1" "cm_tun ?m = cm_tun m1" using up by simp_all
  from start m1 have "m1 = client_connected cf sc m" by simp
  with up connected_has_address [OF tool(1)] have "has_address addrs sc' ?m"
    by (simp add: has_address_def m same)
  from same_address_fails [OF tool(1) this] obtain e ctl h
    where fail: "client_connected cf sc' ?m = client_fail e ctl h ?m"
      and h: "sh_files h = sh_files (cm_host m1)"
        "sh_net h = fst (cf_exec cf ''ip'' (addr_add (td_name (cm_tun m1)) (sc_client_ip sc') (sc_server_ip sc')) [] (sh_net (cm_host m1)))"
    by (auto simp: m simp del: client_host_step.simps)
  have "m2 = client_connected cf sc' ?m" using m by (simp add: m2 client_host_run_def)
  moreover have "tbl (sh_net h) = tbl (sh_net (cm_host m1))" by (simp add: h link_keepsD [OF tool(2)])
  ultimately show ?thesis using h(1) by (simp add: fail client_fail_def del: client_host_step.simps)
qed

definition sample_addrs :: "route_table \<times> string list list \<Rightarrow> (string \<times> ipv4 \<times> ipv4) set" where
  "sample_addrs w = {(dev, cip, sip). addr_add dev cip sip \<in> set (snd w)}"

lemma sample_addr_tool: "addr_tool sample_linux sample_addrs"
proof -
  have "snd (fst (sample_linux ''ip'' args [] w)) = snd w" if "args \<noteq> []" "hd args \<in> {''link'', ''route''}" for args w
    using that by (cases args) (auto simp: sample_linux_def Let_def split: prod.split)
  then have "sample_addrs w \<subseteq> sample_addrs (fst (sample_linux ''ip'' args [] w))" if "args \<noteq> []" "hd args \<in> {''link'', ''route''}" for args w
    using that by (simp add: sample_addrs_def)
  then have "sample_addrs w \<subseteq> sample_addrs (fst (sample_linux ''ip'' (link_up dev mtu) [] w))"
    "sample_addrs w \<subseteq> sample_addrs (fst (sample_linux ''ip'' route_show [] w))"
    "sample_addrs w \<subseteq> sample_addrs (fst (sample_linux ''ip'' [''route'', ''add'', to, ''via'', gw] [] w))" for w dev mtu to gw
    by (simp_all only: link_up_def route_show_def list.sel list.simps insert_iff simp_thms)
  moreover have "(cmd_ok sample_linux ''ip'' (addr_add dev cip sip) w \<longleftrightarrow> (dev, cip, sip) \<notin> sample_addrs w)
      \<and> (cmd_ok sample_linux ''ip'' (addr_add dev cip sip) w \<longrightarrow>
          (dev, cip, sip) \<in> sample_addrs (fst (sample_linux ''ip'' (addr_add dev cip sip) [] w)))" for w dev cip sip
    by (simp add: sample_addrs_def cmd_ok_def sample_linux_def Let_def addr_add_def)
  ultimately show ?thesis unfolding addr_tool_def by blast
qed

theorem reconnect_same_address_exits_witness:
  "\<exists>e. cl_phase (cm_ctl (client_host_run sample_client [HostConnectOk sample_session,
     HostTunnelEnds (ExitHealth Degraded) 0, HostConnectOk sample_session] sample_machine)) = Exited (Some e)"
proof -
  have cf: "cf_exec sample_client = sample_linux" by (simp add: sample_client_def)
  have "cl_phase (cm_ctl sample_machine) = Connecting" by (simp add: client_machine_start_def client_start_def)
  from reconnect_same_address_exits [where cf = sample_client, unfolded cf, OF sample_addr_tool sample_linux_link this refl
      sample_connects(1) refl refl refl, of Degraded 0]
  show ?thesis by (auto simp: client_host_run_def simp del: client_host_step.simps)
qed

end
