(* ===== verification/ClientTunnel.thy ===== *)
theory ClientTunnel
  imports Upload Device
begin

text \<open>
  The client's \<open>run_tunnel\<close> (\<^verbatim>\<open>src/crates/redpill-quic/src/client.rs\<close>) on Unix as a whole: the tasks it
  spawns for statistics, uploads and idle padding, which get on in any order beside the receive loop and the
  health monitor, the descriptor the upload task owns, and what is left when the function returns. A run is
  a list of events, one for each time a task gets on.
\<close>

section \<open>State\<close>

record 'c tunnel_env =
  tv_send :: "'c \<Rightarrow> bytes \<Rightarrow> 'c \<times> send_result tresult"
  tv_flush :: "'c \<Rightarrow> 'c \<times> unit tresult"
  tv_os :: target_os
  tv_mode :: transport_mode
  tv_quiet :: bool
  tv_batching :: bool
  tv_clone :: "string + nat"
  tv_async :: "string + unit"

text \<open>
  \<open>tn_batch\<close> counts the packets sent since the last flush; \<open>ct_upload_alive\<close>, \<open>tn_idle_task\<close> and \<open>tn_stats_task\<close> say which
  of the tunnel's own tasks run, and \<open>tn_stray\<close> counts tasks that run without a handle to abort them.
\<close>

record 'c tunnel_world =
  tn_conn :: 'c
  tn_state :: client_tunnel
  tn_batch :: nat
  tn_fds :: fds
  tn_idle_task :: bool
  tn_stats_task :: bool
  tn_reports :: "stats_report list"
  tn_stray :: nat

datatype tn_event =
    TnRead tun_read
  | TnIdle "nat \<Rightarrow> nat \<Rightarrow> nat" "nat \<Rightarrow> bytes"
  | TnReport
  | TnRecv "bytes tresult" "bytes \<Rightarrow> bool"
  | TnHealth reconnect_reason

section \<open>The tasks\<close>

text \<open>The upload task ends by itself or is aborted: the descriptor it owns is closed.\<close>

definition upload_ends :: "nat \<Rightarrow> 'c tunnel_world \<Rightarrow> 'c tunnel_world" where
  "upload_ends dup w = w\<lparr>tn_state := (tn_state w)\<lparr>ct_upload_alive := False\<rparr>, tn_fds := fd_close dup (tn_fds w)\<rparr>"

definition upload_flush :: "'c tunnel_env \<Rightarrow> nat \<Rightarrow> 'c tunnel_world \<Rightarrow> 'c tunnel_world" where
  "upload_flush env dup w =
     (if tn_batch w > 0 then
        (case tv_flush env (tn_conn w) of
           (c, Inl e) \<Rightarrow> upload_ends dup (w\<lparr>tn_conn := c\<rparr>)
         | (c, Inr _) \<Rightarrow> w\<lparr>tn_conn := c, tn_batch := 0\<rparr>)
      else w)"

definition upload_read :: "'c tunnel_env \<Rightarrow> nat \<Rightarrow> tun_read \<Rightarrow> 'c tunnel_world \<Rightarrow> 'c tunnel_world" where
  "upload_read env dup rd w =
     (case rd of
        TunPacket raw \<Rightarrow>
          if length (tun_buf_read raw) > TUN_HDR (tv_os env) then
            let ip_pkt = drop (TUN_HDR (tv_os env)) (tun_buf_read raw) in
            (case tv_send env (tn_conn w) ip_pkt of
               (c, r) \<Rightarrow>
                 let w = w\<lparr>tn_conn := c, tn_state := upload_step ip_pkt r (tn_state w)\<rparr> in
                 (case r of
                    Inl e \<Rightarrow> upload_ends dup w
                  | Inr _ \<Rightarrow>
                      let w = w\<lparr>tn_batch := tn_batch w + 1\<rparr> in
                      if tn_batch w \<ge> MAX_TUN_BATCH then upload_flush env dup w else w))
          else upload_flush env dup w
      | TunEmpty \<Rightarrow> upload_flush env dup w
      | TunAgain \<Rightarrow> upload_flush env dup w
      | TunError e \<Rightarrow> upload_ends dup w)"

text \<open>A panic of the padder would end its task.\<close>

definition idle_tick :: "'c tunnel_env \<Rightarrow> (nat \<Rightarrow> nat \<Rightarrow> nat) \<Rightarrow> (nat \<Rightarrow> bytes) \<Rightarrow> 'c tunnel_world \<Rightarrow> 'c tunnel_world" where
  "idle_tick env gen_range fill w =
     (case IdlePadder_generate gen_range fill (IdlePadder_new 500 64 256) of
        None \<Rightarrow> w\<lparr>tn_idle_task := False\<rparr>
      | Some pkt \<Rightarrow> w\<lparr>tn_conn := fst (tv_send env (tn_conn w) pkt)\<rparr>)"

definition report_tick :: "'c tunnel_world \<Rightarrow> 'c tunnel_world" where
  "report_tick w = w\<lparr>tn_reports := tn_reports w @ [Stats_report (ct_stats (tn_state w))]\<rparr>"

fun tunnel_step :: "'c tunnel_env \<Rightarrow> nat \<Rightarrow> tn_event \<Rightarrow> 'c tunnel_world \<Rightarrow> 'c tunnel_world" where
  "tunnel_step env dup (TnRead rd) w = (if ct_upload_alive (tn_state w) then upload_read env dup rd w else w)"
| "tunnel_step env dup (TnIdle gen_range fill) w = (if tn_idle_task w then idle_tick env gen_range fill w else w)"
| "tunnel_step env dup TnReport w = (if tn_stats_task w then report_tick w else w)"
| "tunnel_step env dup (TnRecv (Inr data) write_ok) w =
     w\<lparr>tn_state := receive_step (tv_batching env) data write_ok (tn_state w)\<rparr>"
| "tunnel_step env dup (TnRecv (Inl e) write_ok) w = w"
| "tunnel_step env dup (TnHealth reason) w = w"

fun tunnel_ends :: "tn_event \<Rightarrow> tunnel_exit option" where
  "tunnel_ends (TnRecv (Inl e) w) = Some (ExitError (TunnelTransport e))"
| "tunnel_ends (TnHealth r) = Some (ExitHealth r)"
| "tunnel_ends _ = None"

text \<open>The \<open>select!\<close> of health monitor and receive loop, while the other tasks run.\<close>

fun tunnel_loop :: "'c tunnel_env \<Rightarrow> nat \<Rightarrow> tn_event list \<Rightarrow> 'c tunnel_world \<Rightarrow> 'c tunnel_world \<times> tunnel_exit option" where
  "tunnel_loop env dup [] w = (w, None)"
| "tunnel_loop env dup (e # es) w =
     (case tunnel_ends e of
        Some x \<Rightarrow> (w, Some x)
      | None \<Rightarrow> tunnel_loop env dup es (tunnel_step env dup e w))"

section \<open>Start and end\<close>

text \<open>
  The aborts take effect at once here. The runtime carries them out when a task next waits, so the upload task may
  still handle what is left of its batch before its descriptor is closed.
\<close>

definition tunnel_abort :: "'c tunnel_env \<Rightarrow> nat \<Rightarrow> 'c tunnel_world \<Rightarrow> 'c tunnel_world" where
  "tunnel_abort env dup w =
     (let w = (if ct_upload_alive (tn_state w) then upload_ends dup w else w);
          w = w\<lparr>tn_idle_task := False, tn_stats_task := False\<rparr> in
      if \<not> tv_quiet env then report_tick w else w)"

text \<open>
  The handles of the tasks are dropped with the call, when it returns or when it is cancelled: what still
  runs is detached.
\<close>

definition tunnel_return :: "'c tunnel_world \<Rightarrow> 'c tunnel_world" where
  "tunnel_return w =
     w\<lparr>tn_stray := tn_stray w + of_bool (ct_upload_alive (tn_state w)) + of_bool (tn_idle_task w) + of_bool (tn_stats_task w),
       tn_state := (tn_state w)\<lparr>ct_upload_alive := False\<rparr>, tn_idle_task := False, tn_stats_task := False\<rparr>"

definition tunnel_spawn :: "'c tunnel_env \<Rightarrow> nat \<Rightarrow> 'c tunnel_world \<Rightarrow> 'c tunnel_world" where
  "tunnel_spawn env dup w =
     w\<lparr>tn_fds := fd_open dup (tn_fds w), tn_state := (tn_state w)\<lparr>ct_upload_alive := True\<rparr>,
       tn_idle_task := (tv_mode env = QuicCamouflaged)\<rparr>"

text \<open>Fresh counters, and the statistics task before anything that can fail.\<close>

definition tunnel_begin :: "'c tunnel_env \<Rightarrow> 'c tunnel_world \<Rightarrow> 'c tunnel_world" where
  "tunnel_begin env w =
     w\<lparr>tn_state := client_tunnel_new\<lparr>ct_upload_alive := False\<rparr>, tn_batch := 0, tn_idle_task := False,
       tn_stats_task := \<not> tv_quiet env\<rparr>"

text \<open>\<open>None\<close> as the exit: the tunnel is up.\<close>

definition client_run_tunnel :: "'c tunnel_env \<Rightarrow> tn_event list \<Rightarrow> 'c tunnel_world \<Rightarrow> 'c tunnel_world \<times> tunnel_exit option" where
  "client_run_tunnel env es w =
     (let w = tunnel_begin env w in
      case tv_clone env of
        Inl e \<Rightarrow> (tunnel_return w, Some (ExitError (TunnelIo e)))
      | Inr dup \<Rightarrow>
      case tv_async env of
        Inl e \<Rightarrow> (tunnel_return (w\<lparr>tn_fds := fd_close dup (fd_open dup (tn_fds w))\<rparr>), Some (ExitError (TunnelIo e)))
      | Inr _ \<Rightarrow>
      case tunnel_loop env dup es (tunnel_spawn env dup w) of
        (w, None) \<Rightarrow> (w, None)
      | (w, Some x) \<Rightarrow> (tunnel_return (tunnel_abort env dup w), Some x))"

section \<open>Invariants of the tasks\<close>

definition tunnel_frame :: "fds \<Rightarrow> nat \<Rightarrow> 'c tunnel_world \<Rightarrow> 'c tunnel_world \<Rightarrow> bool" where
  "tunnel_frame fds dup w w' \<longleftrightarrow>
     tn_fds w' = (if ct_upload_alive (tn_state w') then insert dup fds else fds)
     \<and> tn_stray w' = tn_stray w \<and> tn_stats_task w' = tn_stats_task w"

lemma receive_step_alive [simp]: "ct_upload_alive (receive_step b data ok t) = ct_upload_alive t"
proof -
  have "ct_upload_alive (fold (write_packet ok) ps t) = ct_upload_alive t" for ps t
    by (induction ps arbitrary: t) (simp_all add: write_packet_def)
  then show ?thesis by (simp add: receive_step_def write_packet_def Let_def)
qed

lemma upload_step_alive [simp]: "ct_upload_alive t \<Longrightarrow> ct_upload_alive (upload_step pkt r t) \<longleftrightarrow> (\<exists>x. r = Inr x)"
  by (auto simp: upload_step_def Let_def split: sum.splits send_result.splits)

text \<open>While the upload task runs, whatever it does keeps the frame.\<close>

definition uploading :: "fds \<Rightarrow> nat \<Rightarrow> 'c tunnel_world \<Rightarrow> 'c tunnel_world \<Rightarrow> bool" where
  "uploading fds dup w w' \<longleftrightarrow> tn_fds w' = insert dup fds \<and> tn_stray w' = tn_stray w \<and> tn_stats_task w' = tn_stats_task w"

lemma uploading_frame: "ct_upload_alive (tn_state w') \<Longrightarrow> tunnel_frame fds dup w w' \<longleftrightarrow> uploading fds dup w w'"
  by (simp add: tunnel_frame_def uploading_def)

lemma uploading_upd [simp]:
  "uploading fds dup w (w'\<lparr>tn_conn := c\<rparr>) = uploading fds dup w w'" "uploading fds dup w (w'\<lparr>tn_state := t\<rparr>) = uploading fds dup w w'"
  "uploading fds dup w (w'\<lparr>tn_batch := n\<rparr>) = uploading fds dup w w'"
  by (simp_all add: uploading_def)

lemma upload_ends_frame: "dup \<notin> fds \<Longrightarrow> uploading fds dup w w' \<Longrightarrow> tunnel_frame fds dup w (upload_ends dup w')"
  by (auto simp: tunnel_frame_def uploading_def upload_ends_def fd_close_def)

lemma upload_flush_frame:
  "dup \<notin> fds \<Longrightarrow> uploading fds dup w w' \<Longrightarrow> ct_upload_alive (tn_state w') \<Longrightarrow> tunnel_frame fds dup w (upload_flush env dup w')"
  by (simp add: upload_flush_def upload_ends_frame uploading_frame split: prod.split sum.split)

lemma upload_read_frame:
  assumes "dup \<notin> fds" "tunnel_frame fds dup w w'" "ct_upload_alive (tn_state w')"
  shows "tunnel_frame fds dup w (upload_read env dup rd w')"
proof -
  have up: "uploading fds dup w w'" using assms(2,3) by (simp add: uploading_frame)
  have "ct_upload_alive (upload_step pkt (Inr r) (tn_state w'))" for pkt r using assms(3) by simp
  with up assms(1,3) show ?thesis
    by (simp add: upload_read_def Let_def upload_ends_frame upload_flush_frame uploading_frame
        split: tun_read.split prod.split sum.split)
qed

lemma tunnel_step_frame:
  assumes "dup \<notin> fds" "tunnel_frame fds dup w w'"
  shows "tunnel_frame fds dup w (tunnel_step env dup e w')"
  using assms upload_read_frame [OF assms]
  by (cases "(env, dup, e, w')" rule: tunnel_step.cases)
    (auto simp: tunnel_frame_def idle_tick_def report_tick_def split: option.splits)

text \<open>What a datagram makes the tunnel write to the device.\<close>

fun tunnel_writes :: "bool \<Rightarrow> tn_event \<Rightarrow> bytes list" where
  "tunnel_writes batching (TnRecv (Inr data) write_ok) =
     (if data = [] then []
      else filter (\<lambda>p. p \<noteq> [] \<and> write_ok p) (if batching \<and> is_batched_datagram data then batch_decode data else [data]))"
| "tunnel_writes batching _ = []"

lemma client_receive_tun:
  "ct_tun (receive_step b data ok t) = ct_tun t @ tunnel_writes b (TnRecv (Inr data) ok)"
proof -
  have w: "ct_tun (write_packet ok p t) = ct_tun t @ filter (\<lambda>p. p \<noteq> [] \<and> ok p) [p]" for p t
    by (simp add: write_packet_def)
  have "ct_tun (fold (write_packet ok) ps t) = ct_tun t @ filter (\<lambda>p. p \<noteq> [] \<and> ok p) ps" for ps t
    by (induction ps arbitrary: t) (simp_all add: w)
  then show ?thesis by (simp add: receive_step_def w Let_def)
qed

lemma upload_step_tun [simp]: "ct_tun (upload_step pkt r t) = ct_tun t"
  by (auto simp: upload_step_def Let_def split: sum.splits send_result.splits)

lemma upload_read_tun [simp]: "ct_tun (tn_state (upload_read env dup rd w)) = ct_tun (tn_state w)"
  by (auto simp: upload_read_def upload_flush_def upload_ends_def Let_def split: tun_read.splits prod.splits sum.splits)

lemma tunnel_step_tun:
  "ct_tun (tn_state (tunnel_step env dup e w)) = ct_tun (tn_state w) @ tunnel_writes (tv_batching env) e"
  by (cases "(env, dup, e, w)" rule: tunnel_step.cases)
    (simp_all add: idle_tick_def report_tick_def client_receive_tun split: option.splits del: tunnel_writes.simps(1))

text \<open>The loop gets through the events before the first that ends it.\<close>

definition before_end :: "tn_event list \<Rightarrow> tn_event list" where
  "before_end es = takeWhile (\<lambda>e. tunnel_ends e = None) es"

definition tunnel_verdict :: "tn_event list \<Rightarrow> tunnel_exit option" where
  "tunnel_verdict es = Option.bind (find (\<lambda>e. tunnel_ends e \<noteq> None) es) tunnel_ends"

lemma tunnel_loop_eq: "tunnel_loop env dup es w = (fold (tunnel_step env dup) (before_end es) w, tunnel_verdict es)"
  by (induction es arbitrary: w) (auto simp: before_end_def tunnel_verdict_def split: option.splits)

lemma tunnel_fold_frame:
  "dup \<notin> fds \<Longrightarrow> tunnel_frame fds dup w w' \<Longrightarrow> tunnel_frame fds dup w (fold (tunnel_step env dup) es w')"
  by (induction es arbitrary: w') (simp_all add: tunnel_step_frame)

lemma tunnel_fold_tun:
  "ct_tun (tn_state (fold (tunnel_step env dup) es w)) = ct_tun (tn_state w) @ concat (map (tunnel_writes (tv_batching env)) es)"
  by (induction es arbitrary: w) (simp_all add: tunnel_step_tun)

section \<open>What the tunnel sends\<close>

text \<open>
  The packets a task hands to the transport, and events after which all tasks go on; \<open>idle\<close> says whether the
  task for idle padding runs.
\<close>

fun tunnel_packets :: "bool \<Rightarrow> target_os \<Rightarrow> tn_event \<Rightarrow> bytes list" where
  "tunnel_packets idle os (TnRead rd) = upload_packet os rd"
| "tunnel_packets idle os (TnIdle gen_range fill) =
     (if idle then case IdlePadder_generate gen_range fill (IdlePadder_new 500 64 256) of None \<Rightarrow> [] | Some d \<Rightarrow> [d] else [])"
| "tunnel_packets idle os _ = []"

fun tunnel_fine :: "bool \<Rightarrow> target_os \<Rightarrow> (bytes \<Rightarrow> bool) \<Rightarrow> tn_event \<Rightarrow> bool" where
  "tunnel_fine idle os carries (TnRead rd) = sendable os carries [rd]"
| "tunnel_fine idle os carries (TnIdle gen_range fill) =
     (idle \<longrightarrow> (case IdlePadder_generate gen_range fill (IdlePadder_new 500 64 256) of None \<Rightarrow> False | Some d \<Rightarrow> carries d))"
| "tunnel_fine idle os carries _ = True"

context buffered_sender
begin

lemma upload_flush_sends:
  assumes "tv_flush env = flush"
  shows "tn_state (upload_flush env dup w) = tn_state w \<and> tn_idle_task (upload_flush env dup w) = tn_idle_task w
     \<and> wire (tn_conn (upload_flush env dup w)) @ held (tn_conn (upload_flush env dup w)) = wire (tn_conn w) @ held (tn_conn w)"
  using flush_law [of "tn_conn w"] assms by (auto simp: upload_flush_def)

lemma upload_read_sends:
  assumes env: "tv_send env = send" "tv_flush env = flush" and fine: "sendable (tv_os env) carries [rd]"
    and alive: "ct_upload_alive (tn_state w)"
  shows "ct_upload_alive (tn_state (upload_read env dup rd w)) \<and> tn_idle_task (upload_read env dup rd w) = tn_idle_task w
     \<and> wire (tn_conn (upload_read env dup rd w)) @ held (tn_conn (upload_read env dup rd w))
        = wire (tn_conn w) @ held (tn_conn w) @ concat (map enc (upload_packet (tv_os env) rd))"
proof (cases "upload_packet (tv_os env) rd")
  case Nil
  with fine have "upload_read env dup rd w = upload_flush env dup w"
    by (auto simp: upload_read_def upload_packet_def sendable_def split: tun_read.splits if_splits)
  with upload_flush_sends [OF env(2), of dup w] Nil alive show ?thesis by simp
next
  case (Cons pkt pkts)
  then obtain raw where rd: "rd = TunPacket raw" "length (tun_buf_read raw) > TUN_HDR (tv_os env)"
    "pkt = drop (TUN_HDR (tv_os env)) (tun_buf_read raw)" "pkts = []"
    by (auto simp: upload_packet_def split: tun_read.splits if_splits)
  have "carries pkt" using fine rd by (simp add: sendable_def)
  with send_law obtain c where c: "send (tn_conn w) pkt = (c, Inr Sent)"
    "wire c @ held c = wire (tn_conn w) @ held (tn_conn w) @ enc pkt" by blast
  let ?w = "w\<lparr>tn_conn := c, tn_state := upload_step pkt (Inr Sent) (tn_state w), tn_batch := tn_batch w + 1\<rparr>"
  have "upload_read env dup rd w = (if tn_batch ?w \<ge> MAX_TUN_BATCH then upload_flush env dup ?w else ?w)"
    using rd c(1) env by (simp add: upload_read_def Let_def)
  with upload_flush_sends [OF env(2), of dup ?w] c(2) alive Cons rd(4) show ?thesis by simp
qed

lemma tunnel_step_sends:
  assumes env: "tv_send env = send" "tv_flush env = flush" and fine: "tunnel_fine (tn_idle_task w) (tv_os env) carries e"
    and alive: "ct_upload_alive (tn_state w)"
  shows "ct_upload_alive (tn_state (tunnel_step env dup e w)) \<and> tn_idle_task (tunnel_step env dup e w) = tn_idle_task w
     \<and> wire (tn_conn (tunnel_step env dup e w)) @ held (tn_conn (tunnel_step env dup e w))
        = wire (tn_conn w) @ held (tn_conn w) @ concat (map enc (tunnel_packets (tn_idle_task w) (tv_os env) e))"
proof (cases e)
  case (TnRead rd)
  with upload_read_sends [OF env _ alive] fine alive show ?thesis by simp
next
  case (TnIdle g f)
  show ?thesis
  proof (cases "tn_idle_task w")
    case True
    with TnIdle fine obtain d where d: "IdlePadder_generate g f (IdlePadder_new 500 64 256) = Some d" "carries d"
      by (auto split: option.splits)
    from send_law [OF d(2), of "tn_conn w"] d(1) TnIdle alive env True show ?thesis by (auto simp: idle_tick_def)
  qed (use TnIdle alive in simp)
next
  case (TnRecv r ok)
  with alive show ?thesis by (cases r) simp_all
qed (use alive in \<open>simp_all add: report_tick_def\<close>)

lemma tunnel_fold_sends:
  assumes "tv_send env = send" "tv_flush env = flush" "\<forall>e \<in> set es. tunnel_fine (tn_idle_task w) (tv_os env) carries e"
    "ct_upload_alive (tn_state w)"
  shows "wire (tn_conn (fold (tunnel_step env dup) es w)) @ held (tn_conn (fold (tunnel_step env dup) es w))
     = wire (tn_conn w) @ held (tn_conn w) @ concat (map enc (concat (map (tunnel_packets (tn_idle_task w) (tv_os env)) es)))"
  using assms
proof (induction es arbitrary: w)
  case (Cons e es)
  then have "tunnel_fine (tn_idle_task w) (tv_os env) carries e" by simp
  from tunnel_step_sends [OF Cons.prems(1,2) this Cons.prems(4), of dup] Cons show ?case by simp
qed simp

text \<open>Without idle padding nothing is held back once the batch is flushed.\<close>

lemma upload_flush_empties:
  assumes "tv_flush env = flush" "tn_batch w = 0 \<longrightarrow> held (tn_conn w) = []"
  shows "held (tn_conn (upload_flush env dup w)) = []" "tn_idle_task (upload_flush env dup w) = tn_idle_task w"
  using flush_law [of "tn_conn w"] assms by (auto simp: upload_flush_def)

lemma tunnel_step_batch:
  assumes env: "tv_flush env = flush" and idle: "\<not> tn_idle_task w" and batch: "tn_batch w = 0 \<longrightarrow> held (tn_conn w) = []"
    and alive: "ct_upload_alive (tn_state (tunnel_step env dup e w))"
  shows "\<not> tn_idle_task (tunnel_step env dup e w)
     \<and> (tn_batch (tunnel_step env dup e w) = 0 \<longrightarrow> held (tn_conn (tunnel_step env dup e w)) = [])"
  using assms upload_flush_empties [OF env, of _ dup]
  by (cases "(env, dup, e, w)" rule: tunnel_step.cases)
    (auto simp: upload_read_def upload_ends_def report_tick_def Let_def split: tun_read.splits prod.splits sum.splits if_splits)

lemma tunnel_fold_batch:
  assumes "tv_send env = send" "tv_flush env = flush" "\<forall>e \<in> set es. tunnel_fine False (tv_os env) carries e"
    "ct_upload_alive (tn_state w)" "\<not> tn_idle_task w" "tn_batch w = 0 \<longrightarrow> held (tn_conn w) = []"
  shows "tn_batch (fold (tunnel_step env dup) es w) = 0 \<longrightarrow> held (tn_conn (fold (tunnel_step env dup) es w)) = []"
  using assms
proof (induction es arbitrary: w)
  case (Cons e es)
  then have fine: "tunnel_fine (tn_idle_task w) (tv_os env) carries e" by simp
  from tunnel_step_sends [OF Cons.prems(1,2) fine Cons.prems(4), of dup] have "ct_upload_alive (tn_state (tunnel_step env dup e w))" by simp
  with tunnel_step_batch [OF Cons.prems(2,5,6) this] Cons.IH [of "tunnel_step env dup e w"] Cons.prems show ?case by simp
qed simp

end

text \<open>The camouflaged transport, whose datagrams are padded.\<close>

definition QuicCamouflaged_write ::
  "bool \<Rightarrow> (bytes \<Rightarrow> send_datagram) \<Rightarrow> bytes list \<Rightarrow> bytes \<Rightarrow> bytes list \<times> send_result tresult" where
  "QuicCamouflaged_write pad answer ds data =
     (if answer (QuicCamouflaged_wire pad data) = DgOk then ds @ [QuicCamouflaged_wire pad data] else ds,
      QuicCamouflaged_send pad answer data)"

interpretation camouflaged_upload: buffered_sender "QuicCamouflaged_write pad answer" Transport_flush "\<lambda>ds. ds" "\<lambda>_. []"
  "\<lambda>p. [QuicCamouflaged_wire pad p]" "\<lambda>p. answer (QuicCamouflaged_wire pad p) = DgOk" for pad answer
  by unfold_locales (simp_all add: QuicCamouflaged_write_def QuicCamouflaged_send_def QuicRaw_send_def Transport_flush_def)

section \<open>Properties\<close>

lemma client_run_tunnel_up:
  assumes "tv_clone env = Inr dup" "tv_async env = Inr ()"
  shows "client_run_tunnel env es w =
     (let w2 = fold (tunnel_step env dup) (before_end es) (tunnel_spawn env dup (tunnel_begin env w)) in
      case tunnel_verdict es of None \<Rightarrow> (w2, None) | Some x \<Rightarrow> (tunnel_return (tunnel_abort env dup w2), Some x))"
  using assms(1,2) by (simp add: client_run_tunnel_def tunnel_loop_eq Let_def split: option.split)

lemma tunnel_end_conn [simp]:
  "tn_conn (tunnel_return (tunnel_abort env dup w)) = tn_conn w" "tn_batch (tunnel_return (tunnel_abort env dup w)) = tn_batch w"
  by (simp_all add: tunnel_return_def tunnel_abort_def upload_ends_def report_tick_def Let_def)

lemma client_run_tunnel_tun:
  assumes "tv_clone env = Inr dup" "tv_async env = Inr ()" "client_run_tunnel env es w = (w', x)"
  shows "ct_tun (tn_state w') = concat (map (tunnel_writes (tv_batching env)) (before_end es))"
proof -
  have "ct_tun (tn_state (tunnel_return (tunnel_abort env dup v))) = ct_tun (tn_state v)" for v
    by (simp add: tunnel_return_def tunnel_abort_def upload_ends_def report_tick_def Let_def)
  then have "ct_tun (tn_state w') = ct_tun (tn_state (fold (tunnel_step env dup) (before_end es) (tunnel_spawn env dup (tunnel_begin env w))))"
    using assms(3) by (auto simp: client_run_tunnel_up [OF assms(1,2)] Let_def split: option.splits)
  then show ?thesis by (simp add: tunnel_fold_tun tunnel_spawn_def tunnel_begin_def client_tunnel_new_def)
qed

text \<open>
  Claim C33. A tunnel that came up leaves nothing behind: when it returns, at the first receive error or
  health event and with that reason, all its tasks have ended, the descriptor of the upload task is closed,
  whatever happened to that task before, and the last report, unless it is quiet, has the final counts; and
  what it wrote to the device are exactly the packets received until then, in order.
\<close>

theorem client_tunnel_leaves_nothing:
  assumes up: "tv_clone env = Inr dup" "tv_async env = Inr ()" and fresh: "dup \<notin> tn_fds w"
    and run: "client_run_tunnel env es w = (w', Some x)"
  shows "tunnel_verdict es = Some x \<and> tn_stray w' = tn_stray w \<and> tn_fds w' = tn_fds w
     \<and> ct_tun (tn_state w') = concat (map (tunnel_writes (tv_batching env)) (before_end es))
     \<and> (\<not> tv_quiet env \<longrightarrow> last (tn_reports w') = Stats_report (ct_stats (tn_state w')))"
proof -
  let ?w1 = "tunnel_spawn env dup (tunnel_begin env w)"
  let ?w2 = "fold (tunnel_step env dup) (before_end es) ?w1"
  have w': "w' = tunnel_return (tunnel_abort env dup ?w2)" and verdict: "tunnel_verdict es = Some x"
    using run by (simp_all add: client_run_tunnel_up [OF up] Let_def split: option.splits)
  have "tunnel_frame (tn_fds w) dup ?w1 ?w1" by (simp add: tunnel_frame_def tunnel_spawn_def tunnel_begin_def fd_open_def)
  from tunnel_fold_frame [OF fresh this, of env "before_end es"]
  have frame: "tn_fds ?w2 = (if ct_upload_alive (tn_state ?w2) then insert dup (tn_fds w) else tn_fds w)"
    "tn_stray ?w2 = tn_stray w" by (simp_all add: tunnel_frame_def tunnel_spawn_def tunnel_begin_def)
  show ?thesis
    using frame client_run_tunnel_tun [OF up run] verdict fresh unfolding w'
    by (auto simp: tunnel_return_def tunnel_abort_def upload_ends_def report_tick_def fd_close_def Let_def)
qed

definition sample_tunnel_env :: "bytes list tunnel_env" where
  "sample_tunnel_env = \<lparr>tv_send = QuicCamouflaged_write True (\<lambda>_. DgOk), tv_flush = Transport_flush, tv_os = Linux,
     tv_mode = QuicCamouflaged, tv_quiet = False, tv_batching = True, tv_clone = Inr 7, tv_async = Inr ()\<rparr>"

definition sample_tunnel_world :: "bytes list tunnel_world" where
  "sample_tunnel_world = \<lparr>tn_conn = [], tn_state = client_tunnel_new, tn_batch = 0, tn_fds = {0, 1, 2, 5}, tn_idle_task = False,
     tn_stats_task = False, tn_reports = [], tn_stray = 0\<rparr>"

theorem client_tunnel_leaves_nothing_witness:
  "\<exists>w. client_run_tunnel sample_tunnel_env [TnRead (TunPacket upload_sample), TnRecv (Inr [0x45]) (\<lambda>_. True), TnHealth Degraded]
         sample_tunnel_world = (w, Some (ExitHealth Degraded))
     \<and> tn_fds w = {0, 1, 2, 5} \<and> tn_stray w = 0 \<and> ct_tun (tn_state w) = [[0x45]]"
proof -
  let ?es = "[TnRead (TunPacket upload_sample), TnRecv (Inr [0x45]) (\<lambda>_. True), TnHealth Degraded]"
  have up: "tv_clone sample_tunnel_env = Inr 7" "tv_async sample_tunnel_env = Inr ()" "7 \<notin> tn_fds sample_tunnel_world"
    by (simp_all add: sample_tunnel_env_def sample_tunnel_world_def)
  have "tunnel_verdict ?es = Some (ExitHealth Degraded)" by (simp add: tunnel_verdict_def)
  then obtain w where run: "client_run_tunnel sample_tunnel_env ?es sample_tunnel_world = (w, Some (ExitHealth Degraded))"
    using client_run_tunnel_up [OF up(1,2), of ?es sample_tunnel_world] by (simp add: Let_def)
  have "\<not> is_batched_datagram [0x45]" by (simp add: is_batched_datagram_def version_nibble_def)
  with client_tunnel_leaves_nothing [OF up run] run show ?thesis
    by (simp add: before_end_def sample_tunnel_world_def sample_tunnel_env_def)
qed

text \<open>
  A tunnel that cannot duplicate the device's descriptor or register it returns without aborting the
  statistics task it has already spawned: each attempt leaves one more task that reports for ever.
\<close>

theorem tunnel_start_error_strays:
  assumes "tv_clone env = Inl e \<or> (\<exists>dup. tv_clone env = Inr dup) \<and> tv_async env = Inl e" "\<not> tv_quiet env"
  shows "\<exists>w'. client_run_tunnel env es w = (w', Some (ExitError (TunnelIo e))) \<and> tn_stray w' = tn_stray w + 1"
  using assms by (auto simp: client_run_tunnel_def tunnel_return_def tunnel_begin_def client_tunnel_new_def Let_def)

theorem tunnel_start_error_strays_witness:
  "\<exists>w. client_run_tunnel (sample_tunnel_env\<lparr>tv_clone := Inl ''too many open files''\<rparr>) [] sample_tunnel_world
       = (w, Some (ExitError (TunnelIo ''too many open files''))) \<and> tn_stray w = 1"
  using tunnel_start_error_strays [of "sample_tunnel_env\<lparr>tv_clone := Inl ''too many open files''\<rparr>" "''too many open files''" "[]"
      sample_tunnel_world]
  by (simp add: sample_tunnel_env_def sample_tunnel_world_def)

end
