(* ===== verification/Spec2Isabelle.thy ===== *)
theory Spec2Isabelle
  imports StreamTunnel Delivery Control Datagram Padding Batch Priority IpPool Demux Auth Users Shaper Stats NetAddr Config
    Transport Reality Server Tunnel Camouflage Manager Client Sessions
    Routes Firewall Device Daemon Acme Upload Startup ServerMain ClientHost ClientTunnel VpnTunnel
begin

text \<open>
  Verification of the redpill VPN: a server and a client that carry IP packets between TUN devices over
  QUIC datagrams, TCP with TLS (\<open>Reality\<close>) or WebSocket. The crate paths below are relative to
  \<^verbatim>\<open>src/crates/redpill-quic/src\<close>; \<open>route.rs\<close> and \<open>device.rs\<close> are those of \<^verbatim>\<open>src/crates/redpill-tun/src\<close>.

  \<^bold>\<open>The program.\<close> A client proves knowledge of a pre-shared key (a nonce and its HMAC), gets an address of
  the server's /24 and exchanges packets. The server has one reader of its TUN device, which routes each
  packet by destination into the bounded queue of the client that owns the address, and one task per
  client and direction; uploads are checked for their source address and rate. A TCP peer without a key
  is relayed to a cover site. The client picks the first transport that connects, redirects routes and
  DNS into the tunnel behind a kill switch, and reconnects until it is stopped.

  \<^bold>\<open>Theories.\<close> State is a record, each operation a function named after the Rust one (\<open>Type::method\<close> becomes
  \<open>Type_method\<close>), errors are values of a sum type, panics are \<open>None\<close> of \<open>'a rust\<close>, integers are words of the
  source's width.

  \<^item> \<open>Prelude\<close>: words, bytes, results, checked indexing, the codec interface \<open>wire_codec\<close>, and \<open>task_loop\<close>, the
    interleaving of the tasks of a tunnel until one of them ends it, with its invariant rule
    \<open>task_invariant\<close>. \<open>NetAddr\<close>: parsing and printing of addresses and numbers of the standard library.
    \<open>Float64\<close>: the rounding of \<open>f64\<close> arithmetic on rationals, monotonicity and error bounds, for the code
    that reports figures, watches the round-trip time and scales the reconnect delay.
  \<^item> \<open>Control\<close> (\<open>control.rs\<close>), \<open>Datagram\<close> (\<open>datagram.rs\<close>), \<open>Padding\<close> (\<open>padding.rs\<close>), \<open>Batch\<close> (\<open>batch.rs\<close>), \<open>Priority\<close>
    (\<open>priority.rs\<close>): wire formats and the queue. Round trips, no panic on any input, the batcher and the
    queue against their sequences of packets (\<open>packet_batcher\<close>).
  \<^item> \<open>IpPool\<close> (\<open>ip_pool.rs\<close>), \<open>Demux\<close> (\<open>demux.rs\<close>), \<open>Auth\<close> (\<open>auth.rs\<close>), \<open>Users\<close> (\<open>users.rs\<close>): the interfaces
    \<open>address_pool\<close>, \<open>packet_router\<close> and \<open>authenticator\<close> with their laws, interpreted on the code's models. The
    router works on an explicit store of shared queues, the user store on an explicit file system.
  \<^item> \<open>Shaper\<close> (\<open>shaper.rs\<close>): the token bucket as sequential code and as atomic steps of threads that
    interleave, with the 64-bit wrap-around; \<open>Stats\<close> (\<open>stats.rs\<close>, \<open>metrics.rs\<close>): counters, the figures of the
    report in \<open>f64\<close>, the metrics endpoint; \<open>Config\<close> (\<open>config.rs\<close>).
  \<^item> \<open>Transport\<close> (\<open>transport/\<close>): \<open>send\<close> and \<open>recv\<close> of the transports, the interface \<open>ordered_transport\<close>; \<open>Manager\<close>
    (\<open>transport/manager.rs\<close>, \<open>transport/health.rs\<close> and the connectors); \<open>Camouflage\<close> (\<open>camouflage.rs\<close>,
    \<open>browser_profile.rs\<close>, \<open>fingerprint.rs\<close>, \<open>cert.rs\<close>, \<open>noop_cc.rs\<close>, \<open>transport/quic_camouflaged.rs\<close>), where random values are drawn
    one by one from a stream through \<open>State_Monad\<close>.
  \<^item> \<open>Reality\<close> (\<open>reality.rs\<close>), \<open>Server\<close> and \<open>Tunnel\<close> (\<open>server.rs\<close>: handlers and shared state; data plane),
    \<open>Sessions\<close>: the same handlers as step relations on the shared state, all interleavings of any number of
    sessions, with the invariant on addresses, routes and counts by rule induction and the refinement
    between the two views. \<open>VpnTunnel\<close> and \<open>StreamTunnel\<close>: all tasks of \<open>run_vpn_tunnel\<close>, \<open>run_tcp_reality_tunnel\<close>
    and \<open>run_ws_vpn_tunnel\<close> interleaved on the shared state, the last with the global reader competing for
    the device, and the sessions of \<open>Sessions\<close> run with these tunnels. \<open>Delivery\<close>: what reaches one client's
    queue while other sessions come and go.
  \<^item> \<open>Client\<close> and \<open>Upload\<close> (\<open>client.rs\<close>): the connect and reconnect loop as a state machine over events, with a
    log of the calls it makes to change the system, the tunnel loops, the upload tasks of Unix and Windows on the interface \<open>buffered_sender\<close>; \<open>ClientTunnel\<close>: all
    tasks of \<open>run_tunnel\<close> interleaved, with the descriptor and the tasks they own.
  \<^item> \<open>Routes\<close> and \<open>Firewall\<close> (\<open>route.rs\<close>, \<open>xdp.rs\<close>, \<open>killswitch.rs\<close>), \<open>Device\<close> (\<open>device.rs\<close>), \<open>Startup\<close> (what
    \<open>main\<close> of \<open>server.rs\<close> does to the host): every platform's commands over an explicit host.
  \<^item> \<open>ServerMain\<close> (\<open>main\<close> of \<open>server.rs\<close>): configuration, certificate, listeners, the accept loop with reloads, and the
    shutdown, on top of \<open>Sessions\<close> and \<open>Startup\<close>; \<open>ClientHost\<close> (\<open>run_client\<close> of \<open>client.rs\<close>): the loop of \<open>Client\<close>
    with the Linux commands it runs, refining that loop, on a host with routes, files and descriptors, those of
    the upload tasks included.
  \<^item> \<open>Daemon\<close> (\<open>daemon.rs\<close>, \<open>ipc.rs\<close>, commands of \<open>client.rs\<close>), \<open>Acme\<close> (\<open>acme.rs\<close>, \<open>decoy.rs\<close>).
  \<^item> This theory: properties that span components, from the client's hello to the packets at the other end.

  \<^bold>\<open>What the theorems show.\<close> A session exists exactly for holders of a key; under every interleaving sessions
  hold distinct addresses, and everything is given back at their end, whatever their tunnels do in between,
  over all three transports; client and server agree on the configuration. Uploads and downloads arrive
  complete and in order over QUIC and over TCP Reality, through queue, batching and framing (uploads also
  through padding), however the tasks of the two tunnels interleave; a packet reaches only the
  owner of its destination, and what a client receives does not depend on the sessions of others; no upload
  path passes a forged source; a tunnel that ends leaves no task or descriptor. A peer without a key takes
  no address and sees only the cover site, which gets all that is relayed but not the bytes of an incomplete
  first read; the camouflage of a connection is that of one browser and its pin follows the server's
  certificate through restarts; the rate stays within its bound under concurrency; the reported figures are within a bound of the true ones.
  With the routes set up all traffic that only the default route covers, but that to the server, is tunnelled. A
  whole run of the client, from start to a clean exit, leaves the routes as it found them, and DNS when the
  resolver file and its backup can be written (\<open>dns_ready\<close>); one of the server leaves the NAT chain less the
  masquerade rules that contain the text of its subnet; both close what they opened. MSS clamping leaves one rule
  per direction and no stale one. Where the code does
  not do what it means to, a theorem says what it does instead (a session left without a route by a race in
  the clean-up, a WebSocket tunnel and the reader that take each other's packets from the device, a packet
  cut by the reader's buffer, an upload that is never flushed, padding past the size the path takes, a
  bypass route that outlives a killed client, a client that ends when it is given the same address again, an
  answer cut off when a probe closes its sending side, and others).

  \<^bold>\<open>Parameters.\<close> HMAC-SHA256, SHA-256, the TLS, QUIC, WebSocket, HTTP/3, TOML, JSON and PEM libraries, random
  bytes, clocks, system calls and the programs the code runs (\<open>ip\<close>, \<open>iptables\<close>, \<open>nft\<close>, \<open>pfctl\<close>, \<open>netsh\<close>) are
  arguments. What a property needs of them is a named hypothesis (\<open>route_tool\<close>, \<open>nft_tool\<close>, \<open>mss_tool\<close>,
  \<open>netsh_tool\<close>, \<open>link_keeps\<close>, \<open>addr_tool\<close>, \<open>others_keep\<close>, a digest of 32 bytes), each about exactly the
  commands the code runs, shown to hold for a concrete function in the property's witness. Of the packet
  filters only the commands and the text of the rules are modelled, not what a filter does with them; on Linux
  the kill switch does nothing.

  \<^bold>\<open>Loops.\<close> Loops over input are recursion on the input, so a task that waits has consumed its list of events.
  No fuel is used: other loops have a termination measure, and the one loop that depends on a command's
  failure, \<open>delete_until_err\<close>, is a partial function whose result \<open>None\<close> means that it runs for ever; that it
  returns is proved. Random values are an infinite stream. The time the token bucket needs and the waits of the client are arguments, not steps.

  \<^bold>\<open>Not modelled.\<close> Logging and the formatting of what is logged; the registry of the metrics library (its
  buckets and text); socket options and the construction of TLS and QUIC endpoints in \<open>main\<close>; \<open>run_tcp_vpn_tunnel\<close>,
  which nothing calls, other than by its two directions; the non-Unix variants of the daemon commands, which
  only return an error; constructors that only store their arguments; tests and build scripts.
\<close>

section \<open>The handshake\<close>

text \<open>The message of a client whose key the server knows is accepted.\<close>

lemma client_message_accepted:
  assumes "length nonce = 32" "\<And>k m. length (hmac k m) = 32" "(auth_psk a, u) \<in> mode_creds mode"
  shows "\<exists>msg u'. client_auth_message hmac a nonce = Some msg \<and> accepted_as (AuthMode_verify hmac mode) msg = Some u'"
proof -
  let ?c = "\<lparr>ca_nonce = nonce, ca_mac = hmac (auth_psk a) nonce, ca_version = PROTOCOL_VERSION\<rparr>"
  have wf: "wf_client_auth ?c" using assms by (simp add: wf_client_auth_def)
  have mac: "PskAuthenticator_compute_mac hmac a nonce = Some (hmac (auth_psk a) nonce)"
    using assms(2) by (simp add: PskAuthenticator_compute_mac_def Let_def copy_at_def)
  have dec: "ClientAuth_decode (ClientAuth_encode ?c) = Some ?c" by (rule client_auth_codec.decode_exact [OF wf])
  have "AuthMode_verify hmac mode nonce (hmac (auth_psk a) nonce) \<noteq> None"
    using mode_auth.accepted_iff [of hmac mode] assms(3) by blast
  then obtain u' where "AuthMode_verify hmac mode nonce (hmac (auth_psk a) nonce) = Some u'" by auto
  with dec have "accepted_as (AuthMode_verify hmac mode) (ClientAuth_encode ?c) = Some u'"
    by (simp add: accepted_as_def)
  with mac show ?thesis by (simp add: client_auth_message_def)
qed

lemma session_answer_accepted:
  assumes "accepted_as (AuthMode_verify hmac (ss_auth st)) msg = Some u" "IpPool_allocate (ss_pool st) = (p, Some ip)"
  shows "session_answer hmac st fl True (Some msg) = SessionConfig_encode (session_config_for st ip fl)"
  using assms by (simp add: session_answer_def)

text \<open>
  Claim C6. Client and server agree: a client whose key the server knows, on a server with a free address,
  connects over QUIC, over TCP Reality and over WebSocket, and the configuration it ends up with is the
  server's: a free address of the pool, the server's own address, DNS and MTU, with batching announced
  over QUIC only. \<open>setup\<close> hypotheses: the connector's own trust set-up succeeds, HMAC digests have 32 bytes.
\<close>

theorem handshake_agreement:
  fixes st :: server_state
  assumes inv: "server_invar st" and key: "(k, u) \<in> mode_creds (ss_auth st)"
    and free: "card (pool_held (ss_pool st)) < 253"
    and nonce: "length nonce = 32" and digest: "\<And>k m. length (te_hmac E k m) = 32"
    and quic: "qd_auth qc = \<lparr>auth_psk = k\<rparr>" "QuicDirect_trust E qc = Ok t"
    and ws: "wsc_auth wc = \<lparr>auth_psk = k\<rparr>" "cw_url (wsc_config wc) = Some url"
  shows "\<exists>msg ip. client_auth_message (te_hmac E) \<lparr>auth_psk = k\<rparr> nonce = Some msg
    \<and> ip \<in> pool_space (ss_pool st) - pool_held (ss_pool st)
    \<and> QuicDirect_connect E qc nonce
         \<lparr>lk_setup = Ok (), lk_write = Ok (),
          lk_reply = snd (snd (handle_vpn (te_hmac E) \<lparr>accept_bi_ok = True, auth_read = Some msg, config_write_ok = True\<rparr> tun st))\<rparr>
       = Some (Ok \<lparr>cres_session = session_config_for st ip BATCHING, cres_mode = QuicRaw, cres_quic = True,
                   cres_padding = False, cres_control = True\<rparr>)
    \<and> WebSocket_connect E wc nonce
         \<lparr>wl_connect = Ok (), wl_send = Ok (),
          wl_next = Some (Binary (snd (handle_ws_connection (te_hmac E)
             \<lparr>ws_accept_ok = True, ws_first = WsBinary msg, ws_send_ok = True\<rparr> wtun st)))\<rparr>
       = Some (Ok \<lparr>cres_session = session_config_for st ip 0, cres_mode = WebSocketCdn, cres_quic = False,
                   cres_padding = False, cres_control = False\<rparr>)
    \<and> exchange_auth (te_hmac E) \<lparr>auth_psk = k\<rparr> nonce
         \<lparr>lk_setup = Ok (), lk_write = Ok (),
          lk_reply = to_client (snd (handle_tcp_connection (AuthMode_verify (te_hmac E) (ss_auth st))
             \<lparr>rc_server_ip = ss_server_ip st, rc_dns_ip = ss_dns_ip st, rc_mtu = ss_mtu st\<rparr>
             \<lparr>tls_accept = Inr (), first_read = FullRead msg, write_config_ok = True, target_connect_ok = tco, target_write_ok = two, relay_io = relay\<rparr>
             (ss_pool st)))\<rparr>
       = Some (Ok (session_config_for st ip 0))"
proof -
  obtain msg u' where msg: "client_auth_message (te_hmac E) \<lparr>auth_psk = k\<rparr> nonce = Some msg"
    "accepted_as (AuthMode_verify (te_hmac E) (ss_auth st)) msg = Some u'"
    using client_message_accepted [where hmac = "te_hmac E" and a = "\<lparr>auth_psk = k\<rparr>" and mode = "ss_auth st" and u = u,
        OF nonce digest] key by auto
  from inv have pi: "pool_invar (ss_pool st)" by (simp add: server_invar_def)
  obtain p ip where al: "IpPool_allocate (ss_pool st) = (p, Some ip)"
    using pool.alloc_free [OF pi] free by (auto simp: card_pool_space)
  note ans = session_answer_accepted [OF msg(2) al]
  have q: "snd (snd (handle_vpn (te_hmac E) \<lparr>accept_bi_ok = True, auth_read = Some msg, config_write_ok = True\<rparr> tun st))
      = SessionConfig_encode (session_config_for st ip BATCHING)"
    by (simp add: handle_vpn_def Let_def vpn_control_answer ans)
  have w: "snd (handle_ws_connection (te_hmac E) \<lparr>ws_accept_ok = True, ws_first = WsBinary msg, ws_send_ok = True\<rparr> wtun st)
      = SessionConfig_encode (session_config_for st ip 0)"
    by (simp add: ws_answer ans)
  have len: "length (SessionConfig_encode c) = SESSION_CONFIG_LEN" for c by (rule session_config_codec.length_encode) simp
  have dec: "SessionConfig_decode (SessionConfig_encode c) = Some c" for c by (rule session_config_codec.decode_exact) simp
  have ip: "ip \<in> pool_space (ss_pool st)" "ip \<notin> pool_held (ss_pool st)" using pool.alloc_Some [OF pi al] by simp_all
  show ?thesis
    by (rule exI [of _ msg], rule exI [of _ ip])
      (simp add: msg ip q w quic ws QuicDirect_connect_def then_rust_def exchange_auth_reply [where rest = "[]"]
        and_then_def WebSocket_connect_def WebSocket_session_def WebSocket_url_def len dec handle_accepted [OF _ _ msg(2)] al session_config_for_def)
qed

definition sample_env :: tls_env where
  "sample_env =
     \<lparr>te_pem = \<lparr>pem_certs = (\<lambda>_. Ok []), pem_key = (\<lambda>_. Ok None)\<rparr>, te_sha256 = id, te_root_ok = (\<lambda>_. True),
      te_files = Map.empty, te_valid_sni = (\<lambda>_. True), te_hmac = (\<lambda>k m. take 32 (k @ m @ replicate 32 0))\<rparr>"

theorem handshake_agreement_witness:
  "\<exists>msg ip. ip \<in> pool_space (ss_pool sample_server)
    \<and> QuicDirect_connect sample_env \<lparr>qd_cert_path = [], qd_auth = \<lparr>auth_psk = [2]\<rparr>, qd_domain = Some ''vpn.example''\<rparr> (replicate 32 7)
        \<lparr>lk_setup = Ok (), lk_write = Ok (),
         lk_reply = snd (snd (handle_vpn (te_hmac sample_env)
            \<lparr>accept_bi_ok = True, auth_read = Some msg, config_write_ok = True\<rparr> (\<lambda>_ _ st. st) sample_server))\<rparr>
      = Some (Ok \<lparr>cres_session = session_config_for sample_server ip BATCHING, cres_mode = QuicRaw, cres_quic = True,
                  cres_padding = False, cres_control = True\<rparr>)"
proof -
  have key: "([2], ''default'') \<in> mode_creds (ss_auth sample_server)"
    and free: "card (pool_held (ss_pool sample_server)) < 253"
    by (simp_all add: sample_server_def pool_held_new)
  have "\<And>k m. length (te_hmac sample_env k m) = 32" by (simp add: sample_env_def)
  note * = handshake_agreement [OF sample_server_invar key free _ this, of "replicate 32 7"
      "\<lparr>qd_cert_path = [], qd_auth = \<lparr>auth_psk = [2]\<rparr>, qd_domain = Some ''vpn.example''\<rparr>" "(None, ''vpn.example'')"
      "\<lparr>wsc_config = \<lparr>cw_url = Some ''wss://x'', cw_host = None\<rparr>, wsc_auth = \<lparr>auth_psk = [2]\<rparr>\<rparr>" "''wss://x''" "\<lambda>_ _ st. st" "\<lambda>_ st. st" True True]
  show ?thesis using * by (simp add: QuicDirect_trust_def) blast
qed

section \<open>Downloads\<close>

text \<open>The datagrams of the receive loop in a run of the client's tunnel, and a device that takes every write.\<close>

definition tunnel_received :: "tn_event list \<Rightarrow> bytes list" where
  "tunnel_received es = concat (map (\<lambda>e. case e of TnRecv (Inr d) ok \<Rightarrow> [d] | _ \<Rightarrow> []) es)"

definition device_takes_all :: "tn_event list \<Rightarrow> bool" where
  "device_takes_all es \<longleftrightarrow> (\<forall>e \<in> set es. case e of TnRecv r ok \<Rightarrow> (\<forall>p. ok p) | _ \<Rightarrow> True)"

lemma tunnel_writes_received:
  "device_takes_all es \<Longrightarrow> concat (map (tunnel_writes b) es)
     = filter (\<lambda>p. p \<noteq> []) (concat (map (if b then unpacked else (\<lambda>d. [d])) (tunnel_received es)))"
proof (induction es)
  case (Cons e es)
  have "tunnel_writes b e = filter (\<lambda>p. p \<noteq> []) (concat (map (if b then unpacked else (\<lambda>d. [d])) (tunnel_received [e])))"
    using Cons.prems
    by (cases "(b, e)" rule: tunnel_writes.cases)
      (auto simp: tunnel_received_def device_takes_all_def unpacked_def is_batched_datagram_def split: sum.splits)
  with Cons show ?case by (simp add: tunnel_received_def device_takes_all_def)
qed (simp add: tunnel_received_def)

text \<open>
  Claim C7. Downloads arrive complete and in order, from the queue of the server to the device of the client:
  in any interleaving of the tasks of the server's tunnel with each other and the rest of the server, on a
  connection that takes the datagrams, and in any interleaving of the tasks of the client's tunnel, whose
  receive loop gets the datagrams sent, the client writes to its device exactly the packets that were popped
  from its queue, once the last batch is flushed.
\<close>

theorem quic_download_end_to_end:
  assumes server: "run_vpn_tunnel False es ip q st = (t, r)" and others: "list_all well_behaved es" and conns: "list_all vt_conn_ok es"
    and plain: "\<forall>p \<in> set (vt_popped t). plain_packet p" and flushed: "datagram_batcher.pending (vt_batcher t) = []"
    and up: "tv_clone env = Inr dup" "tv_async env = Inr ()" and batching: "tv_batching env"
    and client: "client_run_tunnel env es' w = (w', x)"
    and net: "tunnel_received (before_end es') = vt_wire t" and dev: "device_takes_all (before_end es')"
  shows "ct_tun (tn_state w') = vt_popped t"
proof -
  have "concat (map unpacked (vt_wire t)) = vt_popped t"
    using vpn_tunnel_duplex [OF server conns others plain] flushed by simp
  then have "ct_tun (tn_state w') = filter (\<lambda>p. p \<noteq> []) (vt_popped t)"
    using client_run_tunnel_tun [OF up client] tunnel_writes_received [OF dev, of True] batching net by simp
  also have "\<dots> = vt_popped t" using plain by (auto simp: filter_id_conv plain_packet_def ip_version_def)
  finally show ?thesis .
qed

text \<open>
  Claim C8. Over TCP Reality the same, from the queue of the server to the device of the client: in any
  interleaving of the tasks of the server's tunnel, with writes that succeed and the buffer of 64 KiB flushed by
  the idle timer, and in any interleaving of the tasks of the client's tunnel, whose receive loop reads the
  stream, the client writes to its device the packets popped from its queue, unchanged and in order, as many
  as it has received; and the stream gives it all of them.
\<close>

theorem tcp_download_end_to_end:
  assumes server: "run_tcp_reality_tunnel None es ip q st = (t, r)" and writes: "list_all tcp_writes_ok es"
    and flushed: "\<not> tw_needs_flush (tt_writer t)"
    and packets: "\<forall>p \<in> set (tt_popped t). p \<noteq> [] \<and> length p \<le> MAX_FRAME_SIZE"
    and up: "tv_clone env = Inr dup" "tv_async env = Inr ()" and batching: "\<not> tv_batching env"
    and client: "client_run_tunnel env es' w = (w', x)" and dev: "device_takes_all (before_end es')"
    and net: "recv_n TcpReality_recv (length (tunnel_received (before_end es'))) (TcpReality_new\<lparr>tls_wire := tw_wire (tt_writer t)\<rparr>)
      = (l, map Inr (tunnel_received (before_end es')))"
  shows "ct_tun (tn_state w') = take (length (tunnel_received (before_end es'))) (tt_popped t)
     \<and> (\<exists>l. recv_n TcpReality_recv (length (tt_popped t)) (TcpReality_new\<lparr>tls_wire := tw_wire (tt_writer t)\<rparr>)
          = (l, map Inr (tt_popped t)))"
proof -
  let ?link = "TcpReality_new\<lparr>tls_wire := tw_wire (tt_writer t)\<rparr>" and ?ds = "tunnel_received (before_end es')"
  have car: "list_all tcp_carries (tt_popped t)" using packets by (simp add: list_all_iff tcp_carries_def)
  have wire: "tw_wire (tt_writer t) = concat (map tcp_frame (tt_popped t))"
    using tcp_tunnel_duplex(2) [OF server, of False False] writes flushed by (auto simp: writer_invar_def list_all_iff)
  have wf: "tcp_wf ?link" using car by (auto simp: tcp_wf_def wire)
  have inf: "tcp_inflight ?link = tt_popped t" using tcp_inflight_frames [OF car] by (simp add: tcp_inflight_def wire)
  have ds: "?ds = take (length ?ds) (tt_popped t)" using tcp.received_first [OF wf net] inf by simp
  have "ct_tun (tn_state w') = filter (\<lambda>p. p \<noteq> []) ?ds"
    using client_run_tunnel_tun [OF up client] tunnel_writes_received [OF dev, of False] batching by simp
  also have "\<dots> = ?ds" using packets set_take_subset [of "length ?ds" "tt_popped t"] ds by (subst filter_id_conv) (metis subsetD)
  finally have "ct_tun (tn_state w') = take (length ?ds) (tt_popped t)" using ds by simp
  with tcp.recv_n_law [OF wf, of "length (tt_popped t)"] inf show ?thesis by auto
qed

lemma strip_batch: "is_batched_datagram d \<Longrightarrow> strip_padding d = d"
  by (auto simp: is_batched_datagram_def strip_padding_def strip_real_len_def Let_def split: if_splits)

text \<open>
  Padding and batching do not compose: a camouflaged server pads a small packet, batches it, and
  the camouflaged client unpacks the batch without stripping, so that every well-formed packet of up to
  256 bytes is written to the client's device in its padded form, with trailing zero bytes
  whenever its size is not a standard one.
\<close>

theorem padded_download_keeps_padding:
  assumes "ip_wellformed p" "length p \<le> 256" "accepts_all c" "\<forall>p. write_ok p"
  shows "\<exists>s s'. queue2dg_run True [(c, Popped p)] (sender_new m) = Ok s \<and> flush_pending c s = Ok s'
    \<and> ct_tun (fst (run_tunnel True
         (map (\<lambda>d. Received (QuicCamouflaged_recv True (Inr d)) write_ok) (snd_wire s')) client_tunnel_new))
      = [pad_to_standard p]
    \<and> length (pad_to_standard p) \<in> {128, 256}"
proof -
  let ?d = "pad_to_standard p"
  have len: "length ?d \<in> {128, 256}" using assms(2) by (auto simp: length_pad_to_standard STANDARD_SIZES_def)
  then have small: "length ?d < BATCH_SIZE_THRESHOLD" "?d \<noteq> []" by (auto simp: BATCH_SIZE_THRESHOLD_def)
  have U: "unpacked (batch_encode [?d]) = [?d]" "batch_encode [?d] \<noteq> []"
    using batch_encode_unpacked [of "[?d]"] small by auto
  have strip: "strip_padding (batch_encode [?d]) = batch_encode [?d]"
    by (rule strip_batch, rule batch_is_batched) (use small in simp_all)
  have sent: "queue2dg_run True [(c, Popped p)] (sender_new m)
      = Ok ((sender_new m)\<lparr>snd_batcher := fst (DatagramBatcher_add DatagramBatcher_new ?d)\<rparr>)"
    using small len by (auto simp: queue2dg_step_def send_packet_def Let_def and_then_def sender_new_def
        DatagramBatcher_add_def DatagramBatcher_new_def MAX_BATCH_SIZE_def)
  define s where "s = (sender_new m)\<lparr>snd_batcher := fst (DatagramBatcher_add DatagramBatcher_new ?d)\<rparr>"
  have pend: "datagram_batcher.pending (snd_batcher s) = [?d]" "snd_wire s = []"
    using len by (auto simp: s_def sender_new_def DatagramBatcher_add_def DatagramBatcher_new_def MAX_BATCH_SIZE_def Let_def)
  then obtain s' where s': "flush_pending c s = Ok s'" "snd_wire s' = [batch_encode [?d]]"
    using U(2) by (auto simp: flush_pending_def DatagramBatcher_flush_def send_rt_accepts [OF assms(3)] sent_ok_def Let_def)
  have "ct_tun (fst (run_tunnel True (map (\<lambda>d. Received (QuicCamouflaged_recv True (Inr d)) write_ok) (snd_wire s')) client_tunnel_new))
      = ct_tun (receive_step True (batch_encode [?d]) write_ok client_tunnel_new)"
    unfolding s'(2) QuicCamouflaged_recv_def QuicRaw_recv_def by (simp add: strip del: batch_encode_simps)
  also have "\<dots> = [?d]"
    using receive_step_tun [OF assms(4) U(2), of client_tunnel_new] small(2)
    by (simp add: U client_tunnel_new_def del: batch_encode_simps)
  finally show ?thesis using sent s'(1) len by (auto simp: s_def)
qed

theorem padded_download_keeps_padding_witness:
  "\<exists>s s'. queue2dg_run True [(open_conn, Popped sample_ipv4_60)] (sender_new Metrics_new) = Ok s \<and> flush_pending open_conn s = Ok s'
    \<and> ct_tun (fst (run_tunnel True
         (map (\<lambda>d. Received (QuicCamouflaged_recv True (Inr d)) (\<lambda>_. True)) (snd_wire s')) client_tunnel_new))
      = [pad_to_standard sample_ipv4_60]
    \<and> length (pad_to_standard sample_ipv4_60) \<in> {128, 256}"
  by (rule padded_download_keeps_padding [OF sample_ipv4_60_wf _ open_conn_accepts])
    (simp_all add: sample_ipv4_60_def)

definition sample_waiting :: server_state where
  "sample_waiting = sample_server\<lparr>ss_router := ClientRouter_new\<lparr>queues := (\<lambda>_. (PriorityQueue_new 8)\<lparr>bulk := [sample_ipv4_60]\<rparr>)\<rparr>\<rparr>"

theorem quic_download_end_to_end_witness:
  "let es = [VtRtt 1000, VtPop 0 open_conn, VtReport, VtFlush open_conn];
       t = fst (run_vpn_tunnel False es (Ipv4Addr 10 0 1 2) 0 sample_waiting);
       es' = [TnRead TunAgain, TnRecv (Inr (hd (vt_wire t))) (\<lambda>_. True), TnHealth Degraded] in
   ct_tun (tn_state (fst (client_run_tunnel sample_tunnel_env es' sample_tunnel_world))) = [sample_ipv4_60]"
proof -
  let ?es = "[VtRtt 1000, VtPop 0 open_conn, VtReport, VtFlush open_conn]"
  obtain t r where server: "run_vpn_tunnel False ?es (Ipv4Addr 10 0 1 2) 0 sample_waiting = (t, r)" by fastforce
  have len: "length sample_ipv4_60 < BATCH_SIZE_THRESHOLD" "length sample_ipv4_60 = 60"
    by (simp_all add: sample_ipv4_60_def BATCH_SIZE_THRESHOLD_def)
  have t: "vt_popped t = [sample_ipv4_60]" "datagram_batcher.pending (vt_batcher t) = []" "length (vt_wire t) = 1"
    using server len
    by (auto simp: run_vpn_tunnel_def vpn_loop_def vpn_tunnel_new_def vt_pop_def vt_send_def vt_sender_def vt_report_def queue_pop_def
        PriorityQueue_try_pop_def sample_waiting_def queue2dg_step_def send_packet_def DatagramBatcher_add_def
        DatagramBatcher_new_def DatagramBatcher_flush_def DatagramBatcher_has_pending_def flush_pending_def send_rt_def open_conn_def
        PriorityQueue_new_def ClientRouter_new_def Let_def)
  have plain: "\<forall>p \<in> set (vt_popped t). plain_packet p"
    by (simp add: t plain_packet_def sample_ipv4_60_def ip_version_def version_nibble_def)
  let ?es' = "[TnRead TunAgain, TnRecv (Inr (hd (vt_wire t))) (\<lambda>_. True), TnHealth Degraded]"
  obtain w x where client: "client_run_tunnel sample_tunnel_env ?es' sample_tunnel_world = (w, x)" by fastforce
  have net: "tunnel_received (before_end ?es') = vt_wire t" using t(3) by (cases "vt_wire t") (auto simp: tunnel_received_def before_end_def)
  have env: "tv_clone sample_tunnel_env = Inr 7" "tv_async sample_tunnel_env = Inr ()" "tv_batching sample_tunnel_env"
    by (simp_all add: sample_tunnel_env_def)
  from quic_download_end_to_end [OF server _ _ plain t(2) env client net] open_conn_accepts
  have "ct_tun (tn_state w) = vt_popped t" by (auto simp: device_takes_all_def before_end_def)
  with server client t(1) show ?thesis by (simp add: Let_def)
qed

definition sample_tcp_env :: "tls_writer tunnel_env" where
  "sample_tcp_env = \<lparr>tv_send = TcpReality_write stream_up, tv_flush = TcpReality_flush stream_up, tv_os = Linux,
     tv_mode = TcpReality, tv_quiet = False, tv_batching = False, tv_clone = Inr 7, tv_async = Inr ()\<rparr>"

definition sample_tcp_world :: "tls_writer tunnel_world" where
  "sample_tcp_world = \<lparr>tn_conn = tls_writer_new, tn_state = client_tunnel_new, tn_batch = 0, tn_fds = {0, 1, 2, 5}, tn_idle_task = False,
     tn_stats_task = False, tn_reports = [], tn_stray = 0\<rparr>"

lemma sample_tcp_env_sel [simp]:
  "tv_send sample_tcp_env = TcpReality_write stream_up" "tv_flush sample_tcp_env = TcpReality_flush stream_up" "tv_os sample_tcp_env = Linux"
  "tv_mode sample_tcp_env = TcpReality" "\<not> tv_batching sample_tcp_env" "tv_clone sample_tcp_env = Inr 7" "tv_async sample_tcp_env = Inr ()"
  by (simp_all add: sample_tcp_env_def)

theorem tcp_download_end_to_end_witness:
  "let t = fst (run_tcp_reality_tunnel None [TtPop 0 None, TtPop 0 None, TtIdle None] (Ipv4Addr 10 0 1 2) 0 sample_waiting);
       es' = [TnRead TunAgain, TnRecv (Inr sample_ipv4_60) (\<lambda>_. True), TnHealth Degraded] in
   ct_tun (tn_state (fst (client_run_tunnel sample_tcp_env es' sample_tcp_world))) = take 1 (tt_popped t) \<and> tt_popped t = [sample_ipv4_60]"
proof -
  let ?es = "[TtPop 0 None, TtPop 0 None, TtIdle None]"
  obtain t r where server: "run_tcp_reality_tunnel None ?es (Ipv4Addr 10 0 1 2) 0 sample_waiting = (t, r)" by fastforce
  have t: "tt_popped t = [sample_ipv4_60]" "\<not> tw_needs_flush (tt_writer t)" "tw_wire (tt_writer t) = tcp_frame sample_ipv4_60"
    using server
    by (auto simp: run_tcp_reality_tunnel_def tcp_tunnel_new_def tt_pop_def tt_send_def queue_pop_def PriorityQueue_try_pop_def
        sample_waiting_def PriorityQueue_new_def ClientRouter_new_def tls_writer_new_def buf_write_def buf_flush_def Let_def
        sample_ipv4_60_def tcp_frame_def)
  have pkt: "sample_ipv4_60 \<noteq> []" "length sample_ipv4_60 \<le> MAX_FRAME_SIZE" by (simp_all add: sample_ipv4_60_def MAX_FRAME_SIZE_def)
  let ?es' = "[TnRead TunAgain, TnRecv (Inr sample_ipv4_60) (\<lambda>_. True), TnHealth Degraded]"
  have before: "tunnel_received (before_end ?es') = [sample_ipv4_60]" "device_takes_all (before_end ?es')"
    by (simp_all add: tunnel_received_def before_end_def device_takes_all_def)
  obtain w x where client: "client_run_tunnel sample_tcp_env ?es' sample_tcp_world = (w, x)" by fastforce
  let ?link = "TcpReality_new\<lparr>tls_wire := tw_wire (tt_writer t)\<rparr>"
  obtain buf where "TcpReality_recv ?link = (?link\<lparr>tls_wire := [], pkt_buf := buf\<rparr>, Inr sample_ipv4_60)"
    using tcp_recv_frame [of sample_ipv4_60 ?link "[]"] pkt t(3) by (auto simp: tcp_carries_def)
  then obtain l where "recv_n TcpReality_recv 1 ?link = (l, [Inr sample_ipv4_60])" by simp
  then have "ct_tun (tn_state w) = take 1 (tt_popped t)"
    using tcp_download_end_to_end [OF server _ t(2) _ _ _ _ client before(2), of 7 l] pkt t(1) before(1) by simp
  with server client t(1) show ?thesis by (simp add: Let_def)
qed

section \<open>Uploads\<close>

lemma idle_first_byte:
  assumes "IdlePadder_generate gen fill padder = Some d"
  shows "d \<noteq> [] \<and> version_nibble (d ! 0) = 0"
  using assms by (auto simp: IdlePadder_generate_def Let_def idx_def version_nibble_masked bind_eq_Some_conv split: if_splits)

text \<open>What the server's padded tunnel does with a datagram of an upload and with one of idle padding.\<close>

lemma padded_upload_written:
  assumes "ip_wellformed p" "tb_rate (bucket (limiter (rcv_shaper r))) = 0"
  shows "rcv_tun (dg2tun_step True ip (now, True, QuicCamouflaged_wire pad p) r) = rcv_tun r @ filter (\<lambda>p. validate_source_ip p ip) [p]
    \<and> rcv_shaper (dg2tun_step True ip (now, True, QuicCamouflaged_wire pad p) r) = rcv_shaper r"
proof -
  let ?w = "QuicCamouflaged_wire pad p"
  have ne: "p \<noteq> []" and real: "strip_real_len p = Some (length p)" using assms(1) by (auto simp: ip_wellformed_def)
  have strip: "strip_padding ?w = p"
    using strip_padding_pad [OF assms(1)] ne real
    by (auto simp: QuicCamouflaged_wire_def strip_padding_def slice_def)
  have w: "?w \<noteq> []" "?w ! 0 = p ! 0"
    using ne pad_nonempty [OF ne] nth_pad [of 0 p] by (auto simp: QuicCamouflaged_wire_def)
  have v: "version_nibble (p ! 0) = 4 \<or> version_nibble (p ! 0) = 6"
    using real by (auto simp: strip_real_len_def Let_def split: if_splits)
  show ?thesis using w v assms(2) by (auto simp: dg2tun_step_def Let_def strip accept_upload_def unlimited_check)
qed

definition idle_like :: "bytes \<Rightarrow> bool" where
  "idle_like d \<longleftrightarrow> d \<noteq> [] \<and> version_nibble (d ! 0) = 0"

lemma idle_not_written:
  assumes "idle_like d"
  shows "rcv_tun (dg2tun_step True ip (now, ok, QuicCamouflaged_wire pad d) r) = rcv_tun r
    \<and> rcv_shaper (dg2tun_step True ip (now, ok, QuicCamouflaged_wire pad d) r) = rcv_shaper r"
proof -
  have "QuicCamouflaged_wire pad d ! 0 = d ! 0" "QuicCamouflaged_wire pad d \<noteq> []"
    using assms nth_pad [of 0 d] pad_nonempty [of d] by (auto simp: QuicCamouflaged_wire_def idle_like_def)
  with assms show ?thesis by (simp add: dg2tun_step_def Let_def idle_like_def)
qed

lemma idle_not_wellformed: "idle_like d \<Longrightarrow> \<not> ip_wellformed d"
  by (auto simp: idle_like_def ip_wellformed_def strip_real_len_def Let_def split: if_splits)

lemma padded_run_written:
  assumes "map snd ts = map (\<lambda>p. (True, QuicCamouflaged_wire pad p)) ps"
    and "\<forall>p \<in> set ps. ip_wellformed p \<or> idle_like p" "tb_rate (bucket (limiter (rcv_shaper r))) = 0"
  shows "rcv_tun (dg2tun_run True ip ts r) = rcv_tun r @ filter (\<lambda>p. validate_source_ip p ip) (filter ip_wellformed ps)"
  using assms
proof (induction ps arbitrary: ts r)
  case (Cons p ps)
  then obtain now ts' where ts: "ts = (now, True, QuicCamouflaged_wire pad p) # ts'"
    and rest: "map snd ts' = map (\<lambda>p. (True, QuicCamouflaged_wire pad p)) ps"
    by (auto simp: map_eq_Cons_conv)
  let ?r = "dg2tun_step True ip (now, True, QuicCamouflaged_wire pad p) r"
  have step: "rcv_tun ?r = rcv_tun r @ filter (\<lambda>p. validate_source_ip p ip) (filter ip_wellformed [p])" "rcv_shaper ?r = rcv_shaper r"
    using Cons.prems(2,3) padded_upload_written [of p r ip now pad] idle_not_written [of p ip now True pad r] idle_not_wellformed [of p]
    by auto
  have "rcv_tun (dg2tun_run True ip ts' ?r) = rcv_tun ?r @ filter (\<lambda>p. validate_source_ip p ip) (filter ip_wellformed ps)"
    using Cons.prems(2,3) step(2) by (intro Cons.IH [OF rest]) auto
  with step(1) show ?case by (simp add: ts dg2tun_run_def)
qed (simp add: dg2tun_run_def)

text \<open>The reads of the upload task in a run of the client's tunnel.\<close>

definition tunnel_reads :: "tn_event list \<Rightarrow> tun_read list" where
  "tunnel_reads es = concat (map (\<lambda>e. case e of TnRead rd \<Rightarrow> [rd] | _ \<Rightarrow> []) es)"

lemma tunnel_packets_split:
  assumes "\<forall>p \<in> set (upload_packets os (tunnel_reads es)). ip_wellformed p"
  shows "(\<forall>p \<in> set (concat (map (tunnel_packets True os) es)). ip_wellformed p \<or> idle_like p)
    \<and> filter ip_wellformed (concat (map (tunnel_packets True os) es)) = upload_packets os (tunnel_reads es)"
  using assms
proof (induction es)
  case (Cons e es)
  have idle: "idle_like d" if "IdlePadder_generate g f (IdlePadder_new 500 64 256) = Some d" for g f d
    using idle_first_byte [OF that] by (simp add: idle_like_def)
  show ?case
  proof (cases e)
    case (TnRead rd)
    with Cons show ?thesis by (auto simp: tunnel_reads_def upload_packets_def)
  next
    case (TnIdle g f)
    with Cons idle idle_not_wellformed show ?thesis by (auto simp: tunnel_reads_def upload_packets_def split: option.splits)
  qed (use Cons in \<open>auto simp: tunnel_reads_def upload_packets_def\<close>)
qed (simp add: tunnel_reads_def upload_packets_def)

text \<open>Without idle padding only reads make the tunnel send, and they do not fail.\<close>

lemma tunnel_packets_reads: "concat (map (tunnel_packets False os) es) = upload_packets os (tunnel_reads es)"
proof (induction es)
  case (Cons e es)
  then show ?case by (cases e) (simp_all add: tunnel_reads_def upload_packets_def)
qed (simp add: tunnel_reads_def upload_packets_def)

lemma tunnel_fine_reads:
  assumes "no_read_error (tunnel_reads es)"
  shows "\<forall>e \<in> set es. tunnel_fine False os (\<lambda>p. length p \<le> MAX_FRAME_SIZE) e"
  using assms
proof (induction es)
  case (Cons e es)
  then show ?case
    using sendable_frames [of "tunnel_reads [e]" os] by (cases e) (auto simp: tunnel_reads_def no_read_error_def)
qed simp

text \<open>
  Claim C9. Uploads through the camouflaged transport from device to device: in any run of the client's tunnel,
  however its upload task, idle padding, statistics, receive loop and health monitor interleave, as long as
  the connection takes the datagrams, the server's padded tunnel (with no bandwidth limit and a device that
  takes the writes, at whatever times the datagrams come) writes exactly the packets the client read that
  carry its address, in order and unchanged, and never any idle padding.
\<close>

theorem camouflaged_upload_end_to_end:
  assumes env: "tv_send env = QuicCamouflaged_write pad (\<lambda>_. DgOk)" "tv_flush env = Transport_flush" "tv_mode env = QuicCamouflaged"
    and up: "tv_clone env = Inr dup" "tv_async env = Inr ()"
    and fine: "\<forall>e \<in> set (before_end es). tunnel_fine True (tv_os env) (\<lambda>_. True) e"
    and packets: "\<forall>p \<in> set (upload_packets (tv_os env) (tunnel_reads (before_end es))). ip_wellformed p"
    and run: "client_run_tunnel env es w = (w', x)" and new: "tn_conn w = []"
    and net: "map snd ts = map (\<lambda>d. (True, d)) (tn_conn w')"
    and rate: "tb_rate (bucket (limiter (rcv_shaper r))) = 0"
  shows "rcv_tun (dg2tun_run True ip ts r)
    = rcv_tun r @ filter (\<lambda>p. validate_source_ip p ip) (upload_packets (tv_os env) (tunnel_reads (before_end es)))"
proof -
  let ?ps = "concat (map (tunnel_packets True (tv_os env)) (before_end es))"
  let ?w = "tunnel_spawn env dup (tunnel_begin env w)"
  have "tn_conn w' = tn_conn (fold (tunnel_step env dup) (before_end es) ?w)"
    using run by (auto simp: client_run_tunnel_up [OF up] Let_def split: option.splits)
  also have "\<dots> = map (QuicCamouflaged_wire pad) ?ps"
    using camouflaged_upload.tunnel_fold_sends [of env pad "\<lambda>_. DgOk" "before_end es" ?w dup] env fine new
    by (simp add: tunnel_spawn_def tunnel_begin_def)
  finally have "map snd ts = map (\<lambda>p. (True, QuicCamouflaged_wire pad p)) ?ps" using net by simp
  from padded_run_written [OF this _ rate] tunnel_packets_split [OF packets] show ?thesis by simp
qed

theorem camouflaged_upload_end_to_end_witness:
  "let p = ipv4_packet (Ipv4Addr 10 0 1 2) (Ipv4Addr 8 8 8 8);
       w = fst (client_run_tunnel sample_tunnel_env [TnIdle (\<lambda>lo hi. lo) (\<lambda>n. replicate n 0xFF), TnRead (TunPacket p), TnRead TunAgain,
             TnHealth Degraded] sample_tunnel_world) in
   rcv_tun (dg2tun_run True (Ipv4Addr 10 0 1 2) (map (\<lambda>d. (0, True, d)) (tn_conn w)) sample_receiver) = [p]"
proof -
  let ?p = "ipv4_packet (Ipv4Addr 10 0 1 2) (Ipv4Addr 8 8 8 8)"
  let ?es = "[TnIdle (\<lambda>lo hi. lo) (\<lambda>n. replicate n 0xFF), TnRead (TunPacket ?p), TnRead TunAgain, TnHealth Degraded]"
  obtain w x where run: "client_run_tunnel sample_tunnel_env ?es sample_tunnel_world = (w, x)" by fastforce
  have wf: "ip_wellformed ?p" by (simp add: ip_wellformed_def ipv4_packet_def strip_real_len_def version_nibble_def unat_u16_from_be)
  have short: "tun_buf_read ?p = ?p" "?p \<noteq> []" by (simp_all add: tun_buf_read_def ipv4_packet_def TUN_MTU_def)
  have env: "tv_send sample_tunnel_env = QuicCamouflaged_write True (\<lambda>_. DgOk)" "tv_flush sample_tunnel_env = Transport_flush"
    "tv_mode sample_tunnel_env = QuicCamouflaged" "tv_clone sample_tunnel_env = Inr 7" "tv_async sample_tunnel_env = Inr ()"
    "tv_os sample_tunnel_env = Linux" by (simp_all add: sample_tunnel_env_def)
  have before: "before_end ?es = [TnIdle (\<lambda>lo hi. lo) (\<lambda>n. replicate n 0xFF), TnRead (TunPacket ?p), TnRead TunAgain]"
    by (simp add: before_end_def)
  have ps: "upload_packets Linux (tunnel_reads (before_end ?es)) = [?p]"
    using short by (simp add: before tunnel_reads_def upload_packets_def upload_packet_def TUN_HDR_def)
  have fine: "\<forall>e \<in> set (before_end ?es). tunnel_fine True (tv_os sample_tunnel_env) (\<lambda>_. True) e"
    by (simp add: before sendable_def IdlePadder_generate_def IdlePadder_new_def idx_def)
  have "tb_rate (bucket (limiter (rcv_shaper sample_receiver))) = 0"
    by (simp add: sample_receiver_def AdaptiveShaper_new_def RateLimiter_new_def TokenBucket_new_def Let_def)
  from camouflaged_upload_end_to_end [OF env(1-5) fine _ run _ _ this, of "map (\<lambda>d. (0, True, d)) (tn_conn w)" "Ipv4Addr 10 0 1 2"]
  have "rcv_tun (dg2tun_run True (Ipv4Addr 10 0 1 2) (map (\<lambda>d. (0, True, d)) (tn_conn w)) sample_receiver) = [?p]"
    by (simp add: env ps wf sample_tunnel_world_def ipv4_packet_valid sample_receiver_def)
  then show ?thesis by (simp add: run Let_def)
qed

text \<open>
  Claim C37. Uploads over TCP Reality from device to device: in any run of the client's tunnel, however its
  tasks interleave, as long as reads of the device and writes to the stream succeed, nothing is left in its
  buffer once its last batch is flushed; and in any run of the server's tunnel that has read what arrived, with
  the bytes in pieces of any size, no bandwidth limit and a device that takes the writes, the server has written
  exactly the packets the client read that carry its address, in order and unchanged.
\<close>

theorem tcp_upload_end_to_end:
  assumes env: "tv_send env = TcpReality_write stream_up" "tv_flush env = TcpReality_flush stream_up" "tv_mode env = TcpReality"
    and up: "tv_clone env = Inr dup" "tv_async env = Inr ()"
    and reads: "no_read_error (tunnel_reads (before_end es))"
    and client: "client_run_tunnel env es w = (w', x)" and new: "tn_conn w = tls_writer_new" and flushed: "tn_batch w' = 0"
    and server: "run_tcp_reality_tunnel None ts ip q st = (t, r)" and takes: "list_all tcp_takes ts" and rate: "unlimited st"
    and net: "tt_arrived t = tw_wire (tn_conn w')" and caught_up: "tt_in t = []" "tt_len t = None"
  shows "tw_buf (tn_conn w') = []
     \<and> tt_tun t = filter (\<lambda>p. validate_source_ip p ip) (upload_packets (tv_os env) (tunnel_reads (before_end es)))"
proof -
  let ?ps = "upload_packets (tv_os env) (tunnel_reads (before_end es))"
  let ?w = "tunnel_spawn env dup (tunnel_begin env w)"
  let ?v = "fold (tunnel_step env dup) (before_end es) ?w"
  have fine: "\<forall>e \<in> set (before_end es). tunnel_fine False (tv_os env) (\<lambda>p. length p \<le> MAX_FRAME_SIZE) e"
    by (rule tunnel_fine_reads [OF reads])
  have conn: "tn_conn w' = tn_conn ?v" "tn_batch w' = tn_batch ?v"
    using client by (auto simp: client_run_tunnel_up [OF up] Let_def split: option.splits)
  have start: "tn_conn ?w = tls_writer_new" "ct_upload_alive (tn_state ?w)" "\<not> tn_idle_task ?w" "tn_batch ?w = 0"
    using env(3) new by (simp_all add: tunnel_spawn_def tunnel_begin_def)
  have buf: "tw_buf (tn_conn w') = []"
    using tcp_upload.tunnel_fold_batch [OF env(1,2) fine start(2,3), of dup] start(1) flushed conn by (simp add: tls_writer_new_def)
  have "(\<lambda>p. u16_to_be (len_u16 p) @ p) = tcp_frame" by (simp add: fun_eq_iff tcp_frame_def)
  then have wire: "tw_wire (tn_conn w') = concat (map tcp_frame ?ps)"
    using tcp_upload.tunnel_fold_sends [OF env(1,2) _ start(2), of "before_end es" dup] fine start(1,3) buf conn
    by (simp add: tls_writer_new_def tunnel_packets_reads)
  have "tt_in_invar True ip t" using tcp_tunnel_duplex(1) [OF server, of True True] takes rate by (simp add: list_all_iff)
  with net caught_up wire obtain frames where f: "list_all tcp_carries frames" "concat (map tcp_frame ?ps) = concat (map tcp_frame frames)"
    "tt_tun t = filter (\<lambda>p. validate_source_ip p ip) frames" by (auto simp: tt_in_invar_def tt_pending_def)
  have "list_all tcp_carries ?ps"
    using upload_packet_bounds [of _ "tv_os env" "tunnel_reads (before_end es)"] by (force simp: list_all_iff tcp_carries_def MAX_FRAME_SIZE_def TUN_MTU_def)
  from tcp_inflight_frames [OF this] tcp_inflight_frames [OF f(1)] f(2) have "frames = ?ps" by metis
  with f(3) buf show ?thesis by simp
qed

theorem tcp_upload_end_to_end_witness:
  "let w = fst (client_run_tunnel sample_tcp_env [TnRead (TunPacket upload_sample), TnReport, TnRead TunAgain, TnHealth Degraded] sample_tcp_world);
       bs = tw_wire (tn_conn w);
       t = fst (run_tcp_reality_tunnel None [TtBytes (take 5 bs), TtRead 0 True, TtRead 0 True, TtBytes (drop 5 bs), TtRead 0 True]
             (Ipv4Addr 10 0 1 5) 0 sample_server) in
   tt_tun t = [upload_sample]"
proof -
  let ?es = "[TnRead (TunPacket upload_sample), TnReport, TnRead TunAgain, TnHealth Degraded]"
  obtain w x where client: "client_run_tunnel sample_tcp_env ?es sample_tcp_world = (w, x)" by fastforce
  have p: "tun_buf_read upload_sample = upload_sample" "upload_sample \<noteq> []" "length upload_sample = 20"
    by (simp_all add: tun_buf_read_def upload_sample_def TUN_MTU_def)
  have before: "before_end ?es = [TnRead (TunPacket upload_sample), TnReport, TnRead TunAgain]" by (simp add: before_end_def)
  have ps: "upload_packets Linux (tunnel_reads (before_end ?es)) = [upload_sample]" "no_read_error (tunnel_reads (before_end ?es))"
    using p by (simp_all add: before tunnel_reads_def upload_packets_def upload_packet_def TUN_HDR_def no_read_error_def)
  have w: "tw_wire (tn_conn w) = tcp_frame upload_sample" "tn_batch w = 0"
    using client p
    by (auto simp: client_run_tunnel_up [of sample_tcp_env 7] before tunnel_verdict_def tunnel_spawn_def tunnel_begin_def sample_tcp_world_def
        client_tunnel_new_def upload_read_def upload_flush_def TcpReality_write_def TcpReality_flush_def stream_up_def buf_write_def
        buf_flush_def tls_writer_new_def upload_step_def report_tick_def TUN_HDR_def MAX_FRAME_SIZE_def MAX_TUN_BATCH_def tcp_frame_def Let_def)
  let ?bs = "tcp_frame upload_sample"
  let ?ts = "[TtBytes (take 5 ?bs), TtRead 0 True, TtRead 0 True, TtBytes (drop 5 ?bs), TtRead 0 True]"
  obtain t r where server: "run_tcp_reality_tunnel None ?ts (Ipv4Addr 10 0 1 5) 0 sample_server = (t, r)" by fastforce
  have bs: "?bs = 0 # 20 # upload_sample" using p(3) by (simp add: tcp_frame_def len_u16_def u16_to_be_def)
  have t: "tt_arrived t = ?bs" "tt_in t = []" "tt_len t = None"
    using server p(3)
    by (auto simp: run_tcp_reality_tunnel_def tcp_tunnel_new_def tt_read_def tt_frame_len_def read_exact_def bs unat_u16_from_be
        min_def Let_def split: prod.splits if_splits)
  have "unlimited sample_server"
    by (simp add: unlimited_def sample_server_def AdaptiveShaper_new_def RateLimiter_new_def TokenBucket_new_def Let_def)
  with tcp_upload_end_to_end [OF _ _ _ _ _ _ client _ w(2) server _ _ _ t(2,3), of 7] ps t(1) w(1)
  have "tt_tun t = filter (\<lambda>p. validate_source_ip p (Ipv4Addr 10 0 1 5)) [upload_sample]" by (simp add: sample_tcp_world_def)
  moreover have "validate_source_ip upload_sample (Ipv4Addr 10 0 1 5)"
    by (simp add: upload_sample_def validate_source_ip_def ip_version_def version_nibble_def nth_append)
  ultimately show ?thesis using client server w(1) by (simp add: Let_def)
qed

section \<open>Path MTU\<close>

text \<open>
  Client and server agree on the MTU: what the client's reader applies from the control stream is
  exactly the sequence the server's monitor announced, for any sequence of measured path MTUs, and the MTU
  in force is always within 50 of the last measured one.
\<close>

theorem mtu_end_to_end:
  assumes "ms \<noteq> []"
  shows "read_session_updates (fst (run_pmtu_monitor l (map (\<lambda>m. (m, True)) ms))) = mtu_updates l ms
    \<and> \<bar>int (unat (last ms)) - int (unat (last (l # read_session_updates (fst (run_pmtu_monitor l (map (\<lambda>m. (m, True)) ms))))))\<bar> \<le> 50"
  using mtu_updates_close [OF assms] by (simp add: pmtu_monitor_updates read_session_updates_stream)

theorem mtu_end_to_end_witness:
  "read_session_updates (fst (run_pmtu_monitor 1400 [(1380, True), (1300, True), (1340, True)])) = [1300]"
  using mtu_end_to_end [of "[1380, 1300, 1340]" 1400] by simp

end
